(* ===== verification/VNet_Prelude.thy ===== *)
theory VNet_Prelude
  imports Main "HOL-Library.Word" "HOL-Library.Monad_Syntax" "HOL-Library.Code_Target_Nat"
begin

unbundle bit_operations_syntax

text \<open>
  Shared vocabulary of the go-vnet development: bytes and Go's fixed-width integers, big-endian
  codecs (\<^verbatim>\<open>encoding/binary\<close>), slices of a backing array and \<^verbatim>\<open>copy\<close>, error values, and the
  \<^verbatim>\<open>int64\<close> arithmetic with its wrap-around. A run-time panic of the Go code (an index or a slice
  bound out of range) is the value \<open>None\<close> of an option; an error return is a value of type
  \<open>goerr\<close>.
\<close>

named_theorems buf_simps \<open>reading back what was written into a buffer\<close>
named_theorems codec_simps \<open>encoders and their decoders cancel\<close>

type_synonym byte = "8 word"
type_synonym bytes = "byte list"
type_synonym uint16 = "16 word"
type_synonym uint32 = "32 word"
type_synonym uint64 = "64 word"

section \<open>Error values\<close>

text \<open>
  Go's errors: the two end-of-file errors of package \<^verbatim>\<open>io\<close>, package-level sentinel values
  (compared by identity, one per name), and errors made on the spot by \<^verbatim>\<open>errors.New\<close> or
  \<^verbatim>\<open>fmt.Errorf\<close>, which carry their constant text (formatted operands are not part of it).
\<close>

datatype goerr = EOF | ErrUnexpectedEOF | Sentinel string | ErrorNew string

section \<open>Big-endian codecs\<close>

definition put_be16 :: "uint16 \<Rightarrow> bytes" where
  "put_be16 w = [ucast (drop_bit 8 w), ucast w]"

definition get_be16 :: "bytes \<Rightarrow> uint16" where
  "get_be16 b = push_bit 8 (ucast (b ! 0)) OR ucast (b ! 1)"

definition put_be32 :: "uint32 \<Rightarrow> bytes" where
  "put_be32 w = [ucast (drop_bit 24 w), ucast (drop_bit 16 w), ucast (drop_bit 8 w), ucast w]"

definition get_be32 :: "bytes \<Rightarrow> uint32" where
  "get_be32 b = push_bit 24 (ucast (b ! 0)) OR push_bit 16 (ucast (b ! 1)) OR
                push_bit 8 (ucast (b ! 2)) OR ucast (b ! 3)"

lemma length_put_be16 [simp]: "length (put_be16 w) = 2"
  by (simp add: put_be16_def)

lemma length_put_be32 [simp]: "length (put_be32 w) = 4"
  by (simp add: put_be32_def)

lemma get_put_be16 [simp, codec_simps]: "get_be16 (put_be16 w @ rest) = w"
  unfolding get_be16_def put_be16_def
  by (rule bit_word_eqI) (auto simp: bit_simps)

lemma get_put_be32 [simp, codec_simps]: "get_be32 (put_be32 w @ rest) = w"
proof (rule bit_word_eqI)
  fix n assume "n < LENGTH(32)"
  then consider "n < 8" | "8 \<le> n" "n < 16" | "16 \<le> n" "n < 24" | "24 \<le> n" "n < 32"
    by fastforce
  then show "bit (get_be32 (put_be32 w @ rest)) n = bit w n"
    by cases (auto simp: get_be32_def put_be32_def bit_simps less_diff_conv2)
qed

lemma get_put_be16_nil [simp, codec_simps]: "get_be16 (put_be16 w) = w"
  using get_put_be16 [of w "[]"] by simp

lemma get_put_be32_nil [simp, codec_simps]: "get_be32 (put_be32 w) = w"
  using get_put_be32 [of w "[]"] by simp

lemma put_get_be16: "put_be16 (get_be16 [a, b]) = [a, b]"
proof -
  have "(ucast (drop_bit 8 (get_be16 [a, b])) :: byte) = a"
    unfolding get_be16_def by (rule bit_word_eqI) (auto simp: bit_simps dest: bit_imp_le_length)
  moreover have "(ucast (get_be16 [a, b]) :: byte) = b"
    unfolding get_be16_def by (rule bit_word_eqI) (auto simp: bit_simps)
  ultimately show ?thesis by (simp add: put_be16_def)
qed

lemma put_be16_inject [simp]: "put_be16 a = put_be16 b \<longleftrightarrow> a = b"
  using get_put_be16_nil by metis

lemma put_be32_inject [simp]: "put_be32 a = put_be32 b \<longleftrightarrow> a = b"
  using get_put_be32_nil by metis

lemma unat_of_nat16 [simp]: "n < 65536 \<Longrightarrow> unat (of_nat n :: uint16) = n"
  by (simp add: unat_of_nat take_bit_nat_eq_self)

lemma unat16_less: "unat (n :: uint16) < 65536"
  using unsigned_less [of n] by simp

lemma unat32_less: "unat (n :: uint32) < 4294967296"
  using unsigned_less [of n] by simp

lemma unat_of_nat32 [simp]: "n < 4294967296 \<Longrightarrow> unat (of_nat n :: uint32) = n"
  by (simp add: unat_of_nat take_bit_nat_eq_self)

section \<open>Slices of a backing array\<close>

text \<open>
  \<open>sub off n xs\<close> is the content of the slice \<^verbatim>\<open>xs[off:off+n]\<close>; \<open>blit off bs xs\<close> is the array
  after \<open>bs\<close> was stored from index \<open>off\<close> on. \<^verbatim>\<open>copy(xs[off:], bs)\<close> stores as much of \<open>bs\<close> as fits.
  The source of a \<^verbatim>\<open>copy\<close> is read as a whole before the store, as Go's \<^verbatim>\<open>copy\<close> does for
  overlapping slices.
\<close>

definition sub :: "nat \<Rightarrow> nat \<Rightarrow> 'a list \<Rightarrow> 'a list" where
  "sub off n xs = take n (drop off xs)"

definition blit :: "nat \<Rightarrow> 'a list \<Rightarrow> 'a list \<Rightarrow> 'a list" where
  "blit off bs xs = take off xs @ bs @ drop (off + length bs) xs"

definition copy_to :: "nat \<Rightarrow> 'a list \<Rightarrow> 'a list \<Rightarrow> 'a list" where
  "copy_to off bs xs = blit off (take (length xs - off) bs) xs"

lemma length_sub [simp]: "length (sub off n xs) = min n (length xs - off)"
  by (simp add: sub_def)

lemma length_blit [simp]: "off + length bs \<le> length xs \<Longrightarrow> length (blit off bs xs) = length xs"
  by (simp add: blit_def)

lemma length_copy_to [simp]: "off \<le> length xs \<Longrightarrow> length (copy_to off bs xs) = length xs"
  by (simp add: copy_to_def)

lemma copy_to_fits [buf_simps]: "off + length bs \<le> length xs \<Longrightarrow> copy_to off bs xs = blit off bs xs"
  by (simp add: copy_to_def)

lemma sub_blit_same [buf_simps]:
  "off \<le> length xs \<Longrightarrow> n = length bs \<Longrightarrow> sub off n (blit off bs xs) = bs"
  by (simp add: sub_def blit_def)

lemma sub_blit_before [buf_simps]:
  "o' + n \<le> off \<Longrightarrow> off \<le> length xs \<Longrightarrow> sub o' n (blit off bs xs) = sub o' n xs"
  by (simp add: sub_def blit_def min_absorb1 take_drop)

lemma sub_blit_after [buf_simps]:
  "off + length bs \<le> o' \<Longrightarrow> off \<le> length xs \<Longrightarrow> sub o' n (blit off bs xs) = sub o' n xs"
  by (simp add: sub_def blit_def)

lemma sub_add: "sub off (n + m) xs = sub off n xs @ sub (off + n) m xs"
  by (simp add: sub_def take_add add.commute [of off n])

lemma sub_append_left [buf_simps]: "off + n \<le> length xs \<Longrightarrow> sub off n (xs @ ys) = sub off n xs"
  by (simp add: sub_def)

lemma sub_append_right [buf_simps]: "length xs \<le> off \<Longrightarrow> sub off n (xs @ ys) = sub (off - length xs) n ys"
  by (simp add: sub_def)

lemma sub_0_append [buf_simps]: "n = length xs \<Longrightarrow> sub 0 n (xs @ ys) = xs"
  by (simp add: sub_def)

lemma sub_nil [simp]: "sub off 0 xs = []"
  by (simp add: sub_def)

lemma sub_all [simp]: "n = length xs \<Longrightarrow> sub 0 n xs = xs"
  by (simp add: sub_def)

lemma sub_nth_Cons:
  "i < length xs \<Longrightarrow> sub i (Suc n) xs = xs ! i # sub (Suc i) n xs"
  by (simp add: sub_def Cons_nth_drop_Suc [symmetric])

lemma sub_one: "off < length xs \<Longrightarrow> sub off (Suc 0) xs = [xs ! off]"
  by (simp add: sub_def take_Suc_conv_app_nth)

lemma nth_blit_at [buf_simps]: "off \<le> length xs \<Longrightarrow> i < length bs \<Longrightarrow> blit off bs xs ! (off + i) = bs ! i"
  by (simp add: blit_def nth_append)

lemma nth_blit_before [buf_simps]: "i < off \<Longrightarrow> off \<le> length xs \<Longrightarrow> blit off bs xs ! i = xs ! i"
  by (simp add: blit_def nth_append)

section \<open>int64 arithmetic\<close>

text \<open>
  \<^verbatim>\<open>int64\<close> values are integers; \<open>wrap64\<close> is the two's-complement result of an operation, and
  \<open>quot\<close> is Go's division, which truncates towards zero.
\<close>

definition wrap64 :: "int \<Rightarrow> int" where
  "wrap64 x = (x + 2 ^ 63) mod 2 ^ 64 - 2 ^ 63"

definition quot :: "int \<Rightarrow> int \<Rightarrow> int" where
  "quot a b = sgn a * sgn b * (\<bar>a\<bar> div \<bar>b\<bar>)"

definition in64 :: "int \<Rightarrow> bool" where
  "in64 x \<longleftrightarrow> - (2 ^ 63) \<le> x \<and> x < 2 ^ 63"

lemma wrap64_id [simp]: "in64 x \<Longrightarrow> wrap64 x = x"
  by (simp add: wrap64_def in64_def)

lemma in64_wrap64 [simp]: "in64 (wrap64 x)"
  by (simp add: wrap64_def in64_def)

lemma quot_nonneg: "0 \<le> a \<Longrightarrow> 0 < b \<Longrightarrow> quot a b = a div b"
  by (cases "a = 0") (simp_all add: quot_def)

section \<open>Options as runs that may panic\<close>

lemma bind_Some_iff: "Option.bind m f = Some y \<longleftrightarrow> (\<exists>x. m = Some x \<and> f x = Some y)"
  by (cases m) simp_all

end
