(* ===== verification/Codec.thy ===== *)
theory Codec
  imports VNet_Prelude
begin

text \<open>
  The two transforms a transport may apply to a message: the \<^verbatim>\<open>Encryptor\<close> and \<^verbatim>\<open>Compressor\<close>
  interfaces of \<^verbatim>\<open>src/common/protocol/protocol.go\<close> and their implementations
  \<^verbatim>\<open>Chacha20Poly1305Encryptor\<close> (\<^verbatim>\<open>encryptor.go\<close>) and \<^verbatim>\<open>ZstdCompressor\<close> (\<^verbatim>\<open>compressor.go\<close>).

  A method \<^verbatim>\<open>f(data, buf) (int, error)\<close> is a function of \<open>data\<close> and \<^verbatim>\<open>cap(buf)\<close>; its result is
  an error or the returned count with the bytes it stored from the start of \<open>buf\<close> on. The AEAD
  (\<^verbatim>\<open>golang.org/x/crypto/chacha20poly1305\<close>) and the zstd library are parameters: records \<open>aead\<close> and
  \<open>zstd\<close> of the functions the code calls, with the contracts \<open>aead_ok\<close> and \<open>zstd_ok\<close> as
  hypotheses. The random bytes \<^verbatim>\<open>rand.Read\<close> delivers to one call of \<^verbatim>\<open>Encrypt\<close> are an argument,
  \<open>None\<close> where \<^verbatim>\<open>rand.Read\<close> fails.
\<close>

section \<open>The interfaces\<close>

record compressor =
  Compress :: "bytes \<Rightarrow> nat \<Rightarrow> goerr + nat \<times> bytes"
  Decompress :: "bytes \<Rightarrow> nat \<Rightarrow> goerr + nat \<times> bytes"

record encryptor =
  Encrypt :: "bytes option \<Rightarrow> bytes \<Rightarrow> nat \<Rightarrow> goerr + nat \<times> bytes"
  Decrypt :: "bytes \<Rightarrow> nat \<Rightarrow> goerr + nat \<times> bytes"

section \<open>chacha20-poly1305\<close>

definition Chacha20Poly1305NonceSize :: nat where
  [simp]: "Chacha20Poly1305NonceSize = 24"

definition Chacha20Poly1305KeySize :: nat where
  [simp]: "Chacha20Poly1305KeySize = 32"

definition Chacha20Poly1305Overhead :: nat where
  [simp]: "Chacha20Poly1305Overhead = 16"

definition ErrInvalidCiphertext :: goerr where
  "ErrInvalidCiphertext = Sentinel ''invalid ciphertext: authentication failed''"

text \<open>The AEAD: \<open>Seal nonce plaintext\<close>, \<open>Open nonce ciphertext\<close> and the tag length.\<close>

record aead =
  Seal :: "bytes \<Rightarrow> bytes \<Rightarrow> bytes"
  Open :: "bytes \<Rightarrow> bytes \<Rightarrow> bytes option"
  Overhead :: nat

definition chacha_Encrypt :: "aead \<Rightarrow> bytes option \<Rightarrow> bytes \<Rightarrow> nat \<Rightarrow> goerr + nat \<times> bytes" where
  "chacha_Encrypt a rnd data bufcap =
     (let totalLen = Chacha20Poly1305NonceSize + length data + Overhead a in
      if bufcap < totalLen then Inl (ErrorNew ''buffer capacity too small'')
      else case rnd of
             None \<Rightarrow> Inl (ErrorNew ''rand.Read'')
           | Some nonce \<Rightarrow> Inr (totalLen, nonce @ Seal a nonce data))"

definition chacha_Decrypt :: "aead \<Rightarrow> bytes \<Rightarrow> nat \<Rightarrow> goerr + nat \<times> bytes" where
  "chacha_Decrypt a data bufcap =
     (if length data < Chacha20Poly1305NonceSize then Inl ErrInvalidCiphertext
      else let nonce = take Chacha20Poly1305NonceSize data;
               ciphertext = drop Chacha20Poly1305NonceSize data
           in case Open a nonce ciphertext of
                None \<Rightarrow> Inl ErrInvalidCiphertext
              | Some plaintext \<Rightarrow>
                  if length plaintext \<le> bufcap then Inr (length plaintext, plaintext)
                  else Inl (ErrorNew ''buffer capacity too small''))"

definition Chacha20Poly1305Encryptor :: "aead \<Rightarrow> encryptor" where
  "Chacha20Poly1305Encryptor a = \<lparr>Encrypt = chacha_Encrypt a, Decrypt = chacha_Decrypt a\<rparr>"

text \<open>\<open>newX\<close> stands for \<^verbatim>\<open>chacha20poly1305.NewX\<close>.\<close>

definition NewChacha20Poly1305Encryptor ::
    "(bytes \<Rightarrow> goerr + aead) \<Rightarrow> bytes \<Rightarrow> goerr + encryptor" where
  "NewChacha20Poly1305Encryptor newX key =
     (if length key \<noteq> Chacha20Poly1305KeySize then Inl (ErrorNew ''key must be exactly 32 bytes'')
      else case newX key of
             Inl e \<Rightarrow> Inl e
           | Inr a \<Rightarrow> Inr (Chacha20Poly1305Encryptor a))"

section \<open>zstd\<close>

definition DefaultCompressionLevel :: int where
  [simp]: "DefaultCompressionLevel = 2"

definition FastestCompressionLevel :: int where
  [simp]: "FastestCompressionLevel = 1"

definition BestCompressionLevel :: int where
  [simp]: "BestCompressionLevel = 4"

definition ZstdOverhead :: nat where
  [simp]: "ZstdOverhead = 17"

definition ErrDecompressionFailed :: goerr where
  "ErrDecompressionFailed = Sentinel ''decompression failed''"

text \<open>The zstd library: \<open>EncodeAll\<close> at a given level, \<open>DecodeAll\<close>.\<close>

record zstd =
  EncodeAll :: "int \<Rightarrow> bytes \<Rightarrow> bytes"
  DecodeAll :: "bytes \<Rightarrow> bytes option"

definition zstd_Compress :: "zstd \<Rightarrow> int \<Rightarrow> bytes \<Rightarrow> nat \<Rightarrow> goerr + nat \<times> bytes" where
  "zstd_Compress z level data bufcap =
     (if data = [] then Inr (0, [])
      else if bufcap < length data + ZstdOverhead then Inl (ErrorNew ''buffer capacity too small'')
      else let compressed = EncodeAll z level data in
           if 0 < length compressed then Inr (length compressed, take bufcap compressed)
           else Inl (ErrorNew ''buffer capacity too small''))"

definition zstd_Decompress :: "zstd \<Rightarrow> bytes \<Rightarrow> nat \<Rightarrow> goerr + nat \<times> bytes" where
  "zstd_Decompress z data bufcap =
     (if data = [] then Inl ErrDecompressionFailed
      else case DecodeAll z data of
             None \<Rightarrow> Inl ErrDecompressionFailed
           | Some decompressed \<Rightarrow>
               if 0 < length decompressed \<and> length decompressed \<le> bufcap
               then Inr (length decompressed, decompressed)
               else Inl (ErrorNew ''buffer capacity too small for decompressed data''))"

definition ZstdCompressor :: "zstd \<Rightarrow> int \<Rightarrow> compressor" where
  "ZstdCompressor z level = \<lparr>Compress = zstd_Compress z level, Decompress = zstd_Decompress z\<rparr>"

definition NewZstdCompressor :: "zstd \<Rightarrow> int \<Rightarrow> goerr + compressor" where
  "NewZstdCompressor z level =
     (if level < FastestCompressionLevel \<or> level > BestCompressionLevel
      then Inl (ErrorNew ''compression level must be between 1 and 19'')
      else Inr (ZstdCompressor z level))"

definition NewDefaultZstdCompressor :: "zstd \<Rightarrow> goerr + compressor" where
  "NewDefaultZstdCompressor z = NewZstdCompressor z DefaultCompressionLevel"

section \<open>Contracts\<close>

text \<open>
  What the code relies on of the two libraries. \<open>aead_ok\<close>: the tag has 16 bytes, sealing adds
  exactly the tag and opening a sealed text under the same nonce returns the plaintext.
  \<open>zstd_ok\<close>: a non-empty input compresses to a non-empty frame that decodes to the input.
\<close>

definition aead_ok :: "aead \<Rightarrow> bool" where
  "aead_ok a \<longleftrightarrow> Overhead a = 16 \<and>
     (\<forall>nonce p. length (Seal a nonce p) = length p + 16 \<and> Open a nonce (Seal a nonce p) = Some p)"

definition zstd_ok :: "zstd \<Rightarrow> bool" where
  "zstd_ok z \<longleftrightarrow> (\<forall>level d. d \<noteq> [] \<longrightarrow> EncodeAll z level d \<noteq> [] \<and> DecodeAll z (EncodeAll z level d) = Some d)"

text \<open>
  The contract of an encryptor towards the transport: with enough capacity and 24 random bytes it
  succeeds, the ciphertext is exactly 40 bytes longer than the plaintext, and decrypting it with
  room for the plaintext returns the plaintext. A compressor that succeeds wrote what it counted
  (as far as it fits, and a result shorter than the data fits), and decompressing it returns the
  data.
\<close>

definition encryptor_ok :: "encryptor \<Rightarrow> bool" where
  "encryptor_ok e \<longleftrightarrow>
     (\<forall>rnd d c. length rnd = 24 \<and> length d + 40 \<le> c \<longrightarrow>
        (\<exists>w. Encrypt e (Some rnd) d c = Inr (length w, w) \<and> length w = length d + 40 \<and>
             (\<forall>c'. length d \<le> c' \<longrightarrow> Decrypt e w c' = Inr (length d, d))))"

definition compressor_ok :: "compressor \<Rightarrow> bool" where
  "compressor_ok cp \<longleftrightarrow>
     (\<forall>d c n w. d \<noteq> [] \<longrightarrow> Compress cp d c = Inr (n, w) \<longrightarrow>
        (n < length d \<longrightarrow> n \<le> c) \<and>
        (\<exists>full. n = length full \<and> w = take c full \<and>
           (\<forall>c'. length d \<le> c' \<longrightarrow> Decompress cp full c' = Inr (length d, d))))"

lemma encryptor_okE:
  assumes "encryptor_ok e" "length rnd = 24" "length d + 40 \<le> c"
  obtains w where "Encrypt e (Some rnd) d c = Inr (length w, w)" "length w = length d + 40"
    "\<And>c'. length d \<le> c' \<Longrightarrow> Decrypt e w c' = Inr (length d, d)"
  using assms unfolding encryptor_ok_def by blast

lemma encryptor_okD:
  assumes "encryptor_ok e" "length rnd = 24" "length d + 40 \<le> c"
    and "Encrypt e (Some rnd) d c = Inr (n, w)"
  shows "n = length w" "length w = length d + 40" "length d \<le> c' \<Longrightarrow> Decrypt e w c' = Inr (length d, d)"
  using assms by (auto elim: encryptor_okE [of e rnd d c])

lemma compressor_okE:
  assumes "compressor_ok cp" "d \<noteq> []" "Compress cp d c = Inr (n, w)"
  obtains full where "n < length d \<Longrightarrow> n \<le> c" "n = length full" "w = take c full"
    "\<And>c'. length d \<le> c' \<Longrightarrow> Decompress cp full c' = Inr (length d, d)"
  using assms unfolding compressor_ok_def by blast

text \<open>Both implementations meet the transport's contract whenever their library meets its own.\<close>

lemma chacha_encryptor_ok: "aead_ok a \<Longrightarrow> encryptor_ok (Chacha20Poly1305Encryptor a)"
  unfolding encryptor_ok_def
proof (intro allI impI)
  fix rnd d :: bytes and c :: nat
  assume a: "aead_ok a" and h: "length rnd = 24 \<and> length d + 40 \<le> c"
  let ?w = "rnd @ Seal a rnd d"
  have "Encrypt (Chacha20Poly1305Encryptor a) (Some rnd) d c = Inr (length ?w, ?w)"
    using a h by (simp add: Chacha20Poly1305Encryptor_def chacha_Encrypt_def aead_ok_def)
  moreover have "length ?w = length d + 40"
    using a h by (simp add: aead_ok_def)
  moreover have "Decrypt (Chacha20Poly1305Encryptor a) ?w c' = Inr (length d, d)"
    if "length d \<le> c'" for c'
    using a h that by (simp add: Chacha20Poly1305Encryptor_def chacha_Decrypt_def aead_ok_def)
  ultimately show "\<exists>w. Encrypt (Chacha20Poly1305Encryptor a) (Some rnd) d c = Inr (length w, w) \<and>
      length w = length d + 40 \<and>
      (\<forall>c'. length d \<le> c' \<longrightarrow> Decrypt (Chacha20Poly1305Encryptor a) w c' = Inr (length d, d))"
    by blast
qed

lemma zstd_compressor_ok: "zstd_ok z \<Longrightarrow> compressor_ok (ZstdCompressor z level)"
  unfolding compressor_ok_def
proof (intro allI impI)
  fix d c n w
  assume z: "zstd_ok z" and d: "(d :: bytes) \<noteq> []"
    and c: "Compress (ZstdCompressor z level) d c = Inr (n, w)"
  let ?full = "EncodeAll z level d"
  from c d have "n < length d \<longrightarrow> n \<le> c" "n = length ?full" "w = take c ?full"
    by (auto simp: ZstdCompressor_def zstd_Compress_def Let_def split: if_splits)
  moreover have "Decompress (ZstdCompressor z level) ?full c' = Inr (length d, d)"
    if "length d \<le> c'" for c'
    using z d that by (simp add: ZstdCompressor_def zstd_Decompress_def zstd_ok_def)
  ultimately show "(n < length d \<longrightarrow> n \<le> c) \<and> (\<exists>full. n = length full \<and> w = take c full \<and>
      (\<forall>c'. length d \<le> c' \<longrightarrow> Decompress (ZstdCompressor z level) full c' = Inr (length d, d)))"
    by blast
qed

text \<open>A zstd compressor refuses every target that cannot take the worst case.\<close>

lemma zstd_Compress_small_target:
  "d \<noteq> [] \<Longrightarrow> c < length d + ZstdOverhead \<Longrightarrow>
   Compress (ZstdCompressor z level) d c = Inl (ErrorNew ''buffer capacity too small'')"
  by (simp add: ZstdCompressor_def zstd_Compress_def)

end
