(* ===== verification/Transport.thy ===== *)
theory Transport
  imports Codec
begin

text \<open>
  The framed transport of \<^verbatim>\<open>src/common/protocol/protocol.go\<close>. A frame is
  \<^verbatim>\<open>| magic 4 | type 1 | length 2 | data |\<close>; a message may be compressed and then encrypted, each
  layer carrying the type and length of the layer inside it; a batch message carries many packets.

  A \<open>transport\<close> owns two arrays of 65535 bytes, \<open>buffer\<close> and \<open>cryptoBuffer\<close>, which every
  operation reuses for input, output and scratch. The model keeps both arrays and the slices into
  them (\<open>dslice\<close>), so that an operation that overwrote data it still needs would show. Slice
  expressions keep their run-time checks: out of bounds is \<open>None\<close>.
\<close>

section \<open>Constants and errors\<close>

definition MaxTransportByteSize :: nat where
  [simp]: "MaxTransportByteSize = 65535"

definition MaxTransportBatchSize :: nat where
  [simp]: "MaxTransportBatchSize = 128"

definition DefaultCompressThreshold :: int where
  [simp]: "DefaultCompressThreshold = 1024 * 10"

definition TypeTransport :: byte where
  "TypeTransport = 0x0"

definition TypeBatchTransport :: byte where
  "TypeBatchTransport = 0x1"

definition TypeCompress :: byte where
  "TypeCompress = 0x10"

definition TypeEncrypted :: byte where
  "TypeEncrypted = 0x11"

lemmas type_defs = TypeTransport_def TypeBatchTransport_def TypeCompress_def TypeEncrypted_def

lemma types_distinct [simp]:
  "TypeTransport \<noteq> TypeCompress" "TypeTransport \<noteq> TypeEncrypted" "TypeTransport \<noteq> TypeBatchTransport"
  "TypeBatchTransport \<noteq> TypeCompress" "TypeBatchTransport \<noteq> TypeEncrypted"
  "TypeCompress \<noteq> TypeEncrypted" "TypeCompress \<noteq> TypeTransport" "TypeCompress \<noteq> TypeBatchTransport"
  "TypeEncrypted \<noteq> TypeTransport" "TypeEncrypted \<noteq> TypeBatchTransport" "TypeEncrypted \<noteq> TypeCompress"
  "TypeBatchTransport \<noteq> TypeTransport"
  by (simp_all add: type_defs)

definition transportMagicBytes :: bytes where
  "transportMagicBytes = [0x56, 0x4E, 0x45, 0x54]"

definition ErrInvalidMagic :: goerr where
  "ErrInvalidMagic = Sentinel ''invalid magic number''"

definition ErrMessageTooLarge :: goerr where
  "ErrMessageTooLarge = Sentinel ''message too large''"

definition ErrMissingCompressor :: goerr where
  "ErrMissingCompressor = Sentinel ''compressor not configured''"

definition ErrMissingEncryptor :: goerr where
  "ErrMissingEncryptor = Sentinel ''encryptor not configured''"

section \<open>The upstream connection\<close>

text \<open>
  The \<^verbatim>\<open>io.ReadWriteCloser\<close> below a transport: the bytes still to be read, the error a read
  reports once they are used up, the bytes written so far, and, for a failing connection, how many
  bytes of the next write still go out and the error it reports.
\<close>

record upstream =
  inb :: bytes
  rfault :: goerr
  outb :: bytes
  wfault :: "(nat \<times> goerr) option"
  up_closed :: bool

text \<open>\<^verbatim>\<open>io.ReadFull\<close>: the bytes stored and the error, if fewer than \<open>n\<close> bytes came.\<close>

definition ReadFull :: "upstream \<Rightarrow> nat \<Rightarrow> upstream \<times> bytes \<times> goerr option" where
  "ReadFull u n =
     (if n \<le> length (inb u) then (u\<lparr>inb := drop n (inb u)\<rparr>, take n (inb u), None)
      else (u\<lparr>inb := []\<rparr>, inb u,
            Some (if inb u \<noteq> [] \<and> rfault u = EOF then ErrUnexpectedEOF else rfault u)))"

definition up_Write :: "upstream \<Rightarrow> bytes \<Rightarrow> upstream \<times> goerr option" where
  "up_Write u bs =
     (case wfault u of
        None \<Rightarrow> (u\<lparr>outb := outb u @ bs\<rparr>, None)
      | Some (k, e) \<Rightarrow> (u\<lparr>outb := outb u @ take k bs\<rparr>, Some e))"

section \<open>State\<close>

record transport_options =
  magic :: bytes
  ttyp :: string
  encrypt :: bool
  compress :: bool
  compressor :: "compressor option"
  encryptor :: "encryptor option"
  compressThreshold :: int

record transport = transport_options +
  upstream :: upstream
  buffer :: bytes
  cryptoBuffer :: bytes

type_synonym transport_opt = "transport_options \<Rightarrow> transport_options"

definition defaultTransportOptions :: transport_options where
  "defaultTransportOptions =
     \<lparr>magic = transportMagicBytes, ttyp = '''', encrypt = True, compress = False,
      compressor = None, encryptor = None, compressThreshold = DefaultCompressThreshold\<rparr>"

definition WithMagic :: "bytes \<Rightarrow> transport_opt" where
  "WithMagic m opts = opts\<lparr>magic := m\<rparr>"

definition WithType :: "string \<Rightarrow> transport_opt" where
  "WithType ty opts = opts\<lparr>ttyp := ty\<rparr>"

definition EnableCompress :: "bool \<Rightarrow> transport_opt" where
  "EnableCompress c opts = opts\<lparr>compress := c\<rparr>"

definition WithCompressor :: "compressor \<Rightarrow> transport_opt" where
  "WithCompressor c opts = opts\<lparr>compressor := Some c\<rparr>"

definition EnableEncrypt :: "bool \<Rightarrow> transport_opt" where
  "EnableEncrypt e opts = opts\<lparr>encrypt := e\<rparr>"

definition WithEncryptor :: "encryptor \<Rightarrow> transport_opt" where
  "WithEncryptor e opts = opts\<lparr>encryptor := Some e\<rparr>"

definition WithCompressThreshold :: "int \<Rightarrow> transport_opt" where
  "WithCompressThreshold n opts = opts\<lparr>compressThreshold := n\<rparr>"

lemmas transport_opt_defs = WithMagic_def WithType_def EnableCompress_def WithCompressor_def
  EnableEncrypt_def WithEncryptor_def WithCompressThreshold_def

definition NewTransport :: "upstream \<Rightarrow> transport_opt list \<Rightarrow> transport" where
  "NewTransport up opts =
     transport_options.extend (fold (\<lambda>opt o'. opt o') opts defaultTransportOptions)
       \<lparr>upstream = up, buffer = replicate MaxTransportByteSize 0,
        cryptoBuffer = replicate MaxTransportByteSize 0\<rparr>"

section \<open>Buffers and slices\<close>

definition set_buf :: "nat \<Rightarrow> bytes \<Rightarrow> transport \<Rightarrow> transport" where
  "set_buf off bs t = t\<lparr>buffer := copy_to off bs (buffer t)\<rparr>"

definition set_cry :: "nat \<Rightarrow> bytes \<Rightarrow> transport \<Rightarrow> transport" where
  "set_cry off bs t = t\<lparr>cryptoBuffer := copy_to off bs (cryptoBuffer t)\<rparr>"

text \<open>
  A \<^verbatim>\<open>[]byte\<close> value in a write operation: memory of its own (\<open>DExt\<close>: the caller's data or a fresh
  \<^verbatim>\<open>make\<close>), or a part of one of the two arrays, by offset and length.
\<close>

datatype dslice = DExt bytes | DBuf nat nat | DCry nat nat

fun slice_bytes :: "transport \<Rightarrow> dslice \<Rightarrow> bytes" where
  "slice_bytes t (DExt d) = d"
| "slice_bytes t (DBuf off n) = sub off n (buffer t)"
| "slice_bytes t (DCry off n) = sub off n (cryptoBuffer t)"

fun slice_len :: "dslice \<Rightarrow> nat" where
  "slice_len (DExt d) = length d"
| "slice_len (DBuf off n) = n"
| "slice_len (DCry off n) = n"

text \<open>\<^verbatim>\<open>len(d) > 0 && &d[0] == &(*t.cryptoBuffer)[0]\<close>\<close>

fun at_cry_start :: "dslice \<Rightarrow> bool" where
  "at_cry_start (DCry off n) = (0 < n \<and> off = 0)"
| "at_cry_start _ = False"

text \<open>\<^verbatim>\<open>(*t.buffer)[lo:hi]\<close> is in range.\<close>

definition in_range :: "nat \<Rightarrow> nat \<Rightarrow> bool" where
  [simp]: "in_range lo hi \<longleftrightarrow> lo \<le> hi \<and> hi \<le> MaxTransportByteSize"

section \<open>Writing one message\<close>

type_synonym wresult = "(transport \<times> nat \<times> goerr option) option"

definition send_buf :: "transport \<Rightarrow> nat \<Rightarrow> wresult" where
  "send_buf t n =
     (if in_range 0 n
      then case up_Write (upstream t) (sub 0 n (buffer t)) of
             (u, err) \<Rightarrow> Some (t\<lparr>upstream := u\<rparr>, n, err)
      else None)"

definition writeRawMessage :: "transport \<Rightarrow> byte \<Rightarrow> dslice \<Rightarrow> wresult" where
  "writeRawMessage t ty data =
     (let length = slice_len data in
      if length > 65530 then Some (t, 0, Some ErrMessageTooLarge)
      else let t1 = set_buf 5 (put_be16 (of_nat length)) (set_buf 4 [ty] (set_buf 0 (magic t) t)) in
           if \<not> in_range 7 (7 + length) then None
           else send_buf (set_buf 7 (slice_bytes t1 data) t1) (7 + length))"

definition writeEncryptedMessage :: "transport \<Rightarrow> nat \<Rightarrow> nat \<Rightarrow> wresult" where
  \<comment> \<open>\<open>off\<close>: where \<^verbatim>\<open>encryptedBuf\<close> starts in \<^verbatim>\<open>cryptoBuffer\<close>; its capacity reaches to the end\<close>
  "writeEncryptedMessage t off encryptedLen =
     (let t1 = set_buf 5 (put_be16 (of_nat encryptedLen))
                 (set_buf 4 [TypeEncrypted] (set_buf 0 (magic t) t)) in
      if \<not> in_range off (off + encryptedLen) then None
      else send_buf (set_buf 7 (sub off encryptedLen (cryptoBuffer t1)) t1) (7 + encryptedLen))"

text \<open>
  The end of a compression step, with the result of \<^verbatim>\<open>Compress\<close> into \<open>cryptoBuffer\<close> from \<open>off\<close> on: the
  compressed form is used only if it is smaller than the \<open>dataLen\<close> bytes of the original \<open>sl\<close>.
\<close>

definition keep_smaller ::
    "transport \<Rightarrow> byte \<Rightarrow> dslice \<Rightarrow> nat \<Rightarrow> nat \<Rightarrow> goerr + nat \<times> bytes \<Rightarrow>
     (transport \<times> (goerr + byte \<times> dslice)) option" where
  "keep_smaller t ty sl dataLen off res =
     (case res of
        Inl e \<Rightarrow> Some (t, Inl e)
      | Inr (compressedLen, w) \<Rightarrow>
          let t2 = set_cry off w t in
          if compressedLen < dataLen then
            if \<not> in_range off (off + compressedLen) then None
            else Some (t2, Inr (TypeCompress, DCry off compressedLen))
          else Some (t2, Inr (ty, sl)))"

text \<open>
  The compression step of \<^verbatim>\<open>WriteMessage\<close>: the state, and an error or the type and data the next
  step works on.
\<close>

definition compress_message ::
    "transport \<Rightarrow> byte \<Rightarrow> bytes \<Rightarrow> (transport \<times> (goerr + byte \<times> dslice)) option" where
  "compress_message t ty data =
     (case compressor t of
        None \<Rightarrow> Some (t, Inr (ty, DExt data))
      | Some c \<Rightarrow>
        if \<not> (compress t \<and> (ty = TypeTransport \<or> ty = TypeBatchTransport))
        then Some (t, Inr (ty, DExt data))
        else if \<not> int (length data) \<ge> compressThreshold t then Some (t, Inr (ty, DExt data))
        else let headerLen = 3 + length data; N = MaxTransportByteSize in
          if headerLen + 1000 < N \<and> headerLen + 17 \<le> N - headerLen then
            let t1 = set_cry 3 data (set_cry 1 (put_be16 (of_nat (length data))) (set_cry 0 [ty] t)) in
            keep_smaller t1 ty (DExt data) (length data) headerLen
              (Compress c (sub 0 headerLen (cryptoBuffer t1)) (N - headerLen))
          else
            let tempMsg = [ty] @ put_be16 (of_nat (length data)) @ data in
            keep_smaller t ty (DExt data) (length data) 7 (Compress c tempMsg (N - 7)))"

text \<open>
  \<^verbatim>\<open>Encrypt(src, cryptoBuffer[off:...])\<close> followed by \<^verbatim>\<open>writeRawMessage\<close> of the ciphertext.
\<close>

definition encrypt_and_write ::
    "transport \<Rightarrow> encryptor \<Rightarrow> bytes option \<Rightarrow> bytes \<Rightarrow> nat \<Rightarrow> wresult" where
  "encrypt_and_write t e rnd src off =
     (case Encrypt e rnd src (MaxTransportByteSize - off) of
        Inl err \<Rightarrow> Some (t, 0, Some err)
      | Inr (encryptedLen, w) \<Rightarrow>
          let t1 = set_cry off w t in
          if \<not> in_range off (off + encryptedLen) then None
          else writeRawMessage t1 TypeEncrypted (DCry off encryptedLen))"

definition encrypt_message ::
    "transport \<Rightarrow> encryptor \<Rightarrow> bytes option \<Rightarrow> byte \<Rightarrow> dslice \<Rightarrow> wresult" where
  "encrypt_message t e rnd currentTyp currentData =
     (let innerLen = slice_len currentData;
          innerMsgLen = 3 + innerLen;
          encryptedMsgLen = innerMsgLen + Chacha20Poly1305NonceSize + Chacha20Poly1305Overhead in
      if encryptedMsgLen > 65530 then Some (t, 0, Some ErrMessageTooLarge)
      else if at_cry_start currentData then
        let tempMsg = [currentTyp] @ put_be16 (of_nat innerLen) @ slice_bytes t currentData in
        encrypt_and_write t e rnd tempMsg 0
      else if innerMsgLen + encryptedMsgLen \<le> MaxTransportByteSize then
        let t1 = set_cry 1 (put_be16 (of_nat innerLen)) (set_cry 0 [currentTyp] t);
            t2 = set_cry 3 (slice_bytes t1 currentData) t1 in
        encrypt_and_write t2 e rnd (sub 0 innerMsgLen (cryptoBuffer t2)) innerMsgLen
      else
        let tempMsg = [currentTyp] @ put_be16 (of_nat innerLen) @ slice_bytes t currentData in
        encrypt_and_write t e rnd tempMsg 0)"

definition WriteMessage :: "transport \<Rightarrow> bytes option \<Rightarrow> byte \<Rightarrow> bytes \<Rightarrow> wresult" where
  "WriteMessage t rnd ty data =
     (case compress_message t ty data of
        None \<Rightarrow> None
      | Some (t1, Inl e) \<Rightarrow> Some (t1, 0, Some e)
      | Some (t1, Inr (currentTyp, currentData)) \<Rightarrow>
          (case encryptor t1 of
             Some e \<Rightarrow>
               if encrypt t1 \<and>
                  (ty = TypeTransport \<or> ty = TypeBatchTransport \<or> currentTyp = TypeCompress)
               then encrypt_message t1 e rnd currentTyp currentData
               else writeRawMessage t1 currentTyp currentData
           | None \<Rightarrow> writeRawMessage t1 currentTyp currentData))"

definition Write :: "transport \<Rightarrow> bytes option \<Rightarrow> bytes \<Rightarrow> wresult" where
  "Write t rnd p = WriteMessage t rnd TypeTransport p"

section \<open>Writing a batch\<close>

fun put_sizes :: "transport \<Rightarrow> nat \<Rightarrow> nat list \<Rightarrow> (transport \<times> nat) option" where
  "put_sizes t offset [] = Some (t, offset)"
| "put_sizes t offset (s # ss) =
     (if \<not> in_range offset (offset + 2) then None
      else put_sizes (set_buf offset (put_be16 (of_nat s)) t) (offset + 2) ss)"

fun put_packets :: "transport \<Rightarrow> nat \<Rightarrow> bytes list \<Rightarrow> nat list \<Rightarrow> nat \<Rightarrow> (transport \<times> nat) option" where
  "put_packets t offset [] sizes headerSize = Some (t, offset)"
| "put_packets t offset (b # bs) [] headerSize = None"
| "put_packets t offset (b # bs) (s # ss) headerSize =
     (if \<not> in_range offset MaxTransportByteSize \<or> length b < headerSize + s then None
      else put_packets (set_buf offset (sub headerSize s b) t) (offset + s) bs ss headerSize)"

definition compress_batch :: "transport \<Rightarrow> nat \<Rightarrow> (transport \<times> (goerr + byte \<times> dslice)) option" where
  "compress_batch t dataLen =
     (let finalData = DBuf 7 dataLen in
      case compressor t of
        None \<Rightarrow> Some (t, Inr (TypeBatchTransport, finalData))
      | Some c \<Rightarrow>
        if \<not> compress t \<or> \<not> int dataLen \<ge> compressThreshold t
        then Some (t, Inr (TypeBatchTransport, finalData))
        else let headerLen = 3 + dataLen; N = MaxTransportByteSize in
          if headerLen + 1000 < N \<and> headerLen + 17 \<le> N - headerLen then
            let t1 = set_cry 3 (slice_bytes t finalData)
                       (set_cry 1 (put_be16 (of_nat dataLen)) (set_cry 0 [TypeBatchTransport] t)) in
            keep_smaller t1 TypeBatchTransport finalData dataLen headerLen
              (Compress c (sub 0 headerLen (cryptoBuffer t1)) (N - headerLen))
          else if headerLen > N - 7 then Some (t, Inl ErrMessageTooLarge)
          else
            let t1 = set_cry 10 (slice_bytes t finalData)
                       (set_cry 8 (put_be16 (of_nat dataLen)) (set_cry 7 [TypeBatchTransport] t)) in
            keep_smaller t1 TypeBatchTransport finalData dataLen (7 + headerLen)
              (Compress c (sub 7 headerLen (cryptoBuffer t1)) (N - (7 + headerLen))))"

definition write_plain_batch :: "transport \<Rightarrow> byte \<Rightarrow> dslice \<Rightarrow> wresult" where
  "write_plain_batch t finalType finalData =
     (let finalDataLen = slice_len finalData;
          t1 = set_buf 5 (put_be16 (of_nat finalDataLen)) (set_buf 4 [finalType] (set_buf 0 (magic t) t));
          t2 = set_buf 7 (slice_bytes t1 finalData) t1 in
      send_buf t2 (7 + finalDataLen))"

text \<open>\<^verbatim>\<open>Encrypt(src, cryptoBuffer[off:...])\<close> followed by \<^verbatim>\<open>writeEncryptedMessage\<close>.\<close>

definition encrypt_and_send ::
    "transport \<Rightarrow> encryptor \<Rightarrow> bytes option \<Rightarrow> bytes \<Rightarrow> nat \<Rightarrow> wresult" where
  "encrypt_and_send t e rnd src off =
     (case Encrypt e rnd src (MaxTransportByteSize - off) of
        Inl err \<Rightarrow> Some (t, 0, Some err)
      | Inr (encryptedLen, w) \<Rightarrow> writeEncryptedMessage (set_cry off w t) off encryptedLen)"

definition encrypt_batch ::
    "transport \<Rightarrow> encryptor \<Rightarrow> bytes option \<Rightarrow> byte \<Rightarrow> dslice \<Rightarrow> wresult" where
  "encrypt_batch t e rnd finalType finalData =
     (let finalDataLen = slice_len finalData;
          innerMsgLen = 3 + finalDataLen;
          encryptedMsgLen = innerMsgLen + Chacha20Poly1305NonceSize + Chacha20Poly1305Overhead in
      if encryptedMsgLen > MaxTransportByteSize - 7 then Some (t, 0, Some ErrMessageTooLarge)
      else if at_cry_start finalData then write_plain_batch t finalType finalData
      else if innerMsgLen + encryptedMsgLen \<le> MaxTransportByteSize then
        let t1 = set_cry 1 (put_be16 (of_nat finalDataLen)) (set_cry 0 [finalType] t);
            t2 = set_cry 3 (slice_bytes t1 finalData) t1 in
        encrypt_and_send t2 e rnd (sub 0 innerMsgLen (cryptoBuffer t2)) innerMsgLen
      else
        let t1 = set_buf 1 (put_be16 (of_nat finalDataLen)) (set_buf 0 [finalType] t);
            t2 = set_buf 3 (take finalDataLen (slice_bytes t1 finalData)) t1 in
        encrypt_and_send t2 e rnd (sub 0 innerMsgLen (buffer t2)) 0)"

text \<open>The encryption step of \<^verbatim>\<open>batchWrite\<close>, or the unencrypted write.\<close>

definition finish_batch :: "transport \<Rightarrow> bytes option \<Rightarrow> byte \<Rightarrow> dslice \<Rightarrow> wresult" where
  "finish_batch t rnd finalType finalData =
     (case encryptor t of
        Some e \<Rightarrow> if encrypt t then encrypt_batch t e rnd finalType finalData
                  else write_plain_batch t finalType finalData
      | None \<Rightarrow> write_plain_batch t finalType finalData)"

definition batchWrite :: "transport \<Rightarrow> bytes option \<Rightarrow> bytes list \<Rightarrow> nat list \<Rightarrow> nat \<Rightarrow> wresult" where
  "batchWrite t rnd buf sizes headerSize =
     (let dataLen = 2 + 2 * length sizes + sum_list sizes in
      if dataLen > 65530 then Some (t, 0, Some ErrMessageTooLarge)
      else let t1 = set_buf 7 (put_be16 (of_nat (length sizes)))
                      (set_buf 5 (put_be16 (of_nat dataLen))
                        (set_buf 4 [TypeBatchTransport] (set_buf 0 (magic t) t))) in
        case put_sizes t1 9 sizes of
          None \<Rightarrow> None
        | Some (t2, offset) \<Rightarrow>
            (case put_packets t2 offset buf sizes headerSize of
               None \<Rightarrow> None
             | Some (t3, _) \<Rightarrow>
                 if \<not> in_range 7 (7 + dataLen) then None
                 else case compress_batch t3 dataLen of
                   None \<Rightarrow> None
                 | Some (t4, Inl e) \<Rightarrow> Some (t4, 0, Some e)
                 | Some (t4, Inr (finalType, finalData)) \<Rightarrow>
                     finish_batch t4 rnd finalType finalData))"

text \<open>
  The inner loop of \<^verbatim>\<open>BatchWrite\<close>: the end of the next batch. \<open>None\<close>: \<^verbatim>\<open>sizes[end]\<close> out of range.
\<close>

function collect :: "nat list \<Rightarrow> nat \<Rightarrow> nat \<Rightarrow> nat \<Rightarrow> nat \<Rightarrow> nat option" where
  "collect sizes len start end' remaining =
     (if end' < len then
        if length sizes \<le> end' then None
        else if 2 + sizes ! end' \<le> remaining \<and> end' - start < MaxTransportBatchSize
        then collect sizes len start (end' + 1) (remaining - (2 + sizes ! end'))
        else Some end'
      else Some end')"
  by pat_completeness auto
termination
  by (relation "measure (\<lambda>(sizes, len, start, end', remaining). len - end')") auto

declare collect.simps [simp del]

definition baseOverhead :: "transport \<Rightarrow> nat" where
  "baseOverhead t = 7 + 2 + (if encrypt t \<and> encryptor t \<noteq> None then Chacha20Poly1305Overhead else 0)"

lemma collect_mono: "collect sizes len start e r = Some e' \<Longrightarrow> e \<le> e'"
  by (induction sizes len start e r rule: collect.induct)
     (subst (asm) (2) collect.simps, fastforce split: if_splits)

text \<open>
  The outer loop of \<^verbatim>\<open>BatchWrite\<close>, from batch number \<open>i\<close> on; \<open>rnds i\<close> are the random bytes of the
  \<open>i\<close>-th batch. \<open>nn\<close> is the count of the last batch, \<open>n\<close> the sum.
\<close>

function BatchWrite_loop ::
    "transport \<Rightarrow> (nat \<Rightarrow> bytes option) \<Rightarrow> bytes list \<Rightarrow> nat list \<Rightarrow> nat \<Rightarrow>
     nat \<Rightarrow> nat \<Rightarrow> nat \<Rightarrow> nat \<Rightarrow> wresult" where
  "BatchWrite_loop t rnds buf sizes headerSize i start nn n =
     (if start < length buf then
        case collect sizes (length buf) start start (MaxTransportByteSize - baseOverhead t) of
          None \<Rightarrow> None
        | Some end' \<Rightarrow>
            if end' = start then Some (t, nn, Some ErrMessageTooLarge)
            else (case batchWrite t (rnds i) (sub start (end' - start) buf)
                         (sub start (end' - start) sizes) headerSize of
                    None \<Rightarrow> None
                  | Some (t', nn', Some err) \<Rightarrow> Some (t', nn', Some err)
                  | Some (t', nn', None) \<Rightarrow>
                      BatchWrite_loop t' rnds buf sizes headerSize (i + 1) end' nn' (n + nn'))
      else Some (t, n, None))"
  by pat_completeness auto
termination
proof (relation "measure (\<lambda>(t, rnds, buf, sizes, h, i, start, nn, n). length buf - start)", goal_cases)
  case (2 t rnds buf sizes headerSize i start nn n x2 y x y' x' y'')
  then have "start \<le> x2" by (auto dest: collect_mono)
  with 2 show ?case by auto
qed auto

declare BatchWrite_loop.simps [simp del]

definition BatchWrite ::
    "transport \<Rightarrow> (nat \<Rightarrow> bytes option) \<Rightarrow> bytes list \<Rightarrow> nat list \<Rightarrow> nat \<Rightarrow> wresult" where
  "BatchWrite t rnds buf sizes headerSize = BatchWrite_loop t rnds buf sizes headerSize 0 0 0 0"

section \<open>Splitting a batch\<close>

text \<open>
  \<^verbatim>\<open>ParseBatch\<close> never looks at \<^verbatim>\<open>len(data)\<close>: its slices are bounded by the capacity, so \<open>data\<close> is
  the memory from the start of the slice to the end of its array. The two loops read the sizes and
  then the packets; the results are the buffers, the sizes, the count and the error.
\<close>

fun parse_sizes ::
    "bytes \<Rightarrow> nat \<Rightarrow> nat \<Rightarrow> nat \<Rightarrow> nat list \<Rightarrow> (nat list \<times> nat \<times> goerr option) option" where
  "parse_sizes data i 0 dataOffset sizes = Some (sizes, dataOffset, None)"
| "parse_sizes data i (Suc k) dataOffset sizes =
     (if length sizes \<le> i then Some (sizes, dataOffset, Some (ErrorNew ''sizes array too small''))
      else if length data < dataOffset + 2 then None
      else parse_sizes data (i + 1) k (dataOffset + 2)
             (sizes[i := unat (get_be16 (sub dataOffset 2 data))]))"

fun parse_packets ::
    "bytes \<Rightarrow> nat \<Rightarrow> nat \<Rightarrow> nat \<Rightarrow> nat list \<Rightarrow> nat \<Rightarrow> bytes list \<Rightarrow> (bytes list \<times> goerr option) option" where
  "parse_packets data i 0 dataOffset sizes offset buf = Some (buf, None)"
| "parse_packets data i (Suc k) dataOffset sizes offset buf =
     (if length buf \<le> i then Some (buf, Some (ErrorNew ''buf array too small''))
      else if length (buf ! i) < offset + sizes ! i then Some (buf, Some (ErrorNew ''buf slice too small''))
      else if length data < dataOffset + sizes ! i then None
      else parse_packets data (i + 1) k (dataOffset + sizes ! i) sizes offset
             (buf[i := blit offset (sub dataOffset (sizes ! i) data) (buf ! i)]))"

definition ParseBatch ::
    "bytes \<Rightarrow> bytes list \<Rightarrow> nat list \<Rightarrow> nat \<Rightarrow> (bytes list \<times> nat list \<times> nat \<times> goerr option) option" where
  "ParseBatch data buf sizes offset =
     (if length data < 2 then None
      else let sizesLen = unat (get_be16 (sub 0 2 data)) in
        case parse_sizes data 0 sizesLen 2 sizes of
          None \<Rightarrow> None
        | Some (sizes', _, Some err) \<Rightarrow> Some (buf, sizes', 0, Some err)
        | Some (sizes', dataOffset, None) \<Rightarrow>
            (case parse_packets data 0 sizesLen dataOffset sizes' offset buf of
               None \<Rightarrow> None
             | Some (buf', Some err) \<Rightarrow> Some (buf', sizes', 0, Some err)
             | Some (buf', None) \<Rightarrow> Some (buf', sizes', sizesLen, None)))"

section \<open>Reading\<close>

text \<open>\<^verbatim>\<open>io.ReadFull(t.upstream, (*t.buffer)[lo:hi])\<close>\<close>

definition read_into :: "transport \<Rightarrow> nat \<Rightarrow> nat \<Rightarrow> (transport \<times> goerr option) option" where
  "read_into t lo hi =
     (if \<not> in_range lo hi then None
      else case ReadFull (upstream t) (hi - lo) of
             (u, bs, err) \<Rightarrow> Some (set_buf lo bs (t\<lparr>upstream := u\<rparr>), err))"

text \<open>
  \<^verbatim>\<open>Read\<close>: the state, the caller's slice after the copy, the count and the error. The upper bound
  \<^verbatim>\<open>7+length\<close> is \<^verbatim>\<open>uint16\<close> arithmetic.
\<close>

definition Read :: "transport \<Rightarrow> bytes \<Rightarrow> (transport \<times> bytes \<times> nat \<times> goerr option) option" where
  "Read t p =
     (case read_into t 0 4 of
        None \<Rightarrow> None
      | Some (t1, Some err) \<Rightarrow> Some (t1, p, 0, Some err)
      | Some (t1, None) \<Rightarrow>
          if sub 0 4 (buffer t1) \<noteq> magic t1 then Some (t1, p, 0, Some ErrInvalidMagic)
          else case read_into t1 4 7 of
            None \<Rightarrow> None
          | Some (t2, Some err) \<Rightarrow> Some (t2, p, 0, Some err)
          | Some (t2, None) \<Rightarrow>
              let length' = get_be16 (sub 5 2 (buffer t2)) in
              if length' > 65530 then Some (t2, p, 0, Some ErrMessageTooLarge)
              else (case read_into t2 7 (unat (7 + length')) of
                 None \<Rightarrow> None
               | Some (t3, Some err) \<Rightarrow> Some (t3, p, 0, Some err)
               | Some (t3, None) \<Rightarrow>
                   Some (t3, copy_to 0 (sub 7 (unat length') (buffer t3)) p, unat length', None)))"

text \<open>
  The decryption step of \<^verbatim>\<open>ReadMessage\<close>: the message type and length the next step works on.
\<close>

definition decrypt_layer ::
    "transport \<Rightarrow> byte \<Rightarrow> uint16 \<Rightarrow> (transport \<times> (goerr + byte \<times> uint16)) option" where
  "decrypt_layer t msgTyp length' =
     (if msgTyp \<noteq> TypeEncrypted then Some (t, Inr (msgTyp, length'))
      else case encryptor t of
        None \<Rightarrow> Some (t, Inl ErrMissingEncryptor)
      | Some e \<Rightarrow>
        if \<not> in_range 7 (unat (7 + length')) then None
        else case Decrypt e (sub 7 (unat (7 + length') - 7) (buffer t)) (MaxTransportByteSize - 7) of
          Inl err \<Rightarrow> Some (t, Inl err)
        | Inr (decryptedLen, w) \<Rightarrow>
          let t1 = set_cry 7 w t in
          if decryptedLen > MaxTransportByteSize - 7 then Some (t1, Inl ErrMessageTooLarge)
          else
            let t2 = set_buf 7 (sub 7 decryptedLen (cryptoBuffer t1)) t1;
                length2 = of_nat decryptedLen :: uint16 in
            if length2 \<ge> 3 then
              let innerTyp = buffer t2 ! 7; innerLength = get_be16 (sub 8 2 (buffer t2)) in
              if length2 \<ge> 3 + innerLength then
                if \<not> in_range 10 (10 + unat innerLength) then None
                else Some (set_buf 7 (sub 10 (unat innerLength) (buffer t2)) t2, Inr (innerTyp, innerLength))
              else Some (t2, Inr (innerTyp, length2))
            else Some (t2, Inr (msgTyp, length2)))"

definition decompress_layer ::
    "transport \<Rightarrow> byte \<Rightarrow> uint16 \<Rightarrow> (transport \<times> (goerr + byte \<times> uint16)) option" where
  "decompress_layer t msgTyp length' =
     (if msgTyp \<noteq> TypeCompress then Some (t, Inr (msgTyp, length'))
      else case compressor t of
        None \<Rightarrow> Some (t, Inl ErrMissingCompressor)
      | Some c \<Rightarrow>
        if \<not> in_range 7 (unat (7 + length')) then None
        else case Decompress c (sub 7 (unat (7 + length') - 7) (buffer t)) (MaxTransportByteSize - 7) of
          Inl err \<Rightarrow> Some (t, Inl err)
        | Inr (decompressedLen, w) \<Rightarrow>
          let t1 = set_cry 7 w t in
          if decompressedLen > MaxTransportByteSize - 7 then Some (t1, Inl ErrMessageTooLarge)
          else if decompressedLen \<ge> 3 then
            let innerTyp = cryptoBuffer t1 ! 7; innerLength = get_be16 (sub 8 2 (cryptoBuffer t1)) in
            if (of_nat decompressedLen :: uint16) \<ge> 3 + innerLength then
              if \<not> in_range 10 (10 + unat innerLength) then None
              else Some (set_buf 7 (sub 10 (unat innerLength) (cryptoBuffer t1)) t1,
                         Inr (innerTyp, innerLength))
            else Some (t1, Inl ErrDecompressionFailed)
          else Some (t1, Inl ErrDecompressionFailed))"

type_synonym rresult = "(transport \<times> bytes \<times> byte \<times> nat \<times> goerr option) option"

text \<open>The frame header and body, up to the layers: the message type and the length.\<close>

definition read_frame :: "transport \<Rightarrow> (transport \<times> (goerr + byte \<times> uint16)) option" where
  "read_frame t =
     (case read_into t 0 4 of
        None \<Rightarrow> None
      | Some (t1, Some err) \<Rightarrow> Some (t1, Inl err)
      | Some (t1, None) \<Rightarrow>
          if sub 0 4 (buffer t1) \<noteq> magic t1 then Some (t1, Inl ErrInvalidMagic)
          else case read_into t1 4 7 of
            None \<Rightarrow> None
          | Some (t2, Some err) \<Rightarrow> Some (t2, Inl err)
          | Some (t2, None) \<Rightarrow>
              let msgTyp = buffer t2 ! 4; length' = get_be16 (sub 5 2 (buffer t2)) in
              (case read_into t2 7 (unat (7 + length')) of
                 None \<Rightarrow> None
               | Some (t3, Some err) \<Rightarrow> Some (t3, Inl err)
               | Some (t3, None) \<Rightarrow> Some (t3, Inr (msgTyp, length'))))"

definition ReadMessage :: "transport \<Rightarrow> bytes \<Rightarrow> rresult" where
  "ReadMessage t data =
     (case read_frame t of
        None \<Rightarrow> None
      | Some (t3, Inl err) \<Rightarrow> Some (t3, data, 0, 0, Some err)
      | Some (t3, Inr (msgTyp, length')) \<Rightarrow>
          (case decrypt_layer t3 msgTyp length' of
             None \<Rightarrow> None
           | Some (t4, Inl err) \<Rightarrow> Some (t4, data, 0, 0, Some err)
           | Some (t4, Inr (typ4, length4)) \<Rightarrow>
               (case decompress_layer t4 typ4 length4 of
                  None \<Rightarrow> None
                | Some (t5, Inl err) \<Rightarrow> Some (t5, data, 0, 0, Some err)
                | Some (t5, Inr (typ5, length5)) \<Rightarrow>
                    if \<not> in_range 7 (unat (7 + length5)) then None
                    else Some (t5, copy_to 0 (sub 7 (unat length5) (buffer t5)) data,
                               typ5, unat length5, None))))"

definition Close :: "transport \<Rightarrow> transport" where
  "Close t = t\<lparr>upstream := (upstream t)\<lparr>up_closed := True\<rparr>\<rparr>"

definition Type :: "transport \<Rightarrow> string" where
  "Type t = ttyp t"

end
