(* ===== verification/Transport_Write.thy ===== *)
theory Transport_Write
  imports Transport
begin

text \<open>
  What the write operations of a transport put on the wire. The specification \<open>spec_message\<close>
  describes the bytes of one message without any buffer; the lemmas show that the operations, which
  work in two shared arrays, send exactly these bytes.
\<close>

section \<open>Well-formed transports and frame conditions\<close>

definition wf_transport :: "transport \<Rightarrow> bool" where
  "wf_transport t \<longleftrightarrow> length (buffer t) = 65535 \<and> length (cryptoBuffer t) = 65535 \<and> length (magic t) = 4"

definition opts :: "transport \<Rightarrow> transport_options" where
  "opts t = transport_options.truncate t"

lemma opts_eqD:
  "opts t' = opts t \<Longrightarrow> magic t' = magic t \<and> encrypt t' = encrypt t \<and> compress t' = compress t \<and>
     compressor t' = compressor t \<and> encryptor t' = encryptor t \<and>
     compressThreshold t' = compressThreshold t \<and> ttyp t' = ttyp t"
  by (simp add: opts_def transport_options.truncate_def)

lemma set_buf_simps [simp]:
  "buffer (set_buf off bs t) = copy_to off bs (buffer t)"
  "cryptoBuffer (set_buf off bs t) = cryptoBuffer t"
  "upstream (set_buf off bs t) = upstream t"
  "opts (set_buf off bs t) = opts t"
  "magic (set_buf off bs t) = magic t"
  "encryptor (set_buf off bs t) = encryptor t"
  "compressor (set_buf off bs t) = compressor t"
  "encrypt (set_buf off bs t) = encrypt t"
  "compress (set_buf off bs t) = compress t"
  "compressThreshold (set_buf off bs t) = compressThreshold t"
  by (simp_all add: set_buf_def opts_def transport_options.truncate_def)

lemma set_cry_simps [simp]:
  "cryptoBuffer (set_cry off bs t) = copy_to off bs (cryptoBuffer t)"
  "buffer (set_cry off bs t) = buffer t"
  "upstream (set_cry off bs t) = upstream t"
  "opts (set_cry off bs t) = opts t"
  "magic (set_cry off bs t) = magic t"
  "encryptor (set_cry off bs t) = encryptor t"
  "compressor (set_cry off bs t) = compressor t"
  "encrypt (set_cry off bs t) = encrypt t"
  "compress (set_cry off bs t) = compress t"
  "compressThreshold (set_cry off bs t) = compressThreshold t"
  by (simp_all add: set_cry_def opts_def transport_options.truncate_def)

lemma opts_upstream [simp]: "opts (t\<lparr>upstream := u\<rparr>) = opts t"
  by (simp add: opts_def transport_options.truncate_def)

lemma wf_set_buf [simp]: "wf_transport t \<Longrightarrow> off \<le> 65535 \<Longrightarrow> wf_transport (set_buf off bs t)"
  by (simp add: wf_transport_def)

lemma wf_set_cry [simp]: "wf_transport t \<Longrightarrow> off \<le> 65535 \<Longrightarrow> wf_transport (set_cry off bs t)"
  by (simp add: wf_transport_def)

lemma wf_upstream [simp]: "wf_transport (t\<lparr>upstream := u\<rparr>) = wf_transport t"
  by (simp add: wf_transport_def)

lemma wf_lengths [simp]:
  "wf_transport t \<Longrightarrow> length (buffer t) = 65535" "wf_transport t \<Longrightarrow> length (cryptoBuffer t) = 65535"
  "wf_transport t \<Longrightarrow> length (magic t) = 4"
  by (simp_all add: wf_transport_def)

text \<open>The transport went on to \<open>t'\<close> and exactly \<open>bs\<close> was added to what it has sent.\<close>

definition sent :: "transport \<Rightarrow> bytes \<Rightarrow> transport \<Rightarrow> bool" where
  "sent t bs t' \<longleftrightarrow> wf_transport t' \<and> opts t' = opts t \<and>
     upstream t' = (upstream t)\<lparr>outb := outb (upstream t) @ bs\<rparr>"

lemma sent_trans: "sent t bs t1 \<Longrightarrow> sent t1 bs' t2 \<Longrightarrow> sent t (bs @ bs') t2"
  by (simp add: sent_def)

lemma sentI: "wf_transport t' \<Longrightarrow> opts t' = opts t \<Longrightarrow> upstream t' = upstream t \<Longrightarrow> sent t [] t'"
  by (simp add: sent_def)

section \<open>Frames\<close>

definition inner_msg :: "byte \<Rightarrow> bytes \<Rightarrow> bytes" where
  "inner_msg ty d = ty # put_be16 (of_nat (length d)) @ d"

definition frame :: "bytes \<Rightarrow> byte \<Rightarrow> bytes \<Rightarrow> bytes" where
  "frame m ty d = m @ inner_msg ty d"

lemma length_inner_msg [simp]: "length (inner_msg ty d) = 3 + length d"
  by (simp add: inner_msg_def)

lemma length_frame [simp]: "length (frame m ty d) = length m + 3 + length d"
  by (simp add: frame_def)

text \<open>Storing type, length and data one after the other leaves a whole message in the array.\<close>

lemma blit3:
  assumes "off + 3 + length d \<le> length xs"
  shows "sub off (3 + length d) (blit (off + 3) d (blit (off + 1) (put_be16 n) (blit off [ty] xs)))
         = ty # put_be16 n @ d"
  using assms by (simp add: sub_def blit_def min_def take_Cons')

lemma blit4:
  assumes "7 + length d \<le> length xs" "length m = 4"
  shows "sub 0 (7 + length d) (blit 7 d (blit 5 (put_be16 n) (blit 4 [ty] (blit 0 m xs))))
         = m @ ty # put_be16 n @ d"
  using assms by (simp add: sub_def blit_def min_def take_Cons')

section \<open>Slices that survive the header stores\<close>

text \<open>
  \<open>holds t sl d\<close>: the slice \<open>sl\<close> contains \<open>d\<close> and lies where the header stores of the next step
  (the first seven bytes of \<open>buffer\<close>, the first three of \<open>cryptoBuffer\<close>) do not reach.
\<close>

definition holds :: "transport \<Rightarrow> dslice \<Rightarrow> bytes \<Rightarrow> bool" where
  "holds t sl d \<longleftrightarrow> slice_bytes t sl = d \<and> slice_len sl = length d \<and>
     (case sl of DExt _ \<Rightarrow> True | DBuf off _ \<Rightarrow> 7 \<le> off | DCry off _ \<Rightarrow> 3 \<le> off)"

lemma holds_DExt [simp]: "holds t (DExt d) d"
  by (simp add: holds_def)

lemma holds_not_at_start: "holds t sl d \<Longrightarrow> \<not> at_cry_start sl"
  by (cases sl) (auto simp: holds_def)

lemma holds_len: "holds t sl d \<Longrightarrow> slice_len sl = length d"
  by (simp add: holds_def)

lemma holds_set_buf:
  "holds t sl d \<Longrightarrow> wf_transport t \<Longrightarrow> off + length bs \<le> 7 \<Longrightarrow> holds (set_buf off bs t) sl d"
  by (cases sl) (simp_all add: holds_def copy_to_fits sub_blit_after)

lemma holds_set_cry:
  "holds t sl d \<Longrightarrow> wf_transport t \<Longrightarrow> off + length bs \<le> 3 \<Longrightarrow> holds (set_cry off bs t) sl d"
  by (cases sl) (simp_all add: holds_def copy_to_fits sub_blit_after)

lemma holds_bytes: "holds t sl d \<Longrightarrow> slice_bytes t sl = d"
  by (simp add: holds_def)

section \<open>Sending one frame\<close>

lemma send_buf_sent:
  assumes "wf_transport t" "wfault (upstream t) = None" "n \<le> 65535"
  shows "\<exists>t'. send_buf t n = Some (t', n, None) \<and> sent t (sub 0 n (buffer t)) t'"
  using assms by (simp add: send_buf_def up_Write_def sent_def)

lemma header_holds:
  assumes "wf_transport t" "holds t sl d"
  shows "holds (set_buf 5 (put_be16 n) (set_buf 4 [ty] (set_buf 0 (magic t) t))) sl d"
  using assms by (simp add: holds_set_buf)

text \<open>Storing header and data and sending them is sending one frame.\<close>

lemma send_frame:
  assumes "wf_transport t" "wfault (upstream t) = None" "length d \<le> 65528"
  shows "\<exists>t'. send_buf (set_buf 7 d (set_buf 5 (put_be16 (of_nat (length d)))
                  (set_buf 4 [ty] (set_buf 0 (magic t) t)))) (7 + length d)
              = Some (t', 7 + length d, None) \<and> sent t (frame (magic t) ty d) t'"
proof -
  let ?t = "set_buf 7 d (set_buf 5 (put_be16 (of_nat (length d))) (set_buf 4 [ty] (set_buf 0 (magic t) t)))"
  have "buffer ?t = blit 7 d (blit 5 (put_be16 (of_nat (length d))) (blit 4 [ty] (blit 0 (magic t) (buffer t))))"
    using assms by (simp add: copy_to_fits)
  with assms have "sub 0 (7 + length d) (buffer ?t) = frame (magic t) ty d"
    by (simp add: blit4 frame_def inner_msg_def)
  then show ?thesis
    using send_buf_sent [of ?t "7 + length d"] assms by (simp add: sent_def)
qed

lemma writeRawMessage_sent:
  assumes "wf_transport t" "wfault (upstream t) = None" "holds t sl d" "length d \<le> 65528"
  shows "\<exists>t'. writeRawMessage t ty sl = Some (t', 7 + length d, None) \<and> sent t (frame (magic t) ty d) t'"
  using assms send_frame [of t d ty]
  by (simp add: writeRawMessage_def Let_def holds_len holds_bytes [OF header_holds])

lemma writeRawMessage_panics:
  assumes "slice_len sl = 65529 \<or> slice_len sl = 65530"
  shows "writeRawMessage t ty sl = None"
  using assms by (auto simp: writeRawMessage_def Let_def)

lemma writeRawMessage_too_large:
  "slice_len sl > 65530 \<Longrightarrow> writeRawMessage t ty sl = Some (t, 0, Some ErrMessageTooLarge)"
  by (simp add: writeRawMessage_def)

lemma write_plain_batch_sent:
  assumes "wf_transport t" "wfault (upstream t) = None" "holds t sl d" "length d \<le> 65528"
  shows "\<exists>t'. write_plain_batch t ty sl = Some (t', 7 + length d, None) \<and> sent t (frame (magic t) ty d) t'"
  using assms send_frame [of t d ty]
  by (simp add: write_plain_batch_def Let_def holds_len holds_bytes [OF header_holds])

lemma writeEncryptedMessage_sent:
  assumes "wf_transport t" "wfault (upstream t) = None" "sub off n (cryptoBuffer t) = w" "length w = n"
    "off + n \<le> 65535" "n \<le> 65528"
  shows "\<exists>t'. writeEncryptedMessage t off n = Some (t', 7 + n, None) \<and>
              sent t (frame (magic t) TypeEncrypted w) t'"
  using assms send_frame [of t w TypeEncrypted]
  by (simp add: writeEncryptedMessage_def Let_def)

section \<open>Encrypting and sending\<close>

text \<open>Ciphertext stored at \<open>off\<close> in \<open>cryptoBuffer\<close> is what is read back from there.\<close>

lemma stored_cipher:
  assumes "wf_transport t" "off + length w \<le> 65535"
  shows "sub off (length w) (cryptoBuffer (set_cry off w t)) = w"
  using assms by (simp add: buf_simps)

lemma encrypt_and_write_sent:
  assumes "wf_transport t" "wfault (upstream t) = None" "encryptor_ok e" "length r = 24"
    "off + length src + 40 \<le> 65535" "length src + 40 \<le> 65528" "3 \<le> off \<or> off = 0"
    "Encrypt e (Some r) src (65535 - off) = Inr (n, w)"
  shows "\<exists>t'. encrypt_and_write t e (Some r) src off = Some (t', 7 + length w, None) \<and>
              sent t (frame (magic t) TypeEncrypted w) t'"
proof -
  have n: "n = length w" "length w = length src + 40"
    using encryptor_okD [of e r src "65535 - off" n w] assms by auto
  let ?t = "set_cry off w t"
  have eq: "encrypt_and_write t e (Some r) src off = writeRawMessage ?t TypeEncrypted (DExt w)"
    using assms n stored_cipher [of t off w]
    by (simp add: encrypt_and_write_def writeRawMessage_def Let_def)
  show ?thesis
    unfolding eq using writeRawMessage_sent [of ?t "DExt w" w TypeEncrypted] assms n
    by (simp add: sent_def)
qed

lemma encrypt_and_send_sent:
  assumes "wf_transport t" "wfault (upstream t) = None" "encryptor_ok e" "length r = 24"
    "off + length src + 40 \<le> 65535" "length src + 40 \<le> 65528"
    "Encrypt e (Some r) src (65535 - off) = Inr (n, w)"
  shows "\<exists>t'. encrypt_and_send t e (Some r) src off = Some (t', 7 + length w, None) \<and>
              sent t (frame (magic t) TypeEncrypted w) t'"
proof -
  have n: "n = length w" "length w = length src + 40"
    using encryptor_okD [of e r src "65535 - off" n w] assms by auto
  let ?t = "set_cry off w t"
  have "\<exists>t'. writeEncryptedMessage ?t off (length w) = Some (t', 7 + length w, None) \<and>
              sent ?t (frame (magic ?t) TypeEncrypted w) t'"
    using writeEncryptedMessage_sent [of ?t off "length w" w] stored_cipher [of t off w] assms n by simp
  then show ?thesis
    using assms n by (simp add: encrypt_and_send_def sent_def)
qed

text \<open>The inner message built in place in \<open>cryptoBuffer\<close> is the inner message.\<close>

lemma inner_in_cry:
  assumes "wf_transport t" "holds t sl d" "3 + length d \<le> 65535"
    and t1_def: "t1 = set_cry 1 (put_be16 (of_nat (length d))) (set_cry 0 [ty] t)"
  shows "sub 0 (3 + length d) (cryptoBuffer (set_cry 3 (slice_bytes t1 sl) t1)) = inner_msg ty d"
proof -
  have "holds t1 sl d"
    unfolding t1_def using assms by (simp add: holds_set_cry)
  then have d: "slice_bytes t1 sl = d" by (rule holds_bytes)
  show ?thesis
    unfolding d using assms blit3 [of 0 d "cryptoBuffer t"]
    by (simp add: t1_def copy_to_fits inner_msg_def)
qed

lemma inner_in_buf:
  assumes "wf_transport t" "holds t sl d" "3 + length d \<le> 65535"
    and t1_def: "t1 = set_buf 1 (put_be16 (of_nat (length d))) (set_buf 0 [ty] t)"
  shows "sub 0 (3 + length d) (buffer (set_buf 3 (take (length d) (slice_bytes t1 sl)) t1)) = inner_msg ty d"
proof -
  have "holds t1 sl d"
    unfolding t1_def using assms by (simp add: holds_set_buf)
  then have d: "slice_bytes t1 sl = d" by (rule holds_bytes)
  show ?thesis
    unfolding d using assms blit3 [of 0 d "buffer t"]
    by (simp add: t1_def copy_to_fits inner_msg_def)
qed

section \<open>The specification of one message\<close>

definition data_type :: "byte \<Rightarrow> bool" where
  "data_type ty \<longleftrightarrow> ty = TypeTransport \<or> ty = TypeBatchTransport"

definition encrypting :: "transport \<Rightarrow> bool" where
  "encrypting t \<longleftrightarrow> encrypt t \<and> encryptor t \<noteq> None"

text \<open>
  The room the compressor gets, by the length of the data: what is left of \<open>cryptoBuffer\<close> behind
  the message (\<^verbatim>\<open>WriteMessage\<close> falls back to its own memory for a large message, \<^verbatim>\<open>batchWrite\<close> to the
  rest of the array).
\<close>

definition fits_twice :: "nat \<Rightarrow> bool" where
  "fits_twice n \<longleftrightarrow> 3 + n + 1000 < 65535 \<and> 3 + n + 17 \<le> 65535 - (3 + n)"

definition msg_room :: "nat \<Rightarrow> nat" where
  "msg_room n = (if fits_twice n then 65535 - (3 + n) else 65528)"

definition batch_room :: "nat \<Rightarrow> nat" where
  "batch_room n = (if fits_twice n then 65535 - (3 + n) else 65528 - (3 + n))"

text \<open>The compression layer: replace the data by a shorter compressed inner message.\<close>

definition pack :: "(nat \<Rightarrow> nat) \<Rightarrow> transport \<Rightarrow> byte \<Rightarrow> bytes \<Rightarrow> goerr + byte \<times> bytes" where
  "pack room t ty d =
     (case compressor t of
        None \<Rightarrow> Inr (ty, d)
      | Some c \<Rightarrow>
          if compress t \<and> compressThreshold t \<le> int (length d) then
            (case Compress c (inner_msg ty d) (room (length d)) of
               Inl e \<Rightarrow> Inl e
             | Inr (n, w) \<Rightarrow> Inr (if n < length d then (TypeCompress, take n w) else (ty, d)))
          else Inr (ty, d))"

text \<open>The encryption layer and the frame: the bytes that go out.\<close>

definition seal_room :: "nat \<Rightarrow> nat" where
  "seal_room n = (if (3 + n) + (3 + n + 40) \<le> 65535 then 65535 - (3 + n) else 65535)"

definition seal :: "transport \<Rightarrow> bytes \<Rightarrow> byte \<Rightarrow> bytes \<Rightarrow> goerr + bytes" where
  "seal t r ty d =
     (case encryptor t of
        None \<Rightarrow> Inr (frame (magic t) ty d)
      | Some e \<Rightarrow>
          if encrypt t then
            (case Encrypt e (Some r) (inner_msg ty d) (seal_room (length d)) of
               Inl err \<Rightarrow> Inl err
             | Inr (n, w) \<Rightarrow> Inr (frame (magic t) TypeEncrypted w))
          else Inr (frame (magic t) ty d))"

definition spec_message :: "(nat \<Rightarrow> nat) \<Rightarrow> transport \<Rightarrow> bytes \<Rightarrow> byte \<Rightarrow> bytes \<Rightarrow> goerr + bytes" where
  "spec_message room t r ty d =
     (case pack room t ty d of Inl e \<Rightarrow> Inl e | Inr (ty', d') \<Rightarrow> seal t r ty' d')"

text \<open>The longest data that fits one frame.\<close>

definition max_payload :: "transport \<Rightarrow> nat" where
  "max_payload t = (if encrypting t then 65485 else 65528)"

definition codecs_ok :: "transport \<Rightarrow> bool" where
  "codecs_ok t \<longleftrightarrow> (\<forall>c. compressor t = Some c \<longrightarrow> compressor_ok c) \<and>
                   (\<forall>e. encryptor t = Some e \<longrightarrow> encryptor_ok e)"

text \<open>A write operation did what the specification says: the bytes, or an error and nothing sent.\<close>

definition writes :: "transport \<Rightarrow> wresult \<Rightarrow> goerr + bytes \<Rightarrow> bool" where
  "writes t res spec \<longleftrightarrow>
     (case spec of
        Inl err \<Rightarrow> \<exists>t'. res = Some (t', 0, Some err) \<and> sent t [] t'
      | Inr bs \<Rightarrow> \<exists>t'. res = Some (t', length bs, None) \<and> sent t bs t')"

lemma writes_after:
  assumes "sent t [] t1" "writes t1 res spec"
  shows "writes t res spec"
  using assms by (auto simp: writes_def sent_def split: sum.splits)

lemma sent_opts:
  assumes "sent t bs t1"
  shows "magic t1 = magic t" "encrypt t1 = encrypt t" "compress t1 = compress t"
    "compressor t1 = compressor t" "encryptor t1 = encryptor t"
    "compressThreshold t1 = compressThreshold t" "wf_transport t1"
    "wfault (upstream t1) = wfault (upstream t)"
  using assms by (auto simp: sent_def dest: opts_eqD)

lemma seal_sent:
  assumes "sent t bs t1"
  shows "seal t1 r ty d = seal t r ty d"
  unfolding seal_def sent_opts [OF assms] ..

section \<open>Compression refines its specification\<close>

lemma holds_compressed:
  assumes "wf_transport t" "3 \<le> off" "off + n \<le> 65535" "n = length full" "w = take (65535 - off) full"
  shows "holds (set_cry off w t) (DCry off n) (take n w)"
proof -
  have "w = full" using assms by simp
  then show ?thesis
    using assms by (simp add: holds_def buf_simps)
qed

lemma inner_msg_neq_Nil [simp]: "inner_msg ty d \<noteq> []"
  by (simp add: inner_msg_def)

text \<open>What a compression step must deliver.\<close>

definition packs ::
    "transport \<Rightarrow> (transport \<times> (goerr + byte \<times> dslice)) option \<Rightarrow> goerr + byte \<times> bytes \<Rightarrow> bool" where
  "packs t res spec \<longleftrightarrow>
     (case spec of
        Inl err \<Rightarrow> \<exists>t1. res = Some (t1, Inl err) \<and> sent t [] t1
      | Inr (ty', d') \<Rightarrow> \<exists>t1 sl. res = Some (t1, Inr (ty', sl)) \<and> sent t [] t1 \<and> holds t1 sl d')"

text \<open>
  Compressing an inner message into \<open>cryptoBuffer\<close> at \<open>off\<close>, and keeping the shorter of the two.
\<close>

lemma packs_compressed:
  assumes "sent t [] t1" "wf_transport t" "compressor_ok c" "holds t1 sl d"
    and "3 \<le> off" "off \<le> 65535"
    and "\<And>w. holds (set_cry off w t1) sl d"
  shows "packs t
     (keep_smaller t1 ty sl (length d) off (Compress c (inner_msg ty d) (65535 - off)))
     (case Compress c (inner_msg ty d) (65535 - off) of
        Inl e \<Rightarrow> Inl e
      | Inr (n, w) \<Rightarrow> Inr (if n < length d then (TypeCompress, take n w) else (ty, d)))"
proof (cases "Compress c (inner_msg ty d) (65535 - off)")
  case (Inl e)
  then show ?thesis using assms by (simp add: packs_def keep_smaller_def)
next
  case (Inr nw)
  obtain n w where nw: "Compress c (inner_msg ty d) (65535 - off) = Inr (n, w)"
    using Inr by (cases nw) simp
  from compressor_okE [OF assms(3) inner_msg_neq_Nil nw]
  obtain full where full: "n < length (inner_msg ty d) \<Longrightarrow> n \<le> 65535 - off"
    "n = length full" "w = take (65535 - off) full" by blast
  have room: "off + n \<le> 65535" if "n < length d"
    using full(1) that assms by simp
  have "sent t [] (set_cry off w t1)"
    using assms by (simp add: sent_def)
  moreover have "n < length d \<Longrightarrow> holds (set_cry off w t1) (DCry off n) (take n w)"
    using holds_compressed [of t1 off n full w] assms full room by (simp add: sent_def)
  ultimately show ?thesis
    using nw assms room by (simp add: packs_def keep_smaller_def Let_def)
qed

lemma compress_message_packs:
  assumes "wf_transport t" "codecs_ok t" "data_type ty" "length d \<le> 65528"
  shows "packs t (compress_message t ty d) (pack msg_room t ty d)"
proof (cases "compressor t")
  case None
  then show ?thesis
    using assms by (simp add: compress_message_def pack_def packs_def sentI)
next
  case (Some c)
  show ?thesis
  proof (cases "compress t \<and> compressThreshold t \<le> int (length d)")
    case False
    then show ?thesis
      using Some assms by (auto simp: compress_message_def pack_def packs_def sentI)
  next
    case go: True
    have c: "compressor_ok c" using assms Some by (simp add: codecs_ok_def)
    show ?thesis
    proof (cases "fits_twice (length d)")
      case True
      let ?t0 = "set_cry 1 (put_be16 (of_nat (length d))) (set_cry 0 [ty] t)"
      let ?t1 = "set_cry 3 d ?t0"
      have "3 + length d \<le> 65535" using True by (simp add: fits_twice_def)
      then have "sub 0 (3 + length d) (cryptoBuffer ?t1) = inner_msg ty d"
        using inner_in_cry [of t "DExt d" d ?t0 ty] assms by simp
      moreover have "sent t [] ?t1" using assms by (simp add: sent_def)
      ultimately show ?thesis
        using packs_compressed [of t ?t1 c "DExt d" d "3 + length d" ty] Some go True assms c
        unfolding compress_message_def pack_def Let_def msg_room_def MaxTransportByteSize_def
          fits_twice_def [symmetric]
        by (simp add: data_type_def)
    next
      case False
      then show ?thesis
        using packs_compressed [of t t c "DExt d" d 7 ty] Some go assms c
        unfolding compress_message_def pack_def Let_def msg_room_def MaxTransportByteSize_def
          fits_twice_def [symmetric]
        by (simp add: data_type_def inner_msg_def sentI)
    qed
  qed
qed

section \<open>WriteMessage refines its specification\<close>

lemma writes_raw:
  assumes "wf_transport t" "wfault (upstream t) = None" "holds t sl d" "length d \<le> 65528"
  shows "writes t (writeRawMessage t ty sl) (Inr (frame (magic t) ty d))"
  using writeRawMessage_sent [OF assms, of ty] assms by (simp add: writes_def)

lemma writes_plain:
  assumes "wf_transport t" "wfault (upstream t) = None" "holds t sl d" "length d \<le> 65528"
  shows "writes t (write_plain_batch t ty sl) (Inr (frame (magic t) ty d))"
  using write_plain_batch_sent [OF assms, of ty] assms by (simp add: writes_def)

lemma seal_encrypting:
  assumes "encryptor t = Some e" "encrypt t" "encryptor_ok e" "length r = 24" "length d \<le> 65485"
  obtains w where "Encrypt e (Some r) (inner_msg ty d) (seal_room (length d)) = Inr (length w, w)"
    "length w = length d + 43" "seal t r ty d = Inr (frame (magic t) TypeEncrypted w)"
proof -
  have "length (inner_msg ty d) + 40 \<le> seal_room (length d)"
    using assms by (simp add: seal_room_def) arith
  from encryptor_okE [OF assms(3,4) this]
  obtain w where "Encrypt e (Some r) (inner_msg ty d) (seal_room (length d)) = Inr (length w, w)"
    "length w = length (inner_msg ty d) + 40" by blast
  with assms show ?thesis
    by (intro that [of w]) (simp_all add: seal_def)
qed

lemma encrypt_message_writes:
  assumes "wf_transport t" "wfault (upstream t) = None" "encryptor t = Some e" "encrypt t"
    "encryptor_ok e" "length r = 24" "holds t sl d" "length d \<le> 65485"
  shows "writes t (encrypt_message t e (Some r) ty sl) (seal t r ty d)"
proof -
  obtain w where w: "Encrypt e (Some r) (inner_msg ty d) (seal_room (length d)) = Inr (length w, w)"
    "length w = length d + 43" "seal t r ty d = Inr (frame (magic t) TypeEncrypted w)"
    using seal_encrypting [of t e r d ty] assms by blast
  show ?thesis
  proof (cases "(3 + length d) + (3 + length d + 40) \<le> 65535")
    case True
    let ?t1 = "set_cry 1 (put_be16 (of_nat (length d))) (set_cry 0 [ty] t)"
    let ?t2 = "set_cry 3 (slice_bytes ?t1 sl) ?t1"
    have src: "sub 0 (3 + length d) (cryptoBuffer ?t2) = inner_msg ty d"
      using inner_in_cry [of t sl d ?t1 ty] assms by simp
    have eq: "encrypt_message t e (Some r) ty sl =
        encrypt_and_write ?t2 e (Some r) (inner_msg ty d) (3 + length d)"
      unfolding encrypt_message_def Let_def holds_len [OF assms(7)]
      using src True assms holds_not_at_start [OF assms(7)] by simp
    have "\<exists>t'. encrypt_and_write ?t2 e (Some r) (inner_msg ty d) (3 + length d) = Some (t', 7 + length w, None) \<and>
        sent ?t2 (frame (magic ?t2) TypeEncrypted w) t'"
      by (rule encrypt_and_write_sent) (use assms w True in \<open>auto simp: seal_room_def\<close>)
    then show ?thesis
      unfolding eq using w assms by (auto simp: writes_def sent_def)
  next
    case False
    have eq: "encrypt_message t e (Some r) ty sl = encrypt_and_write t e (Some r) (inner_msg ty d) 0"
      unfolding encrypt_message_def Let_def holds_len [OF assms(7)] holds_bytes [OF assms(7)]
      using False assms holds_not_at_start [OF assms(7)] by (simp add: inner_msg_def)
    have "\<exists>t'. encrypt_and_write t e (Some r) (inner_msg ty d) 0 = Some (t', 7 + length w, None) \<and>
        sent t (frame (magic t) TypeEncrypted w) t'"
      by (rule encrypt_and_write_sent) (use assms w False in \<open>auto simp: seal_room_def\<close>)
    then show ?thesis
      unfolding eq using w assms by (auto simp: writes_def)
  qed
qed

lemma encrypt_batch_writes:
  assumes "wf_transport t" "wfault (upstream t) = None" "encryptor t = Some e" "encrypt t"
    "encryptor_ok e" "length r = 24" "holds t sl d" "length d \<le> 65485"
  shows "writes t (encrypt_batch t e (Some r) ty sl) (seal t r ty d)"
proof -
  obtain w where w: "Encrypt e (Some r) (inner_msg ty d) (seal_room (length d)) = Inr (length w, w)"
    "length w = length d + 43" "seal t r ty d = Inr (frame (magic t) TypeEncrypted w)"
    using seal_encrypting [of t e r d ty] assms by blast
  show ?thesis
  proof (cases "(3 + length d) + (3 + length d + 40) \<le> 65535")
    case True
    let ?t1 = "set_cry 1 (put_be16 (of_nat (length d))) (set_cry 0 [ty] t)"
    let ?t2 = "set_cry 3 (slice_bytes ?t1 sl) ?t1"
    have src: "sub 0 (3 + length d) (cryptoBuffer ?t2) = inner_msg ty d"
      using inner_in_cry [of t sl d ?t1 ty] assms by simp
    have eq: "encrypt_batch t e (Some r) ty sl =
        encrypt_and_send ?t2 e (Some r) (inner_msg ty d) (3 + length d)"
      unfolding encrypt_batch_def Let_def holds_len [OF assms(7)]
      using src True assms holds_not_at_start [OF assms(7)] by simp
    have "\<exists>t'. encrypt_and_send ?t2 e (Some r) (inner_msg ty d) (3 + length d) = Some (t', 7 + length w, None) \<and>
        sent ?t2 (frame (magic ?t2) TypeEncrypted w) t'"
      by (rule encrypt_and_send_sent) (use assms w True in \<open>auto simp: seal_room_def\<close>)
    then show ?thesis
      unfolding eq using w assms by (auto simp: writes_def sent_def)
  next
    case False
    let ?t1 = "set_buf 1 (put_be16 (of_nat (length d))) (set_buf 0 [ty] t)"
    let ?t2 = "set_buf 3 (take (length d) (slice_bytes ?t1 sl)) ?t1"
    have src: "sub 0 (3 + length d) (buffer ?t2) = inner_msg ty d"
      using inner_in_buf [of t sl d ?t1 ty] assms by simp
    have eq: "encrypt_batch t e (Some r) ty sl = encrypt_and_send ?t2 e (Some r) (inner_msg ty d) 0"
      unfolding encrypt_batch_def Let_def holds_len [OF assms(7)]
      using src False assms holds_not_at_start [OF assms(7)] by simp
    have "\<exists>t'. encrypt_and_send ?t2 e (Some r) (inner_msg ty d) 0 = Some (t', 7 + length w, None) \<and>
        sent ?t2 (frame (magic ?t2) TypeEncrypted w) t'"
      by (rule encrypt_and_send_sent) (use assms w False in \<open>auto simp: seal_room_def\<close>)
    then show ?thesis
      unfolding eq using w assms by (auto simp: writes_def sent_def)
  qed
qed

lemma pack_length:
  assumes "pack room t ty d = Inr (ty', d')"
  shows "length d' \<le> length d"
  using assms by (auto simp: pack_def split: option.splits sum.splits if_splits)

lemma WriteMessage_writes:
  assumes "wf_transport t" "wfault (upstream t) = None" "codecs_ok t" "length r = 24"
    "data_type ty" "length d \<le> max_payload t"
  shows "writes t (WriteMessage t (Some r) ty d) (spec_message msg_room t r ty d)"
proof -
  have d: "length d \<le> 65528" using assms by (simp add: max_payload_def split: if_splits)
  note P = compress_message_packs [OF assms(1,3,5) d]
  show ?thesis
  proof (cases "pack msg_room t ty d")
    case (Inl e)
    with P show ?thesis
      by (auto simp: packs_def WriteMessage_def spec_message_def writes_def)
  next
    case (Inr td)
    obtain ty' d' where td: "pack msg_room t ty d = Inr (ty', d')" using Inr by (cases td) simp
    with P obtain t1 sl where c: "compress_message t ty d = Some (t1, Inr (ty', sl))"
      and s: "sent t [] t1" and h: "holds t1 sl d'"
      by (auto simp: packs_def)
    note so = sent_opts [OF s]
    have d': "length d' \<le> max_payload t" using pack_length [OF td] assms by simp
    have "writes t1 (WriteMessage t (Some r) ty d) (seal t1 r ty' d')"
    proof (cases "encrypting t")
      case True
      then obtain e where e: "encryptor t = Some e" "encrypt t" by (auto simp: encrypting_def)
      then have "WriteMessage t (Some r) ty d = encrypt_message t1 e (Some r) ty' sl"
        using c so assms by (auto simp: WriteMessage_def data_type_def)
      then show ?thesis
        using encrypt_message_writes [of t1 e r sl d' ty'] e so assms d' h True
        by (simp add: max_payload_def codecs_ok_def)
    next
      case False
      then have "WriteMessage t (Some r) ty d = writeRawMessage t1 ty' sl"
        using c so by (auto simp: WriteMessage_def encrypting_def split: option.splits)
      moreover have "seal t1 r ty' d' = Inr (frame (magic t1) ty' d')"
        using False so by (auto simp: seal_def encrypting_def split: option.splits)
      ultimately show ?thesis
        using writes_raw [of t1 sl d' ty'] so assms d' h False by (simp add: max_payload_def)
    qed
    then show ?thesis
      using writes_after [OF s] seal_sent [OF s] td by (simp add: spec_message_def)
  qed
qed

section \<open>The payload of a batch\<close>

definition size_fields :: "nat list \<Rightarrow> bytes" where
  "size_fields ss = concat (map (\<lambda>s. put_be16 (of_nat s)) ss)"

definition batch_payload :: "bytes list \<Rightarrow> bytes" where
  "batch_payload ps = put_be16 (of_nat (length ps)) @ size_fields (map length ps) @ concat ps"

text \<open>The packets a caller hands to \<^verbatim>\<open>BatchWrite\<close>: \<^verbatim>\<open>buf[i][headerSize:headerSize+sizes[i]]\<close>.\<close>

definition packets :: "bytes list \<Rightarrow> nat list \<Rightarrow> nat \<Rightarrow> bytes list" where
  "packets buf sizes h = map2 (sub h) sizes buf"

definition valid_batch :: "bytes list \<Rightarrow> nat list \<Rightarrow> nat \<Rightarrow> bool" where
  "valid_batch buf sizes h \<longleftrightarrow> list_all2 (\<lambda>b s. h + s \<le> length b) buf sizes"

lemma size_fields_Cons [simp]: "size_fields (s # ss) = put_be16 (of_nat s) @ size_fields ss"
  by (simp add: size_fields_def)

lemma length_size_fields [simp]: "length (size_fields ss) = 2 * length ss"
  by (induction ss) (simp_all add: size_fields_def)

lemma packets_lengths: "valid_batch buf sizes h \<Longrightarrow> map length (packets buf sizes h) = sizes"
  unfolding valid_batch_def packets_def
  by (induction buf sizes rule: list_all2_induct) auto

lemma valid_batch_length: "valid_batch buf sizes h \<Longrightarrow> length buf = length sizes"
  by (simp add: valid_batch_def list_all2_lengthD)

lemma length_packets [simp]: "valid_batch buf sizes h \<Longrightarrow> length (packets buf sizes h) = length sizes"
  by (auto simp: packets_def dest: valid_batch_length)

lemma length_concat_packets:
  "valid_batch buf sizes h \<Longrightarrow> length (concat (packets buf sizes h)) = sum_list sizes"
  by (simp add: length_concat packets_lengths)

lemma length_batch_payload:
  "length (batch_payload ps) = 2 + 2 * length ps + sum_list (map length ps)"
  by (simp add: batch_payload_def length_concat)

lemma batch_payload_packets:
  "valid_batch buf sizes h \<Longrightarrow>
   batch_payload (packets buf sizes h) =
     put_be16 (of_nat (length sizes)) @ size_fields sizes @ concat (packets buf sizes h)"
  by (simp add: batch_payload_def packets_lengths)

text \<open>Adjacent stores are one store.\<close>

lemma blit_append:
  "off + length x + length y \<le> length xs \<Longrightarrow> blit (off + length x) y (blit off x xs) = blit off (x @ y) xs"
  by (simp add: blit_def add.assoc add.commute add.left_commute)

lemma set_buf_append:
  "wf_transport t \<Longrightarrow> off + length x + length y \<le> 65535 \<Longrightarrow>
   set_buf (off + length x) y (set_buf off x t) = set_buf off (x @ y) t"
  using blit_append [of off x y "buffer t"]
  by (simp add: set_buf_def copy_to_fits)

lemma set_buf_Nil [simp]: "wf_transport t \<Longrightarrow> off \<le> 65535 \<Longrightarrow> set_buf off [] t = t"
  by (simp add: set_buf_def copy_to_def blit_def)

lemma put_sizes_eq:
  assumes "wf_transport t" "off + 2 * length ss \<le> 65535"
  shows "put_sizes t off ss = Some (set_buf off (size_fields ss) t, off + 2 * length ss)"
  using assms
proof (induction ss arbitrary: t off)
  case Nil
  then show ?case by (simp add: size_fields_def)
next
  case (Cons s ss)
  let ?t = "set_buf off (put_be16 (of_nat s)) t"
  have "put_sizes ?t (off + 2) ss = Some (set_buf (off + 2) (size_fields ss) ?t, off + 2 + 2 * length ss)"
    using Cons by simp
  moreover have "set_buf (off + 2) (size_fields ss) ?t = set_buf off (size_fields (s # ss)) t"
    using set_buf_append [of t off "put_be16 (of_nat s)" "size_fields ss"] Cons.prems by simp
  ultimately show ?case using Cons.prems by simp
qed

lemma put_packets_eq:
  assumes "valid_batch buf sizes h" "wf_transport t" "off + sum_list sizes \<le> 65535"
  shows "put_packets t off buf sizes h =
           Some (set_buf off (concat (packets buf sizes h)) t, off + sum_list sizes)"
  using assms unfolding valid_batch_def
proof (induction buf sizes arbitrary: t off rule: list_all2_induct)
  case Nil
  then show ?case by (simp add: packets_def)
next
  case (Cons b bs s ss)
  let ?t = "set_buf off (sub h s b) t"
  let ?d = "concat (packets bs ss h)"
  have v: "length ?d = sum_list ss"
    using Cons.hyps length_concat_packets by (simp add: valid_batch_def)
  have "put_packets ?t (off + s) bs ss h = Some (set_buf (off + s) ?d ?t, off + s + sum_list ss)"
    using Cons by simp
  moreover have "set_buf (off + s) ?d ?t = set_buf off (concat (packets (b # bs) (s # ss) h)) t"
    using set_buf_append [of t off "sub h s b" ?d] Cons.prems Cons.hyps v
    by (simp add: packets_def)
  ultimately show ?case using Cons by simp
qed

end
