(* ===== verification/Transport_Batch.thy ===== *)
theory Transport_Batch
  imports Transport_Write
begin

text \<open>
  Batches: what \<^verbatim>\<open>batchWrite\<close> sends for one batch, how \<^verbatim>\<open>BatchWrite\<close> cuts a list of packets into
  batches, and what \<^verbatim>\<open>ParseBatch\<close> recovers from a batch payload.
\<close>

section \<open>One batch\<close>

definition compressing :: "transport \<Rightarrow> nat \<Rightarrow> bool" where
  "compressing t n \<longleftrightarrow> compress t \<and> compressor t \<noteq> None \<and> compressThreshold t \<le> int n"

text \<open>The specification of one batch of payload \<open>d\<close>.\<close>

definition spec_batch :: "transport \<Rightarrow> bytes \<Rightarrow> bytes \<Rightarrow> goerr + bytes" where
  "spec_batch t r d =
     (if compressing t (length d) \<and> length d > 65525 then Inl ErrMessageTooLarge
      else case pack batch_room t TypeBatchTransport d of
        Inl e \<Rightarrow> Inl e
      | Inr (ty', d') \<Rightarrow>
          if encrypting t \<and> length d' > 65485 then Inl ErrMessageTooLarge else seal t r ty' d')"

lemma holds_DBuf_set_cry [simp]: "holds (set_cry off w t) (DBuf o' n) d = holds t (DBuf o' n) d"
  by (simp add: holds_def)

lemma compress_batch_packs:
  assumes "wf_transport t" "codecs_ok t" "holds t (DBuf 7 (length d)) d"
    "\<not> (compressing t (length d) \<and> length d > 65525)"
  shows "packs t (compress_batch t (length d)) (pack batch_room t TypeBatchTransport d)"
proof (cases "compressing t (length d)")
  case False
  then show ?thesis
    using assms by (auto simp: compress_batch_def pack_def packs_def sentI compressing_def Let_def
        split: option.splits)
next
  case go: True
  then obtain c where c: "compressor t = Some c" "compressor_ok c"
    using assms by (auto simp: compressing_def codecs_ok_def)
  have d: "length d \<le> 65525" "slice_bytes t (DBuf 7 (length d)) = d"
    using assms go holds_bytes [OF assms(3)] by auto
  show ?thesis
  proof (cases "fits_twice (length d)")
    case True
    let ?t0 = "set_cry 1 (put_be16 (of_nat (length d))) (set_cry 0 [TypeBatchTransport] t)"
    let ?t1 = "set_cry 3 d ?t0"
    have "sub 0 (3 + length d) (cryptoBuffer ?t1) = inner_msg TypeBatchTransport d"
      using inner_in_cry [of t "DExt d" d ?t0 TypeBatchTransport] assms d by simp
    moreover have "sent t [] ?t1" using assms by (simp add: sent_def)
    ultimately show ?thesis
      using packs_compressed [of t ?t1 c "DBuf 7 (length d)" d "3 + length d" TypeBatchTransport]
        c go True assms d
      unfolding compress_batch_def pack_def Let_def batch_room_def MaxTransportByteSize_def
        fits_twice_def [symmetric]
      by (simp add: compressing_def)
  next
    case False
    let ?t1 = "set_cry 10 d (set_cry 8 (put_be16 (of_nat (length d))) (set_cry 7 [TypeBatchTransport] t))"
    have "sub 7 (3 + length d) (cryptoBuffer ?t1) = inner_msg TypeBatchTransport d"
      using blit3 [of 7 d "cryptoBuffer t"] assms d by (simp add: copy_to_fits inner_msg_def)
    moreover have "sent t [] ?t1" using assms by (simp add: sent_def)
    ultimately show ?thesis
      using packs_compressed [of t ?t1 c "DBuf 7 (length d)" d "10 + length d" TypeBatchTransport]
        c go False assms d
      unfolding compress_batch_def pack_def Let_def batch_room_def MaxTransportByteSize_def
        fits_twice_def [symmetric]
      by (simp add: compressing_def)
  qed
qed

lemma encrypt_batch_too_large:
  assumes "slice_len sl > 65485"
  shows "encrypt_batch t e rnd ty sl = Some (t, 0, Some ErrMessageTooLarge)"
  using assms by (simp add: encrypt_batch_def Let_def)

text \<open>The batch payload as \<^verbatim>\<open>batchWrite\<close> builds it in \<open>buffer\<close>.\<close>

lemma batch_in_buf:
  assumes "wf_transport t" "valid_batch buf sizes h" "2 + 2 * length sizes + sum_list sizes \<le> 65528"
  defines "t1 \<equiv> set_buf 7 (put_be16 (of_nat (length sizes))) t"
    and "d \<equiv> batch_payload (packets buf sizes h)"
  shows "put_sizes t1 9 sizes = Some (set_buf 9 (size_fields sizes) t1, 9 + 2 * length sizes)"
    "put_packets (set_buf 9 (size_fields sizes) t1) (9 + 2 * length sizes) buf sizes h =
       Some (set_buf 7 d t, 9 + 2 * length sizes + sum_list sizes)"
proof -
  have wf: "wf_transport t1" unfolding t1_def using assms by simp
  show "put_sizes t1 9 sizes = Some (set_buf 9 (size_fields sizes) t1, 9 + 2 * length sizes)"
    using put_sizes_eq [OF wf, of 9 sizes] assms by simp
  have t2: "set_buf 9 (size_fields sizes) t1 =
      set_buf 7 (put_be16 (of_nat (length sizes)) @ size_fields sizes) t"
    using set_buf_append [of t 7 "put_be16 (of_nat (length sizes))" "size_fields sizes"] assms
    by (simp add: t1_def)
  show "put_packets (set_buf 9 (size_fields sizes) t1) (9 + 2 * length sizes) buf sizes h =
       Some (set_buf 7 d t, 9 + 2 * length sizes + sum_list sizes)"
    using put_packets_eq [OF assms(2), of "set_buf 9 (size_fields sizes) t1" "9 + 2 * length sizes"]
      set_buf_append [of t 7 "put_be16 (of_nat (length sizes)) @ size_fields sizes"
        "concat (packets buf sizes h)"] wf assms(1-3) batch_payload_packets [OF assms(2)]
    by (simp add: t2 d_def length_concat_packets)
qed

definition seal_checked :: "transport \<Rightarrow> bytes \<Rightarrow> byte \<Rightarrow> bytes \<Rightarrow> goerr + bytes" where
  "seal_checked t r ty d =
     (if encrypting t \<and> length d > 65485 then Inl ErrMessageTooLarge else seal t r ty d)"

lemma finish_batch_writes:
  assumes "sent t [] t4" "wfault (upstream t) = None" "codecs_ok t" "length r = 24"
    and h4: "holds t4 sl d" and "length d \<le> 65528"
  shows "writes t (finish_batch t4 (Some r) ty sl) (seal_checked t r ty d)"
proof -
  note so4 = sent_opts [OF assms(1)]
  consider (big) e where "encryptor t = Some e" "encrypt t" "length d > 65485"
    | (enc) e where "encryptor t = Some e" "encrypt t" "length d \<le> 65485"
    | (plain) "\<not> encrypting t"
    by (force simp: encrypting_def)
  then show ?thesis
  proof cases
    case big
    then show ?thesis
      using encrypt_batch_too_large [of sl] holds_len [OF h4] assms so4
      by (simp add: finish_batch_def seal_checked_def writes_def encrypting_def)
  next
    case (enc e)
    then have "writes t4 (encrypt_batch t4 e (Some r) ty sl) (seal t4 r ty d)"
      using encrypt_batch_writes [of t4 e r sl d ty] so4 assms by (simp add: codecs_ok_def)
    then show ?thesis
      using writes_after [OF assms(1)] enc seal_sent [OF assms(1)] so4
      by (simp add: finish_batch_def seal_checked_def)
  next
    case plain
    then have "finish_batch t4 (Some r) ty sl = write_plain_batch t4 ty sl"
      using so4 by (auto simp: finish_batch_def encrypting_def split: option.splits)
    moreover have "seal t r ty d = Inr (frame (magic t4) ty d)"
      using plain so4 by (auto simp: seal_def encrypting_def split: option.splits)
    ultimately show ?thesis
      using writes_after [OF assms(1) writes_plain [of t4 sl d ty]] so4 assms plain
      by (simp add: seal_checked_def)
  qed
qed

lemma compress_batch_too_large:
  assumes "compressing t n" "n > 65525"
  shows "compress_batch t n = Some (t, Inl ErrMessageTooLarge)"
proof -
  have "\<not> fits_twice n" using assms by (simp add: fits_twice_def)
  then show ?thesis
    using assms unfolding compress_batch_def Let_def MaxTransportByteSize_def fits_twice_def [symmetric]
    by (auto simp: compressing_def)
qed

text \<open>Compression and encryption of a payload that lies in \<open>buffer\<close>.\<close>

lemma layers_write:
  assumes s3: "sent t [] t3" and "wfault (upstream t) = None" "codecs_ok t" "length r = 24"
    and h3: "holds t3 (DBuf 7 (length d)) d" and len: "length d \<le> 65528"
  shows "writes t
     (case compress_batch t3 (length d) of
        None \<Rightarrow> None
      | Some (t4, Inl e) \<Rightarrow> Some (t4, 0, Some e)
      | Some (t4, Inr (finalType, finalData)) \<Rightarrow> finish_batch t4 (Some r) finalType finalData)
     (spec_batch t r d)"
proof (cases "compressing t (length d) \<and> length d > 65525")
  case True
  then have "compressing t3 (length d)" using sent_opts [OF s3] by (simp add: compressing_def)
  then show ?thesis
    using True s3 compress_batch_too_large [of t3] by (simp add: spec_batch_def writes_def)
next
  case False
  note so = sent_opts [OF s3]
  have "\<not> (compressing t3 (length d) \<and> length d > 65525)" "codecs_ok t3"
    using False assms so by (auto simp: compressing_def codecs_ok_def)
  moreover have "pack batch_room t3 TypeBatchTransport d = pack batch_room t TypeBatchTransport d"
    unfolding pack_def so ..
  ultimately have P: "packs t3 (compress_batch t3 (length d)) (pack batch_room t TypeBatchTransport d)"
    using compress_batch_packs [of t3 d] so h3 by simp
  show ?thesis
  proof (cases "pack batch_room t TypeBatchTransport d")
    case (Inl e)
    with P obtain t4 where "compress_batch t3 (length d) = Some (t4, Inl e)" "sent t3 [] t4"
      by (auto simp: packs_def)
    then show ?thesis
      using False Inl sent_trans [OF s3] by (auto simp: spec_batch_def writes_def)
  next
    case (Inr td)
    then obtain ty' d' where td: "pack batch_room t TypeBatchTransport d = Inr (ty', d')"
      by (cases td) simp
    with P obtain t4 sl where "compress_batch t3 (length d) = Some (t4, Inr (ty', sl))"
      and s34: "sent t3 [] t4" and h4: "holds t4 sl d'"
      by (auto simp: packs_def)
    moreover have "sent t [] t4" using sent_trans [OF s3 s34] by simp
    moreover have "length d' \<le> 65528" using pack_length [OF td] len by simp
    moreover have "spec_batch t r d = seal_checked t r ty' d'"
      using False td by (auto simp: spec_batch_def seal_checked_def)
    ultimately show ?thesis
      using finish_batch_writes [of t t4 r sl d' ty'] assms by simp
  qed
qed

lemma batchWrite_writes:
  assumes "wf_transport t" "wfault (upstream t) = None" "codecs_ok t" "length r = 24"
    "valid_batch buf sizes h" "2 + 2 * length sizes + sum_list sizes \<le> 65528"
  shows "writes t (batchWrite t (Some r) buf sizes h) (spec_batch t r (batch_payload (packets buf sizes h)))"
proof -
  define d where "d = batch_payload (packets buf sizes h)"
  define t0 where "t0 = set_buf 5 (put_be16 (of_nat (length d)))
    (set_buf 4 [TypeBatchTransport] (set_buf 0 (magic t) t))"
  define t3 where "t3 = set_buf 7 d t0"
  have len: "2 + 2 * length sizes + sum_list sizes = length d" "length d \<le> 65528"
    unfolding d_def using assms by (simp_all add: length_batch_payload packets_lengths)
  have wf0: "wf_transport t0" unfolding t0_def using assms by simp
  have s3: "sent t [] t3"
    using wf0 assms by (simp add: t3_def t0_def sent_def)
  have h3: "holds t3 (DBuf 7 (length d)) d"
    unfolding t3_def using wf0 len by (simp add: holds_def buf_simps)
  have "batchWrite t (Some r) buf sizes h =
      (case compress_batch t3 (length d) of
         None \<Rightarrow> None
       | Some (t4, Inl e) \<Rightarrow> Some (t4, 0, Some e)
       | Some (t4, Inr (finalType, finalData)) \<Rightarrow> finish_batch t4 (Some r) finalType finalData)"
    using batch_in_buf [OF wf0 assms(5,6)] len
    unfolding batchWrite_def Let_def len(1) d_def [symmetric] t3_def t0_def [symmetric] by simp
  then show ?thesis
    using layers_write [OF s3 assms(2-4) h3 len(2)] by (simp add: d_def)
qed

section \<open>Cutting packets into batches\<close>

lemma collect_total:
  "len \<le> length sizes \<Longrightarrow> \<exists>e'. collect sizes len start e r = Some e'"
  by (induction sizes len start e r rule: collect.induct) (subst collect.simps, auto)

lemma collect_bounds:
  assumes "collect sizes len start e r = Some e'" "len \<le> length sizes" "e \<le> len" "e - start \<le> 128"
  shows "e \<le> e' \<and> e' \<le> len \<and> e' - start \<le> 128 \<and> 2 * (e' - e) + sum_list (sub e (e' - e) sizes) \<le> r"
  using assms
proof (induction sizes len start e r rule: collect.induct)
  case (1 sizes len start e r)
  show ?case
  proof (cases "e < len \<and> 2 + sizes ! e \<le> r \<and> e - start < 128")
    case True
    then have c: "collect sizes len start (e + 1) (r - (2 + sizes ! e)) = Some e'"
      using "1.prems" by (subst (asm) collect.simps) simp
    moreover have "e + 1 - start \<le> 128" using True by arith
    ultimately have IH: "e + 1 \<le> e' \<and> e' \<le> len \<and> e' - start \<le> 128 \<and>
        2 * (e' - (e + 1)) + sum_list (sub (e + 1) (e' - (e + 1)) sizes) \<le> r - (2 + sizes ! e)"
      using "1.IH" True "1.prems" by simp
    moreover from IH have "e' - e = Suc (e' - (e + 1))" by auto
    moreover have "sub e (Suc (e' - (e + 1))) sizes = sizes ! e # sub (e + 1) (e' - (e + 1)) sizes"
      using sub_nth_Cons [of e sizes] True "1.prems" by simp
    ultimately show ?thesis using True by simp arith
  next
    case False
    have "e' = e"
      using "1.prems"(1) False "1.prems"(2) by (subst (asm) collect.simps) (auto split: if_splits)
    then show ?thesis using "1.prems" by simp
  qed
qed

lemma collect_stuck:
  assumes "collect sizes len start start r = Some start" "start < len" "len \<le> length sizes"
  shows "r < 2 + sizes ! start"
proof (rule ccontr)
  assume "\<not> ?thesis"
  then have "collect sizes len start (start + 1) (r - (2 + sizes ! start)) = Some start"
    using assms by (subst (asm) collect.simps) simp
  from collect_mono [OF this] show False by simp
qed

lemma packets_sub: "packets (sub a n buf) (sub a n sizes) h = sub a n (packets buf sizes h)"
  by (simp add: packets_def sub_def take_map drop_map take_zip drop_zip)

lemma valid_batch_sub: "valid_batch buf sizes h \<Longrightarrow> valid_batch (sub a n buf) (sub a n sizes) h"
  by (simp add: valid_batch_def sub_def list_all2_takeI list_all2_dropI)

text \<open>
  \<open>batch_of t ps f\<close>: \<open>ps\<close> is one batch of at most 128 packets, and \<open>f\<close> the bytes sent for it.
\<close>

definition batch_of :: "transport \<Rightarrow> bytes list \<Rightarrow> bytes \<Rightarrow> bool" where
  "batch_of t ps f \<longleftrightarrow> ps \<noteq> [] \<and> length ps \<le> MaxTransportBatchSize \<and>
     length (batch_payload ps) \<le> 65528 \<and>
     (\<exists>r. length r = 24 \<and> spec_batch t r (batch_payload ps) = Inr f)"

lemma spec_batch_sent:
  assumes "sent t bs t1"
  shows "spec_batch t1 = spec_batch t"
proof (intro ext)
  fix r d
  note so = sent_opts [OF assms]
  have eq: "pack batch_room t1 TypeBatchTransport d = pack batch_room t TypeBatchTransport d"
    unfolding pack_def so ..
  show "spec_batch t1 r d = spec_batch t r d"
    unfolding spec_batch_def eq compressing_def encrypting_def seal_sent [OF assms] so ..
qed

text \<open>
  The outcome of sending the packets \<open>P\<close>: batches \<open>pss\<close> with bytes \<open>fs\<close> went out; if no error came
  these are all the packets, else some are left and one of them, or one batch, cannot be sent.
\<close>

definition sends :: "transport \<Rightarrow> bytes list \<Rightarrow> nat \<Rightarrow> wresult \<Rightarrow> bool" where
  "sends t P n res \<longleftrightarrow> (\<exists>t' m err pss fs rest.
     res = Some (t', m, err) \<and> sent t (concat fs) t' \<and> P = concat pss @ rest \<and>
     list_all2 (batch_of t) pss fs \<and>
     (case err of
        None \<Rightarrow> rest = [] \<and> m = n + length (concat fs)
      | Some e \<Rightarrow> rest \<noteq> [] \<and>
          ((\<exists>p \<in> set rest. 65535 - baseOverhead t < 2 + length p) \<or>
           (\<exists>r d. length r = 24 \<and> length d \<le> 65528 \<and> spec_batch t r d = Inl e))))"

lemma batch_of_sent: "sent t bs t1 \<Longrightarrow> batch_of t1 = batch_of t"
  by (intro ext) (simp add: batch_of_def spec_batch_sent)

lemma baseOverhead_sent: "sent t bs t1 \<Longrightarrow> baseOverhead t1 = baseOverhead t"
  by (simp add: baseOverhead_def sent_opts)

lemma sends_step:
  assumes s: "sent t f t1" and b: "batch_of t ps f" and r: "sends t1 P (n + length f) res"
  shows "sends t (ps @ P) n res"
proof -
  note eqs = spec_batch_sent [OF s] batch_of_sent [OF s] baseOverhead_sent [OF s]
  from r obtain t' m err pss fs rest where *: "res = Some (t', m, err)" "sent t1 (concat fs) t'"
    "P = concat pss @ rest" "list_all2 (batch_of t) pss fs"
    "case err of None \<Rightarrow> rest = [] \<and> m = n + length f + length (concat fs)
     | Some e \<Rightarrow> rest \<noteq> [] \<and>
          ((\<exists>p \<in> set rest. 65535 - baseOverhead t < 2 + length p) \<or>
           (\<exists>r d. length r = 24 \<and> length d \<le> 65528 \<and> spec_batch t r d = Inl e))"
    unfolding sends_def eqs by blast
  from *(2) have "sent t (concat (f # fs)) t'" using sent_trans [OF s] by simp
  with * b show ?thesis
    unfolding sends_def
    by (intro exI [of _ t'] exI [of _ m] exI [of _ err] exI [of _ "ps # pss"] exI [of _ "f # fs"]
          exI [of _ rest]) (simp split: option.splits)
qed

lemma sends_stop:
  assumes "wf_transport t" "P \<noteq> []"
    and "(\<exists>p \<in> set P. 65535 - baseOverhead t < 2 + length p) \<or>
         (\<exists>r d. length r = 24 \<and> length d \<le> 65528 \<and> spec_batch t r d = Inl e)"
    and "sent t [] t'"
  shows "sends t P n (Some (t', m, Some e))"
  unfolding sends_def using assms
  by (intro exI [of _ t'] exI [of _ m] exI [of _ "Some e"] exI [of _ "[]"] exI [of _ P]) auto

lemma split_at: "a \<le> b \<Longrightarrow> b \<le> length xs \<Longrightarrow> drop a xs = sub a (b - a) xs @ drop b xs"
  by (simp add: sub_def) (metis append_take_drop_id drop_drop le_add_diff_inverse2)

text \<open>What the inner loop cuts off is a batch that \<^verbatim>\<open>batchWrite\<close> has room for.\<close>

lemma next_batch:
  assumes v: "valid_batch buf sizes h" and start: "start < length buf"
    and c: "collect sizes (length buf) start start (65535 - baseOverhead t) = Some e" and "e \<noteq> start"
  defines "P \<equiv> packets buf sizes h" and "bs \<equiv> sub start (e - start) buf" and "ss \<equiv> sub start (e - start) sizes"
  shows "start < e" "e \<le> length buf" "valid_batch bs ss h" "2 + 2 * length ss + sum_list ss \<le> 65528"
    "drop start P = packets bs ss h @ drop e P" "packets bs ss h \<noteq> []"
    "length (packets bs ss h) \<le> 128" "length (batch_payload (packets bs ss h)) \<le> 65528"
proof -
  have len: "length buf = length sizes" "length P = length sizes"
    using v valid_batch_length by (auto simp: P_def)
  have e: "start \<le> e" "e \<le> length buf" "e - start \<le> 128"
    "2 * (e - start) + sum_list (sub start (e - start) sizes) \<le> 65535 - baseOverhead t"
    using collect_bounds [OF c] len start by auto
  show "start < e" "e \<le> length buf" using e \<open>e \<noteq> start\<close> by auto
  show v': "valid_batch bs ss h" using v by (simp add: valid_batch_sub bs_def ss_def)
  have lss: "length ss = e - start" using e len by (simp add: ss_def)
  have "65535 - baseOverhead t \<le> 65526" by (simp add: baseOverhead_def)
  then show sz: "2 + 2 * length ss + sum_list ss \<le> 65528" using e lss by (simp add: ss_def)
  show "drop start P = packets bs ss h @ drop e P"
    using split_at [of start e P] e len by (simp add: packets_sub P_def bs_def ss_def)
  have "length (packets bs ss h) = e - start" using v' lss by simp
  then show "packets bs ss h \<noteq> []" "length (packets bs ss h) \<le> 128"
    using e \<open>e \<noteq> start\<close> by auto
  show "length (batch_payload (packets bs ss h)) \<le> 65528"
    using sz v' by (simp add: length_batch_payload packets_lengths)
qed

lemma stuck_packet:
  assumes v: "valid_batch buf sizes h" and start: "start < length buf"
    and c: "collect sizes (length buf) start start r = Some start"
  shows "\<exists>p \<in> set (drop start (packets buf sizes h)). r < 2 + length p"
proof -
  have len: "length buf = length sizes" "length (packets buf sizes h) = length sizes"
    using v valid_batch_length by auto
  have "r < 2 + length (packets buf sizes h ! start)"
    using collect_stuck [OF c start] len start packets_lengths [OF v] by (metis nth_map order_refl)
  then show ?thesis
    using start len by (metis Cons_nth_drop_Suc list.set_intros(1))
qed

lemma BatchWrite_loop_sends:
  assumes "wf_transport t" "wfault (upstream t) = None" "codecs_ok t"
    "\<And>i. \<exists>r. rnds i = Some r \<and> length r = 24" "valid_batch buf sizes h" "start \<le> length buf"
  shows "sends t (drop start (packets buf sizes h)) n (BatchWrite_loop t rnds buf sizes h i start nn n)"
  using assms
proof (induction t rnds buf sizes h i start nn n rule: BatchWrite_loop.induct)
  case (1 t rnds buf sizes h i start nn n)
  let ?P = "packets buf sizes h" and ?r = "65535 - baseOverhead t"
  have len: "length buf = length sizes" "length ?P = length sizes"
    using "1.prems" valid_batch_length by auto
  obtain e where c: "collect sizes (length buf) start start ?r = Some e"
    using collect_total len by (metis order_refl)
  obtain r where r: "rnds i = Some r" "length r = 24" using "1.prems" by blast
  let ?bs = "sub start (e - start) buf" and ?ss = "sub start (e - start) sizes"
  let ?ps = "packets ?bs ?ss h"
  consider (fin) "\<not> start < length buf" | (stuck) "start < length buf" "e = start"
    | (go) "start < length buf" "e \<noteq> start" by blast
  then show ?case
  proof cases
    case fin
    then show ?thesis
      using "1.prems" len by (subst BatchWrite_loop.simps) (force simp: sends_def sentI intro: exI [of _ "[]"])
  next
    case stuck
    then show ?thesis
      using c stuck_packet [OF "1.prems"(5)] "1.prems" len
        sends_stop [of t "drop start ?P" ErrMessageTooLarge t n nn]
      by (subst BatchWrite_loop.simps) (simp add: sentI)
  next
    case go
    note nb = next_batch [OF "1.prems"(5) go(1) c go(2)]
    note W = batchWrite_writes [OF "1.prems"(1,2,3) r(2) nb(3,4)]
    show ?thesis
    proof (cases "spec_batch t r (batch_payload ?ps)")
      case (Inl err)
      with W obtain t' where "batchWrite t (Some r) ?bs ?ss h = Some (t', 0, Some err)" "sent t [] t'"
        by (auto simp: writes_def)
      then show ?thesis
        using c go r "1.prems" Inl nb sends_stop [of t "drop start ?P" err t' n 0]
        by (subst BatchWrite_loop.simps) auto
    next
      case (Inr f)
      with W obtain t' where bw: "batchWrite t (Some r) ?bs ?ss h = Some (t', length f, None)"
        and s: "sent t f t'" by (auto simp: writes_def)
      have b: "batch_of t ?ps f"
        using nb r Inr by (auto simp: batch_of_def)
      have "codecs_ok t'" using "1.prems" sent_opts [OF s] by (simp add: codecs_ok_def)
      then have "sends t' (drop e ?P) (n + length f)
          (BatchWrite_loop t' rnds buf sizes h (i + 1) e (length f) (n + length f))"
        using "1.IH" [of e _ t' _ "length f" None] c go r bw "1.prems" sent_opts [OF s] nb by simp
      then have "sends t (?ps @ drop e ?P) n
          (BatchWrite_loop t' rnds buf sizes h (i + 1) e (length f) (n + length f))"
        by (rule sends_step [OF s b])
      then show ?thesis
        using c go r bw nb(5) by (subst BatchWrite_loop.simps) simp
    qed
  qed
qed

lemma BatchWrite_sends:
  assumes "wf_transport t" "wfault (upstream t) = None" "codecs_ok t"
    "\<And>i. \<exists>r. rnds i = Some r \<and> length r = 24" "valid_batch buf sizes h"
  shows "sends t (packets buf sizes h) 0 (BatchWrite t rnds buf sizes h)"
  using BatchWrite_loop_sends [of t rnds buf sizes h 0 0 0 0] assms by (simp add: BatchWrite_def)

end
