(* ===== verification/Transport_Read.thy ===== *)
theory Transport_Read
  imports Transport_Batch
begin

text \<open>
  The read side: \<^verbatim>\<open>ReadMessage\<close> recovers from the bytes of one message its type and data, through
  both layers, and \<^verbatim>\<open>ParseBatch\<close> recovers the packets of a batch. Together with the write side
  these give the end-to-end properties of a pair of transports.
\<close>

section \<open>The state after a read\<close>

text \<open>\<open>received rt rest rt'\<close>: the read consumed the input up to \<open>rest\<close> and changed no option.\<close>

definition received :: "transport \<Rightarrow> bytes \<Rightarrow> transport \<Rightarrow> bool" where
  "received rt rest rt' \<longleftrightarrow> wf_transport rt' \<and> opts rt' = opts rt \<and>
     upstream rt' = (upstream rt)\<lparr>inb := rest\<rparr>"

text \<open>The message data lies behind the header of \<open>buffer\<close>.\<close>

definition has_data :: "transport \<Rightarrow> bytes \<Rightarrow> bool" where
  "has_data t d \<longleftrightarrow> wf_transport t \<and> length d \<le> 65528 \<and> sub 7 (length d) (buffer t) = d"

lemma received_opts:
  assumes "received t bs t1"
  shows "magic t1 = magic t" "compressor t1 = compressor t" "encryptor t1 = encryptor t"
    "wf_transport t1"
  using assms by (auto simp: received_def dest: opts_eqD)

lemma received_set_buf: "received rt rest t \<Longrightarrow> off \<le> 65535 \<Longrightarrow> received rt rest (set_buf off w t)"
  by (simp add: received_def)

lemma received_set_cry: "received rt rest t \<Longrightarrow> off \<le> 65535 \<Longrightarrow> received rt rest (set_cry off w t)"
  by (simp add: received_def)

lemma has_data_set_buf:
  "wf_transport t \<Longrightarrow> length d \<le> 65528 \<Longrightarrow> has_data (set_buf 7 d t) d"
  by (simp add: has_data_def buf_simps)

lemma has_data_set_cry [simp]: "off \<le> 65535 \<Longrightarrow> has_data t d \<Longrightarrow> has_data (set_cry off w t) d"
  by (simp add: has_data_def)

lemma length16 [simp]: "n \<le> 65528 \<Longrightarrow> unat (7 + of_nat n :: uint16) = 7 + n"
proof -
  assume "n \<le> 65528"
  then have "unat (of_nat (7 + n) :: uint16) = 7 + n" by (intro unat_of_nat16) simp
  then show ?thesis by simp
qed

section \<open>One frame\<close>

lemma read_into_ok:
  assumes "wf_transport t" "inb (upstream t) = bs @ rest" "length bs = hi - lo" "in_range lo hi"
  shows "read_into t lo hi = Some (set_buf lo bs (t\<lparr>upstream := (upstream t)\<lparr>inb := rest\<rparr>\<rparr>), None)"
  using assms by (simp add: read_into_def ReadFull_def)

lemma read_frame_ok:
  assumes wf: "wf_transport rt" and inp: "inb (upstream rt) = frame (magic rt) ty d @ rest"
    and len: "length d \<le> 65528"
  shows "\<exists>rt'. read_frame rt = Some (rt', Inr (ty, of_nat (length d))) \<and>
               received rt rest rt' \<and> has_data rt' d"
proof -
  let ?u = "\<lambda>i. (upstream rt)\<lparr>inb := i\<rparr>" and ?n = "put_be16 (of_nat (length d))"
  define t1 where "t1 = set_buf 0 (magic rt) (rt\<lparr>upstream := ?u (inner_msg ty d @ rest)\<rparr>)"
  define t2 where "t2 = set_buf 4 (ty # ?n) (t1\<lparr>upstream := ?u (d @ rest)\<rparr>)"
  define t3 where "t3 = set_buf 7 d (t2\<lparr>upstream := ?u rest\<rparr>)"
  have w: "wf_transport t1" "wf_transport t2" using wf by (simp_all add: t1_def t2_def)
  have "read_into rt 0 4 = Some (t1, None)"
    using read_into_ok [of rt "magic rt" "inner_msg ty d @ rest" 4 0] wf inp
    by (simp add: frame_def t1_def)
  moreover have "sub 0 4 (buffer t1) = magic t1"
    using wf by (simp add: t1_def buf_simps)
  moreover have "read_into t1 4 7 = Some (t2, None)"
    using read_into_ok [of t1 "ty # ?n" "d @ rest" 7 4] w
    by (simp add: t1_def t2_def inner_msg_def)
  moreover have "buffer t2 ! 4 = ty" "get_be16 (sub 5 2 (buffer t2)) = of_nat (length d)"
  proof -
    have b: "buffer t2 = blit 4 (ty # ?n) (buffer t1)"
      using w by (simp add: t2_def copy_to_fits)
    show "buffer t2 ! 4 = ty"
      using nth_blit_at [of 4 "buffer t1" 0 "ty # ?n"] w by (simp add: b)
    have "sub 5 2 (buffer t2) = ?n"
      using w by (simp add: b sub_def blit_def)
    then show "get_be16 (sub 5 2 (buffer t2)) = of_nat (length d)" by simp
  qed
  moreover have "read_into t2 7 (7 + length d) = Some (t3, None)"
    using read_into_ok [of t2 d rest "7 + length d" 7] w len by (simp add: t2_def t3_def)
  ultimately have "read_frame rt = Some (t3, Inr (ty, of_nat (length d)))"
    using len by (simp add: read_frame_def)
  moreover have "received rt rest t3"
    using wf by (simp add: received_def t1_def t2_def t3_def)
  moreover have "has_data t3 d"
    unfolding t3_def using w len by (intro has_data_set_buf) simp_all
  ultimately show ?thesis by blast
qed

section \<open>The layers\<close>

text \<open>An inner message stored behind the header: its type, its length, and the data moved forward.\<close>

lemma inner_fields:
  assumes "sub 7 (3 + length d) b = inner_msg ty d" "10 + length d \<le> length b"
  shows "b ! 7 = ty" "get_be16 (sub 8 2 b) = of_nat (length d)" "sub 10 (length d) b = d"
proof -
  have s: "sub 7 (1 + 2 + length d) b = [ty] @ put_be16 (of_nat (length d)) @ d"
    using assms(1) by (simp add: inner_msg_def numeral_3_eq_3)
  then have "sub 7 1 b = [ty]" "sub 8 2 b = put_be16 (of_nat (length d))" "sub 10 (length d) b = d"
    using assms(2) sub_one [of 7 b] unfolding sub_add by (auto simp: append_eq_append_conv)
  then show "b ! 7 = ty" "get_be16 (sub 8 2 b) = of_nat (length d)" "sub 10 (length d) b = d"
    using assms(2) sub_one [of 7 b] by simp_all
qed

lemma inner_length16:
  "n \<le> 65525 \<Longrightarrow> (3 + of_nat n :: uint16) \<le> of_nat (3 + n)" "n \<le> 65525 \<Longrightarrow> (3 :: uint16) \<le> of_nat (3 + n)"
proof -
  assume n: "n \<le> 65525"
  show "(3 + of_nat n :: uint16) \<le> of_nat (3 + n)" by simp
  have "unat (of_nat (3 + n) :: uint16) = 3 + n" using n by (intro unat_of_nat16) simp
  then show "(3 :: uint16) \<le> of_nat (3 + n)" by (simp add: word_le_nat_alt)
qed

lemma decrypt_layer_ok:
  assumes "has_data rt w" "encryptor rt = Some e" "received rt0 rest rt"
    "Decrypt e w 65528 = Inr (3 + length d, inner_msg ty d)" "length d \<le> 65525"
  shows "\<exists>rt'. decrypt_layer rt TypeEncrypted (of_nat (length w)) = Some (rt', Inr (ty, of_nat (length d))) \<and>
               received rt0 rest rt' \<and> has_data rt' d"
proof -
  have wf: "wf_transport rt" and w: "length w \<le> 65528" "sub 7 (length w) (buffer rt) = w"
    using assms by (auto simp: has_data_def)
  define t1 where "t1 = set_cry 7 (inner_msg ty d) rt"
  define t2 where "t2 = set_buf 7 (inner_msg ty d) t1"
  have c: "sub 7 (3 + length d) (cryptoBuffer t1) = inner_msg ty d"
    using wf assms(5) by (simp add: t1_def buf_simps)
  have b: "sub 7 (3 + length d) (buffer t2) = inner_msg ty d" "length (buffer t2) = 65535"
    using wf assms(5) by (simp_all add: t1_def t2_def buf_simps)
  let ?t3 = "set_buf 7 d t2"
  have "decrypt_layer rt TypeEncrypted (of_nat (length w)) = Some (?t3, Inr (ty, of_nat (length d)))"
    unfolding decrypt_layer_def Let_def
    using assms w c b inner_fields [OF b(1)] inner_length16 [of "length d"] t1_def t2_def by simp
  moreover have "received rt0 rest ?t3"
    using assms(3) by (simp add: t1_def t2_def received_set_buf received_set_cry)
  moreover have "has_data ?t3 d"
    using wf assms(5) by (intro has_data_set_buf) (simp_all add: t1_def t2_def)
  ultimately show ?thesis by blast
qed

lemma decompress_layer_ok:
  assumes "has_data rt w" "compressor rt = Some c" "received rt0 rest rt"
    "Decompress c w 65528 = Inr (3 + length d, inner_msg ty d)" "length d \<le> 65525"
  shows "\<exists>rt'. decompress_layer rt TypeCompress (of_nat (length w)) = Some (rt', Inr (ty, of_nat (length d))) \<and>
               received rt0 rest rt' \<and> has_data rt' d"
proof -
  have wf: "wf_transport rt" and w: "length w \<le> 65528" "sub 7 (length w) (buffer rt) = w"
    using assms by (auto simp: has_data_def)
  define t1 where "t1 = set_cry 7 (inner_msg ty d) rt"
  have b: "sub 7 (3 + length d) (cryptoBuffer t1) = inner_msg ty d" "length (cryptoBuffer t1) = 65535"
    using wf assms(5) by (simp_all add: t1_def buf_simps)
  let ?t2 = "set_buf 7 d t1"
  have "decompress_layer rt TypeCompress (of_nat (length w)) = Some (?t2, Inr (ty, of_nat (length d)))"
    unfolding decompress_layer_def Let_def
    using assms w b inner_fields [OF b(1)] inner_length16 [of "length d"] t1_def by simp
  moreover have "received rt0 rest ?t2"
    using assms(3) by (simp add: t1_def received_set_buf received_set_cry)
  moreover have "has_data ?t2 d"
    using wf assms(5) by (intro has_data_set_buf) (simp_all add: t1_def)
  ultimately show ?thesis by blast
qed

section \<open>A message through a pair of transports\<close>

text \<open>The receiver was configured like the sender; its \<^verbatim>\<open>encrypt\<close> and \<^verbatim>\<open>compress\<close> flags do not matter.\<close>

definition peers :: "transport \<Rightarrow> transport \<Rightarrow> bool" where
  "peers t rt \<longleftrightarrow> wf_transport rt \<and> magic rt = magic t \<and> compressor rt = compressor t \<and>
                 encryptor rt = encryptor t"

lemma pack_cases:
  assumes "pack room t ty d = Inr (ty', d')" "codecs_ok t"
  obtains (same) "ty' = ty" "d' = d"
  | (packed) c where "ty' = TypeCompress" "compressor t = Some c" "compressing t (length d)"
      "length d' < length d" "\<And>n. 3 + length d \<le> n \<Longrightarrow> Decompress c d' n = Inr (3 + length d, inner_msg ty d)"
proof (cases "ty' = ty \<and> d' = d")
  case False
  with assms obtain c n w where c: "compressor t = Some c" "compressing t (length d)"
    "Compress c (inner_msg ty d) (room (length d)) = Inr (n, w)" "n < length d"
    "ty' = TypeCompress" "d' = take n w"
    by (auto simp: pack_def compressing_def split: option.splits sum.splits if_splits)
  have "compressor_ok c" using assms c by (simp add: codecs_ok_def)
  from compressor_okE [OF this inner_msg_neq_Nil c(3)]
  obtain full where "n < length (inner_msg ty d) \<Longrightarrow> n \<le> room (length d)" "n = length full"
    "w = take (room (length d)) full"
    "\<And>k. length (inner_msg ty d) \<le> k \<Longrightarrow> Decompress c full k = Inr (length (inner_msg ty d), inner_msg ty d)"
    by blast
  with c show thesis by (intro packed) simp_all
qed (auto intro: same)

lemma unpack_ok:
  assumes p: "pack room t ty d = Inr (ty', d')" "codecs_ok t" "data_type ty"
    and len: "length d \<le> 65528" "compressing t (length d) \<Longrightarrow> length d \<le> 65525"
    and r: "has_data rt d'" "received rt0 rest rt" "compressor rt = compressor t"
  shows "\<exists>rt'. decompress_layer rt ty' (of_nat (length d')) = Some (rt', Inr (ty, of_nat (length d))) \<and>
               received rt0 rest rt' \<and> has_data rt' d"
  using p(1,2)
proof (cases rule: pack_cases)
  case same
  then show ?thesis
    using r p(3) by (auto simp: decompress_layer_def data_type_def)
next
  case (packed c)
  then show ?thesis
    using decompress_layer_ok [of rt d' c rt0 rest d ty] r len by simp
qed

lemma unseal_ok:
  assumes s: "seal t r ty d = Inr f" "codecs_ok t" "length r = 24" "ty \<noteq> TypeEncrypted"
    and len: "length d \<le> max_payload t"
    and rt: "peers t rt" "inb (upstream rt) = f @ rest"
  shows "\<exists>rt3 ty3 n rt4. read_frame rt = Some (rt3, Inr (ty3, n)) \<and>
    decrypt_layer rt3 ty3 n = Some (rt4, Inr (ty, of_nat (length d))) \<and> received rt rest rt4 \<and> has_data rt4 d"
proof (cases "encrypting t")
  case True
  then obtain e where e: "encryptor t = Some e" "encrypt t" "encryptor_ok e"
    using s by (auto simp: encrypting_def codecs_ok_def)
  have d: "length d \<le> 65485" using True len by (simp add: max_payload_def)
  obtain w where w: "Encrypt e (Some r) (inner_msg ty d) (seal_room (length d)) = Inr (length w, w)"
    "length w = length d + 43" "seal t r ty d = Inr (frame (magic t) TypeEncrypted w)"
    using seal_encrypting [OF e(1,2,3) s(3) d] by blast
  have "length (inner_msg ty d) + 40 \<le> seal_room (length d)"
    using d by (simp add: seal_room_def) arith
  from encryptor_okD(3) [OF e(3) s(3) this w(1), of 65528]
  have dec: "Decrypt e w 65528 = Inr (3 + length d, inner_msg ty d)" using d by simp
  have "inb (upstream rt) = frame (magic rt) TypeEncrypted w @ rest"
    using s w rt by (simp add: peers_def)
  with read_frame_ok [of rt TypeEncrypted w rest] rt w d obtain rt3 where
    r3: "read_frame rt = Some (rt3, Inr (TypeEncrypted, of_nat (length w)))" "received rt rest rt3"
      "has_data rt3 w" by (auto simp: peers_def)
  moreover have "encryptor rt3 = Some e"
    using received_opts [OF r3(2)] rt e by (simp add: peers_def)
  ultimately show ?thesis
    using decrypt_layer_ok [of rt3 w e rt rest d ty] dec d by auto
next
  case False
  then have f: "f = frame (magic t) ty d"
    using s by (auto simp: seal_def encrypting_def split: option.splits)
  then obtain rt3 where "read_frame rt = Some (rt3, Inr (ty, of_nat (length d)))" "received rt rest rt3"
      "has_data rt3 d"
    using read_frame_ok [of rt ty d rest] rt len False by (auto simp: peers_def max_payload_def)
  then show ?thesis using s(4) by (auto simp: decrypt_layer_def)
qed

text \<open>Reading back what the two layers of a write produced.\<close>

lemma ReadMessage_ok:
  assumes p: "pack room t ty d = Inr (ty', d')" "seal t r ty' d' = Inr f"
    and t: "codecs_ok t" "length r = 24" "data_type ty"
    and len: "length d \<le> 65528" "length d' \<le> max_payload t" "compressing t (length d) \<Longrightarrow> length d \<le> 65525"
    and rt: "peers t rt" "inb (upstream rt) = f @ rest"
  shows "\<exists>rt'. ReadMessage rt data = Some (rt', copy_to 0 d data, ty, length d, None) \<and> received rt rest rt'"
proof -
  have "ty' = ty \<or> ty' = TypeCompress" using p(1) t(1) by (cases rule: pack_cases) auto
  then have "ty' \<noteq> TypeEncrypted" using t(3) by (auto simp: data_type_def)
  from unseal_ok [OF p(2) t(1,2) this len(2) rt] obtain rt3 ty3 n rt4 where
    r4: "read_frame rt = Some (rt3, Inr (ty3, n))"
      "decrypt_layer rt3 ty3 n = Some (rt4, Inr (ty', of_nat (length d')))"
      "received rt rest rt4" "has_data rt4 d'" by blast
  have "compressor rt4 = compressor t"
    using received_opts [OF r4(3)] rt by (simp add: peers_def)
  from unpack_ok [OF p(1) t(1,3) len(1,3) r4(4,3) this] obtain rt5 where
    r5: "decompress_layer rt4 ty' (of_nat (length d')) = Some (rt5, Inr (ty, of_nat (length d)))"
      "received rt rest rt5" "has_data rt5 d" by blast
  then show ?thesis
    using r4 len(1) by (simp add: ReadMessage_def has_data_def)
qed

section \<open>Splitting a batch\<close>

lemma sub_drop: "off \<le> length xs \<Longrightarrow> drop off xs = x @ y \<Longrightarrow> sub off (length x) xs = x"
  by (simp add: sub_def)

lemma drop_more: "drop off xs = x @ y \<Longrightarrow> drop (off + length x) xs = y"
  by (metis add.commute append_eq_conv_conj drop_drop)

lemma drop_room: "drop off xs = x @ y \<Longrightarrow> x \<noteq> [] \<Longrightarrow> off + length x \<le> length xs"
  by (metis add.commute drop_eq_Nil2 le_add2 length_append length_drop less_or_eq_imp_le linorder_not_le
      Nat.le_diff_conv2 append_is_Nil_conv)

lemma blit_update_Cons: "i < length xs \<Longrightarrow> blit (Suc i) ys (xs[i := y]) = blit i (y # ys) xs"
  by (simp add: upd_conv_take_nth_drop blit_def add.commute)

lemma parse_sizes_ok:
  assumes "drop off data = size_fields ss @ after" "i + length ss \<le> length sizes" "\<forall>s \<in> set ss. s < 65536"
  shows "parse_sizes data i (length ss) off sizes = Some (blit i ss sizes, off + 2 * length ss, None)"
  using assms
proof (induction ss arbitrary: off i sizes)
  case Nil
  then show ?case by (simp add: blit_def)
next
  case (Cons s ss)
  let ?n = "put_be16 (of_nat s)"
  have d: "drop off data = ?n @ (size_fields ss @ after)" using Cons.prems by simp
  have room: "off + 2 \<le> length data" using drop_room [OF d] by (auto simp: put_be16_def)
  have "get_be16 (sub off 2 data) = of_nat s"
    using sub_drop [OF _ d] room by simp
  moreover have "parse_sizes data (i + 1) (length ss) (off + 2) (sizes[i := s]) =
      Some (blit (i + 1) ss (sizes[i := s]), off + 2 + 2 * length ss, None)"
    using drop_more [OF d] Cons by simp
  ultimately show ?case
    using Cons.prems room by (simp add: blit_update_Cons)
qed

lemma parse_packets_ok:
  assumes "drop off data = concat ps @ after" "i + length ps \<le> length buf" "off \<le> length data"
    "\<forall>j < length ps. sizes ! (i + j) = length (ps ! j)"
    "\<forall>j < length ps. offset + length (ps ! j) \<le> length (buf ! (i + j))"
  shows "parse_packets data i (length ps) off sizes offset buf =
           Some (blit i (map2 (blit offset) ps (sub i (length ps) buf)) buf, None)"
  using assms
proof (induction ps arbitrary: off i buf)
  case Nil
  then show ?case by (simp add: blit_def)
next
  case (Cons p ps)
  have d: "drop off data = p @ (concat ps @ after)" using Cons.prems by simp
  have room: "off + length p \<le> length data" using drop_room [OF d] Cons.prems(3) by (cases "p = []") auto
  have h: "sizes ! i = length p" "offset + length p \<le> length (buf ! i)" "i < length buf"
    using Cons.prems(2,4,5) by auto
  let ?b = "buf[i := blit offset p (buf ! i)]"
  have IH: "parse_packets data (i + 1) (length ps) (off + length p) sizes offset ?b =
      Some (blit (i + 1) (map2 (blit offset) ps (sub (i + 1) (length ps) ?b)) ?b, None)"
    using Cons.prems drop_more [OF d] room
    by (intro Cons.IH) (force simp: nth_list_update)+
  have "sub (i + 1) (length ps) ?b = sub (i + 1) (length ps) buf"
    by (simp add: sub_def)
  moreover have "sub i (Suc (length ps)) buf = buf ! i # sub (i + 1) (length ps) buf"
    using sub_nth_Cons [of i buf] h by simp
  ultimately have "blit (i + 1) (map2 (blit offset) ps (sub (i + 1) (length ps) ?b)) ?b =
      blit i (map2 (blit offset) (p # ps) (sub i (Suc (length ps)) buf)) buf"
    using h by (simp add: blit_update_Cons)
  then show ?case
    using IH h room sub_drop [OF _ d] by simp
qed

text \<open>
  The slots of the caller a batch is split into: enough of them, and each long enough for its
  packet behind the first \<open>offset\<close> bytes.
\<close>

definition slots_ok :: "bytes list \<Rightarrow> nat \<Rightarrow> bytes list \<Rightarrow> bool" where
  "slots_ok ps offset buf \<longleftrightarrow> length ps \<le> length buf \<and>
     (\<forall>j < length ps. offset + length (ps ! j) \<le> length (buf ! j))"

lemma member_le_sum: "(n :: nat) \<in> set ns \<Longrightarrow> n \<le> sum_list ns"
  by (induction ns) auto

lemma ParseBatch_ok:
  assumes pl: "length (batch_payload ps) \<le> 65528" and slots: "slots_ok ps offset buf" "length ps \<le> length sizes"
  shows "ParseBatch (batch_payload ps @ after) buf sizes offset =
     Some (blit 0 (map2 (blit offset) ps (take (length ps) buf)) buf, blit 0 (map length ps) sizes, length ps, None)"
proof -
  let ?data = "batch_payload ps @ after" and ?ss = "map length ps"
  have n: "length ps < 65536" "sum_list ?ss < 65536" using pl by (auto simp: length_batch_payload)
  have "\<forall>s \<in> set ?ss. s < 65536" using n(2) member_le_sum le_less_trans by blast
  moreover have d: "drop 2 ?data = size_fields ?ss @ (concat ps @ after)" by (simp add: batch_payload_def)
  ultimately have P: "parse_sizes ?data 0 (length ps) 2 sizes = Some (blit 0 ?ss sizes, 2 + 2 * length ps, None)"
    using parse_sizes_ok [of 2 ?data ?ss "concat ps @ after" 0 sizes] slots by simp
  have "parse_packets ?data 0 (length ps) (2 + 2 * length ps) (blit 0 ?ss sizes) offset buf =
      Some (blit 0 (map2 (blit offset) ps (sub 0 (length ps) buf)) buf, None)"
    using drop_more [OF d] slots nth_blit_at [of 0 sizes _ ?ss]
    by (intro parse_packets_ok [where after = after]) (auto simp: slots_ok_def length_batch_payload)
  moreover have "unat (get_be16 (sub 0 2 ?data)) = length ps"
    using n by (simp add: batch_payload_def buf_simps)
  ultimately show ?thesis
    using P by (simp add: ParseBatch_def length_batch_payload sub_def Let_def)
qed

section \<open>A stream of batches\<close>

text \<open>
  A receiver that reads \<open>k\<close> messages and splits each batch into the same slots again and again, as
  the receive loops do; the result is the list of all packets in the order they came.
\<close>

fun recv_packets ::
    "nat \<Rightarrow> transport \<Rightarrow> bytes \<Rightarrow> bytes list \<Rightarrow> nat list \<Rightarrow> nat \<Rightarrow> (transport \<times> bytes list) option" where
  "recv_packets 0 rt data buf sizes offset = Some (rt, [])"
| "recv_packets (Suc k) rt data buf sizes offset =
     (case ReadMessage rt data of
        Some (rt1, data1, ty, _, None) \<Rightarrow>
          if ty \<noteq> TypeBatchTransport then None
          else (case ParseBatch data1 buf sizes offset of
             Some (buf1, sizes1, n, None) \<Rightarrow>
               (case recv_packets k rt1 data1 buf1 sizes1 offset of
                  Some (rt2, ps) \<Rightarrow> Some (rt2, packets (take n buf1) (take n sizes1) offset @ ps)
                | None \<Rightarrow> None)
           | _ \<Rightarrow> None)
      | _ \<Rightarrow> None)"

definition slots_for :: "bytes list \<Rightarrow> bytes list \<Rightarrow> nat list \<Rightarrow> nat \<Rightarrow> bool" where
  "slots_for P buf sizes offset \<longleftrightarrow> 128 \<le> length buf \<and> 128 \<le> length sizes \<and>
     (\<forall>p \<in> set P. \<forall>b \<in> set buf. offset + length p \<le> length b)"

lemma packets_stored:
  assumes "list_all2 (\<lambda>p b. offset + length p \<le> length b) ps bs"
  shows "packets (map2 (blit offset) ps bs) (map length ps) offset = ps"
  using assms
  by (induction rule: list_all2_induct) (auto simp: packets_def sub_blit_same)

lemma stored_lengths:
  assumes "list_all2 (\<lambda>p b. offset + length p \<le> length b) ps bs" "c \<in> set (map2 (blit offset) ps bs)"
  shows "\<exists>b \<in> set bs. length c = length b"
  using assms
  by (induction rule: list_all2_induct) auto

lemma slots_split:
  assumes "slots_for P buf sizes offset" "set ps \<subseteq> set P" "length ps \<le> 128"
  shows "list_all2 (\<lambda>p b. offset + length p \<le> length b) ps (take (length ps) buf)"
    "slots_ok ps offset buf"
    "slots_for P (blit 0 (map2 (blit offset) ps (take (length ps) buf)) buf) (blit 0 (map length ps) sizes) offset"
proof -
  let ?bs = "take (length ps) buf"
  show l: "list_all2 (\<lambda>p b. offset + length p \<le> length b) ps ?bs"
    using assms by (auto simp: list_all2_conv_all_nth slots_for_def subset_iff)
  then show "slots_ok ps offset buf"
    using assms by (auto simp: slots_ok_def list_all2_conv_all_nth slots_for_def)
  have "set (blit 0 (map2 (blit offset) ps ?bs) buf) \<subseteq> set (map2 (blit offset) ps ?bs) \<union> set buf"
    by (auto simp: blit_def dest: in_set_dropD)
  moreover have "\<exists>b \<in> set buf. length c = length b" if "c \<in> set (map2 (blit offset) ps ?bs)" for c
    using stored_lengths [OF l that] by (auto dest: in_set_takeD)
  ultimately show "slots_for P (blit 0 (map2 (blit offset) ps ?bs) buf) (blit 0 (map length ps) sizes) offset"
    using assms unfolding slots_for_def by (auto simp: subset_iff) metis+
qed

lemma recv_one:
  assumes b: "batch_of t ps f" "codecs_ok t"
    and rt: "peers t rt" "inb (upstream rt) = f @ rest" and data: "65535 \<le> length data"
  shows "\<exists>rt' n after. ReadMessage rt data = Some (rt', batch_payload ps @ after, TypeBatchTransport, n, None) \<and>
     received rt rest rt' \<and> length (batch_payload ps @ after) = length data"
proof -
  let ?d = "batch_payload ps"
  from b obtain r where r: "length r = 24" "spec_batch t r ?d = Inr f" and len: "length ?d \<le> 65528"
    by (auto simp: batch_of_def)
  then obtain ty' d' where p: "pack batch_room t TypeBatchTransport ?d = Inr (ty', d')"
    "seal t r ty' d' = Inr f" "\<not> (encrypting t \<and> length d' > 65485)"
    "\<not> (compressing t (length ?d) \<and> length ?d > 65525)"
    by (auto simp: spec_batch_def split: if_splits sum.splits)
  then have "length d' \<le> max_payload t"
    using pack_length [OF p(1)] len by (auto simp: max_payload_def)
  with ReadMessage_ok [OF p(1,2) b(2) r(1) _ len _ _ rt, of data] p(4) obtain rt' where
    "ReadMessage rt data = Some (rt', copy_to 0 ?d data, TypeBatchTransport, length ?d, None)" "received rt rest rt'"
    unfolding data_type_def by fastforce
  moreover have "copy_to 0 ?d data = ?d @ drop (length ?d) data"
    using data len by (simp add: copy_to_fits blit_def)
  ultimately show ?thesis using data len by auto
qed

lemma recv_packets_ok:
  assumes "list_all2 (batch_of t) pss fs" "codecs_ok t" "peers t rt" "inb (upstream rt) = concat fs @ rest"
    "65535 \<le> length data" "slots_for (concat pss) buf sizes offset"
  shows "\<exists>rt'. recv_packets (length pss) rt data buf sizes offset = Some (rt', concat pss) \<and> received rt rest rt'"
proof -
  have "\<exists>rt'. recv_packets (length pss) rt data buf sizes offset = Some (rt', concat pss) \<and> received rt rest rt'"
    if "peers t rt" "inb (upstream rt) = concat fs @ rest" "65535 \<le> length data"
      "slots_for P buf sizes offset" "set (concat pss) \<subseteq> set P" for rt data buf sizes P
    using assms(1) that
  proof (induction arbitrary: rt data buf sizes rule: list_all2_induct)
    case Nil
    then show ?case by (simp add: received_def peers_def)
  next
    case (Cons ps pss f fs)
    have i: "inb (upstream rt) = f @ (concat fs @ rest)" using Cons.prems by simp
    have n: "length ps \<le> 128" "length (batch_payload ps) \<le> 65528" "set ps \<subseteq> set P"
      using Cons by (auto simp: batch_of_def)
    from recv_one [OF Cons.hyps(1) assms(2) Cons.prems(1) i Cons.prems(3)] obtain rt1 m after where
      r: "ReadMessage rt data = Some (rt1, batch_payload ps @ after, TypeBatchTransport, m, None)"
        "received rt (concat fs @ rest) rt1" "length (batch_payload ps @ after) = length data" by blast
    note S = slots_split [OF Cons.prems(4) n(3,1)]
    let ?b = "blit 0 (map2 (blit offset) ps (take (length ps) buf)) buf" and ?s = "blit 0 (map length ps) sizes"
    have "peers t rt1" "inb (upstream rt1) = concat fs @ rest"
      using Cons.prems r(2) received_opts [OF r(2)] by (simp_all add: peers_def received_def)
    moreover have "65535 \<le> length (batch_payload ps @ after)" using Cons.prems r(3) by simp
    ultimately obtain rt2 where
      "recv_packets (length pss) rt1 (batch_payload ps @ after) ?b ?s offset = Some (rt2, concat pss)"
      "received rt1 rest rt2"
      using Cons.IH [of rt1 "batch_payload ps @ after" ?b ?s] S(3) Cons.prems(5) by auto
    moreover have "packets (take (length ps) ?b) (take (length ps) ?s) offset = ps"
      using packets_stored [OF S(1)] Cons.prems(4) n by (simp add: blit_def slots_for_def)
    ultimately show ?case
      using r S ParseBatch_ok [OF n(2) S(2), of sizes after] Cons.prems(4) n
      by (simp add: slots_for_def received_def)
  qed
  from this [of rt data "concat pss" buf sizes] assms show ?thesis by simp
qed

end
