(* ===== verification/Transport_Props.thy ===== *)
theory Transport_Props
  imports Transport_Read
begin

text \<open>
  The properties of the transport as a whole, each with an instance on a concrete pair of
  transports. The instances replace the AEAD and the zstd library by small functions that satisfy
  the contracts: \<open>tag_aead\<close> appends a constant tag, \<open>rle_zstd\<close> shortens a constant run.
\<close>

section \<open>Concrete codecs\<close>

definition tag_aead :: aead where
  "tag_aead = \<lparr>Seal = (\<lambda>nonce p. p @ replicate 16 0x5A),
               Open = (\<lambda>nonce c. if length c < 16 then None else Some (take (length c - 16) c)),
               Overhead = 16\<rparr>"

definition rle_zstd :: zstd where
  "rle_zstd =
     \<lparr>EncodeAll = (\<lambda>level d. if d = replicate (length d) (hd d) \<and> length d < 65536
                             then 1 # hd d # put_be16 (of_nat (length d)) else 0 # d),
      DecodeAll = (\<lambda>c. case c of [] \<Rightarrow> None
                        | x # y \<Rightarrow> if x = 0 then Some y else if y = [] then None
                                  else Some (replicate (unat (get_be16 (tl y))) (hd y)))\<rparr>"

lemma tag_aead_ok: "aead_ok tag_aead"
  by (simp add: aead_ok_def tag_aead_def)

lemma rle_zstd_ok: "zstd_ok rle_zstd"
  by (auto simp: zstd_ok_def rle_zstd_def)

definition plain_up :: upstream where
  "plain_up = \<lparr>inb = [], rfault = EOF, outb = [], wfault = None, up_closed = False\<rparr>"

definition secure_transport :: "upstream \<Rightarrow> transport" where
  "secure_transport up = NewTransport up
     [WithEncryptor (Chacha20Poly1305Encryptor tag_aead), EnableCompress True,
      WithCompressor (ZstdCompressor rle_zstd 2), WithCompressThreshold 4]"

definition plain_transport :: "upstream \<Rightarrow> transport" where
  "plain_transport up = NewTransport up []"

lemma NewTransport_wf:
  assumes "length (magic (fold (\<lambda>opt o'. opt o') os defaultTransportOptions)) = 4"
  shows "wf_transport (NewTransport up os)"
  using assms by (simp add: wf_transport_def NewTransport_def transport_options.extend_def)

lemma secure_fields [simp]:
  "wf_transport (secure_transport up)" "upstream (secure_transport up) = up"
  "magic (secure_transport up) = transportMagicBytes" "encrypt (secure_transport up)"
  "encryptor (secure_transport up) = Some (Chacha20Poly1305Encryptor tag_aead)"
  "compressor (secure_transport up) = Some (ZstdCompressor rle_zstd 2)"
  "compress (secure_transport up)" "compressThreshold (secure_transport up) = 4"
  unfolding secure_transport_def
  by (rule NewTransport_wf,
      simp_all add: NewTransport_def transport_options.extend_def transport_opt_defs
        defaultTransportOptions_def transportMagicBytes_def)

lemma plain_fields [simp]:
  "wf_transport (plain_transport up)" "upstream (plain_transport up) = up"
  "magic (plain_transport up) = transportMagicBytes" "encrypt (plain_transport up)"
  "encryptor (plain_transport up) = None" "compressor (plain_transport up) = None"
  "\<not> compress (plain_transport up)"
  unfolding plain_transport_def
  by (rule NewTransport_wf,
      simp_all add: NewTransport_def transport_options.extend_def
        defaultTransportOptions_def transportMagicBytes_def)

lemma demo_codecs_ok [simp]: "codecs_ok (secure_transport up)" "codecs_ok (plain_transport up)"
  by (simp_all add: codecs_ok_def chacha_encryptor_ok zstd_compressor_ok tag_aead_ok rle_zstd_ok)

lemma demo_encrypting [simp]: "encrypting (secure_transport up)" "\<not> encrypting (plain_transport up)"
  by (simp_all add: encrypting_def)

lemma demo_peers [simp]:
  "peers (secure_transport u) (secure_transport u')" "peers (plain_transport u) (plain_transport u')"
  by (simp_all add: peers_def)

lemma demo_max_payload [simp]:
  "max_payload (secure_transport up) = 65485" "max_payload (plain_transport up) = 65528"
  by (simp_all add: max_payload_def)

lemma plain_up_fields [simp]: "wfault plain_up = None" "outb plain_up = []" "inb plain_up = []" "rfault plain_up = EOF"
  by (simp_all add: plain_up_def)

section \<open>One message\<close>

text \<open>The bytes a write added to what the transport has sent.\<close>

definition newly_sent :: "transport \<Rightarrow> transport \<Rightarrow> bytes" where
  "newly_sent t t' = drop (length (outb (upstream t))) (outb (upstream t'))"

lemma newly_sent_eq [simp]: "sent t f t' \<Longrightarrow> newly_sent t t' = f"
  by (simp add: sent_def newly_sent_def)

text \<open>
  C4. A message written by one transport is read back by its peer, with the same type and the same
  data, whether or not it was compressed and encrypted on the way; the read consumes exactly the
  bytes that were written. Data of up to 65485 bytes (65528 without encryption, and at most 65525
  where it is compressed) is covered.
\<close>
theorem message_roundtrip:
  assumes "wf_transport t" "wfault (upstream t) = None" "codecs_ok t" "length r = 24"
    and "data_type ty" "length d \<le> max_payload t" "compressing t (length d) \<Longrightarrow> length d \<le> 65525"
    and "WriteMessage t (Some r) ty d = Some (t', n, None)"
    and "peers t rt" "inb (upstream rt) = newly_sent t t' @ rest"
  shows "\<exists>rt'. ReadMessage rt data = Some (rt', copy_to 0 d data, ty, length d, None) \<and> received rt rest rt'"
proof -
  have len: "length d \<le> 65528" using assms(6) by (simp add: max_payload_def split: if_splits)
  have W: "writes t (Some (t', n, None)) (spec_message msg_room t r ty d)"
    using WriteMessage_writes [OF assms(1-6)] assms(8) by simp
  then obtain f where f: "spec_message msg_room t r ty d = Inr f" "sent t f t'"
    by (auto simp: writes_def split: sum.splits)
  then obtain ty' d' where p: "pack msg_room t ty d = Inr (ty', d')" "seal t r ty' d' = Inr f"
    by (auto simp: spec_message_def split: sum.splits)
  have "length d' \<le> max_payload t" using pack_length [OF p(1)] assms(6) by simp
  then show ?thesis
    using ReadMessage_ok [OF p assms(3,4,5) len _ assms(7,9)] assms(10) f(2) by simp
qed

lemma secure_write:
  "\<exists>t' n. WriteMessage (secure_transport plain_up) (Some (replicate 24 7)) TypeTransport (replicate 9 3) = Some (t', n, None)"
proof -
  let ?t = "secure_transport plain_up" and ?r = "replicate 24 (7 :: byte)" and ?d = "replicate 9 (3 :: byte)"
  have W: "writes ?t (WriteMessage ?t (Some ?r) TypeTransport ?d) (spec_message msg_room ?t ?r TypeTransport ?d)"
    by (rule WriteMessage_writes) (simp_all add: data_type_def)
  have "pack msg_room ?t TypeTransport ?d = Inr (TypeTransport, ?d) \<or>
        (\<exists>w. pack msg_room ?t TypeTransport ?d = Inr (TypeCompress, w) \<and> length w \<le> 9)"
    by (simp add: pack_def ZstdCompressor_def zstd_Compress_def msg_room_def fits_twice_def Let_def rle_zstd_def)
  then obtain ty' d' where p: "pack msg_room ?t TypeTransport ?d = Inr (ty', d')" "length d' \<le> 9" by auto
  obtain w where "seal ?t ?r ty' d' = Inr (frame (magic ?t) TypeEncrypted w)"
    using seal_encrypting [of ?t "Chacha20Poly1305Encryptor tag_aead" ?r d' ty'] p
    by (auto simp: chacha_encryptor_ok tag_aead_ok)
  with W p show ?thesis by (auto simp: writes_def spec_message_def)
qed

theorem message_roundtrip_witness:
  "\<exists>t' n rt'. WriteMessage (secure_transport plain_up) (Some (replicate 24 7)) TypeTransport (replicate 9 3) =
       Some (t', n, None) \<and>
     ReadMessage (secure_transport (plain_up\<lparr>inb := newly_sent (secure_transport plain_up) t' @ [1, 2]\<rparr>)) (replicate 20 0) =
       Some (rt', replicate 9 3 @ replicate 11 0, TypeTransport, 9, None) \<and> inb (upstream rt') = [1, 2]"
proof -
  obtain t' n where w: "WriteMessage (secure_transport plain_up) (Some (replicate 24 7)) TypeTransport (replicate 9 3) =
    Some (t', n, None)" using secure_write by blast
  let ?rt = "secure_transport (plain_up\<lparr>inb := newly_sent (secure_transport plain_up) t' @ [1, 2]\<rparr>)"
  have "\<exists>rt'. ReadMessage ?rt (replicate 20 0) =
      Some (rt', copy_to 0 (replicate 9 3) (replicate 20 0), TypeTransport, length (replicate 9 (3 :: byte)), None) \<and>
      received ?rt [1, 2] rt'"
    by (rule message_roundtrip [OF _ _ _ _ _ _ _ w]) (simp_all add: data_type_def)
  moreover have "copy_to 0 (replicate 9 3) (replicate 20 0) = replicate 9 3 @ replicate 11 (0 :: byte)"
    by (simp add: copy_to_def blit_def)
  ultimately obtain rt' where "ReadMessage ?rt (replicate 20 0) =
      Some (rt', replicate 9 3 @ replicate 11 0, TypeTransport, 9, None)" "received ?rt [1, 2] rt'"
    by (auto simp only: length_replicate)
  moreover from this(2) have "inb (upstream rt') = [1, 2]" by (simp add: received_def)
  ultimately show ?thesis using w by blast
qed

section \<open>Batches\<close>

text \<open>
  C3. The packets handed to \<^verbatim>\<open>BatchWrite\<close> arrive at the peer: when it reports no error, a
  receive loop over \<^verbatim>\<open>ReadMessage\<close> and \<^verbatim>\<open>ParseBatch\<close> that reuses its slots recovers exactly these
  packets in their order, however they were cut into batches, compressed and encrypted, and
  consumes exactly what was sent.
\<close>
theorem batches_roundtrip:
  assumes "wf_transport t" "wfault (upstream t) = None" "codecs_ok t"
    and "\<And>i. \<exists>r. rnds i = Some r \<and> length r = 24" "valid_batch buf sizes h"
    and "BatchWrite t rnds buf sizes h = Some (t', n, None)"
    and "peers t rt" "inb (upstream rt) = newly_sent t t' @ rest"
    and "65535 \<le> length data" "slots_for (packets buf sizes h) rbuf rsizes offset"
  shows "\<exists>k rt'. recv_packets k rt data rbuf rsizes offset = Some (rt', packets buf sizes h) \<and> received rt rest rt'"
proof -
  have "sends t (packets buf sizes h) 0 (BatchWrite t rnds buf sizes h)"
    by (rule BatchWrite_sends) (use assms in auto)
  then have "sends t (packets buf sizes h) 0 (Some (t', n, None))" using assms(6) by simp
  then obtain pss fs where b: "sent t (concat fs) t'" "packets buf sizes h = concat pss"
    "list_all2 (batch_of t) pss fs" by (auto simp: sends_def)
  then show ?thesis
    using recv_packets_ok [OF b(3) assms(3,7) _ assms(9), of rest rbuf rsizes offset] assms(8,10) by auto
qed

lemma secure_batch:
  "\<exists>t' n. BatchWrite (secure_transport plain_up) (\<lambda>i. Some (replicate 24 7))
     [[9, 1, 2, 3], [9, 4]] [3, 1] 1 = Some (t', n, None)"
proof -
  let ?t = "secure_transport plain_up" and ?b = "[[9, 1, 2, 3], [9, 4]] :: bytes list"
  have v: "valid_batch ?b [3, 1] 1" by (simp add: valid_batch_def)
  have p: "batch_payload (packets ?b [3, 1] 1) = [0, 2, 0, 3, 0, 1, 1, 2, 3, 4]"
    by (simp add: batch_payload_def packets_def size_fields_def put_be16_def sub_def)
  have "spec_batch ?t (replicate 24 7) (batch_payload (packets ?b [3, 1] 1)) =
      seal ?t (replicate 24 7) TypeBatchTransport [0, 2, 0, 3, 0, 1, 1, 2, 3, 4]"
    unfolding p
    by (simp add: spec_batch_def compressing_def pack_def ZstdCompressor_def zstd_Compress_def rle_zstd_def
        batch_room_def fits_twice_def Let_def inner_msg_def put_be16_def TypeBatchTransport_def)
  moreover obtain w where "seal ?t (replicate 24 7) TypeBatchTransport [0, 2, 0, 3, 0, 1, 1, 2, 3, 4] =
      Inr (frame (magic ?t) TypeEncrypted w)"
    using seal_encrypting [of ?t "Chacha20Poly1305Encryptor tag_aead" "replicate 24 7"
        "[0, 2, 0, 3, 0, 1, 1, 2, 3, 4]" TypeBatchTransport]
    by (auto simp: chacha_encryptor_ok tag_aead_ok)
  ultimately obtain t' n where bw: "batchWrite ?t (Some (replicate 24 7)) ?b [3, 1] 1 = Some (t', n, None)"
    using batchWrite_writes [of ?t "replicate 24 7" ?b "[3, 1]" 1] v by (auto simp: writes_def)
  have c: "collect [3, 1] 2 0 0 (65535 - baseOverhead ?t) = Some 2"
    by (simp add: collect.simps baseOverhead_def)
  show ?thesis
    using bw c unfolding BatchWrite_def
    by (subst BatchWrite_loop.simps) (simp add: sub_def numeral_2_eq_2 BatchWrite_loop.simps)
qed

theorem batches_roundtrip_witness:
  "\<exists>t' n k rt'. BatchWrite (secure_transport plain_up) (\<lambda>i. Some (replicate 24 7))
       [[9, 1, 2, 3], [9, 4]] [3, 1] 1 = Some (t', n, None) \<and>
     recv_packets k (secure_transport (plain_up\<lparr>inb := newly_sent (secure_transport plain_up) t'\<rparr>))
       (replicate 65535 0) (replicate 128 (replicate 20 0)) (replicate 128 0) 16 = Some (rt', [[1, 2, 3], [4]])"
proof -
  obtain t' n where w: "BatchWrite (secure_transport plain_up) (\<lambda>i. Some (replicate 24 7))
     [[9, 1, 2, 3], [9, 4]] [3, 1] 1 = Some (t', n, None)" using secure_batch by blast
  have p: "packets [[9, 1, 2, 3], [9, 4 :: byte]] [3, 1] 1 = [[1, 2, 3], [4]]"
    by (simp add: packets_def sub_def)
  have s: "slots_for (packets [[9, 1, 2, 3], [9, 4 :: byte]] [3, 1] 1) (replicate 128 (replicate 20 0)) (replicate 128 0) 16"
    unfolding p by (simp add: slots_for_def)
  let ?rt = "secure_transport (plain_up\<lparr>inb := newly_sent (secure_transport plain_up) t'\<rparr>)"
  have "\<exists>k rt'. recv_packets k ?rt (replicate 65535 0) (replicate 128 (replicate 20 0)) (replicate 128 0) 16 =
      Some (rt', packets [[9, 1, 2, 3], [9, 4 :: byte]] [3, 1] 1) \<and> received ?rt [] rt'"
    by (rule batches_roundtrip [OF _ _ _ _ _ w _ _ _ s]) (simp_all add: valid_batch_def)
  then show ?thesis using w unfolding p by blast
qed

text \<open>
  On a transport without encryption and compression \<^verbatim>\<open>BatchWrite\<close> accepts every list of packets
  of at most 65524 bytes: it does not fail and does not panic, it reports the number of bytes sent,
  and these are frames of at most 128 packets each that together hold all packets in order.
\<close>
theorem BatchWrite_plain_succeeds:
  assumes "wf_transport t" "wfault (upstream t) = None" "encryptor t = None" "compressor t = None"
    and "\<And>i. \<exists>r. rnds i = Some r \<and> length r = 24" "valid_batch buf sizes h" "\<forall>s \<in> set sizes. s \<le> 65524"
  shows "\<exists>t' pss. BatchWrite t rnds buf sizes h = Some (t', length (newly_sent t t'), None) \<and>
     newly_sent t t' = concat (map (\<lambda>ps. frame (magic t) TypeBatchTransport (batch_payload ps)) pss) \<and>
     concat pss = packets buf sizes h \<and> (\<forall>ps \<in> set pss. ps \<noteq> [] \<and> length ps \<le> 128)"
proof -
  have ok: "codecs_ok t" using assms by (simp add: codecs_ok_def)
  have spec: "spec_batch t r d = Inr (frame (magic t) TypeBatchTransport d)" for r d
    using assms by (simp add: spec_batch_def compressing_def pack_def encrypting_def seal_def)
  have "sends t (packets buf sizes h) 0 (BatchWrite t rnds buf sizes h)"
    by (rule BatchWrite_sends) (use assms ok in auto)
  then obtain t' m err pss fs rest where b: "BatchWrite t rnds buf sizes h = Some (t', m, err)"
    "sent t (concat fs) t'" "packets buf sizes h = concat pss @ rest" "list_all2 (batch_of t) pss fs"
    "case err of None \<Rightarrow> rest = [] \<and> m = length (concat fs)
     | Some e \<Rightarrow> rest \<noteq> [] \<and> ((\<exists>p \<in> set rest. 65535 - baseOverhead t < 2 + length p) \<or>
         (\<exists>r d. length (r :: bytes) = 24 \<and> length d \<le> 65528 \<and> Inr (frame (magic t) TypeBatchTransport d) = Inl e))"
    unfolding sends_def spec add_0 by (elim exE conjE) (rule that)
  have "length p \<le> 65524" if "p \<in> set rest" for p
    using that b(3) packets_lengths [OF assms(6)] assms(7)
    by (metis Un_iff image_eqI list.set_map set_append)
  moreover have "baseOverhead t = 9" using assms by (simp add: baseOverhead_def)
  ultimately have "err = None" using b(5) by (fastforce split: option.splits)
  moreover have "fs = map (\<lambda>ps. frame (magic t) TypeBatchTransport (batch_payload ps)) pss"
    using b(4) by (induction rule: list_all2_induct) (auto simp: batch_of_def spec)
  moreover have "\<forall>ps \<in> set pss. ps \<noteq> [] \<and> length ps \<le> 128"
    using b(4) by (induction rule: list_all2_induct) (auto simp: batch_of_def)
  ultimately show ?thesis using b by auto
qed

theorem BatchWrite_plain_succeeds_witness:
  "\<exists>t' pss. BatchWrite (plain_transport plain_up) (\<lambda>i. Some (replicate 24 0)) (replicate 200 [1, 2]) (replicate 200 2) 0 =
       Some (t', length (newly_sent (plain_transport plain_up) t'), None) \<and>
     concat pss = packets (replicate 200 [1, 2]) (replicate 200 2) 0"
  using BatchWrite_plain_succeeds [of "plain_transport plain_up" "\<lambda>i. Some (replicate 24 0)" "replicate 200 [1, 2]" "replicate 200 2" 0]
  by (auto simp: valid_batch_def list_all2_conv_all_nth)

definition ciphertext :: "encryptor \<Rightarrow> bytes \<Rightarrow> bool" where
  "ciphertext e w \<longleftrightarrow> (\<exists>r m c. length r = 24 \<and> Encrypt e (Some r) m c = Inr (length w, w))"

lemma batch_of_encrypted:
  assumes "batch_of t ps f" "codecs_ok t" "encryptor t = Some e" "encrypt t"
  shows "\<exists>w. f = frame (magic t) TypeEncrypted w \<and> ciphertext e w"
proof -
  from assms obtain r ty' d' where r: "length r = 24" "seal t r ty' d' = Inr f" "length d' \<le> 65485"
    by (auto simp: batch_of_def spec_batch_def encrypting_def split: if_splits sum.splits)
  have "encryptor_ok e" using assms by (simp add: codecs_ok_def)
  from seal_encrypting [OF assms(3,4) this r(1,3), of ty'] r show ?thesis
    by (metis Inr_inject ciphertext_def)
qed

text \<open>
  C11. With encryption on, \<^verbatim>\<open>BatchWrite\<close> never lets plaintext out: whatever its outcome, all bytes it
  sent are frames of type \<open>TypeEncrypted\<close> whose bodies the encryptor made from fresh random bytes.
\<close>
theorem BatchWrite_encrypted_only:
  assumes "wf_transport t" "wfault (upstream t) = None" "codecs_ok t" "encryptor t = Some e" "encrypt t"
    and "\<And>i. \<exists>r. rnds i = Some r \<and> length r = 24" "valid_batch buf sizes h"
  shows "\<exists>t' n err ws. BatchWrite t rnds buf sizes h = Some (t', n, err) \<and>
     newly_sent t t' = concat (map (frame (magic t) TypeEncrypted) ws) \<and> (\<forall>w \<in> set ws. ciphertext e w)"
proof -
  have "sends t (packets buf sizes h) 0 (BatchWrite t rnds buf sizes h)"
    by (rule BatchWrite_sends) (use assms in auto)
  then obtain t' m err pss fs where b: "BatchWrite t rnds buf sizes h = Some (t', m, err)"
    "sent t (concat fs) t'" "list_all2 (batch_of t) pss fs"
    unfolding sends_def by blast
  from b(3) have "\<exists>ws. fs = map (frame (magic t) TypeEncrypted) ws \<and> (\<forall>w \<in> set ws. ciphertext e w)"
  proof (induction rule: list_all2_induct)
    case (Cons ps pss f fs)
    then obtain w ws where "f = frame (magic t) TypeEncrypted w" "ciphertext e w"
      "fs = map (frame (magic t) TypeEncrypted) ws" "\<forall>w \<in> set ws. ciphertext e w"
      using batch_of_encrypted [OF _ assms(3,4,5)] by blast
    then show ?case by (intro exI [of _ "w # ws"]) simp
  qed simp
  then show ?thesis using b by auto
qed

theorem BatchWrite_encrypted_only_witness:
  "\<exists>t' n err ws. BatchWrite (secure_transport plain_up) (\<lambda>i. Some (replicate 24 7))
       [[9, 1, 2, 3], [9, 4]] [3, 1] 1 = Some (t', n, err) \<and>
     newly_sent (secure_transport plain_up) t' = concat (map (frame transportMagicBytes TypeEncrypted) ws)"
  using BatchWrite_encrypted_only [of "secure_transport plain_up" "Chacha20Poly1305Encryptor tag_aead"
      "\<lambda>i. Some (replicate 24 7)" "[[9, 1, 2, 3], [9, 4]]" "[3, 1]" 1]
  by (simp add: valid_batch_def) blast

section \<open>Limits\<close>

text \<open>
  C26. The size checks of the write path admit two lengths the frame buffer has no room for:
  \<^verbatim>\<open>WriteMessage\<close> without encryption and compression panics on data of 65529 or 65530 bytes, while it
  refuses longer data with an error and sends shorter data.
\<close>
theorem WriteMessage_limits:
  assumes "wf_transport t" "wfault (upstream t) = None" "encryptor t = None" "compressor t = None"
  shows "(length d \<le> 65528 \<longrightarrow> (\<exists>t'. WriteMessage t rnd ty d = Some (t', 7 + length d, None) \<and>
                                   newly_sent t t' = frame (magic t) ty d)) \<and>
         (length d \<in> {65529, 65530} \<longrightarrow> WriteMessage t rnd ty d = None) \<and>
         (length d > 65530 \<longrightarrow> WriteMessage t rnd ty d = Some (t, 0, Some ErrMessageTooLarge))"
proof -
  have eq: "WriteMessage t rnd ty d = writeRawMessage t ty (DExt d)"
    using assms by (simp add: WriteMessage_def compress_message_def)
  have "length d \<le> 65528 \<longrightarrow> (\<exists>t'. WriteMessage t rnd ty d = Some (t', 7 + length d, None) \<and>
           newly_sent t t' = frame (magic t) ty d)"
    unfolding eq using writeRawMessage_sent [OF assms(1,2) holds_DExt] newly_sent_eq by blast
  moreover have "length d \<in> {65529, 65530} \<longrightarrow> WriteMessage t rnd ty d = None"
    unfolding eq using writeRawMessage_panics [of "DExt d"] by simp
  moreover have "length d > 65530 \<longrightarrow> WriteMessage t rnd ty d = Some (t, 0, Some ErrMessageTooLarge)"
    unfolding eq using writeRawMessage_too_large [of "DExt d"] by simp
  ultimately show ?thesis by blast
qed

theorem WriteMessage_limits_witness:
  "(\<exists>t'. WriteMessage (plain_transport plain_up) None TypeTransport (replicate 65528 0) = Some (t', 65535, None)) \<and>
   WriteMessage (plain_transport plain_up) None TypeTransport (replicate 65530 0) = None \<and>
   WriteMessage (plain_transport plain_up) None TypeTransport (replicate 65531 0) =
     Some (plain_transport plain_up, 0, Some ErrMessageTooLarge)"
  using WriteMessage_limits [of "plain_transport plain_up" "replicate 65528 0" None TypeTransport]
    WriteMessage_limits [of "plain_transport plain_up" "replicate 65530 0" None TypeTransport]
    WriteMessage_limits [of "plain_transport plain_up" "replicate 65531 0" None TypeTransport]
  by auto

lemma wrapped_length: "(65529 :: uint16) \<le> n \<Longrightarrow> unat (7 + n) < 7"
proof -
  assume "(65529 :: uint16) \<le> n"
  then have "65529 \<le> unat n" by (simp add: word_le_nat_alt)
  moreover have "unat n < 65536" by (rule unat16_less)
  moreover have "unat (7 + n) = (7 + unat n) mod 65536" by (simp add: unat_word_ariths)
  moreover have "(7 + unat n) mod 65536 = 7 + unat n - 65536"
    using calculation by (simp add: mod_if)
  ultimately show ?thesis by simp
qed

text \<open>The two header reads, for any announced length.\<close>

lemma read_frame_header:
  assumes wf: "wf_transport rt" and inp: "inb (upstream rt) = magic rt @ ty # put_be16 n @ body"
  obtains t2 where "received rt body t2" "read_frame rt = (case read_into t2 7 (unat (7 + n)) of
     None \<Rightarrow> None | Some (t3, Some err) \<Rightarrow> Some (t3, Inl err) | Some (t3, None) \<Rightarrow> Some (t3, Inr (ty, n)))"
proof -
  define t1 where "t1 = set_buf 0 (magic rt) (rt\<lparr>upstream := (upstream rt)\<lparr>inb := ty # put_be16 n @ body\<rparr>\<rparr>)"
  define t2 where "t2 = set_buf 4 (ty # put_be16 n) (t1\<lparr>upstream := (upstream t1)\<lparr>inb := body\<rparr>\<rparr>)"
  have w: "wf_transport t1" using wf by (simp add: t1_def)
  have r1: "read_into rt 0 4 = Some (t1, None)" "sub 0 4 (buffer t1) = magic t1"
    using read_into_ok [of rt "magic rt" "ty # put_be16 n @ body" 4 0] wf inp by (simp_all add: t1_def buf_simps)
  have r2: "read_into t1 4 7 = Some (t2, None)"
    using read_into_ok [of t1 "ty # put_be16 n" body 7 4] w by (simp add: t1_def t2_def)
  have b: "buffer t2 = blit 4 (ty # put_be16 n) (buffer t1)"
    using w by (simp add: t2_def copy_to_fits)
  have h: "buffer t2 ! 4 = ty" "get_be16 (sub 5 2 (buffer t2)) = n"
    using nth_blit_at [of 4 "buffer t1" 0 "ty # put_be16 n"] w by (simp_all add: b sub_def blit_def)
  have "received rt body t2" using wf by (simp add: received_def t1_def t2_def)
  moreover have "read_frame rt = (case read_into t2 7 (unat (7 + n)) of
     None \<Rightarrow> None | Some (t3, Some err) \<Rightarrow> Some (t3, Inl err) | Some (t3, None) \<Rightarrow> Some (t3, Inr (ty, n)))"
    unfolding read_frame_def Let_def using r1 r2 h by (simp split: option.split)
  ultimately show thesis by (rule that)
qed

text \<open>
  \<^verbatim>\<open>ReadMessage\<close> trusts the length field of the peer: it computes the end of the body in
  \<^verbatim>\<open>uint16\<close>, so a frame header announcing 65529 bytes or more makes the slice bound wrap round below
  its start, and the reader panics. Every shorter announced length is read without a panic.
\<close>
theorem ReadMessage_length_wraps:
  assumes "wf_transport rt" "inb (upstream rt) = magic rt @ ty # put_be16 n @ body"
  shows "(read_frame rt = None \<longleftrightarrow> 65529 \<le> unat n) \<and> (65529 \<le> unat n \<longrightarrow> ReadMessage rt data = None)"
proof -
  obtain t2 where t2: "received rt body t2" "read_frame rt = (case read_into t2 7 (unat (7 + n)) of
     None \<Rightarrow> None | Some (t3, Some err) \<Rightarrow> Some (t3, Inl err) | Some (t3, None) \<Rightarrow> Some (t3, Inr (ty, n)))"
    using read_frame_header [OF assms] by blast
  have lt: "unat n < 65536" by (rule unat16_less)
  have "read_frame rt = None \<longleftrightarrow> 65529 \<le> unat n"
  proof (cases "65529 \<le> unat n")
    case True
    then have "unat (7 + n) < 7" by (intro wrapped_length) (simp add: word_le_nat_alt)
    then show ?thesis using True t2 by (simp add: read_into_def)
  next
    case False
    have "unat (7 + n) = 7 + unat n" using length16 [of "unat n"] False by simp
    then show ?thesis
      using False t2 by (auto simp: read_into_def split: option.splits prod.splits)
  qed
  moreover have "read_frame rt = None \<Longrightarrow> ReadMessage rt data = None" by (simp add: ReadMessage_def)
  ultimately show ?thesis by blast
qed

theorem ReadMessage_length_wraps_witness:
  "ReadMessage (plain_transport (plain_up\<lparr>inb := transportMagicBytes @ [0, 0xFF, 0xF9]\<rparr>)) (replicate 4 0) = None"
proof -
  have "put_be16 65529 = [0xFF, 0xF9]" by (simp add: put_be16_def drop_bit_eq_div)
  then show ?thesis
    using ReadMessage_length_wraps [of "plain_transport (plain_up\<lparr>inb := transportMagicBytes @ [0, 0xFF, 0xF9]\<rparr>)"
        0 65529 "[]" "replicate 4 0"]
    by simp
qed

lemma read_into_short:
  assumes "in_range lo hi" "length (inb (upstream t)) < hi - lo" "rfault (upstream t) = EOF"
  shows "\<exists>t'. read_into t lo hi = Some (t', Some (if inb (upstream t) = [] then EOF else ErrUnexpectedEOF))"
  using assms by (simp add: read_into_def ReadFull_def)

lemma read_frame_truncated:
  assumes wf: "wf_transport rt" and eof: "rfault (upstream rt) = EOF"
    and inp: "frame (magic rt) ty d = inb (upstream rt) @ missing" "missing \<noteq> []" and len: "length d \<le> 65528"
  shows "\<exists>rt'. read_frame rt = Some (rt', Inl (if length (inb (upstream rt)) \<in> {0, 4, 7} then EOF else ErrUnexpectedEOF))"
proof -
  let ?i = "inb (upstream rt)" and ?n = "put_be16 (of_nat (length d))"
  have fr: "frame (magic rt) ty d = magic rt @ ty # ?n @ d" by (simp add: frame_def inner_msg_def)
  have li: "length ?i + length missing = 7 + length d"
    using arg_cong [OF inp(1), of length] wf by simp
  have i: "?i = take (length ?i) (magic rt @ ty # ?n @ d)" using inp(1) fr by (metis append_eq_conv_conj)
  consider (magic) "length ?i < 4" | (header) "4 \<le> length ?i" "length ?i < 7" | (body) "7 \<le> length ?i" by linarith
  then show ?thesis
  proof cases
    case magic
    then show ?thesis
      using read_into_short [of 0 4 rt] eof by (auto simp: read_frame_def)
  next
    case header
    define x where "x = take (length ?i - 4) (ty # ?n @ d)"
    have x: "?i = magic rt @ x" using i header wf by (simp add: x_def)
    have l: "length x < 3" using header wf by (simp add: x)
    define t1 where "t1 = set_buf 0 (magic rt) (rt\<lparr>upstream := (upstream rt)\<lparr>inb := x\<rparr>\<rparr>)"
    have "read_into rt 0 4 = Some (t1, None)" "sub 0 4 (buffer t1) = magic t1"
      using read_into_ok [of rt "magic rt" x 4 0] wf x by (simp_all add: t1_def buf_simps)
    moreover have "\<exists>t'. read_into t1 4 7 = Some (t', Some (if x = [] then EOF else ErrUnexpectedEOF))"
      using read_into_short [of 4 7 t1] eof l by (simp add: t1_def)
    ultimately show ?thesis
      using l wf by (auto simp: read_frame_def x)
  next
    case body
    define b where "b = take (length ?i - 7) d"
    have b: "?i = magic rt @ ty # ?n @ b"
      using i body wf by (simp add: b_def take_Cons')
    obtain t2 where t2: "received rt b t2" "read_frame rt = (case read_into t2 7 (unat (7 + of_nat (length d) :: uint16)) of
       None \<Rightarrow> None | Some (t3, Some err) \<Rightarrow> Some (t3, Inl err) | Some (t3, None) \<Rightarrow> Some (t3, Inr (ty, of_nat (length d))))"
      using read_frame_header [OF wf b] by blast
    have "length b < length d" using li wf inp(2) by (cases missing) (auto simp: b)
    then have "\<exists>t'. read_into t2 7 (7 + length d) = Some (t', Some (if b = [] then EOF else ErrUnexpectedEOF))"
      using read_into_short [of 7 "7 + length d" t2] t2(1) eof len by (simp add: received_def)
    then show ?thesis
      using t2(2) len wf by (auto simp: b)
  qed
qed

text \<open>
  C25. A connection that ends inside a frame: \<^verbatim>\<open>ReadMessage\<close> reports \<open>EOF\<close> when the stream ended at
  the start of the frame, between its magic and its type, or right after the length field, and
  \<open>ErrUnexpectedEOF\<close> anywhere else; it never delivers part of a message.
\<close>
theorem ReadMessage_truncated:
  assumes "wf_transport rt" "rfault (upstream rt) = EOF" "length d \<le> 65528"
    and "frame (magic rt) ty d = inb (upstream rt) @ missing" "missing \<noteq> []"
  shows "\<exists>rt'. ReadMessage rt data = Some (rt', data, 0, 0,
           Some (if length (inb (upstream rt)) \<in> {0, 4, 7} then EOF else ErrUnexpectedEOF))"
  using read_frame_truncated [OF assms(1,2,4,5,3)] by (auto simp: ReadMessage_def)

theorem ReadMessage_truncated_witness:
  "\<exists>rt'. ReadMessage (plain_transport (plain_up\<lparr>inb := transportMagicBytes @ [0, 0, 2, 9]\<rparr>)) [5] =
     Some (rt', [5], 0, 0, Some ErrUnexpectedEOF)"
  using ReadMessage_truncated [of "plain_transport (plain_up\<lparr>inb := transportMagicBytes @ [0, 0, 2, 9]\<rparr>)" "[9, 8]" 0 "[8]" "[5]"]
  by (simp add: frame_def inner_msg_def put_be16_def transportMagicBytes_def)

lemma batch_room_small: "32756 < n \<Longrightarrow> n \<le> 65525 \<Longrightarrow> batch_room n < 3 + n + 17"
  unfolding fits_twice_def batch_room_def by (cases "3 + n + 17 \<le> 65535 - (3 + n)") auto

text \<open>
  A compressed batch of more than 32756 bytes is never sent: \<^verbatim>\<open>batchWrite\<close> puts the message
  into the array it also compresses into, what is left there is less than the compressor asks for,
  and the whole batch fails with the compressor's error.
\<close>
theorem batchWrite_zstd_large_fails:
  assumes "wf_transport t" "wfault (upstream t) = None" "codecs_ok t" "length r = 24"
    and "valid_batch buf sizes h"
    and "compress t" "compressor t = Some (ZstdCompressor z level)" "compressThreshold t \<le> 32757"
    and "32756 < 2 + 2 * length sizes + sum_list sizes" "2 + 2 * length sizes + sum_list sizes \<le> 65525"
  shows "\<exists>t'. batchWrite t (Some r) buf sizes h = Some (t', 0, Some (ErrorNew ''buffer capacity too small'')) \<and>
             newly_sent t t' = []"
proof -
  let ?d = "batch_payload (packets buf sizes h)"
  have len: "length ?d = 2 + 2 * length sizes + sum_list sizes"
    using assms by (simp add: length_batch_payload packets_lengths)
  then have nf: "batch_room (length ?d) < 3 + length ?d + 17"
    using assms(9,10) by (intro batch_room_small) simp_all
  have "Compress (ZstdCompressor z level) (inner_msg TypeBatchTransport ?d) (batch_room (length ?d)) =
      Inl (ErrorNew ''buffer capacity too small'')"
    using nf by (intro zstd_Compress_small_target) simp_all
  then have "spec_batch t r ?d = Inl (ErrorNew ''buffer capacity too small'')"
    using assms len by (simp add: spec_batch_def pack_def)
  moreover have "writes t (batchWrite t (Some r) buf sizes h) (spec_batch t r ?d)"
    by (rule batchWrite_writes) (use assms in auto)
  ultimately show ?thesis by (auto simp: writes_def)
qed

theorem batchWrite_zstd_large_fails_witness:
  "\<exists>t'. batchWrite (secure_transport plain_up) (Some (replicate 24 7)) (replicate 24 (replicate 1400 0)) (replicate 24 1400) 0 =
     Some (t', 0, Some (ErrorNew ''buffer capacity too small''))"
  using batchWrite_zstd_large_fails [of "secure_transport plain_up" "replicate 24 7" "replicate 24 (replicate 1400 0)"
      "replicate 24 1400" 0 rle_zstd 2]
  by (auto simp: valid_batch_def list_all2_conv_all_nth sum_list_replicate)

lemma collect_all:
  assumes "e \<le> length sizes" "length sizes - start \<le> 128" "2 * (length sizes - e) + sum_list (drop e sizes) \<le> r"
  shows "collect sizes (length sizes) start e r = Some (length sizes)"
  using assms
proof (induction "length sizes - e" arbitrary: e r)
  case 0
  then show ?case by (subst collect.simps) simp
next
  case (Suc n)
  then have e: "e < length sizes" by simp
  have d: "drop e sizes = sizes ! e # drop (e + 1) sizes" using e Cons_nth_drop_Suc by fastforce
  have "2 * (length sizes - e) = 2 + 2 * (length sizes - (e + 1))" using e by simp
  then have r: "2 + sizes ! e \<le> r" "2 * (length sizes - (e + 1)) + sum_list (drop (e + 1) sizes) \<le> r - (2 + sizes ! e)"
    using Suc.prems(3) d by auto
  have "collect sizes (length sizes) start (e + 1) (r - (2 + sizes ! e)) = Some (length sizes)"
    using Suc.hyps(1) [of "e + 1"] Suc.hyps(2) Suc.prems(2) r(2) e by simp
  moreover have "e - start < 128" using Suc.prems(2) e by simp
  ultimately show ?case using e r(1) by (subst collect.simps) simp
qed

text \<open>
  The space \<^verbatim>\<open>BatchWrite\<close> reserves for encryption covers the tag of the cipher but not its nonce
  and the inner header: it still accepts payloads of 65486 to 65512 bytes as one batch, and sending
  such a batch fails as a whole with \<open>ErrMessageTooLarge\<close>.
\<close>

theorem BatchWrite_overhead_too_small:
  assumes "wf_transport t" "wfault (upstream t) = None" "codecs_ok t" "encrypting t" "\<not> compress t"
    and "\<And>i. \<exists>r. rnds i = Some r \<and> length r = 24" "valid_batch buf sizes h" "length sizes \<le> 128"
    and "65486 \<le> 2 + 2 * length sizes + sum_list sizes" "2 + 2 * length sizes + sum_list sizes \<le> 65512"
  shows "\<exists>t'. BatchWrite t rnds buf sizes h = Some (t', 0, Some ErrMessageTooLarge) \<and> newly_sent t t' = []"
proof -
  let ?d = "batch_payload (packets buf sizes h)"
  have l: "length buf = length sizes" using assms valid_batch_length by blast
  have len: "length ?d = 2 + 2 * length sizes + sum_list sizes"
    using assms by (simp add: length_batch_payload packets_lengths)
  obtain r where r: "rnds 0 = Some r" "length r = 24" using assms by blast
  have "baseOverhead t = 25" using assms(4) by (simp add: baseOverhead_def encrypting_def)
  then have c: "collect sizes (length buf) 0 0 (65535 - baseOverhead t) = Some (length sizes)"
    using collect_all [of 0 sizes 0] assms l by simp
  have "pack batch_room t TypeBatchTransport ?d = Inr (TypeBatchTransport, ?d)"
    using assms(5) by (simp add: pack_def split: option.splits)
  then have "spec_batch t r ?d = Inl ErrMessageTooLarge"
    using assms(4,5,9) len by (simp add: spec_batch_def compressing_def)
  moreover have "writes t (batchWrite t (Some r) buf sizes h) (spec_batch t r ?d)"
    by (rule batchWrite_writes) (use assms r in auto)
  ultimately obtain t' where "batchWrite t (Some r) buf sizes h = Some (t', 0, Some ErrMessageTooLarge)" "sent t [] t'"
    by (auto simp: writes_def)
  moreover have "0 < length sizes" using assms(9) by (cases sizes) auto
  ultimately show ?thesis
    using c l r by (auto simp: BatchWrite_def BatchWrite_loop.simps)
qed

theorem BatchWrite_overhead_too_small_witness:
  "\<exists>t'. BatchWrite ((secure_transport plain_up)\<lparr>compress := False\<rparr>) (\<lambda>i. Some (replicate 24 7))
     (replicate 50 (replicate 1308 0)) (replicate 50 1308) 0 = Some (t', 0, Some ErrMessageTooLarge)"
proof -
  let ?t = "(secure_transport plain_up)\<lparr>compress := False\<rparr>"
  have "wf_transport ?t" "wfault (upstream ?t) = None" "codecs_ok ?t" "encrypting ?t" "\<not> compress ?t"
    using secure_fields(1) [of plain_up] demo_codecs_ok(1) [of plain_up]
    unfolding wf_transport_def codecs_ok_def encrypting_def by simp_all
  then show ?thesis
    using BatchWrite_overhead_too_small [of ?t "\<lambda>i. Some (replicate 24 7)" "replicate 50 (replicate 1308 0)" "replicate 50 1308" 0]
    by (auto simp: valid_batch_def list_all2_conv_all_nth sum_list_replicate)
qed

end
