(* ===== verification/Net_Std.thy ===== *)
theory Net_Std
  imports VNet_Prelude
begin

text \<open>
  What the program uses of Go's package \<^verbatim>\<open>net\<close>: addresses as byte slices, \<^verbatim>\<open>ParseIP\<close> and
  \<^verbatim>\<open>ParseCIDR\<close> with the IPv4 and IPv6 parsers behind them (\<^verbatim>\<open>net/netip\<close>), masks and \<^verbatim>\<open>To4\<close>. A \<^verbatim>\<open>nil\<close>
  address and a parse error are \<open>None\<close>. Strings are byte strings.
\<close>

section \<open>Addresses and masks\<close>

definition v4InV6Prefix :: bytes where
  "v4InV6Prefix = replicate 10 0 @ [0xFF, 0xFF]"

lemma length_v4InV6Prefix [simp]: "length v4InV6Prefix = 12"
  by (simp add: v4InV6Prefix_def)

definition To4 :: "bytes \<Rightarrow> bytes option" where
  "To4 ip = (if length ip = 4 then Some ip
             else if length ip = 16 \<and> take 12 ip = v4InV6Prefix then Some (drop 12 ip) else None)"

definition To16 :: "bytes \<Rightarrow> bytes option" where
  "To16 ip = (if length ip = 4 then Some (v4InV6Prefix @ ip)
              else if length ip = 16 then Some ip else None)"

text \<open>\<open>CIDRMask ones l\<close>: the mask of \<open>l\<close> bytes whose first \<open>ones\<close> bits are set.\<close>

fun CIDRMask :: "nat \<Rightarrow> nat \<Rightarrow> bytes" where
  "CIDRMask n 0 = []"
| "CIDRMask n (Suc l) =
     (if 8 \<le> n then 0xFF # CIDRMask (n - 8) l
      else NOT (drop_bit n 0xFF) # CIDRMask 0 l)"

text \<open>\<^verbatim>\<open>IP.Mask\<close>, for an address and a mask as \<^verbatim>\<open>ParseCIDR\<close> combines them.\<close>

definition IP_Mask :: "bytes \<Rightarrow> bytes \<Rightarrow> bytes option" where
  "IP_Mask ip m =
     (let mk' = (if length m = 16 \<and> length ip = 4 \<and> take 12 m = replicate 12 0xFF
                   then drop 12 m else m);
          ip' = (if length mk' = 4 \<and> length ip = 16 \<and> take 12 ip = v4InV6Prefix
                 then drop 12 ip else ip)
      in if length ip' \<noteq> length mk' then None else Some (map2 (AND) ip' mk'))"

text \<open>The first component of \<^verbatim>\<open>IPMask.Size\<close>: the prefix length, 0 for a mask that is not a prefix.\<close>

fun leading_ones :: "nat \<Rightarrow> byte \<Rightarrow> nat" where
  "leading_ones 0 b = 0"
| "leading_ones (Suc k) b = (if bit b 7 then Suc (leading_ones k (push_bit 1 b)) else 0)"

fun simpleMaskLength :: "bytes \<Rightarrow> nat option" where
  "simpleMaskLength [] = Some 0"
| "simpleMaskLength (v # m) =
     (if v = 0xFF then map_option ((+) 8) (simpleMaskLength m)
      else let k = leading_ones 8 v in
           if push_bit k v \<noteq> 0 \<or> (\<exists>x \<in> set m. x \<noteq> 0) then None else Some k)"

definition Mask_Size :: "bytes \<Rightarrow> nat" where
  "Mask_Size m = (case simpleMaskLength m of None \<Rightarrow> 0 | Some n \<Rightarrow> n)"

section \<open>Parsing addresses\<close>

definition digit :: "char \<Rightarrow> nat option" where
  "digit c = (let n = of_char c in if 48 \<le> n \<and> n \<le> 57 then Some (n - 48) else None)"

definition hexdigit :: "char \<Rightarrow> nat option" where
  "hexdigit c =
     (let n = of_char c in
      if 48 \<le> n \<and> n \<le> 57 then Some (n - 48)
      else if 97 \<le> n \<and> n \<le> 102 then Some (n - 97 + 10)
      else if 65 \<le> n \<and> n \<le> 70 then Some (n - 65 + 10) else None)"

text \<open>
  \<^verbatim>\<open>parseIPv4Fields\<close>: the value and the number of digits of the current field, and the fields before
  it. A dot needs a digit before it and a character after it.
\<close>

fun parse_v4 :: "string \<Rightarrow> nat \<Rightarrow> nat \<Rightarrow> bytes \<Rightarrow> bytes option" where
  "parse_v4 [] v d fs = (if length fs < 3 then None else Some (fs @ [of_nat v]))"
| "parse_v4 (c # s) v d fs =
     (case digit c of
        Some n \<Rightarrow> if d = 1 \<and> v = 0 then None
                  else if v * 10 + n > 255 then None else parse_v4 s (v * 10 + n) (d + 1) fs
      | None \<Rightarrow> if c \<noteq> CHR ''.'' then None
                else if d = 0 \<or> s = [] then None
                else if length fs = 3 then None else parse_v4 s 0 0 (fs @ [of_nat v]))"

text \<open>One group of hexadecimal digits: their number, the value and the rest; at most four.\<close>

fun hex_group :: "string \<Rightarrow> nat \<Rightarrow> nat \<Rightarrow> (nat \<times> nat \<times> string) option" where
  "hex_group [] off acc = Some (off, acc, [])"
| "hex_group (c # s) off acc =
     (case hexdigit c of
        None \<Rightarrow> Some (off, acc, c # s)
      | Some n \<Rightarrow> if off > 3 then None else hex_group s (off + 1) (acc * 16 + n))"

text \<open>The end of \<^verbatim>\<open>parseIPv6\<close>: nothing may be left, and the ellipsis is expanded.\<close>

definition v6_finish :: "string \<Rightarrow> bytes \<Rightarrow> nat option \<Rightarrow> bytes option" where
  "v6_finish s ip ellipsis =
     (if s \<noteq> [] then None
      else if length ip < 16 then
        (case ellipsis of
           None \<Rightarrow> None
         | Some e \<Rightarrow> Some (take e ip @ replicate (16 - length ip) 0 @ drop e ip))
      else if ellipsis \<noteq> None then None else Some ip)"

function v6_loop :: "string \<Rightarrow> bytes \<Rightarrow> nat option \<Rightarrow> bytes option" where
  "v6_loop s ip ellipsis =
     (if \<not> length ip < 16 then v6_finish s ip ellipsis
      else case hex_group s 0 0 of
        None \<Rightarrow> None
      | Some (off, acc, s') \<Rightarrow>
          if off = 0 then None
          else if s' \<noteq> [] \<and> hd s' = CHR ''.'' then
            if ellipsis = None \<and> length ip \<noteq> 12 then None
            else if length ip + 4 > 16 then None
            else (case parse_v4 s 0 0 [] of
                    None \<Rightarrow> None
                  | Some f \<Rightarrow> v6_finish [] (ip @ f) ellipsis)
          else
            let ip' = ip @ put_be16 (of_nat acc) in
            (case s' of
               [] \<Rightarrow> v6_finish [] ip' ellipsis
             | c # s2 \<Rightarrow>
                 if c \<noteq> CHR '':'' \<or> s2 = [] then None
                 else if hd s2 = CHR '':'' then
                   if ellipsis \<noteq> None then None
                   else if tl s2 = [] then v6_finish [] ip' (Some (length ip'))
                   else v6_loop (tl s2) ip' (Some (length ip'))
                 else v6_loop s2 ip' ellipsis))"
  by pat_completeness auto
termination
  by (relation "measure (\<lambda>(s, ip, ellipsis). 16 - length ip)") auto

declare v6_loop.simps [simp del]

text \<open>A zone (\<^verbatim>\<open>%\<close>) is refused by both callers of the parser.\<close>

definition parse_v6 :: "string \<Rightarrow> bytes option" where
  "parse_v6 s =
     (if CHR ''%'' \<in> set s then None
      else if take 2 s = ''::'' then
        if length s = 2 then Some (replicate 16 0) else v6_loop (drop 2 s) [] (Some 0)
      else v6_loop s [] None)"

text \<open>\<^verbatim>\<open>netip.ParseAddr\<close>: an IPv4 address (4 bytes) or an IPv6 address (16 bytes).\<close>

definition ParseAddr :: "string \<Rightarrow> bytes option" where
  "ParseAddr s =
     (case filter (\<lambda>c. c = CHR ''.'' \<or> c = CHR '':'' \<or> c = CHR ''%'') s of
        [] \<Rightarrow> None
      | c # _ \<Rightarrow> if c = CHR ''.'' then parse_v4 s 0 0 []
                 else if c = CHR '':'' then parse_v6 s else None)"

definition As16 :: "bytes \<Rightarrow> bytes" where
  "As16 ip = (if length ip = 4 then v4InV6Prefix @ ip else ip)"

definition ParseIP :: "string \<Rightarrow> bytes option" where
  "ParseIP s = map_option As16 (ParseAddr s)"

text \<open>\<^verbatim>\<open>dtoi\<close>: leading decimal digits; fails on none and on values from \<open>0xFFFFFF\<close> on.\<close>

fun dtoi :: "string \<Rightarrow> nat \<Rightarrow> nat \<Rightarrow> (nat \<times> string) option" where
  "dtoi [] n i = (if i = 0 then None else Some (n, []))"
| "dtoi (c # s) n i =
     (case digit c of
        None \<Rightarrow> if i = 0 then None else Some (n, c # s)
      | Some d \<Rightarrow> if n * 10 + d \<ge> 0xFFFFFF then None else dtoi s (n * 10 + d) (i + 1))"

text \<open>
  \<^verbatim>\<open>ParseCIDR\<close>: the address in its 16-byte form, and the network's address and mask. \<open>None\<close> in the
  network's address is Go's \<^verbatim>\<open>nil\<close>, which the code never produces here.
\<close>

definition ParseCIDR :: "string \<Rightarrow> (bytes \<times> bytes \<times> bytes) option" where
  "ParseCIDR s =
     (let addr = takeWhile ((\<noteq>) CHR ''/'') s; r = dropWhile ((\<noteq>) CHR ''/'') s in
      case r of
        [] \<Rightarrow> None
      | _ # m \<Rightarrow>
          (case ParseAddr addr of
             None \<Rightarrow> None
           | Some ip \<Rightarrow>
               (case dtoi m 0 0 of
                  None \<Rightarrow> None
                | Some (n, left) \<Rightarrow>
                    if left \<noteq> [] \<or> n > 8 * length ip then None
                    else let mk = CIDRMask n (length ip) in
                         (case IP_Mask (As16 ip) mk of
                            None \<Rightarrow> None
                          | Some net \<Rightarrow> Some (As16 ip, net, mk)))))"

section \<open>Shapes of the results\<close>

lemma parse_v4_length: "parse_v4 s v d fs = Some ip \<Longrightarrow> length fs \<le> 3 \<Longrightarrow> length ip = 4"
  by (induction s v d fs rule: parse_v4.induct) (auto split: if_splits option.splits)

lemma v6_finish_length:
  "v6_finish s ip e = Some r \<Longrightarrow> length ip \<le> 16 \<Longrightarrow> (\<And>k. e = Some k \<Longrightarrow> k \<le> length ip) \<Longrightarrow> length r = 16"
  by (auto simp: v6_finish_def split: if_splits option.splits)

lemma v6_loop_length:
  assumes "v6_loop s ip e = Some r" "length ip \<le> 16" "even (length ip)" "\<And>k. e = Some k \<Longrightarrow> k \<le> length ip"
  shows "length r = 16"
  using assms
proof (induction s ip e rule: v6_loop.induct)
  case (1 s ip e)
  show ?case
  proof (cases "length ip < 16")
    case False
    then show ?thesis using "1.prems" v6_finish_length [of s ip e r] by (simp add: v6_loop.simps)
  next
    case True
    then have l: "length ip + 2 \<le> 16" using "1.prems"(3) by presburger
    obtain off acc s' where h: "hex_group s 0 0 = Some (off, acc, s')"
      using "1.prems"(1) True by (subst (asm) v6_loop.simps) (auto split: option.splits)
    let ?ip = "ip @ put_be16 (of_nat acc)"
    note IH = "1.IH" [OF _ h refl refl] and fin = v6_finish_length
    note unf = "1.prems"(1) [unfolded v6_loop.simps [of s ip e] h Let_def]
    consider (dot) f where "parse_v4 s 0 0 [] = Some f" "length ip + 4 \<le> 16" "v6_finish [] (ip @ f) e = Some r"
      | (fin1) "v6_finish [] ?ip e = Some r" | (fin2) "v6_finish [] ?ip (Some (length ?ip)) = Some r"
      | (go1) c s2 where "s' = c # s2" "v6_loop (tl s2) ?ip (Some (length ?ip)) = Some r" "off \<noteq> 0"
          "\<not> (s' \<noteq> [] \<and> hd s' = CHR ''.'')" "\<not> (c \<noteq> CHR '':'' \<or> s2 = [])" "hd s2 = CHR '':''" "e = None" "tl s2 \<noteq> []"
      | (go2) c s2 where "s' = c # s2" "v6_loop s2 ?ip e = Some r" "off \<noteq> 0"
          "\<not> (s' \<noteq> [] \<and> hd s' = CHR ''.'')" "\<not> (c \<noteq> CHR '':'' \<or> s2 = [])" "hd s2 \<noteq> CHR '':''"
      using unf True by (auto split: if_splits option.splits list.splits)
    then show ?thesis
    proof cases
      case dot
      then show ?thesis using fin [of "[]" "ip @ f" e r] parse_v4_length [of s 0 0 "[]" f] "1.prems"(4)
        by (auto intro: trans_le_add1)
    next
      case fin1
      then show ?thesis using fin [of "[]" ?ip e r] l "1.prems"(4) by (auto intro: le_SucI)
    next
      case fin2
      then show ?thesis using fin [of "[]" ?ip "Some (length ?ip)" r] l by auto
    next
      case go1
      then show ?thesis using "1.IH"(1) [OF _ h] True l "1.prems"(3) by auto
    next
      case go2
      then show ?thesis using "1.IH"(2) [OF _ h] True l "1.prems"(3,4) by fastforce
    qed
  qed
qed

lemma parse_v6_length: "parse_v6 s = Some ip \<Longrightarrow> length ip = 16"
  by (auto simp: parse_v6_def split: if_splits dest: v6_loop_length)

lemma ParseAddr_length: "ParseAddr s = Some ip \<Longrightarrow> length ip = 4 \<or> length ip = 16"
  by (auto simp: ParseAddr_def split: list.splits if_splits dest: parse_v4_length parse_v6_length)

section \<open>Prefix masks\<close>

lemma length_CIDRMask [simp]: "length (CIDRMask n l) = l"
  by (induction n l rule: CIDRMask.induct) auto

lemma CIDRMask_0 [simp]: "CIDRMask 0 l = replicate l 0"
  by (induction l) simp_all

lemma partial_masks:
  "\<forall>n \<in> set [0, 1, 2, 3, 4, 5, 6, 7]. NOT (drop_bit n 0xFF) \<noteq> (0xFF :: byte) \<and>
     leading_ones 8 (NOT (drop_bit n 0xFF)) = n \<and> push_bit n (NOT (drop_bit n 0xFF)) = (0 :: byte)"
  by code_simp

lemma partial_mask:
  assumes "n < 8"
  shows "NOT (drop_bit n 0xFF) \<noteq> (0xFF :: byte)" "leading_ones 8 (NOT (drop_bit n 0xFF)) = n"
    "push_bit n (NOT (drop_bit n 0xFF)) = (0 :: byte)"
proof -
  have "n \<in> set [0, 1, 2, 3, 4, 5, 6, 7]" using assms by auto
  then show "NOT (drop_bit n 0xFF) \<noteq> (0xFF :: byte)" "leading_ones 8 (NOT (drop_bit n 0xFF)) = n"
    "push_bit n (NOT (drop_bit n 0xFF)) = (0 :: byte)"
    using partial_masks by blast+
qed

lemma Mask_Size_CIDRMask [simp]:
  assumes "n \<le> 8 * l"
  shows "Mask_Size (CIDRMask n l) = n"
proof -
  have "simpleMaskLength (CIDRMask n l) = Some n"
    using assms
  proof (induction n l rule: CIDRMask.induct)
    case (2 n l)
    then show ?case using partial_mask [of n] by (cases "8 \<le> n") (auto simp: Let_def)
  qed simp
  then show ?thesis by (simp add: Mask_Size_def)
qed

end
