(* ===== verification/Router.thy ===== *)
theory Router
  imports Net_Std
begin

text \<open>
  The routing table of \<^verbatim>\<open>src/common/router/router.go\<close>: one binary trie for IPv4 and one for IPv6
  prefixes. A node is a value of \<open>trie_node\<close>: nodes are created fresh by their only parent, so the
  pointer structure is a tree. The functions describe each operation as run on its own; the
  compare-and-swap of an insertion then always succeeds. \<open>None\<close> as the result of an operation that
  changes the router is a run-time panic (an index out of range).
\<close>

section \<open>State\<close>

datatype 'v trie_node =
  TrieNode (zero_child: "'v trie_node option") (one_child: "'v trie_node option") (leaf: bool)
    (target: "'v option")

record 'v router =
  v4 :: "'v trie_node"
  v6 :: "'v trie_node"

definition new_node :: "'v trie_node" where
  "new_node = TrieNode None None False None"

definition NewRouter :: "'v router" where
  "NewRouter = \<lparr>v4 = new_node, v6 = new_node\<rparr>"

section \<open>Walking an address\<close>

definition bitVal :: "bytes \<Rightarrow> nat \<Rightarrow> byte" where
  "bitVal ip i = drop_bit (7 - i mod 8) (ip ! (i div 8)) AND 1"

definition child :: "'v trie_node \<Rightarrow> byte \<Rightarrow> 'v trie_node option" where
  "child node b = (if b = 0 then zero_child node else one_child node)"

definition set_child :: "'v trie_node \<Rightarrow> byte \<Rightarrow> 'v trie_node \<Rightarrow> 'v trie_node" where
  "set_child node b c =
     (if b = 0 then TrieNode (Some c) (one_child node) (leaf node) (target node)
      else TrieNode (zero_child node) (Some c) (leaf node) (target node))"

text \<open>\<^verbatim>\<open>if current.leaf.Load() { if target := current.target.Load(); target != nil { ... } }\<close>\<close>

definition load_target :: "'v trie_node \<Rightarrow> 'v option \<Rightarrow> 'v option" where
  "load_target node best = (if leaf node \<and> target node \<noteq> None then target node else best)"

text \<open>The loop of \<^verbatim>\<open>lookupIPv4\<close> and \<^verbatim>\<open>lookupIPv6\<close> with \<open>k\<close> rounds to go.\<close>

fun lookup_loop :: "bytes \<Rightarrow> nat \<Rightarrow> nat \<Rightarrow> 'v trie_node \<Rightarrow> 'v option \<Rightarrow> 'v option" where
  "lookup_loop ip i 0 current best = load_target current best"
| "lookup_loop ip i (Suc k) current best =
     (let best' = load_target current best in
      case child current (bitVal ip i) of
        None \<Rightarrow> load_target current best'
      | Some next \<Rightarrow> lookup_loop ip (i + 1) k next best')"

fun insert_loop :: "bytes \<Rightarrow> nat \<Rightarrow> nat \<Rightarrow> 'v \<Rightarrow> 'v trie_node \<Rightarrow> 'v trie_node option" where
  "insert_loop ip i 0 val node = Some (TrieNode (zero_child node) (one_child node) True (Some val))"
| "insert_loop ip i (Suc k) val node =
     (if length ip \<le> i div 8 then None
      else let b = bitVal ip i;
               next = (case child node b of None \<Rightarrow> new_node | Some n \<Rightarrow> n)
           in map_option (set_child node b) (insert_loop ip (i + 1) k val next))"

fun remove_loop :: "bytes \<Rightarrow> nat \<Rightarrow> nat \<Rightarrow> 'v trie_node \<Rightarrow> 'v trie_node option" where
  "remove_loop ip i 0 node = Some (TrieNode (zero_child node) (one_child node) False None)"
| "remove_loop ip i (Suc k) node =
     (if length ip \<le> i div 8 then None
      else let b = bitVal ip i in
           case child node b of
             None \<Rightarrow> Some node
           | Some next \<Rightarrow> map_option (set_child node b) (remove_loop ip (i + 1) k next))"

section \<open>IPv4 and IPv6 tables\<close>

definition lookupIPv4 :: "'v router \<Rightarrow> bytes \<Rightarrow> 'v option" where
  "lookupIPv4 r ip = (if length ip \<noteq> 4 then None else lookup_loop ip 0 32 (v4 r) None)"

definition lookupIPv6 :: "'v router \<Rightarrow> bytes \<Rightarrow> 'v option" where
  "lookupIPv6 r ip = (if length ip \<noteq> 16 then None else lookup_loop ip 0 128 (v6 r) None)"

definition insertIPv4 :: "'v router \<Rightarrow> bytes \<Rightarrow> nat \<Rightarrow> 'v \<Rightarrow> 'v router option" where
  "insertIPv4 r ip ones val =
     (if length ip \<noteq> 4 then Some r
      else map_option (\<lambda>n. r\<lparr>v4 := n\<rparr>) (insert_loop ip 0 ones val (v4 r)))"

definition insertIPv6 :: "'v router \<Rightarrow> bytes \<Rightarrow> nat \<Rightarrow> 'v \<Rightarrow> 'v router option" where
  "insertIPv6 r ip ones val =
     (if length ip \<noteq> 16 then Some r
      else map_option (\<lambda>n. r\<lparr>v6 := n\<rparr>) (insert_loop ip 0 ones val (v6 r)))"

definition removeIPv4 :: "'v router \<Rightarrow> bytes \<Rightarrow> nat \<Rightarrow> 'v router option" where
  "removeIPv4 r ip ones =
     (if length ip \<noteq> 4 then Some r
      else map_option (\<lambda>n. r\<lparr>v4 := n\<rparr>) (remove_loop ip 0 ones (v4 r)))"

definition removeIPv6 :: "'v router \<Rightarrow> bytes \<Rightarrow> nat \<Rightarrow> 'v router option" where
  "removeIPv6 r ip ones =
     (if length ip \<noteq> 16 then Some r
      else map_option (\<lambda>n. r\<lparr>v6 := n\<rparr>) (remove_loop ip 0 ones (v6 r)))"

section \<open>The operations of a router\<close>

text \<open>\<open>None\<close>: no route.\<close>

definition Route :: "'v router \<Rightarrow> bytes \<Rightarrow> 'v option" where
  "Route r buf =
     (if length buf < 20 then None
      else let version = drop_bit 4 (buf ! 0) AND 0x0F in
        if version = 4 then
          let ihl = buf ! 0 AND 0x0F in
          if ihl < 5 \<or> unat (ihl * 4) > length buf then None
          else lookupIPv4 r (sub 16 4 buf)
        else if version = 6 then
          if length buf < 40 then None else lookupIPv6 r (sub 24 16 buf)
        else None)"

definition RouteString :: "'v router \<Rightarrow> string \<Rightarrow> 'v option" where
  "RouteString r addr =
     (case ParseIP addr of
        None \<Rightarrow> None
      | Some ip \<Rightarrow>
          (case To4 ip of
             Some ip4 \<Rightarrow> lookupIPv4 r ip4
           | None \<Rightarrow> (case To16 ip of Some ip6 \<Rightarrow> lookupIPv6 r ip6 | None \<Rightarrow> None)))"

definition Register :: "'v router \<Rightarrow> string \<Rightarrow> 'v \<Rightarrow> 'v router option" where
  "Register r addr val =
     (case ParseCIDR addr of
        None \<Rightarrow> Some r
      | Some (_, ip, m) \<Rightarrow>
          let ones = Mask_Size m in
          (case To4 ip of
             Some ip4 \<Rightarrow> insertIPv4 r ip4 ones val
           | None \<Rightarrow> (case To16 ip of Some ip6 \<Rightarrow> insertIPv6 r ip6 ones val | None \<Rightarrow> Some r)))"

definition UnRegister :: "'v router \<Rightarrow> string \<Rightarrow> 'v router option" where
  "UnRegister r addr =
     (case ParseCIDR addr of
        None \<Rightarrow> Some r
      | Some (_, ip, m) \<Rightarrow>
          let ones = Mask_Size m in
          (case To4 ip of
             Some ip4 \<Rightarrow> removeIPv4 r ip4 ones
           | None \<Rightarrow> (case To16 ip of Some ip6 \<Rightarrow> removeIPv6 r ip6 ones | None \<Rightarrow> Some r)))"

text \<open>
  The loop of \<^verbatim>\<open>RouteBatch\<close>, with \<open>i\<close> packets still to go, from the last one down; \<open>targets\<close> holds
  \<open>None\<close> for \<^verbatim>\<open>nil\<close>.
\<close>

fun RouteBatch_loop ::
    "'v router \<Rightarrow> bytes list \<Rightarrow> nat \<Rightarrow> 'v option list \<Rightarrow> nat \<Rightarrow> ('v option list \<times> nat) option" where
  "RouteBatch_loop r packets 0 targets count = Some (targets, count)"
| "RouteBatch_loop r packets (Suc i) targets count =
     (if length targets \<le> i then None
      else case Route r (packets ! i) of
        Some t \<Rightarrow> RouteBatch_loop r packets i (targets[i := Some t]) (count + 1)
      | None \<Rightarrow> RouteBatch_loop r packets i (targets[i := None]) count)"

definition RouteBatch :: "'v router \<Rightarrow> bytes list \<Rightarrow> 'v option list \<Rightarrow> ('v option list \<times> nat) option" where
  "RouteBatch r packets targets = RouteBatch_loop r packets (length packets) targets 0"

section \<open>Printing\<close>

function itoa_loop :: "int \<Rightarrow> string \<Rightarrow> string" where
  "itoa_loop n result =
     (if n > 0 then itoa_loop (n div 10) (''0123456789'' ! nat (n mod 10) # result) else result)"
  by pat_completeness auto
termination
  by (relation "measure (\<lambda>(n, result). nat n)") auto

declare itoa_loop.simps [simp del]

definition intToString :: "int \<Rightarrow> string" where
  "intToString n = (if n = 0 then ''0'' else itoa_loop n [])"

function hex_loop :: "uint16 \<Rightarrow> string \<Rightarrow> string" where
  "hex_loop v result =
     (if v > 0 then hex_loop (drop_bit 4 v) (''0123456789abcdef'' ! unat (v AND 0xF) # result)
      else result)"
  by pat_completeness auto
termination
  by (relation "measure (\<lambda>(v, result). unat v)")
     (auto simp: drop_bit_eq_div unat_div word_greater_zero_iff simp flip: unat_gt_0)

declare hex_loop.simps [simp del]

definition uint16ToHex :: "uint16 \<Rightarrow> string" where
  "uint16ToHex v = (if v = 0 then ''0'' else hex_loop v [])"

definition ip4ToString :: "bytes \<Rightarrow> string" where
  "ip4ToString ip =
     intToString (uint (ip ! 0)) @ ''.'' @ intToString (uint (ip ! 1)) @ ''.'' @
     intToString (uint (ip ! 2)) @ ''.'' @ intToString (uint (ip ! 3))"

fun ip6_groups :: "bytes \<Rightarrow> nat \<Rightarrow> nat \<Rightarrow> string \<Rightarrow> string" where
  "ip6_groups ip i 0 result = result"
| "ip6_groups ip i (Suc k) result =
     (let result1 = (if i > 0 then result @ '':'' else result);
          val = push_bit 8 (ucast (ip ! i)) OR ucast (ip ! (i + 1)) :: uint16
      in ip6_groups ip (i + 2) k (result1 @ uint16ToHex val))"

definition ip6ToString :: "bytes \<Rightarrow> string" where
  "ip6ToString ip = ip6_groups ip 0 8 []"

definition set_prefix_bits :: "nat \<Rightarrow> string \<Rightarrow> bytes \<Rightarrow> bytes" where
  "set_prefix_bits width prefix ip =
     fold (\<lambda>i ip. if prefix ! i = CHR ''1''
                  then ip[i div 8 := ip ! (i div 8) OR push_bit (7 - i mod 8) 1] else ip)
       [0..<min width (length prefix)] ip"

definition clear_host_bits :: "nat \<Rightarrow> nat \<Rightarrow> bytes \<Rightarrow> bytes" where
  "clear_host_bits len bits ip =
     (if bits < 8 * len then
        let lastByte = bits div 8; lastBits = bits mod 8;
            ip1 = fold (\<lambda>i ip. ip[i := 0]) [lastByte + 1..<len] ip
        in if lastBits > 0 then ip1[lastByte := ip1 ! lastByte AND NOT (drop_bit lastBits 0xFF)] else ip1
      else ip)"

definition prefixToCIDR :: "string \<Rightarrow> nat \<Rightarrow> bool \<Rightarrow> string" where
  "prefixToCIDR prefix bits isIPv4 =
     (if bits = 0 then if isIPv4 then ''0.0.0.0/0'' else ''::/0''
      else if isIPv4 then
        ip4ToString (clear_host_bits 4 bits (set_prefix_bits 32 prefix (replicate 4 0))) @ ''/'' @
        intToString (int bits)
      else
        ip6ToString (clear_host_bits 16 bits (set_prefix_bits 128 prefix (replicate 16 0))) @ ''/'' @
        intToString (int bits))"

section \<open>Traversals\<close>

text \<open>The calls of \<^verbatim>\<open>fn\<close> that \<^verbatim>\<open>collectRoutes\<close> makes, in order.\<close>

fun collectRoutes :: "'v trie_node \<Rightarrow> string \<Rightarrow> nat \<Rightarrow> nat \<Rightarrow> bool \<Rightarrow> (string \<times> 'v) list" where
  "collectRoutes (TrieNode zr on lf tg) prefix depth maxDepth isIPv4 =
     (if depth \<ge> maxDepth then []
      else (if lf then case tg of Some t \<Rightarrow> [(prefixToCIDR prefix depth isIPv4, t)] | None \<Rightarrow> [] else []) @
           (case zr of Some z \<Rightarrow> collectRoutes z (prefix @ ''0'') (depth + 1) maxDepth isIPv4 | None \<Rightarrow> []) @
           (case on of Some w \<Rightarrow> collectRoutes w (prefix @ ''1'') (depth + 1) maxDepth isIPv4 | None \<Rightarrow> []))"

definition Range :: "'v router \<Rightarrow> (string \<times> 'v) list" where
  "Range r = collectRoutes (v4 r) '''' 0 128 True @ collectRoutes (v6 r) '''' 0 128 False"

definition Keys :: "'v router \<Rightarrow> string list" where
  "Keys r = map fst (Range r)"

definition live :: "'v trie_node \<Rightarrow> bool" where
  "live n \<longleftrightarrow> leaf n \<or> zero_child n \<noteq> None \<or> one_child n \<noteq> None"

text \<open>The bytes \<^verbatim>\<open>collectMD5\<close> writes into the hash.\<close>

fun collectMD5 :: "'v trie_node \<Rightarrow> string \<Rightarrow> nat \<Rightarrow> nat \<Rightarrow> string" where
  "collectMD5 (TrieNode zr on lf tg) prefix depth maxDepth =
     (if depth \<ge> maxDepth then []
      else (if lf \<and> tg \<noteq> None then prefix else []) @
           (case zr of
              Some z \<Rightarrow> if live z then collectMD5 z (prefix @ ''0'') (depth + 1) maxDepth else []
            | None \<Rightarrow> []) @
           (case on of
              Some w \<Rightarrow> if live w then collectMD5 w (prefix @ ''1'') (depth + 1) maxDepth else []
            | None \<Rightarrow> []))"

text \<open>\<open>md5hex\<close> stands for the MD5 of a byte string in hexadecimal.\<close>

definition MD5 :: "(string \<Rightarrow> string) \<Rightarrow> 'v router \<Rightarrow> string" where
  "MD5 md5hex r = md5hex (collectMD5 (v4 r) '''' 0 128 @ collectMD5 (v6 r) '''' 0 128)"

end
