(* ===== verification/Router_Table.thy ===== *)
theory Router_Table
  imports Router
begin

text \<open>
  The tries as tables: a table maps a prefix (a list of bits) to a target, and a lookup is a
  longest-prefix match. The locale \<open>prefix_table\<close> is the contract of one address family towards the
  router; it is interpreted on the IPv4 and on the IPv6 functions.
\<close>

section \<open>Longest-prefix match\<close>

fun lpm_upto :: "(bool list \<Rightarrow> 'v option) \<Rightarrow> bool list \<Rightarrow> nat \<Rightarrow> 'v option" where
  "lpm_upto m bs 0 = m []"
| "lpm_upto m bs (Suc k) = (case m (take (Suc k) bs) of Some v \<Rightarrow> Some v | None \<Rightarrow> lpm_upto m bs k)"

definition lpm :: "(bool list \<Rightarrow> 'v option) \<Rightarrow> bool list \<Rightarrow> 'v option" where
  "lpm m bs = lpm_upto m bs (length bs)"

lemma lpm_upto_Some:
  "lpm_upto m bs n = Some v \<longleftrightarrow>
     (\<exists>k \<le> n. m (take k bs) = Some v \<and> (\<forall>j. k < j \<and> j \<le> n \<longrightarrow> m (take j bs) = None))"
proof (induction n)
  case (Suc n)
  show ?case
  proof (cases "m (take (Suc n) bs)")
    case None
    then show ?thesis using Suc by (auto simp: le_Suc_eq)
  next
    case (Some w)
    then show ?thesis by (auto simp: le_Suc_eq)
  qed
qed auto

lemmas lpm_Some = lpm_upto_Some [of m bs "length bs" v for m bs v, folded lpm_def]

lemma lpm_upto_Cons:
  "lpm_upto m (b # bs) (Suc k) = (case lpm_upto (\<lambda>p. m (b # p)) bs k of Some v \<Rightarrow> Some v | None \<Rightarrow> m [])"
  by (induction k) (auto split: option.splits)

lemma lpm_simps [simp]:
  "lpm m [] = m []"
  "lpm m (b # bs) = (case lpm (\<lambda>p. m (b # p)) bs of Some v \<Rightarrow> Some v | None \<Rightarrow> m [])"
  using lpm_upto_Cons [of m b bs "length bs"] by (simp_all add: lpm_def)

lemma lpm_upto_cong:
  "(\<And>k. k \<le> n \<Longrightarrow> m (take k bs) = m' (take k bs)) \<Longrightarrow> lpm_upto m bs n = lpm_upto m' bs n"
  by (induction n) (force split: option.splits)+

lemma lpm_cong: "(\<And>k. k \<le> length bs \<Longrightarrow> m (take k bs) = m' (take k bs)) \<Longrightarrow> lpm m bs = lpm m' bs"
  unfolding lpm_def by (rule lpm_upto_cong)

lemma lpm_empty [simp]: "lpm (\<lambda>p. None) bs = None"
  by (induction bs) auto

section \<open>A trie as a table\<close>

definition bits_from :: "bytes \<Rightarrow> nat \<Rightarrow> nat \<Rightarrow> bool list" where
  "bits_from ip i k = map (\<lambda>j. bitVal ip j \<noteq> 0) [i..<i + k]"

definition bits :: "bytes \<Rightarrow> bool list" where
  "bits ip = bits_from ip 0 (8 * length ip)"

fun entry :: "'v trie_node \<Rightarrow> bool list \<Rightarrow> 'v option" where
  "entry (TrieNode zr on lf tg) [] = (if lf then tg else None)"
| "entry (TrieNode zr on lf tg) (b # p) =
     (case (if b then on else zr) of None \<Rightarrow> None | Some c \<Rightarrow> entry c p)"

lemma bits_from_0 [simp]: "bits_from ip i 0 = []"
  by (simp add: bits_from_def)

lemma bits_from_Suc: "bits_from ip i (Suc k) = (bitVal ip i \<noteq> 0) # bits_from ip (i + 1) k"
  by (simp add: bits_from_def upt_rec)

lemma length_bits [simp]: "length (bits ip) = 8 * length ip"
  by (simp add: bits_def bits_from_def)

lemma take_bits: "k \<le> 8 * length ip \<Longrightarrow> take k (bits ip) = bits_from ip 0 k"
  by (simp add: bits_def bits_from_def take_map)

lemma entry_Nil: "entry n [] = (if leaf n then target n else None)"
  by (cases n) simp

lemma entry_Cons:
  "entry n ((b \<noteq> 0) # p) = (case child n b of None \<Rightarrow> None | Some c \<Rightarrow> entry c p)"
  by (cases n) (simp add: child_def)

lemma entry_new_node [simp]: "entry new_node = (\<lambda>p. None)"
proof
  fix p show "entry (new_node :: 'a trie_node) p = None" by (cases p) (simp_all add: new_node_def)
qed

lemma load_target_entry: "load_target n best = (case entry n [] of Some v \<Rightarrow> Some v | None \<Rightarrow> best)"
  by (cases "target n") (auto simp: load_target_def entry_Nil)

lemma lookup_loop_lpm:
  "lookup_loop ip i k n best = (case lpm (entry n) (bits_from ip i k) of Some v \<Rightarrow> Some v | None \<Rightarrow> best)"
proof (induction k arbitrary: i n best)
  case 0
  then show ?case by (simp add: load_target_entry)
next
  case (Suc k)
  then show ?case
    by (cases "child n (bitVal ip i)")
       (auto simp: bits_from_Suc entry_Cons load_target_entry Let_def split: option.splits)
qed

text \<open>Replacing one branch of a node changes the table below that branch only.\<close>

lemma entry_set_child:
  "entry (set_child n b c) p =
     (case p of [] \<Rightarrow> entry n [] | x # q \<Rightarrow> if x = (b \<noteq> 0) then entry c q else entry n p)"
  by (cases n; cases p) (auto simp: set_child_def)

lemma insert_loop_entry:
  assumes "i + k \<le> 8 * length ip"
  shows "\<exists>n'. insert_loop ip i k val n = Some n' \<and> entry n' = (entry n)(bits_from ip i k \<mapsto> val)"
  using assms
proof (induction k arbitrary: i n)
  case 0
  have "entry (TrieNode (zero_child n) (one_child n) True (Some val)) p = ((entry n)([] \<mapsto> val)) p" for p
    by (cases n; cases p) auto
  then show ?case by auto
next
  case (Suc k)
  let ?b = "bitVal ip i"
  let ?next = "case child n ?b of None \<Rightarrow> new_node | Some c \<Rightarrow> c"
  from Suc.prems obtain c where c: "insert_loop ip (i + 1) k val ?next = Some c"
    "entry c = (entry ?next)(bits_from ip (i + 1) k \<mapsto> val)"
    using Suc.IH [of "i + 1" ?next] by fastforce
  have old: "entry ?next q = entry n ((?b \<noteq> 0) # q)" for q
    by (simp only: entry_Cons) (simp split: option.split)
  have "entry (set_child n ?b c) p = ((entry n)(bits_from ip i (Suc k) \<mapsto> val)) p" for p
    using old by (cases p) (auto simp: entry_set_child c(2) bits_from_Suc)
  then have "entry (set_child n ?b c) = (entry n)(bits_from ip i (Suc k) \<mapsto> val)" by blast
  then show ?case using c(1) Suc.prems by (auto simp: Let_def)
qed

lemma insert_loop_panics:
  "8 * length ip < i + k \<Longrightarrow> i \<le> 8 * length ip \<Longrightarrow> insert_loop ip i k val n = None"
proof (induction k arbitrary: i n)
  case (Suc k)
  then show ?case by (cases "i = 8 * length ip") (auto simp: Let_def)
qed simp

lemma remove_loop_entry:
  assumes "i + k \<le> 8 * length ip"
  shows "\<exists>n'. remove_loop ip i k n = Some n' \<and> entry n' = (entry n)(bits_from ip i k := None)"
  using assms
proof (induction k arbitrary: i n)
  case 0
  have "entry (TrieNode (zero_child n) (one_child n) False None) p = ((entry n)([] := None)) p" for p
    by (cases n; cases p) auto
  then show ?case by auto
next
  case (Suc k)
  let ?b = "bitVal ip i"
  have range: "\<not> length ip \<le> i div 8" using Suc.prems by auto
  show ?case
  proof (cases "child n ?b")
    case None
    then have "entry n (bits_from ip i (Suc k)) = None" by (simp add: bits_from_Suc entry_Cons)
    then show ?thesis using None range by (auto simp: Let_def)
  next
    case (Some nx)
    from Suc.prems obtain c where c: "remove_loop ip (i + 1) k nx = Some c"
      "entry c = (entry nx)(bits_from ip (i + 1) k := None)"
      using Suc.IH [of "i + 1" nx] by fastforce
    have old: "entry n ((?b \<noteq> 0) # q) = entry nx q" for q
      using Some by (simp add: entry_Cons)
    have "entry (set_child n ?b c) p = ((entry n)(bits_from ip i (Suc k) := None)) p" for p
      using old by (cases p) (auto simp: entry_set_child c(2) bits_from_Suc)
    then have "entry (set_child n ?b c) = (entry n)(bits_from ip i (Suc k) := None)" by blast
    then show ?thesis using c(1) Some range by (auto simp: Let_def)
  qed
qed

section \<open>The contract of an address family\<close>

locale prefix_table =
  fixes width :: nat
    and table :: "'t \<Rightarrow> bool list \<Rightarrow> 'v option"
    and look :: "'t \<Rightarrow> bytes \<Rightarrow> 'v option"
    and put :: "'t \<Rightarrow> bytes \<Rightarrow> nat \<Rightarrow> 'v \<Rightarrow> 't option"
    and del :: "'t \<Rightarrow> bytes \<Rightarrow> nat \<Rightarrow> 't option"
  assumes look_lpm: "length ip = width \<Longrightarrow> look t ip = lpm (table t) (bits ip)"
    and put_table: "length ip = width \<Longrightarrow> ones \<le> 8 * width \<Longrightarrow>
      \<exists>t'. put t ip ones v = Some t' \<and> table t' = (table t)(take ones (bits ip) \<mapsto> v)"
    and put_panics: "length ip = width \<Longrightarrow> 8 * width < ones \<Longrightarrow> put t ip ones v = None"
    and del_table: "length ip = width \<Longrightarrow> ones \<le> 8 * width \<Longrightarrow>
      \<exists>t'. del t ip ones = Some t' \<and> table t' = (table t)(take ones (bits ip) := None)"
begin

text \<open>A new route decides every address it covers for which no longer prefix is registered.\<close>

lemma put_decides:
  assumes "length ip = width" "length a = width" "ones \<le> 8 * width" "put t ip ones v = Some t'"
    and "take ones (bits a) = take ones (bits ip)"
    and "\<And>j. ones < j \<Longrightarrow> j \<le> 8 * width \<Longrightarrow> table t (take j (bits a)) = None"
  shows "look t' a = Some v"
proof -
  have "table t' = (table t)(take ones (bits ip) \<mapsto> v)" using put_table [OF assms(1,3), of t v] assms(4) by auto
  moreover have "take j (bits a) \<noteq> take ones (bits ip)" if "ones < j" "j \<le> 8 * width" for j
    using that assms(1,2) by (metis length_take length_bits min_absorb2 less_irrefl less_imp_le order_trans)
  ultimately show ?thesis
    unfolding look_lpm [OF assms(2)] lpm_Some
    using assms by (intro exI [of _ ones]) auto
qed

text \<open>A route does not concern the addresses outside its prefix.\<close>

lemma put_outside:
  assumes "length ip = width" "length a = width" "ones \<le> 8 * width" "put t ip ones v = Some t'"
    and "take ones (bits a) \<noteq> take ones (bits ip)"
  shows "look t' a = look t a"
proof -
  have t': "table t' = (table t)(take ones (bits ip) \<mapsto> v)" using put_table [OF assms(1,3), of t v] assms(4) by auto
  have "take k (bits a) \<noteq> take ones (bits ip)" if "k \<le> 8 * width" for k
  proof
    assume e: "take k (bits a) = take ones (bits ip)"
    then have "length (take k (bits a)) = length (take ones (bits ip))" by simp
    then have "k = ones" using that assms(1-3) by simp
    then show False using e assms(5) by simp
  qed
  then show ?thesis unfolding look_lpm [OF assms(2)] using assms(2) by (intro lpm_cong) (simp add: t')
qed

text \<open>Removing a route that was not there before restores every lookup.\<close>

lemma del_undoes_put:
  assumes "length ip = width" "ones \<le> 8 * width" "table t (take ones (bits ip)) = None"
    "put t ip ones v = Some t1" "del t1 ip ones = Some t2"
  shows "table t2 = table t"
  using put_table [OF assms(1,2), of t v] del_table [OF assms(1,2), of t1] assms(3-5) by auto

end

interpretation t4: prefix_table 4 "\<lambda>r. entry (v4 r)" lookupIPv4 insertIPv4 removeIPv4
proof
  fix r :: "'v router" and ip :: bytes and ones :: nat and v :: 'v
  assume ip: "length ip = 4"
  show "lookupIPv4 r ip = lpm (entry (v4 r)) (bits ip)"
    using ip by (simp add: lookupIPv4_def lookup_loop_lpm bits_def split: option.split)
  show "8 * 4 < ones \<Longrightarrow> insertIPv4 r ip ones v = None"
    using ip by (simp add: insertIPv4_def insert_loop_panics)
  assume ones: "ones \<le> 8 * 4"
  show "\<exists>r'. insertIPv4 r ip ones v = Some r' \<and> entry (v4 r') = (entry (v4 r))(take ones (bits ip) \<mapsto> v)"
    using ip ones insert_loop_entry [of 0 ones ip v "v4 r"] by (auto simp: insertIPv4_def take_bits)
  show "\<exists>r'. removeIPv4 r ip ones = Some r' \<and> entry (v4 r') = (entry (v4 r))(take ones (bits ip) := None)"
    using ip ones remove_loop_entry [of 0 ones ip "v4 r"] by (auto simp: removeIPv4_def take_bits)
qed

interpretation t6: prefix_table 16 "\<lambda>r. entry (v6 r)" lookupIPv6 insertIPv6 removeIPv6
proof
  fix r :: "'v router" and ip :: bytes and ones :: nat and v :: 'v
  assume ip: "length ip = 16"
  show "lookupIPv6 r ip = lpm (entry (v6 r)) (bits ip)"
    using ip by (simp add: lookupIPv6_def lookup_loop_lpm bits_def split: option.split)
  show "8 * 16 < ones \<Longrightarrow> insertIPv6 r ip ones v = None"
    using ip by (simp add: insertIPv6_def insert_loop_panics)
  assume ones: "ones \<le> 8 * 16"
  show "\<exists>r'. insertIPv6 r ip ones v = Some r' \<and> entry (v6 r') = (entry (v6 r))(take ones (bits ip) \<mapsto> v)"
    using ip ones insert_loop_entry [of 0 ones ip v "v6 r"] by (auto simp: insertIPv6_def take_bits)
  show "\<exists>r'. removeIPv6 r ip ones = Some r' \<and> entry (v6 r') = (entry (v6 r))(take ones (bits ip) := None)"
    using ip ones remove_loop_entry [of 0 ones ip "v6 r"] by (auto simp: removeIPv6_def take_bits)
qed

end
