(* ===== verification/Router_Props.thy ===== *)
theory Router_Props
  imports Router_Table
begin

text \<open>
  The router as a whole: what a CIDR string denotes, how \<^verbatim>\<open>Register\<close> and \<^verbatim>\<open>UnRegister\<close> change the
  table, and what \<^verbatim>\<open>Route\<close>, \<^verbatim>\<open>RouteString\<close>, \<^verbatim>\<open>RouteBatch\<close>, \<^verbatim>\<open>Range\<close> and \<^verbatim>\<open>Keys\<close> answer after any
  sequence of changes.
\<close>

section \<open>Bits of addresses and masks\<close>

lemma bitVal_bit: "bitVal ip i \<noteq> 0 \<longleftrightarrow> bit (ip ! (i div 8)) (7 - i mod 8)"
  by (simp add: bitVal_def and_one_eq odd_iff_mod_2_eq_one [symmetric] bit_iff_odd_drop_bit)

lemma nth_bits: "i < 8 * length ip \<Longrightarrow> bits ip ! i = bit (ip ! (i div 8)) (7 - i mod 8)"
  by (simp add: bits_def bits_from_def bitVal_bit)

lemma bit_FF: "bit (0xFF :: int) m \<longleftrightarrow> m < 8"
proof -
  have "(0xFF :: int) = mask 8" by (simp add: mask_eq_exp_minus_1)
  then show ?thesis by (simp only: bit_mask_iff) (simp add: possible_bit_def)
qed

lemma bit_partial_mask: "n < 8 \<Longrightarrow> k < 8 \<Longrightarrow> bit (NOT (drop_bit n 0xFF) :: byte) (7 - k) \<longleftrightarrow> k < n"
  by (auto simp: bit_not_iff bit_drop_bit_eq bit_FF possible_bit_def)

lemma bit_CIDRMask:
  "j < l \<Longrightarrow> k < 8 \<Longrightarrow> bit (CIDRMask n l ! j) (7 - k) \<longleftrightarrow> 8 * j + k < n"
proof (induction n l arbitrary: j rule: CIDRMask.induct)
  case (2 n l)
  show ?case
  proof (cases "8 \<le> n")
    case True
    then show ?thesis using 2 by (cases j) (auto simp: bit_FF)
  next
    case False
    then show ?thesis using 2 bit_partial_mask [of n k] by (cases j) auto
  qed
qed simp

lemma bits_masked:
  assumes "i < 8 * length ip" "n \<le> 8 * length ip"
  shows "bits (map2 (AND) ip (CIDRMask n (length ip))) ! i \<longleftrightarrow> i < n \<and> bits ip ! i"
proof -
  have j: "i div 8 < length ip" "i mod 8 < 8" "8 * (i div 8) + i mod 8 = i" using assms by auto
  show ?thesis
    using assms j bit_CIDRMask [OF j(1,2), of n] by (auto simp: nth_bits bit_simps)
qed

section \<open>What a CIDR string denotes\<close>

lemma ParseCIDR_shape:
  assumes "ParseCIDR s = Some (a, net, m)"
  obtains ip n where "length ip = 4 \<or> length ip = 16" "n \<le> 8 * length ip" "m = CIDRMask n (length ip)"
    "net = map2 (AND) ip m" "a = As16 ip" "ParseAddr (takeWhile ((\<noteq>) CHR ''/'') s) = Some ip"
proof -
  from assms obtain ip n where p: "ParseAddr (takeWhile ((\<noteq>) CHR ''/'') s) = Some ip" "n \<le> 8 * length ip"
    "m = CIDRMask n (length ip)" "IP_Mask (As16 ip) m = Some net" "a = As16 ip"
    unfolding ParseCIDR_def Let_def
    by (auto split: list.splits option.splits if_splits simp: not_less)
  have l: "length ip = 4 \<or> length ip = 16" using ParseAddr_length [OF p(1)] .
  then have "net = map2 (AND) ip m"
    using p(3,4) by (auto simp: IP_Mask_def As16_def Let_def)
  then show thesis using that p l by blast
qed

lemma ParseCIDR_net:
  assumes "ParseCIDR s = Some (a, net, m)"
  shows "length net = 4 \<or> length net = 16" "Mask_Size m \<le> 8 * length net"
    "\<And>i. i < 8 * length net \<Longrightarrow> bits net ! i \<Longrightarrow> i < Mask_Size m"
proof -
  obtain ip n where p: "length ip = 4 \<or> length ip = 16" "n \<le> 8 * length ip" "m = CIDRMask n (length ip)"
    "net = map2 (AND) ip m" using ParseCIDR_shape [OF assms] by blast
  then show "length net = 4 \<or> length net = 16" "Mask_Size m \<le> 8 * length net" by auto
  show "i < Mask_Size m" if "i < 8 * length net" "bits net ! i" for i
    using that p bits_masked [of i ip n] by simp
qed

lemma ParseCIDR_mask:
  assumes "ParseCIDR s = Some (a, net, m)"
  shows "length m = length net"
proof -
  obtain ip n where "length ip = 4 \<or> length ip = 16" "n \<le> 8 * length ip" "m = CIDRMask n (length ip)"
    "net = map2 (AND) ip m" using ParseCIDR_shape [OF assms] by blast
  then show ?thesis by simp
qed

text \<open>The route of a CIDR string: the address family (\<open>True\<close> for IPv4) and the prefix.\<close>

definition cidr_route :: "string \<Rightarrow> (bool \<times> bool list) option" where
  "cidr_route s = (case ParseCIDR s of
       None \<Rightarrow> None
     | Some (_, net, m) \<Rightarrow> Some (length net = 4, take (Mask_Size m) (bits net)))"

text \<open>A CIDR string that writes an IPv4 network in IPv6 form (\<^verbatim>\<open>::ffff:10.0.0.0/104\<close>).\<close>

definition mapped_cidr :: "string \<Rightarrow> bool" where
  "mapped_cidr s \<longleftrightarrow> (case ParseCIDR s of
       None \<Rightarrow> False
     | Some (_, net, m) \<Rightarrow> length net = 16 \<and> take 12 net = v4InV6Prefix)"

definition routes :: "'v router \<Rightarrow> bool \<times> bool list \<Rightarrow> 'v option" where
  "routes r fp = entry (if fst fp then v4 r else v6 r) (snd fp)"

lemma routes_NewRouter [simp]: "routes NewRouter = (\<lambda>p. None)"
  by (simp add: routes_def NewRouter_def fun_eq_iff)

text \<open>The prefix of a network in IPv6 form of an IPv4 network has at least 96 bits.\<close>

lemma mapped_size:
  assumes "ParseCIDR s = Some (a, net, m)" "length net = 16" "take 12 net = v4InV6Prefix"
  shows "96 \<le> Mask_Size m"
proof -
  have "net ! 11 = v4InV6Prefix ! 11" using arg_cong [OF assms(3), of "\<lambda>x. x ! 11"] assms(2) by simp
  also have "\<dots> = 0xFF" by (simp add: v4InV6Prefix_def nth_append)
  finally have "bits net ! 95" using assms(2) bit_FF [of 0] by (simp add: nth_bits)
  then show ?thesis using ParseCIDR_net(3) [OF assms(1), of 95] assms(2) by simp
qed

lemma family:
  assumes "ParseCIDR s = Some (a, net, m)" "\<not> mapped_cidr s"
  obtains (v4) "length net = 4" "To4 net = Some net" | (v6) "length net = 16" "To4 net = None" "To16 net = Some net"
  using assms ParseCIDR_net(1) [OF assms(1)] by (auto simp: mapped_cidr_def To4_def To16_def)

lemma Register_routes:
  assumes "\<not> mapped_cidr s"
  shows "\<exists>r'. Register r s v = Some r' \<and>
     routes r' = (case cidr_route s of None \<Rightarrow> routes r | Some p \<Rightarrow> (routes r)(p \<mapsto> v))"
proof (cases "ParseCIDR s")
  case None
  then show ?thesis by (simp add: Register_def cidr_route_def)
next
  case (Some x)
  then obtain a net m where s: "ParseCIDR s = Some (a, net, m)" by (cases x) auto
  from s assms show ?thesis
  proof (cases rule: family)
    case v4
    have "\<exists>r'. insertIPv4 r net (Mask_Size m) v = Some r' \<and>
        entry (v4 r') = (entry (v4 r))(take (Mask_Size m) (bits net) \<mapsto> v)"
      using t4.put_table ParseCIDR_net(2) [OF s] v4 by auto
    moreover have "v6 r' = v6 r" if "insertIPv4 r net (Mask_Size m) v = Some r'" for r'
      using that by (auto simp: insertIPv4_def split: if_splits)
    ultimately show ?thesis
      using s v4 by (fastforce simp: Register_def cidr_route_def routes_def fun_eq_iff)
  next
    case v6
    have "\<exists>r'. insertIPv6 r net (Mask_Size m) v = Some r' \<and>
        entry (v6 r') = (entry (v6 r))(take (Mask_Size m) (bits net) \<mapsto> v)"
      using t6.put_table ParseCIDR_net(2) [OF s] v6 by auto
    moreover have "v4 r' = v4 r" if "insertIPv6 r net (Mask_Size m) v = Some r'" for r'
      using that by (auto simp: insertIPv6_def split: if_splits)
    ultimately show ?thesis
      using s v6 by (fastforce simp: Register_def cidr_route_def routes_def fun_eq_iff)
  qed
qed

lemma UnRegister_routes:
  assumes "\<not> mapped_cidr s"
  shows "\<exists>r'. UnRegister r s = Some r' \<and>
     routes r' = (case cidr_route s of None \<Rightarrow> routes r | Some p \<Rightarrow> (routes r)(p := None))"
proof (cases "ParseCIDR s")
  case None
  then show ?thesis by (simp add: UnRegister_def cidr_route_def)
next
  case (Some x)
  then obtain a net m where s: "ParseCIDR s = Some (a, net, m)" by (cases x) auto
  from s assms show ?thesis
  proof (cases rule: family)
    case v4
    have "\<exists>r'. removeIPv4 r net (Mask_Size m) = Some r' \<and>
        entry (v4 r') = (entry (v4 r))(take (Mask_Size m) (bits net) := None)"
      using t4.del_table ParseCIDR_net(2) [OF s] v4 by auto
    moreover have "v6 r' = v6 r" if "removeIPv4 r net (Mask_Size m) = Some r'" for r'
      using that by (auto simp: removeIPv4_def split: if_splits)
    ultimately show ?thesis
      using s v4 by (fastforce simp: UnRegister_def cidr_route_def routes_def fun_eq_iff)
  next
    case v6
    have "\<exists>r'. removeIPv6 r net (Mask_Size m) = Some r' \<and>
        entry (v6 r') = (entry (v6 r))(take (Mask_Size m) (bits net) := None)"
      using t6.del_table ParseCIDR_net(2) [OF s] v6 by auto
    moreover have "v4 r' = v4 r" if "removeIPv6 r net (Mask_Size m) = Some r'" for r'
      using that by (auto simp: removeIPv6_def split: if_splits)
    ultimately show ?thesis
      using s v6 by (fastforce simp: UnRegister_def cidr_route_def routes_def fun_eq_iff)
  qed
qed

section \<open>Histories\<close>

datatype 'v route_op = Add string 'v | Drop string

fun op_addr :: "'v route_op \<Rightarrow> string" where
  "op_addr (Add s v) = s"
| "op_addr (Drop s) = s"

fun apply_op :: "'v route_op \<Rightarrow> 'v router \<Rightarrow> 'v router option" where
  "apply_op (Add s v) r = Register r s v"
| "apply_op (Drop s) r = UnRegister r s"

fun run_ops :: "'v route_op list \<Rightarrow> 'v router \<Rightarrow> 'v router option" where
  "run_ops [] r = Some r"
| "run_ops (x # xs) r = (case apply_op x r of None \<Rightarrow> None | Some r' \<Rightarrow> run_ops xs r')"

text \<open>The specification: a table of routes that each operation updates at the route it names.\<close>

fun spec_op :: "'v route_op \<Rightarrow> (bool \<times> bool list \<Rightarrow> 'v option) \<Rightarrow> bool \<times> bool list \<Rightarrow> 'v option" where
  "spec_op (Add s v) tb = (case cidr_route s of None \<Rightarrow> tb | Some p \<Rightarrow> tb(p \<mapsto> v))"
| "spec_op (Drop s) tb = (case cidr_route s of None \<Rightarrow> tb | Some p \<Rightarrow> tb(p := None))"

definition table_of :: "'v route_op list \<Rightarrow> bool \<times> bool list \<Rightarrow> 'v option" where
  "table_of ops = fold spec_op ops (\<lambda>p. None)"

definition plain_ops :: "'v route_op list \<Rightarrow> bool" where
  "plain_ops ops \<longleftrightarrow> (\<forall>x \<in> set ops. \<not> mapped_cidr (op_addr x))"

lemma apply_op_routes:
  assumes "\<not> mapped_cidr (op_addr x)"
  shows "\<exists>r'. apply_op x r = Some r' \<and> routes r' = spec_op x (routes r)"
  using assms Register_routes UnRegister_routes by (cases x) auto

lemma run_ops_routes:
  "plain_ops ops \<Longrightarrow> \<exists>r'. run_ops ops r = Some r' \<and> routes r' = fold spec_op ops (routes r)"
proof (induction ops arbitrary: r)
  case (Cons x xs)
  obtain r1 where r1: "apply_op x r = Some r1" "routes r1 = spec_op x (routes r)"
    using apply_op_routes [of x r] Cons.prems by (auto simp: plain_ops_def)
  then show ?case using Cons.IH [of r1] Cons.prems by (auto simp: plain_ops_def)
qed simp

lemma lookup_routes:
  "length ip = 4 \<Longrightarrow> lookupIPv4 r ip = lpm (\<lambda>p. routes r (True, p)) (bits ip)"
  "length ip = 16 \<Longrightarrow> lookupIPv6 r ip = lpm (\<lambda>p. routes r (False, p)) (bits ip)"
  by (simp_all add: t4.look_lpm t6.look_lpm routes_def)

section \<open>Routing packets\<close>

text \<open>The destination of an IP packet, from the numbers in its header: family and address.\<close>

definition packet_dst :: "bytes \<Rightarrow> (bool \<times> bytes) option" where
  "packet_dst buf =
     (if length buf < 20 then None
      else let version = unat (buf ! 0) div 16; ihl = unat (buf ! 0) mod 16 in
        if version = 4 \<and> 5 \<le> ihl \<and> 4 * ihl \<le> length buf then Some (True, sub 16 4 buf)
        else if version = 6 \<and> 40 \<le> length buf then Some (False, sub 24 16 buf)
        else None)"

lemma nibbles:
  fixes b :: byte
  shows "unat (drop_bit 4 b AND 0x0F) = unat b div 16" "unat (b AND 0x0F) = unat b mod 16"
proof -
  have m: "(0x0F :: byte) = mask 4" by (simp add: mask_eq_exp_minus_1)
  have b: "unat b < 256" using unsigned_less [of b] by simp
  show "unat (b AND 0x0F) = unat b mod 16"
    by (simp only: m take_bit_eq_mask [symmetric] unsigned_take_bit_eq) (simp add: take_bit_eq_mod)
  have "unat (drop_bit 4 b AND 0x0F) = unat (drop_bit 4 b) mod 16"
    by (simp only: m take_bit_eq_mask [symmetric] unsigned_take_bit_eq) (simp add: take_bit_eq_mod)
  also have "\<dots> = unat b div 16"
    using b by (simp add: drop_bit_eq_div unat_div div_less_iff_less_mult)
  finally show "unat (drop_bit 4 b AND 0x0F) = unat b div 16" .
qed

lemma header_length:
  fixes b :: byte
  shows "unat ((b AND 0x0F) * 4) = 4 * (unat b mod 16)" "b AND 0x0F < 5 \<longleftrightarrow> unat b mod 16 < 5"
proof -
  have "unat ((b AND 0x0F) * 4) = (unat b mod 16 * 4) mod 256"
    by (simp add: unat_word_ariths nibbles)
  then show "unat ((b AND 0x0F) * 4) = 4 * (unat b mod 16)" by (simp add: mult.commute mod_less)
  show "b AND 0x0F < 5 \<longleftrightarrow> unat b mod 16 < 5"
    by (simp add: word_less_nat_alt nibbles)
qed

lemma Route_dst:
  "Route r buf = (case packet_dst buf of
     None \<Rightarrow> None | Some (fam, ip) \<Rightarrow> if fam then lookupIPv4 r ip else lookupIPv6 r ip)"
proof -
  have v: "drop_bit 4 (buf ! 0) AND 0x0F = 4 \<longleftrightarrow> unat (buf ! 0) div 16 = 4"
    "drop_bit 4 (buf ! 0) AND 0x0F = 6 \<longleftrightarrow> unat (buf ! 0) div 16 = 6"
    by (simp_all only: word_unat_eq_iff nibbles(1)) simp_all
  show ?thesis
    unfolding Route_def packet_dst_def Let_def v header_length by auto
qed

text \<open>
  C5. Routing after any history: when no registered address is an IPv4 network in IPv6 form,
  registering and unregistering never panics, and \<^verbatim>\<open>Route\<close> then sends a packet to the target of the
  longest prefix of its destination address that the history left in the table; packets without a
  valid IPv4 or IPv6 header have no route.
\<close>
theorem Route_longest_prefix:
  assumes "plain_ops ops"
  shows "\<exists>r. run_ops ops NewRouter = Some r \<and> (\<forall>buf. Route r buf =
     (case packet_dst buf of
        None \<Rightarrow> None
      | Some (fam, ip) \<Rightarrow> lpm (\<lambda>p. table_of ops (fam, p)) (bits ip)))"
proof -
  obtain r where r: "run_ops ops NewRouter = Some r" "routes r = table_of ops"
    using run_ops_routes [OF assms, of NewRouter] by (auto simp: table_of_def)
  have "length ip = (if fam then 4 else 16)" if "packet_dst buf = Some (fam, ip)" for buf fam ip
    using that by (auto simp: packet_dst_def Let_def split: if_splits)
  then show ?thesis
    using r by (fastforce simp: Route_dst lookup_routes split: option.splits)
qed

definition demo_ops :: "nat route_op list" where
  "demo_ops = [Add ''10.0.0.0/8'' 1, Add ''10.1.0.0/16'' 2, Add ''10.1.2.0/24'' 3, Add ''fd00::/8'' 4,
               Add ''bad'' 5, Drop ''10.1.2.0/24'']"

definition demo_packet :: bytes where
  "demo_packet = [0x45] @ replicate 15 0 @ [10, 1, 2, 3]"

lemma demo_route:
  obtains r where "run_ops demo_ops NewRouter = Some r" "Route r demo_packet = Some 2"
proof -
  have "(case run_ops demo_ops NewRouter of None \<Rightarrow> None | Some r \<Rightarrow> Route r demo_packet) = Some 2" by code_simp
  then show thesis using that by (auto split: option.splits)
qed

lemma demo_plain: "plain_ops demo_ops"
  by code_simp

theorem Route_longest_prefix_witness:
  "\<exists>r. run_ops demo_ops NewRouter = Some r \<and> Route r demo_packet = Some 2 \<and>
     lpm (\<lambda>p. table_of demo_ops (True, p)) (bits [10, 1, 2, 3]) = Some 2"
proof -
  obtain r where r: "run_ops demo_ops NewRouter = Some r" "Route r demo_packet = Some 2" by (rule demo_route)
  have "packet_dst demo_packet = Some (True, [10, 1, 2, 3])" by code_simp
  then show ?thesis using Route_longest_prefix [OF demo_plain] r by auto
qed

text \<open>
  An IPv4 network written in IPv6 form panics: \<^verbatim>\<open>Register\<close> takes the four-byte form of its
  address with the prefix length of the sixteen-byte form and runs off the end of the address.
\<close>
theorem Register_mapped_panics:
  assumes "mapped_cidr s"
  shows "Register r s v = None"
proof -
  obtain a net m where s: "ParseCIDR s = Some (a, net, m)" "length net = 16" "take 12 net = v4InV6Prefix"
    using assms by (auto simp: mapped_cidr_def split: option.splits)
  have "insertIPv4 r (drop 12 net) (Mask_Size m) v = None"
    using mapped_size [OF s] s(2) by (intro t4.put_panics) auto
  then show ?thesis using s by (simp add: Register_def To4_def)
qed

theorem Register_mapped_panics_witness:
  "Register NewRouter ''::ffff:10.0.0.0/104'' (1 :: nat) = None"
proof (rule Register_mapped_panics)
  show "mapped_cidr ''::ffff:10.0.0.0/104''" by code_simp
qed

lemma RouteBatch_loop_eq:
  assumes "i \<le> length packets" "i \<le> length targets"
  shows "RouteBatch_loop r packets i targets c =
      Some (map (Route r) (take i packets) @ drop i targets,
            c + length (filter (\<lambda>p. Route r p \<noteq> None) (take i packets)))"
  using assms
proof (induction i arbitrary: targets c)
  case (Suc i)
  then have d: "drop i (targets[i := x]) = x # drop (Suc i) targets" for x
    by (simp add: drop_update_swap) (simp add: Cons_nth_drop_Suc [symmetric])
  show ?case
    using Suc by (auto simp: take_Suc_conv_app_nth d split: option.splits)
qed simp

text \<open>
  \<^verbatim>\<open>RouteBatch\<close> is \<^verbatim>\<open>Route\<close> on every packet: with at least as many target slots as packets it
  stores each packet's target, or \<^verbatim>\<open>nil\<close>, in the packet's slot, leaves the other slots alone, and
  returns the number of packets that have a route.
\<close>
theorem RouteBatch_routes_each:
  assumes "length packets \<le> length targets"
  shows "RouteBatch r packets targets =
     Some (map (Route r) packets @ drop (length packets) targets,
           length (filter (\<lambda>p. Route r p \<noteq> None) packets))"
  using RouteBatch_loop_eq [of "length packets" packets targets r 0] assms by (simp add: RouteBatch_def)

theorem RouteBatch_routes_each_witness:
  "\<exists>r. run_ops demo_ops NewRouter = Some r \<and>
     RouteBatch r [demo_packet, []] [None, None, Some 9] = Some ([Some 2, None, Some 9], 1)"
proof -
  obtain r where r: "run_ops demo_ops NewRouter = Some r" "Route r demo_packet = Some 2" by (rule demo_route)
  have "Route r [] = None" by (simp add: Route_def)
  then show ?thesis
    using r RouteBatch_routes_each [of "[demo_packet, []]" "[None, None, Some 9]" r] by auto
qed

end
