(* ===== verification/Router_Print.thy ===== *)
theory Router_Print
  imports Router_Props
begin

text \<open>
  The text form of routes: the printers of the router and the parsers of package \<^verbatim>\<open>net\<close> are inverse,
  so that the addresses \<^verbatim>\<open>Range\<close> and \<^verbatim>\<open>Keys\<close> report name exactly the routes in the table.
\<close>

section \<open>Decimal numbers\<close>

text \<open>What \<^verbatim>\<open>parseIPv4Fields\<close> does to the digits of one field.\<close>

fun scan :: "string \<Rightarrow> nat \<Rightarrow> nat \<Rightarrow> (nat \<times> nat) option" where
  "scan [] v d = Some (v, d)"
| "scan (c # s) v d =
     (case digit c of
        None \<Rightarrow> None
      | Some n \<Rightarrow> if d = 1 \<and> v = 0 \<or> v * 10 + n > 255 then None else scan s (v * 10 + n) (d + 1))"

lemma parse_v4_scan: "scan ds v d = Some (v', d') \<Longrightarrow> parse_v4 (ds @ rest) v d fs = parse_v4 rest v' d' fs"
  by (induction ds v d rule: scan.induct) (auto split: option.splits if_splits)

definition no_sep :: "string \<Rightarrow> bool" where
  "no_sep s \<longleftrightarrow> list_all (\<lambda>c. c \<noteq> CHR ''.'' \<and> c \<noteq> CHR '':'' \<and> c \<noteq> CHR ''%'' \<and> c \<noteq> CHR ''/'') s"

definition dec :: "nat \<Rightarrow> char" where
  "dec k = ''0123456789'' ! k"

lemma dec_digits: "list_all (\<lambda>k. digit (dec k) = Some k \<and> no_sep [dec k]) [0..<10]"
  by code_simp

lemma digit_dec: "k < 10 \<Longrightarrow> digit (dec k) = Some k" "k < 10 \<Longrightarrow> no_sep [dec k]"
  using dec_digits by (auto simp: list_all_iff simp del: upt_Suc)

lemma no_sep_Cons: "no_sep (c # s) \<longleftrightarrow> no_sep [c] \<and> no_sep s"
  by (simp add: no_sep_def)

lemma no_sep_append [simp]: "no_sep (s @ t) \<longleftrightarrow> no_sep s \<and> no_sep t"
  by (simp add: no_sep_def)

lemma itoa_step: "0 < n \<Longrightarrow> itoa_loop (int n) r = itoa_loop (int (n div 10)) (dec (n mod 10) # r)"
  by (subst itoa_loop.simps) (simp add: dec_def nat_mod_distrib zdiv_int)

lemma itoa_0: "itoa_loop 0 r = r"
  by (subst itoa_loop.simps) simp

lemma decimal_1: "n < 10 \<Longrightarrow> intToString (int n) = [dec n]"
  by (cases "n = 0") (simp_all add: intToString_def itoa_step itoa_0 dec_def [of 0])

lemma decimal_2: "10 \<le> n \<Longrightarrow> n < 100 \<Longrightarrow> intToString (int n) = [dec (n div 10), dec (n mod 10)]"
  by (simp add: intToString_def itoa_step itoa_0 div_greater_zero_iff div_less_iff_less_mult)

lemma decimal_3:
  "100 \<le> n \<Longrightarrow> n < 1000 \<Longrightarrow> intToString (int n) = [dec (n div 10 div 10), dec (n div 10 mod 10), dec (n mod 10)]"
  by (simp add: intToString_def itoa_step itoa_0 div_greater_zero_iff div_mult2_eq [symmetric])

lemma scan_decimal: "n < 256 \<Longrightarrow> \<exists>d > 0. scan (intToString (int n)) 0 0 = Some (n, d)"
proof -
  assume n: "n < 256"
  consider "n < 10" | "10 \<le> n" "n < 100" | "100 \<le> n" "n < 1000" using n by linarith
  then show ?thesis
  proof cases
    case 1
    then show ?thesis by (simp add: decimal_1 digit_dec)
  next
    case 2
    then have "n div 10 < 10" "0 < n div 10" "n div 10 * 10 + n mod 10 = n"
      by (auto simp: div_greater_zero_iff div_less_iff_less_mult)
    then show ?thesis using n 2 by (simp add: decimal_2 digit_dec)
  next
    case 3
    then have "n div 10 div 10 < 10" "n div 10 mod 10 < 10" "n mod 10 < 10" "0 < n div 10 div 10"
      "n div 10 div 10 * 10 + n div 10 mod 10 = n div 10" "n div 10 * 10 + n mod 10 = n"
      by (auto simp: div_greater_zero_iff div_less_iff_less_mult)
    then show ?thesis using n 3 by (simp add: decimal_3 digit_dec) linarith
  qed
qed

lemma no_sep_decimal: "n < 1000 \<Longrightarrow> no_sep (intToString (int n))"
proof -
  assume n: "n < 1000"
  consider "n < 10" | "10 \<le> n" "n < 100" | "100 \<le> n" "n < 1000" using n by linarith
  then show ?thesis
    by cases (simp_all add: decimal_1 decimal_2 decimal_3 digit_dec no_sep_Cons [of _ "[x]" for x]
        no_sep_Cons [of _ "[x, y]" for x y] div_less_iff_less_mult)
qed

lemma dtoi_decimal: "n < 1000 \<Longrightarrow> dtoi (intToString (int n)) 0 0 = Some (n, [])"
proof -
  assume n: "n < 1000"
  consider "n < 10" | "10 \<le> n" "n < 100" | "100 \<le> n" "n < 1000" using n by linarith
  then show ?thesis
  proof cases
    case 3
    then have "n div 10 div 10 < 10" "n div 10 mod 10 < 10" "n mod 10 < 10"
      "n div 10 div 10 * 10 + n div 10 mod 10 = n div 10" "n div 10 * 10 + n mod 10 = n"
      by (auto simp: div_greater_zero_iff div_less_iff_less_mult)
    then show ?thesis using 3 by (simp add: decimal_3 digit_dec) linarith
  qed (simp_all add: decimal_1 decimal_2 digit_dec div_less_iff_less_mult)
qed

lemma field_decimal:
  fixes b :: byte
  shows "no_sep (intToString (uint b))" "\<exists>d > 0. scan (intToString (uint b)) 0 0 = Some (unat b, d)"
proof -
  have "unat b < 256" using unsigned_less [of b] by simp
  moreover have "uint b = int (unat b)" by simp
  ultimately show "no_sep (intToString (uint b))" "\<exists>d > 0. scan (intToString (uint b)) 0 0 = Some (unat b, d)"
    using scan_decimal no_sep_decimal by (simp_all del: of_nat_unat)
qed

section \<open>IPv4 addresses\<close>

lemma digit_dot: "digit CHR ''.'' = None"
  by code_simp

lemma parse_field:
  fixes b :: byte
  shows "rest \<noteq> [] \<Longrightarrow> length fs < 3 \<Longrightarrow>
      parse_v4 (intToString (uint b) @ CHR ''.'' # rest) 0 0 fs = parse_v4 rest 0 0 (fs @ [b])"
    and "length fs = 3 \<Longrightarrow> parse_v4 (intToString (uint b)) 0 0 fs = Some (fs @ [b])"
proof -
  obtain d where "d > 0" "scan (intToString (uint b)) 0 0 = Some (unat b, d)"
    using field_decimal(2) by blast
  note p = this(1) parse_v4_scan [OF this(2)]
  show "rest \<noteq> [] \<Longrightarrow> length fs < 3 \<Longrightarrow>
      parse_v4 (intToString (uint b) @ CHR ''.'' # rest) 0 0 fs = parse_v4 rest 0 0 (fs @ [b])"
    using p by (simp add: digit_dot)
  show "length fs = 3 \<Longrightarrow> parse_v4 (intToString (uint b)) 0 0 fs = Some (fs @ [b])"
    using p(2) [of "[]"] by simp
qed

lemma length4: "length ip = 4 \<longleftrightarrow> (\<exists>a b c d. ip = [a, b, c, d])"
  by (auto simp: length_Suc_conv eval_nat_numeral)

lemma intToString_byte_neq_Nil: "intToString (uint (b :: byte)) \<noteq> []"
  using field_decimal(2) [of b] by auto

lemma parse_ip4ToString: "length ip = 4 \<Longrightarrow> parse_v4 (ip4ToString ip) 0 0 [] = Some ip"
  unfolding length4 by (auto simp: ip4ToString_def parse_field intToString_byte_neq_Nil)

lemma filter_no_sep:
  "no_sep s \<Longrightarrow> filter (\<lambda>c. c = CHR ''.'' \<or> c = CHR '':'' \<or> c = CHR ''%'') s = []"
  by (auto simp: no_sep_def list_all_iff filter_empty_conv)

lemma ParseAddr_ip4:
  assumes "length ip = 4"
  shows "ParseAddr (ip4ToString ip) = Some ip"
proof -
  have "ParseAddr (ip4ToString ip) = parse_v4 (ip4ToString ip) 0 0 []"
    by (simp add: ParseAddr_def ip4ToString_def filter_no_sep field_decimal(1))
  then show ?thesis using parse_ip4ToString [OF assms] by simp
qed

lemma no_slash: "no_sep s \<Longrightarrow> CHR ''/'' \<notin> set s"
  by (auto simp: no_sep_def list_all_iff)

lemma no_slash_ip4: "CHR ''/'' \<notin> set (ip4ToString ip)"
  by (simp add: ip4ToString_def no_slash [OF field_decimal(1)])

section \<open>IPv6 addresses\<close>

definition hx :: "nat \<Rightarrow> char" where
  "hx k = ''0123456789abcdef'' ! k"

lemma hx_digits: "list_all (\<lambda>k. hexdigit (hx k) = Some k \<and> no_sep [hx k]) [0..<16]"
  by code_simp

lemma hexdigit_hx: "k < 16 \<Longrightarrow> hexdigit (hx k) = Some k" "k < 16 \<Longrightarrow> no_sep [hx k]"
  using hx_digits by (auto simp: list_all_iff simp del: upt_Suc)

lemma hex_step:
  assumes "0 < n" "n < 65536"
  shows "hex_loop (of_nat n) r = hex_loop (of_nat (n div 16)) (hx (n mod 16) # r)"
proof -
  have "unat (of_nat n AND 0xF :: uint16) = n mod 16"
  proof -
    have "(0xF :: uint16) = mask 4" by (simp add: mask_eq_exp_minus_1)
    then show ?thesis
      using assms by (simp only: take_bit_eq_mask [symmetric] unsigned_take_bit_eq) (simp add: take_bit_eq_mod)
  qed
  moreover have "drop_bit 4 (of_nat n :: uint16) = of_nat (n div 16)"
    using assms by (simp add: word_unat_eq_iff drop_bit_eq_div unat_div)
  moreover have "(of_nat n :: uint16) > 0" using assms by (simp add: word_less_nat_alt)
  ultimately show ?thesis by (subst hex_loop.simps) (simp add: hx_def)
qed

lemma hex_0: "hex_loop 0 r = r"
  by (subst hex_loop.simps) simp

lemma uint16ToHex_0: "uint16ToHex 0 = [hx 0]"
  by (simp add: uint16ToHex_def hx_def)

lemma uint16ToHex_nat: "n < 65536 \<Longrightarrow> uint16ToHex (of_nat n) = (if n = 0 then [hx 0] else hex_loop (of_nat n) [])"
  by (auto simp: uint16ToHex_def hx_def word_unat_eq_iff)

lemma hex_digits:
  assumes "n < 65536"
  obtains (d1) "n < 16" "uint16ToHex (of_nat n) = [hx n]"
  | (d2) "16 \<le> n" "n < 256" "uint16ToHex (of_nat n) = [hx (n div 16), hx (n mod 16)]"
  | (d3) "256 \<le> n" "n < 4096"
      "uint16ToHex (of_nat n) = [hx (n div 16 div 16), hx (n div 16 mod 16), hx (n mod 16)]"
  | (d4) "4096 \<le> n" "uint16ToHex (of_nat n) =
      [hx (n div 16 div 16 div 16), hx (n div 16 div 16 mod 16), hx (n div 16 mod 16), hx (n mod 16)]"
proof -
  have div: "n div 16 < 65536" "n div 16 div 16 < 65536" "n div 16 div 16 div 16 < 65536"
    using assms by auto
  consider "n < 16" | "16 \<le> n" "n < 256" | "256 \<le> n" "n < 4096" | "4096 \<le> n" by linarith
  then show thesis
  proof cases
    case 1
    then have "uint16ToHex (of_nat n) = [hx n]"
      using assms by (auto simp: uint16ToHex_0 uint16ToHex_nat hex_step hex_0)
    then show thesis using 1 d1 by blast
  next
    case 2
    then have "0 < n div 16" "n div 16 < 16" by (auto simp: div_greater_zero_iff div_less_iff_less_mult)
    then show thesis using 2 d2 assms div by (simp add: uint16ToHex_nat hex_step hex_0)
  next
    case 3
    then have "0 < n div 16" "0 < n div 16 div 16" "n div 16 div 16 < 16"
      by (auto simp: div_greater_zero_iff div_less_iff_less_mult)
    then show thesis using 3 d3 assms div by (simp add: uint16ToHex_nat hex_step hex_0)
  next
    case 4
    then have "0 < n div 16" "0 < n div 16 div 16" "0 < n div 16 div 16 div 16" "n div 16 div 16 div 16 < 16"
      using assms by (auto simp: div_greater_zero_iff div_less_iff_less_mult)
    then show thesis using 4 d4 assms div by (simp add: uint16ToHex_nat hex_step hex_0)
  qed
qed

lemma hex_group_hx: "k < 16 \<Longrightarrow> hex_group (hx k # s) off acc = (if off > 3 then None else hex_group s (off + 1) (acc * 16 + k))"
  by (simp add: hexdigit_hx)

text \<open>A printed group is read back as a whole when no digit follows it.\<close>

lemma hex_group_printed:
  fixes v :: uint16
  assumes rest: "rest = [] \<or> hexdigit (hd rest) = None"
  shows "\<exists>k > 0. hex_group (uint16ToHex v @ rest) 0 0 = Some (k, unat v, rest)"
proof -
  have stop: "hex_group rest off acc = Some (off, acc, rest)" for off acc
    using rest by (cases rest) auto
  define n where "n = unat v"
  have n: "n < 65536" "v = of_nat n" using unat16_less [of v] by (simp_all add: n_def)
  have dm: "m div 16 * 16 + m mod 16 = m" for m :: nat by simp
  show ?thesis
    using n(1)
  proof (cases rule: hex_digits)
    case d1
    then show ?thesis using stop n by (simp add: hex_group_hx del: hex_group.simps)
  next
    case d2
    then have "n div 16 < 16" by (auto simp: div_less_iff_less_mult)
    then show ?thesis using d2 stop n dm [of n] by (simp add: hex_group_hx del: hex_group.simps)
  next
    case d3
    then have "n div 16 div 16 < 16" by (auto simp: div_less_iff_less_mult)
    then show ?thesis using d3 stop n dm [of n] dm [of "n div 16"] by (simp add: hex_group_hx del: hex_group.simps)
  next
    case d4
    have "n div 16 div 16 div 16 < 16" using n by (auto simp: div_less_iff_less_mult)
    then show ?thesis using d4 stop n dm [of n] dm [of "n div 16"] dm [of "n div 16 div 16"]
      by (simp add: hex_group_hx del: hex_group.simps)
  qed
qed

fun join6 :: "uint16 list \<Rightarrow> string" where
  "join6 [] = []"
| "join6 [g] = uint16ToHex g"
| "join6 (g # h # gs) = uint16ToHex g @ CHR '':'' # join6 (h # gs)"

lemma hexdigit_colon: "hexdigit CHR '':'' = None"
  by code_simp

lemma no_sep_map_hx: "\<forall>k \<in> set ks. k < 16 \<Longrightarrow> no_sep (map hx ks)"
proof (induction ks)
  case (Cons k ks)
  then show ?case using hexdigit_hx(2) [of k] no_sep_Cons [of "hx k" "map hx ks"] by simp
qed (simp add: no_sep_def)

lemma uint16ToHex_digits:
  fixes v :: uint16
  shows "\<exists>ks. uint16ToHex v = map hx ks \<and> ks \<noteq> [] \<and> (\<forall>k \<in> set ks. k < 16)"
proof -
  define n where "n = unat v"
  have n: "n < 65536" "v = of_nat n" using unat16_less [of v] by (simp_all add: n_def)
  from n(1) show ?thesis
  proof (cases rule: hex_digits)
    case d1
    then show ?thesis using n by (intro exI [of _ "[n]"]) simp
  next
    case d2
    then show ?thesis using n
      by (intro exI [of _ "[n div 16, n mod 16]"]) (simp add: div_less_iff_less_mult)
  next
    case d3
    then show ?thesis using n
      by (intro exI [of _ "[n div 16 div 16, n div 16 mod 16, n mod 16]"]) (simp add: div_less_iff_less_mult)
  next
    case d4
    then show ?thesis using n
      by (intro exI [of _ "[n div 16 div 16 div 16, n div 16 div 16 mod 16, n div 16 mod 16, n mod 16]"])
         (simp add: div_less_iff_less_mult)
  qed
qed

lemma uint16ToHex_hd:
  fixes v :: uint16
  shows "no_sep (uint16ToHex v)" "uint16ToHex v \<noteq> []"
  using uint16ToHex_digits [of v] no_sep_map_hx by auto

lemma join6_hd: "gs \<noteq> [] \<Longrightarrow> join6 gs \<noteq> [] \<and> hd (join6 gs) \<noteq> CHR '':''"
proof -
  assume "gs \<noteq> []"
  then obtain g t where "join6 gs = uint16ToHex g @ t" by (cases gs rule: join6.cases) auto
  moreover have "hd (uint16ToHex g) \<noteq> CHR '':''"
    using uint16ToHex_hd [of g] by (cases "uint16ToHex g") (auto simp: no_sep_def)
  ultimately show ?thesis using uint16ToHex_hd(2) [of g] by simp
qed

lemma v6_loop_join6:
  assumes "gs \<noteq> []" "length acc + 2 * length gs = 16"
  shows "v6_loop (join6 gs) acc None = Some (acc @ concat (map put_be16 gs))"
  using assms
proof (induction gs arbitrary: acc rule: join6.induct)
  case (2 g)
  obtain k where k: "k > 0" "hex_group (uint16ToHex g) 0 0 = Some (k, unat g, [])"
    using hex_group_printed [of "[]" g] by auto
  show ?case
    using 2 k by (subst v6_loop.simps) (simp add: v6_finish_def)
next
  case (3 g h gs)
  obtain k where k: "k > 0" "hex_group (join6 (g # h # gs)) 0 0 = Some (k, unat g, CHR '':'' # join6 (h # gs))"
    using hex_group_printed [of "CHR '':'' # join6 (h # gs)" g] hexdigit_colon by auto
  have "v6_loop (join6 (g # h # gs)) acc None = v6_loop (join6 (h # gs)) (acc @ put_be16 g) None"
    using 3 k join6_hd [of "h # gs"] by (subst v6_loop.simps) simp
  then show ?case using 3 by simp
qed simp

fun pairs :: "bytes \<Rightarrow> uint16 list" where
  "pairs (a # b # xs) = get_be16 [a, b] # pairs xs"
| "pairs _ = []"

lemma concat_pairs: "even (length xs) \<Longrightarrow> concat (map put_be16 (pairs xs)) = xs"
  by (induction xs rule: pairs.induct) (auto simp: put_get_be16)

lemma length_pairs: "even (length xs) \<Longrightarrow> 2 * length (pairs xs) = length xs"
  by (induction xs rule: pairs.induct) auto

lemma ip6_groups_join6:
  assumes "i + 2 * Suc k \<le> length ip"
  shows "ip6_groups ip i (Suc k) result =
     result @ (if i > 0 then '':'' else []) @ join6 (pairs (sub i (2 * Suc k) ip))"
  using assms
proof (induction k arbitrary: i result)
  case 0
  then have "sub i 2 ip = [ip ! i, ip ! (i + 1)]"
    by (simp add: numeral_2_eq_2 sub_nth_Cons)
  then show ?case by (simp add: get_be16_def)
next
  case (Suc k)
  have s: "sub i (2 * Suc (Suc k)) ip = ip ! i # ip ! (i + 1) # sub (i + 2) (2 * Suc k) ip"
    using Suc.prems sub_nth_Cons [of i ip "Suc (2 * Suc k)"] sub_nth_Cons [of "Suc i" ip "2 * Suc k"] by simp
  have "length (sub (i + 2) (2 * Suc k) ip) = 2 * Suc k" using Suc.prems by simp
  then obtain h gs where g: "pairs (sub (i + 2) (2 * Suc k) ip) = h # gs"
    using length_pairs [of "sub (i + 2) (2 * Suc k) ip"] by (cases "pairs (sub (i + 2) (2 * Suc k) ip)") auto
  have "ip6_groups ip (i + 2) (Suc k) r = r @ '':'' @ join6 (h # gs)" for r
    using Suc.IH [of "i + 2" r] Suc.prems g by simp
  moreover have "ip6_groups ip i (Suc (Suc k)) result = ip6_groups ip (i + 2) (Suc k)
      ((if i > 0 then result @ '':'' else result) @ uint16ToHex (get_be16 [ip ! i, ip ! (i + 1)]))"
    by (simp only: ip6_groups.simps(2) [of ip i "Suc k"] Let_def) (simp add: get_be16_def)
  ultimately show ?case
    unfolding s by (simp only: pairs.simps(1) g join6.simps) simp
qed

lemma ParseAddr_ip6:
  assumes "length ip = 16"
  shows "ParseAddr (ip6ToString ip) = Some ip"
proof -
  have s: "ip6ToString ip = join6 (pairs ip)"
    using ip6_groups_join6 [of 0 7 ip "[]"] assms by (simp add: ip6ToString_def)
  have lp: "length (pairs ip) = 8" using length_pairs [of ip] assms by simp
  then obtain g h gs where g: "pairs ip = g # h # gs" by (cases "pairs ip" rule: join6.cases) auto
  note ns = uint16ToHex_hd [of g]
  have nz: "CHR ''%'' \<notin> set (join6 xs)" for xs
    by (induction xs rule: join6.induct) (use uint16ToHex_hd(1) in \<open>auto simp: no_sep_def list_all_iff\<close>)
  have "take 2 (join6 (pairs ip)) \<noteq> ''::''"
    using join6_hd [of "pairs ip"] g by (cases "join6 (pairs ip)") auto
  then have "parse_v6 (join6 (pairs ip)) = v6_loop (join6 (pairs ip)) [] None"
    using nz by (simp add: parse_v6_def)
  also have "\<dots> = Some ip" using v6_loop_join6 [of "pairs ip" "[]"] lp g concat_pairs [of ip] assms by simp
  finally show ?thesis
    unfolding s by (simp add: ParseAddr_def g filter_no_sep [OF ns(1)])
qed

lemma no_slash_ip6: "length ip = 16 \<Longrightarrow> CHR ''/'' \<notin> set (ip6ToString ip)"
proof -
  have "CHR ''/'' \<notin> set (join6 xs)" for xs
    by (induction xs rule: join6.induct) (use uint16ToHex_hd(1) in \<open>auto simp: no_sep_def list_all_iff\<close>)
  then show "length ip = 16 \<Longrightarrow> ?thesis"
    using ip6_groups_join6 [of 0 7 ip "[]"] by (simp add: ip6ToString_def)
qed

section \<open>A prefix and its text\<close>

definition bstr :: "bool list \<Rightarrow> string" where
  "bstr p = map (\<lambda>b. if b then CHR ''1'' else CHR ''0'') p"

lemma bstr_simps [simp]:
  "bstr [] = []" "bstr [True] = ''1''" "bstr [False] = ''0''" "length (bstr p) = length p" "i < length p \<Longrightarrow> bstr p ! i = CHR ''1'' \<longleftrightarrow> p ! i"
  "bstr (p @ [b]) = bstr p @ [if b then CHR ''1'' else CHR ''0'']" "bstr (p @ q) = bstr p @ bstr q"
  by (simp_all add: bstr_def)

lemma bit_or_push:
  "k < 8 \<Longrightarrow> j < 8 \<Longrightarrow> bit (x OR push_bit (7 - j) 1 :: byte) (7 - k) \<longleftrightarrow> bit x (7 - k) \<or> k = j"
  by (auto simp: bit_simps)

lemma set_bit_bits:
  assumes "i < 8 * length ip" "j < 8 * length ip"
  shows "bits (ip[i div 8 := ip ! (i div 8) OR push_bit (7 - i mod 8) 1]) ! j \<longleftrightarrow> bits ip ! j \<or> j = i"
proof (cases "j div 8 = i div 8")
  case True
  then have "j mod 8 = i mod 8 \<longleftrightarrow> j = i" by (metis div_mod_decomp)
  then show ?thesis
    using assms True bit_or_push [of "j mod 8" "i mod 8" "ip ! (i div 8)"] by (auto simp: nth_bits)
next
  case False
  then show ?thesis using assms by (auto simp: nth_bits)
qed

lemma set_prefix_bits_bits:
  assumes "length p \<le> 8 * len"
  shows "length (set_prefix_bits (8 * len) (bstr p) (replicate len 0)) = len"
    "i < 8 * len \<Longrightarrow> bits (set_prefix_bits (8 * len) (bstr p) (replicate len 0)) ! i \<longleftrightarrow> i < length p \<and> p ! i"
proof -
  let ?f = "\<lambda>i (ip :: bytes). if bstr p ! i = CHR ''1'' then ip[i div 8 := ip ! (i div 8) OR push_bit (7 - i mod 8) 1] else ip"
  have *: "length (fold ?f [0..<n] (replicate len 0)) = len \<and>
      (\<forall>i < 8 * len. bits (fold ?f [0..<n] (replicate len 0)) ! i \<longleftrightarrow> i < n \<and> p ! i)"
    if "n \<le> length p" for n
    using that
  proof (induction n)
    case 0
    then show ?case by (auto simp: nth_bits)
  next
    case (Suc n)
    let ?ip = "fold ?f [0..<n] (replicate len 0)"
    have IH: "length ?ip = len" "\<And>i. i < 8 * len \<Longrightarrow> bits ?ip ! i \<longleftrightarrow> i < n \<and> p ! i" using Suc by auto
    then show ?case
      using Suc.prems assms set_bit_bits [of n ?ip] by (auto simp: less_Suc_eq)
  qed
  have m: "min (8 * len) (length (bstr p)) = length p" using assms by simp
  show "length (set_prefix_bits (8 * len) (bstr p) (replicate len 0)) = len"
    "i < 8 * len \<Longrightarrow> bits (set_prefix_bits (8 * len) (bstr p) (replicate len 0)) ! i \<longleftrightarrow> i < length p \<and> p ! i"
    unfolding set_prefix_bits_def m using * by auto
qed

lemma length_fold_zero [simp]: "length (fold (\<lambda>i ip. ip[i := 0]) [a..<b] ip) = length ip"
  by (induction b) auto

lemma nth_fold_zero:
  "j < length ip \<Longrightarrow> fold (\<lambda>i ip. ip[i := 0]) [a..<b] ip ! j = (if a \<le> j \<and> j < b then 0 else ip ! j)"
  by (induction b) (auto simp: nth_list_update less_Suc_eq)

lemma length_clear_host_bits [simp]: "length (clear_host_bits len n ip) = length ip"
  by (simp add: clear_host_bits_def Let_def)

lemma nth_clear_host_bits:
  assumes "j < length ip"
  shows "clear_host_bits (length ip) n ip ! j =
     (if n < 8 * length ip \<and> n div 8 < j then 0
      else if n < 8 * length ip \<and> j = n div 8 \<and> n mod 8 > 0 then ip ! j AND NOT (drop_bit (n mod 8) 0xFF)
      else ip ! j)"
  using assms by (auto simp: clear_host_bits_def Let_def nth_list_update nth_fold_zero)

text \<open>Where the bits behind the prefix are clear already, the clearing loop changes nothing.\<close>

lemma clear_host_bits_id:
  assumes "\<And>j. n \<le> j \<Longrightarrow> j < 8 * length ip \<Longrightarrow> \<not> bits ip ! j" "i < 8 * length ip"
  shows "bits (clear_host_bits (length ip) n ip) ! i \<longleftrightarrow> bits ip ! i"
proof (cases "bits ip ! i")
  case True
  then have "i < n" using assms(1) [of i] assms(2) by fastforce
  then have "i div 8 \<le> n div 8" "i div 8 = n div 8 \<Longrightarrow> i mod 8 < n mod 8"
    by (simp_all add: div_le_mono) (metis div_mod_decomp nat_add_left_cancel_less)
  then show ?thesis
    using True assms(2) bit_partial_mask [of "n mod 8" "i mod 8"]
    by (auto simp: nth_bits nth_clear_host_bits bit_and_iff)
next
  case False
  then show ?thesis using assms(2) by (auto simp: nth_bits nth_clear_host_bits bit_and_iff)
qed

lemma printed_bits:
  assumes "length p \<le> 8 * len"
  defines "ip \<equiv> clear_host_bits len (length p) (set_prefix_bits (8 * len) (bstr p) (replicate len 0))"
  shows "length ip = len" "i < 8 * len \<Longrightarrow> bits ip ! i \<longleftrightarrow> i < length p \<and> p ! i"
proof -
  let ?ip = "set_prefix_bits (8 * len) (bstr p) (replicate len 0)"
  note S = set_prefix_bits_bits [OF assms(1)]
  show "length ip = len" by (simp add: ip_def S(1))
  show "bits ip ! i \<longleftrightarrow> i < length p \<and> p ! i" if "i < 8 * len"
    using clear_host_bits_id [of "length p" ?ip i] S that by (simp add: ip_def)
qed

text \<open>A network address whose bits are those of a prefix, masked by the length of the prefix.\<close>

lemma take_masked:
  assumes "length p \<le> 8 * length ip" "\<And>i. i < 8 * length ip \<Longrightarrow> bits ip ! i \<longleftrightarrow> i < length p \<and> p ! i"
  shows "take (length p) (bits (map2 (AND) ip (CIDRMask (length p) (length ip)))) = p"
proof (rule nth_equalityI)
  show "length (take (length p) (bits (map2 (AND) ip (CIDRMask (length p) (length ip))))) = length p"
    using assms by simp
next
  fix i assume "i < length (take (length p) (bits (map2 (AND) ip (CIDRMask (length p) (length ip)))))"
  then show "take (length p) (bits (map2 (AND) ip (CIDRMask (length p) (length ip)))) ! i = p ! i"
    using assms bits_masked [of i ip "length p"] by simp
qed

lemma ParseCIDR_text:
  assumes "ParseAddr a = Some ip" "CHR ''/'' \<notin> set a" "n \<le> 8 * length ip" "length ip = 4 \<or> length ip = 16"
  shows "ParseCIDR (a @ ''/'' @ intToString (int n)) =
     Some (As16 ip, map2 (AND) ip (CIDRMask n (length ip)), CIDRMask n (length ip))"
proof -
  have w: "takeWhile ((\<noteq>) CHR ''/'') (a @ ''/'' @ intToString (int n)) = a"
    "dropWhile ((\<noteq>) CHR ''/'') (a @ ''/'' @ intToString (int n)) = CHR ''/'' # intToString (int n)"
    using assms(2) by (induction a) auto
  have "dtoi (intToString (int n)) 0 0 = Some (n, [])" using assms by (intro dtoi_decimal) auto
  moreover have "IP_Mask (As16 ip) (CIDRMask n (length ip)) = Some (map2 (AND) ip (CIDRMask n (length ip)))"
    using assms(4) by (auto simp: IP_Mask_def As16_def Let_def)
  ultimately show ?thesis
    unfolding ParseCIDR_def Let_def w using assms by simp
qed

lemma cidr_route_printed:
  assumes "length p \<le> (if fam then 32 else 128)"
  shows "cidr_route (prefixToCIDR (bstr p) (length p) fam) = Some (fam, p)"
proof (cases "p = []")
  case True
  have "cidr_route ''0.0.0.0/0'' = Some (True, [])" "cidr_route ''::/0'' = Some (False, [])" by code_simp+
  then show ?thesis using True by (simp add: prefixToCIDR_def)
next
  case False
  define len :: nat where "len = (if fam then 4 else 16)"
  define ip where "ip = clear_host_bits len (length p) (set_prefix_bits (8 * len) (bstr p) (replicate len 0))"
  define a where "a = (if fam then ip4ToString ip else ip6ToString ip)"
  have ip: "length ip = len" "\<And>i. i < 8 * len \<Longrightarrow> bits ip ! i \<longleftrightarrow> i < length p \<and> p ! i"
    unfolding ip_def using printed_bits [of p len] assms by (auto simp: len_def split: if_splits)
  have "ParseAddr a = Some ip" "CHR ''/'' \<notin> set a"
    using ip(1) by (auto simp: a_def len_def ParseAddr_ip4 ParseAddr_ip6 no_slash_ip4 no_slash_ip6 split: if_splits)
  moreover have n: "length p \<le> 8 * length ip" using assms ip(1) by (simp add: len_def split: if_splits)
  moreover have "length ip = 4 \<or> length ip = 16" using ip(1) by (simp add: len_def split: if_splits)
  moreover have "prefixToCIDR (bstr p) (length p) fam = a @ ''/'' @ intToString (int (length p))"
    using False by (simp add: prefixToCIDR_def a_def ip_def len_def)
  ultimately have "ParseCIDR (prefixToCIDR (bstr p) (length p) fam) =
      Some (As16 ip, map2 (AND) ip (CIDRMask (length p) (length ip)), CIDRMask (length p) (length ip))"
    using ParseCIDR_text [of a ip "length p"] by simp
  moreover have "take (length p) (bits (map2 (AND) ip (CIDRMask (length p) (length ip)))) = p"
    using take_masked [OF n] ip by simp
  moreover have "length ip = 4 \<longleftrightarrow> fam" using ip(1) by (simp add: len_def)
  ultimately show ?thesis using n by (simp add: cidr_route_def)
qed

end
