(* ===== verification/Router_Dump.thy ===== *)
theory Router_Dump
  imports Router_Print
begin

text \<open>
  What \<^verbatim>\<open>Range\<close>, \<^verbatim>\<open>Keys\<close> and \<^verbatim>\<open>MD5\<close> report of a table, and that a table can be rebuilt from the report.
\<close>

section \<open>The report of a trie\<close>

text \<open>What is reported below a node: its own route and those of its two branches.\<close>

lemma Collect_paths:
  "{(f p, v) | p v. P p v} =
     {(f [], v) | v. P [] v} \<union> ({(f (False # p), v) | p v. P (False # p) v} \<union> {(f (True # p), v) | p v. P (True # p) v})"
    (is "?L = ?R")
proof
  show "?R \<subseteq> ?L" by blast
  show "?L \<subseteq> ?R"
  proof
    fix x assume "x \<in> ?L"
    then obtain p v where x: "x = (f p, v)" "P p v" by blast
    show "x \<in> ?R"
    proof (cases p)
      case (Cons b q)
      then show ?thesis using x by (cases b) auto
    qed (use x in blast)
  qed
qed

lemma collectRoutes_set:
  "set (collectRoutes n (bstr q) (length q) m fam) =
     {(prefixToCIDR (bstr (q @ p)) (length (q @ p)) fam, v) | p v. entry n p = Some v \<and> length (q @ p) < m}"
proof (induction n "bstr q" "length q" m fam arbitrary: q rule: collectRoutes.induct)
  case (1 zr on lf tg m fam)
  let ?f = "\<lambda>q. prefixToCIDR (bstr q) (length q) fam" and ?n = "TrieNode zr on lf tg"
  let ?P = "\<lambda>p v. entry ?n p = Some v \<and> length (q @ p) < m"
  show ?case
  proof (cases "m \<le> length q")
    case True
    then show ?thesis by auto
  next
    case False
    have z: "set (case zr of Some z \<Rightarrow> collectRoutes z (bstr q @ ''0'') (length q + 1) m fam | None \<Rightarrow> []) =
        {(?f (q @ False # p), v) | p v. ?P (False # p) v}"
      using 1(1) [OF False, of _ "q @ [False]"] by (cases zr) simp_all
    have o: "set (case on of Some z \<Rightarrow> collectRoutes z (bstr q @ ''1'') (length q + 1) m fam | None \<Rightarrow> []) =
        {(?f (q @ True # p), v) | p v. ?P (True # p) v}"
      using 1(2) [OF False, of _ "q @ [True]"] by (cases on) simp_all
    have own: "set (if lf then case tg of Some t \<Rightarrow> [(?f q, t)] | None \<Rightarrow> [] else []) = {(?f (q @ []), v) | v. ?P [] v}"
      using False by (cases lf; cases tg) simp_all
    show ?thesis
      unfolding collectRoutes.simps if_not_P [OF False] set_append own z o
      by (rule Collect_paths [of "\<lambda>p. ?f (q @ p)" ?P, symmetric])
  qed
qed

text \<open>The report of the whole router, by route instead of by text.\<close>

definition report :: "'v router \<Rightarrow> ((bool \<times> bool list) \<times> 'v) set" where
  "report r = {((fam, p), v). routes r (fam, p) = Some v \<and> length p < 128}"

definition show_route :: "bool \<times> bool list \<Rightarrow> string" where
  "show_route fp = prefixToCIDR (bstr (snd fp)) (length (snd fp)) (fst fp)"

lemma Range_report: "set (Range r) = (\<lambda>(fp, v). (show_route fp, v)) ` report r"
proof -
  have f: "set (collectRoutes n '''' 0 128 fam) = {(show_route (fam, p), v) | p v. entry n p = Some v \<and> length p < 128}"
    for n :: "'a trie_node" and fam
    using collectRoutes_set [of n "[]" 128 fam] by (simp add: show_route_def)
  have "report r = {((True, p), v) | p v. entry (v4 r) p = Some v \<and> length p < 128} \<union>
      {((False, p), v) | p v. entry (v6 r) p = Some v \<and> length p < 128}"
    by (auto simp: report_def routes_def split: if_splits)
  then show ?thesis by (auto simp: Range_def f image_Un image_iff)
qed

section \<open>Tables that histories leave\<close>

definition width_ok :: "(bool \<times> bool list \<Rightarrow> 'v option) \<Rightarrow> bool" where
  "width_ok tb \<longleftrightarrow> (\<forall>fam p. tb (fam, p) \<noteq> None \<longrightarrow>
     length p \<le> (if fam then 32 else 128) \<and> (\<exists>s. cidr_route s = Some (fam, p) \<and> \<not> mapped_cidr s))"

lemma cidr_route_width:
  assumes "cidr_route s = Some (fam, p)"
  shows "length p \<le> (if fam then 32 else 128)"
proof -
  obtain a net m where s: "ParseCIDR s = Some (a, net, m)" "fam = (length net = 4)" "p = take (Mask_Size m) (bits net)"
    using assms by (auto simp: cidr_route_def split: option.splits)
  then show ?thesis using ParseCIDR_net(1,2) [OF s(1)] by auto
qed

lemma spec_op_width:
  assumes "width_ok tb" "\<not> mapped_cidr (op_addr x)"
  shows "width_ok (spec_op x tb)"
proof (cases "cidr_route (op_addr x)")
  case None
  then show ?thesis using assms by (cases x) simp_all
next
  case (Some fp)
  then have "spec_op x tb q \<noteq> None \<Longrightarrow> tb q \<noteq> None \<or> q = fp" for q
    by (cases x) (auto simp: fun_upd_def split: if_splits)
  moreover have "length p \<le> (if fam then 32 else 128) \<and> (\<exists>s. cidr_route s = Some (fam, p) \<and> \<not> mapped_cidr s)"
    if "fp = (fam, p)" for fam p
    using that Some assms(2) cidr_route_width [of "op_addr x" fam p] by blast
  ultimately show ?thesis using assms(1) unfolding width_ok_def by blast
qed

lemma table_of_width:
  assumes "plain_ops ops"
  shows "width_ok (table_of ops)"
proof -
  have "width_ok (fold spec_op ops tb)" if "plain_ops ops" "width_ok tb" for tb :: "bool \<times> bool list \<Rightarrow> 'a option"
    using that by (induction ops arbitrary: tb) (auto simp: plain_ops_def spec_op_width)
  moreover have "width_ok (\<lambda>p. None)" by (simp add: width_ok_def)
  ultimately show ?thesis using assms by (simp add: table_of_def)
qed

text \<open>A route determines the network address, hence whether it is one in IPv6 form.\<close>

lemma bits_inject:
  assumes "length a = length b" "bits a = bits b"
  shows "a = b"
proof (rule nth_equalityI [OF assms(1)], rule bit_word_eqI)
  fix i n assume i: "i < length a" and n: "n < LENGTH(8)"
  define k where "k = 7 - n"
  have k: "k < 8" "7 - k = n" using n by (auto simp: k_def)
  have "bits a ! (8 * i + k) = bits b ! (8 * i + k)" using assms by simp
  moreover have "(8 * i + k) div 8 = i" "7 - (8 * i + k) mod 8 = n" "8 * i + k < 8 * length a"
    using i k by auto
  ultimately show "bit (a ! i) n = bit (b ! i) n" using assms(1) by (simp add: nth_bits)
qed

lemma network_unique:
  assumes "ParseCIDR s = Some (a, net, m)" "ParseCIDR s' = Some (a', net', m')" "cidr_route s = cidr_route s'"
  shows "net = net'"
proof (rule bits_inject)
  note N = ParseCIDR_net [OF assms(1)] and N' = ParseCIDR_net [OF assms(2)]
  have eq: "length net = 4 \<longleftrightarrow> length net' = 4" "take (Mask_Size m) (bits net) = take (Mask_Size m') (bits net')"
    using assms by (simp_all add: cidr_route_def)
  show l: "length net = length net'" using eq(1) N(1) N'(1) by auto
  have n: "Mask_Size m = Mask_Size m'" using arg_cong [OF eq(2), of length] N(2) N'(2) by simp
  show "bits net = bits net'"
  proof (rule nth_equalityI)
    fix i assume i: "i < length (bits net)"
    show "bits net ! i = bits net' ! i"
    proof (cases "i < Mask_Size m")
      case True
      then show ?thesis using arg_cong [OF eq(2), of "\<lambda>x. x ! i"] n by simp
    next
      case False
      then show ?thesis using N(3) [of i] N'(3) [of i] i l n by auto
    qed
  qed (simp add: l)
qed

lemma mapped_cidr_cong:
  assumes "cidr_route s = cidr_route s'"
  shows "mapped_cidr s = mapped_cidr s'"
proof (cases "ParseCIDR s")
  case None
  then have "ParseCIDR s' = None" using assms by (simp add: cidr_route_def split: option.splits prod.splits)
  then show ?thesis using None by (simp add: mapped_cidr_def)
next
  case (Some x)
  obtain a net m where s: "ParseCIDR s = Some (a, net, m)" using Some by (cases x) auto
  then have "ParseCIDR s' \<noteq> None" using assms by (cases "ParseCIDR s'") (simp_all add: cidr_route_def)
  then obtain a' net' m' where s': "ParseCIDR s' = Some (a', net', m')" by auto
  show ?thesis using network_unique [OF s s' assms] s s' by (simp add: mapped_cidr_def)
qed

lemma show_route_ok:
  assumes "width_ok tb" "tb fp \<noteq> None"
  shows "cidr_route (show_route fp) = Some fp" "\<not> mapped_cidr (show_route fp)"
proof -
  obtain fam p where fp: "fp = (fam, p)" by force
  have "length p \<le> (if fam then 32 else 128)" using assms unfolding width_ok_def fp by blast
  then show r: "cidr_route (show_route fp) = Some fp"
    using cidr_route_printed [of p fam] by (simp add: show_route_def fp)
  obtain s where "cidr_route s = Some fp" "\<not> mapped_cidr s"
    using assms unfolding width_ok_def fp by blast
  then show "\<not> mapped_cidr (show_route fp)" using r mapped_cidr_cong by metis
qed

section \<open>Rebuilding a table from its report\<close>

lemma fold_adds:
  assumes "\<And>s v. (s, v) \<in> set xs \<Longrightarrow> \<exists>fp. cidr_route s = Some fp \<and> f fp = Some v"
  shows "fold spec_op (map (\<lambda>(s, v). Add s v) xs) tb q =
     (if \<exists>s v. (s, v) \<in> set xs \<and> cidr_route s = Some q then f q else tb q)"
  using assms
proof (induction xs arbitrary: tb)
  case (Cons x xs)
  obtain s v where x: "x = (s, v)" by force
  then obtain fp where fp: "cidr_route s = Some fp" "f fp = Some v" using Cons.prems [of s v] by auto
  have "fold spec_op (map (\<lambda>(s, v). Add s v) xs) (tb(fp \<mapsto> v)) q =
      (if \<exists>s v. (s, v) \<in> set xs \<and> cidr_route s = Some q then f q else (tb(fp \<mapsto> v)) q)"
    using Cons.prems by (intro Cons.IH) auto
  then show ?case using fp x by auto
qed simp

lemma Range_lists_routes:
  assumes "width_ok (routes r)"
  shows "(s, v) \<in> set (Range r) \<longleftrightarrow>
     (\<exists>fp. s = show_route fp \<and> cidr_route s = Some fp \<and> routes r fp = Some v \<and> length (snd fp) < 128)"
proof -
  have "(s, v) \<in> set (Range r) \<longleftrightarrow> (\<exists>fp. s = show_route fp \<and> routes r fp = Some v \<and> length (snd fp) < 128)"
    by (force simp: Range_report report_def image_iff)
  moreover have "cidr_route (show_route fp) = Some fp" if "routes r fp = Some v" for fp
    using show_route_ok(1) [OF assms, of fp] that by simp
  ultimately show ?thesis by blast
qed

text \<open>
  C27. A table can be rebuilt from what \<^verbatim>\<open>Range\<close> reports: after any history without IPv4 networks in
  IPv6 form, registering every reported address with its target in a new router succeeds and gives
  the same table, except for IPv6 host routes (prefix length 128), which the traversal does not
  reach.
\<close>
theorem Range_rebuilds:
  assumes "plain_ops ops"
  shows "\<exists>r r'. run_ops ops NewRouter = Some r \<and>
     run_ops (map (\<lambda>(s, v). Add s v) (Range r)) NewRouter = Some r' \<and>
     (\<forall>fam p. routes r' (fam, p) = (if length p < 128 then routes r (fam, p) else None))"
proof -
  obtain r where r: "run_ops ops NewRouter = Some r" "routes r = table_of ops"
    using run_ops_routes [OF assms, of NewRouter] by (auto simp: table_of_def)
  have w: "width_ok (routes r)" using table_of_width [OF assms] r by simp
  note L = Range_lists_routes [OF w]
  let ?ops = "map (\<lambda>(s, v). Add s v) (Range r)"
  have "plain_ops ?ops"
    using show_route_ok(2) [OF w] by (fastforce simp: plain_ops_def L)
  then obtain r' where r': "run_ops ?ops NewRouter = Some r'" "routes r' = fold spec_op ?ops (\<lambda>p. None)"
    using run_ops_routes [of ?ops NewRouter] by auto
  have "routes r' fp = (if length (snd fp) < 128 then routes r fp else None)" for fp
  proof -
    have "routes r' fp = (if \<exists>s v. (s, v) \<in> set (Range r) \<and> cidr_route s = Some fp then routes r fp else None)"
      unfolding r'(2) by (rule fold_adds) (auto simp: L)
    also have "\<dots> = (if length (snd fp) < 128 then routes r fp else None)"
    proof (cases "routes r fp")
      case (Some v)
      then have c: "cidr_route (show_route fp) = Some fp" using show_route_ok(1) [OF w] by simp
      have "(\<exists>s v. (s, v) \<in> set (Range r) \<and> cidr_route s = Some fp) \<longleftrightarrow> length (snd fp) < 128"
        using c Some unfolding L by (metis option.inject)
      then show ?thesis by simp
    qed simp
    finally show ?thesis .
  qed
  then show ?thesis using r r' by (intro exI [of _ r] exI [of _ r']) auto
qed

theorem Range_rebuilds_witness:
  "\<exists>r r'. run_ops demo_ops NewRouter = Some r \<and>
     run_ops (map (\<lambda>(s, v). Add s v) (Range r)) NewRouter = Some r' \<and>
     routes r' (True, [False, False, False, False, True, False, True, False]) = Some 1"
proof -
  have p: "plain_ops demo_ops" by code_simp
  from Range_rebuilds [OF this] obtain r r' where r: "run_ops demo_ops NewRouter = Some r"
    "run_ops (map (\<lambda>(s, v). Add s v) (Range r)) NewRouter = Some r'"
    "\<And>fam p. routes r' (fam, p) = (if length p < 128 then routes r (fam, p) else None)" by blast
  have "routes r = table_of demo_ops"
    using run_ops_routes [OF p, of NewRouter] r(1) by (auto simp: table_of_def)
  moreover have "table_of demo_ops (True, [False, False, False, False, True, False, True, False]) = Some 1"
    by code_simp
  ultimately show ?thesis using r by auto
qed

section \<open>Routing by text\<close>

text \<open>
  \<^verbatim>\<open>RouteString\<close> on the printed destination of a packet gives the answer of \<^verbatim>\<open>Route\<close> on the packet,
  for every packet whose destination is not an IPv4 address in IPv6 form.
\<close>
theorem RouteString_agrees:
  assumes "packet_dst buf = Some (fam, ip)" "fam \<or> take 12 ip \<noteq> v4InV6Prefix"
  shows "RouteString r (if fam then ip4ToString ip else ip6ToString ip) = Route r buf"
proof -
  have len: "length ip = (if fam then 4 else 16)"
    using assms(1) by (auto simp: packet_dst_def Let_def split: if_splits)
  show ?thesis
    using assms len by (cases fam)
      (auto simp: Route_dst RouteString_def ParseIP_def ParseAddr_ip4 ParseAddr_ip6 As16_def To4_def To16_def)
qed

theorem RouteString_agrees_witness:
  "\<exists>r. run_ops demo_ops NewRouter = Some r \<and> RouteString r ''10.1.2.3'' = Some 2"
proof -
  obtain r where r: "run_ops demo_ops NewRouter = Some r" "Route r demo_packet = Some 2" by (rule demo_route)
  have "packet_dst demo_packet = Some (True, [10, 1, 2, 3])" "ip4ToString [10, 1, 2, 3] = ''10.1.2.3''"
    by code_simp+
  then show ?thesis using RouteString_agrees [of demo_packet True "[10, 1, 2, 3]" r] r by auto
qed

section \<open>The fingerprint\<close>

text \<open>What is hashed, as a function of the table: the prefixes in order, up to a depth.\<close>

primrec md5_input :: "nat \<Rightarrow> string \<Rightarrow> (bool list \<Rightarrow> 'v option) \<Rightarrow> string" where
  "md5_input 0 q tb = []"
| "md5_input (Suc k) q tb =
     (if tb [] \<noteq> None then q else []) @
     md5_input k (q @ ''0'') (\<lambda>p. tb (False # p)) @ md5_input k (q @ ''1'') (\<lambda>p. tb (True # p))"

lemma md5_input_empty [simp]: "md5_input k q (\<lambda>p. None) = []"
  by (induction k arbitrary: q) simp_all

lemma dead_empty: "\<not> live n \<Longrightarrow> entry n = (\<lambda>p. None)"
proof
  fix p assume "\<not> live n"
  then show "entry n p = None" by (cases n; cases p) (auto simp: live_def)
qed

lemma collectMD5_input: "collectMD5 n q d m = md5_input (m - d) q (entry n)"
proof (induction n q d m rule: collectMD5.induct)
  case (1 zr on lf tg q d m)
  show ?case
  proof (cases "m \<le> d")
    case False
    then obtain k where k: "m - d = Suc k" "m - (d + 1) = k" by (metis Suc_diff_Suc Suc_eq_plus1 not_le)
    let ?n = "TrieNode zr on lf tg"
    have z: "(case zr of Some z \<Rightarrow> if live z then collectMD5 z (q @ ''0'') (d + 1) m else [] | None \<Rightarrow> []) =
        md5_input k (q @ ''0'') (\<lambda>p. entry ?n (False # p))"
      using 1(1) [OF False] k by (cases zr) (auto simp: dead_empty)
    have o: "(case on of Some z \<Rightarrow> if live z then collectMD5 z (q @ ''1'') (d + 1) m else [] | None \<Rightarrow> []) =
        md5_input k (q @ ''1'') (\<lambda>p. entry ?n (True # p))"
      using 1(2) [OF False] k by (cases on) (auto simp: dead_empty)
    show ?thesis
      unfolding collectMD5.simps if_not_P [OF False] z o k by auto
  qed simp
qed

text \<open>
  The fingerprint of a router depends on its table alone: two histories that leave the same
  table give the same \<^verbatim>\<open>MD5\<close>, whatever nodes removed routes left behind in the tries.
\<close>
theorem MD5_of_table:
  assumes "plain_ops ops" "plain_ops ops'" "table_of ops = table_of ops'"
    and "run_ops ops NewRouter = Some r" "run_ops ops' NewRouter = Some r'"
  shows "MD5 md5hex r = MD5 md5hex r'"
proof -
  have "routes r = routes r'"
    using run_ops_routes [OF assms(1), of NewRouter] run_ops_routes [OF assms(2), of NewRouter] assms(3-5)
    by (auto simp: table_of_def)
  then have "entry (v4 r) = entry (v4 r')" "entry (v6 r) = entry (v6 r')"
    unfolding routes_def by (auto simp: fun_eq_iff split: if_splits)
  then show ?thesis by (simp add: MD5_def collectMD5_input)
qed

theorem MD5_of_table_witness:
  "\<exists>r r'. run_ops [Add ''10.0.0.0/8'' (1 :: nat), Add ''10.1.0.0/16'' 2, Drop ''10.1.0.0/16''] NewRouter = Some r \<and>
     run_ops [Add ''10.0.0.0/8'' (1 :: nat)] NewRouter = Some r' \<and> MD5 id r = MD5 id r'"
proof -
  let ?a = "[Add ''10.0.0.0/8'' 1, Add ''10.1.0.0/16'' 2, Drop ''10.1.0.0/16''] :: nat route_op list"
  let ?b = "[Add ''10.0.0.0/8'' 1] :: nat route_op list"
  have p: "plain_ops ?a" "plain_ops ?b" by code_simp+
  have "cidr_route ''10.0.0.0/8'' \<noteq> cidr_route ''10.1.0.0/16''" "cidr_route ''10.1.0.0/16'' \<noteq> None"
    "cidr_route ''10.0.0.0/8'' \<noteq> None" by code_simp+
  then have t: "table_of ?a = table_of ?b" by (auto simp: table_of_def)
  obtain r r' where "run_ops ?a NewRouter = Some r" "run_ops ?b NewRouter = Some r'"
    using run_ops_routes [OF p(1)] run_ops_routes [OF p(2)] by blast
  then show ?thesis using MD5_of_table [OF p t] by blast
qed

text \<open>
  The fingerprint does not see default routes: registering \<^verbatim>\<open>0.0.0.0/0\<close> or \<^verbatim>\<open>::/0\<close> writes the empty
  prefix into the hash, so the \<^verbatim>\<open>MD5\<close> of the router stays what it was.
\<close>

theorem MD5_misses_default_route:
  assumes "cidr_route s = Some (fam, [])" "\<not> mapped_cidr s"
  shows "\<exists>r'. Register r s v = Some r' \<and> routes r' (fam, []) = Some v \<and> MD5 md5hex r' = MD5 md5hex r"
proof -
  obtain r' where r': "Register r s v = Some r'" "routes r' = (routes r)((fam, []) \<mapsto> v)"
    using Register_routes [OF assms(2), of r v] assms(1) by auto
  have other: "entry (v4 r') = (if fam then (entry (v4 r))([] \<mapsto> v) else entry (v4 r))"
    "entry (v6 r') = (if fam then entry (v6 r) else (entry (v6 r))([] \<mapsto> v))"
    using fun_cong [OF r'(2), of "(True, p)" for p] fun_cong [OF r'(2), of "(False, p)" for p]
    by (auto simp: routes_def fun_eq_iff split: if_splits)
  have root: "md5_input k '''' (tb([] \<mapsto> v)) = md5_input k '''' tb" for k and tb :: "bool list \<Rightarrow> 'a option"
    by (cases k) simp_all
  show ?thesis
    using r' by (cases fam) (simp_all add: MD5_def collectMD5_input other root)
qed

theorem MD5_misses_default_route_witness:
  "\<exists>r'. Register NewRouter ''0.0.0.0/0'' (5 :: nat) = Some r' \<and> MD5 id r' = MD5 id (NewRouter :: nat router)"
proof -
  have "cidr_route ''0.0.0.0/0'' = Some (True, [])" "\<not> mapped_cidr ''0.0.0.0/0''" by code_simp+
  then show ?thesis using MD5_misses_default_route [of "''0.0.0.0/0''" True NewRouter 5 id] by blast
qed

end
