(* ===== verification/IpPool.thy ===== *)
theory IpPool
  imports Router_Print
begin

text \<open>
  The IPv4 address allocator of \<^verbatim>\<open>src/common/addresses/ip_pool.go\<close>. Its methods hold the mutex from
  start to end, so each is one step on the state. The map \<^verbatim>\<open>allocated\<close> only ever holds \<^verbatim>\<open>true\<close>; it is
  the set of its keys. Random draws and the order in which a map is iterated are arguments; JSON
  encoding is a pair of functions with their round trip as hypothesis.
\<close>

section \<open>Text of addresses\<close>

text \<open>Decimal numbers as \<^verbatim>\<open>fmt\<close> and \<^verbatim>\<open>net\<close> print them, and \<^verbatim>\<open>IP.String\<close> of an IPv4 address.\<close>

fun utoa :: "nat \<Rightarrow> string" where
  "utoa n = (if n < 10 then [''0123456789'' ! n] else utoa (n div 10) @ [''0123456789'' ! (n mod 10)])"

declare utoa.simps [simp del]

definition ip4_text :: "bytes \<Rightarrow> string" where
  "ip4_text ip = utoa (unat (ip ! 0)) @ ''.'' @ utoa (unat (ip ! 1)) @ ''.'' @
                 utoa (unat (ip ! 2)) @ ''.'' @ utoa (unat (ip ! 3))"

text \<open>\<^verbatim>\<open>IPNet.Contains\<close> with \<^verbatim>\<open>networkNumberAndMask\<close>.\<close>

definition net_number :: "bytes \<Rightarrow> bytes \<Rightarrow> (bytes \<times> bytes) option" where
  "net_number net m =
     (let ip = (case To4 net of Some x \<Rightarrow> x | None \<Rightarrow> net) in
      if length ip \<noteq> 4 \<and> length ip \<noteq> 16 then None
      else if length m = 4 then if length ip \<noteq> 4 then None else Some (ip, m)
      else if length m = 16 then Some (ip, if length ip = 4 then drop 12 m else m)
      else None)"

definition Contains :: "bytes \<Rightarrow> bytes \<Rightarrow> bytes \<Rightarrow> bool" where
  "Contains net m ip =
     (case net_number net m of
        None \<Rightarrow> length (case To4 ip of Some x \<Rightarrow> x | None \<Rightarrow> ip) = 0
      | Some (nn, mm) \<Rightarrow>
          let x = (case To4 ip of Some y \<Rightarrow> y | None \<Rightarrow> ip) in
          length x = length nn \<and> map2 (AND) nn mm = map2 (AND) x mm)"

section \<open>State\<close>

record ip_allocator =
  network :: string
  startIP :: bytes
  endIP :: bytes
  allocated :: "string set"
  subnetMask :: string
  subnetMaskBits :: nat
  totalIPs :: uint32

record serializable_ip_allocator =
  Network :: string
  StartIP :: string
  EndIP :: string
  Allocated :: "string list"
  SubnetMask :: string
  SubnetMaskBits :: nat
  TotalIPs :: uint32

text \<open>\<open>None\<close>: \<^verbatim>\<open>To4\<close> returned \<^verbatim>\<open>nil\<close> and the index expression panics.\<close>

definition ipToUint32 :: "bytes \<Rightarrow> uint32 option" where
  "ipToUint32 ip = map_option get_be32 (To4 ip)"

definition uint32ToIP :: "uint32 \<Rightarrow> bytes" where
  "uint32ToIP val = put_be32 val"

definition calculateIPRangeSize :: "uint32 \<Rightarrow> uint32 \<Rightarrow> uint32" where
  "calculateIPRangeSize start end' = (if start > end' then 0 else end' - start + 1)"

section \<open>Construction\<close>

text \<open>The last address of the network, byte by byte; \<^verbatim>\<open>copy\<close> takes the first four bytes.\<close>

definition end_available :: "bytes \<Rightarrow> bytes \<Rightarrow> bytes" where
  "end_available masked m = (map2 (OR) (copy_to 0 masked (replicate 4 0)) (map NOT m))[3 := 254]"

definition NewIPAllocator :: "string \<Rightarrow> goerr + ip_allocator" where
  "NewIPAllocator networkCIDR =
     (case ParseCIDR networkCIDR of
        None \<Rightarrow> Inl (ErrorNew ''invalid network CIDR'')
      | Some (_, net, m) \<Rightarrow>
          (case To4 net of
             None \<Rightarrow> Inl (ErrorNew ''only IPv4 addresses are supported'')
           | Some ip4 \<Rightarrow>
               let startAvailable = ip4[3 := 1];
                   endAvailable = end_available (case IP_Mask net m of Some x \<Rightarrow> x | None \<Rightarrow> []) m
               in Inr \<lparr>network = networkCIDR, startIP = startAvailable, endIP = endAvailable, allocated = {},
                       subnetMask = ip4_text m, subnetMaskBits = Mask_Size m,
                       totalIPs = calculateIPRangeSize (get_be32 startAvailable) (get_be32 endAvailable)\<rparr>))"

section \<open>Operations\<close>

type_synonym 'a pool_result = "(ip_allocator \<times> (goerr + 'a)) option"

definition cidr_text :: "ip_allocator \<Rightarrow> string \<Rightarrow> string" where
  "cidr_text a ip = ip @ ''/'' @ utoa (subnetMaskBits a)"

definition mark :: "string \<Rightarrow> ip_allocator \<Rightarrow> ip_allocator" where
  "mark ip a = a\<lparr>allocated := insert ip (allocated a)\<rparr>"

text \<open>The attempts of \<^verbatim>\<open>AssignRandom\<close>; \<open>draw i\<close> is what \<^verbatim>\<open>Intn\<close> returns in attempt \<open>i\<close>.\<close>

fun random_loop :: "ip_allocator \<Rightarrow> uint32 \<Rightarrow> (nat \<Rightarrow> nat) \<Rightarrow> nat \<Rightarrow> nat \<Rightarrow> ip_allocator \<times> (goerr + string)" where
  "random_loop a start draw i 0 =
     (a, Inl (ErrorNew ''failed to find available IP address, check IP pool status''))"
| "random_loop a start draw i (Suc k) =
     (let randomIP = start + of_nat (draw i); ipStr = ip4_text (uint32ToIP randomIP) in
      if ipStr \<notin> allocated a then (mark ipStr a, Inr (cidr_text a ipStr))
      else random_loop a start draw (i + 1) k)"

definition maxAttempts :: nat where
  "maxAttempts = 1000"

text \<open>\<open>size\<close> of the set is \<^verbatim>\<open>len\<close> of the map, converted to \<^verbatim>\<open>uint32\<close>.\<close>

definition AssignRandom :: "ip_allocator \<Rightarrow> (nat \<Rightarrow> nat) \<Rightarrow> string pool_result" where
  "AssignRandom a draw =
     (if of_nat (card (allocated a)) \<ge> totalIPs a then Some (a, Inl (ErrorNew ''no available IP addresses''))
      else case (ipToUint32 (startIP a), ipToUint32 (endIP a)) of
        (Some start, Some end') \<Rightarrow>
          if end' - start + 1 = 0 then None else Some (random_loop a start draw 0 maxAttempts)
      | _ \<Rightarrow> None)"

definition AssignByOffset :: "ip_allocator \<Rightarrow> uint32 \<Rightarrow> string pool_result" where
  "AssignByOffset a offset =
     (case (ipToUint32 (startIP a), ipToUint32 (endIP a)) of
        (Some start, Some end') \<Rightarrow>
          let targetIP = start + offset in
          if targetIP > end' then Some (a, Inl (ErrorNew ''offset is out of range''))
          else let ipStr = ip4_text (uint32ToIP targetIP) in
            if ipStr \<in> allocated a then Some (a, Inl (ErrorNew ''IP address is already allocated''))
            else Some (mark ipStr a, Inr (cidr_text a ipStr))
      | _ \<Rightarrow> None)"

definition AssignSpecific :: "ip_allocator \<Rightarrow> string \<Rightarrow> unit pool_result" where
  "AssignSpecific a ip =
     (case ParseIP ip of
        None \<Rightarrow> Some (a, Inl (ErrorNew ''invalid IP address format''))
      | Some parsedIP \<Rightarrow>
          (case ParseCIDR (network a) of
             None \<Rightarrow> None
           | Some (_, net, m) \<Rightarrow>
               if \<not> Contains net m parsedIP then Some (a, Inl (ErrorNew ''IP address is not within network''))
               else if ip \<in> allocated a then Some (a, Inl (ErrorNew ''IP address is already allocated''))
               else (case (ipToUint32 (startIP a), ipToUint32 (endIP a), ipToUint32 parsedIP) of
                  (Some lo, Some hi, Some x) \<Rightarrow>
                    if x < lo \<or> x > hi then Some (a, Inl (ErrorNew ''IP address is out of range''))
                    else Some (mark ip a, Inr ())
                | _ \<Rightarrow> None)))"

text \<open>\<^verbatim>\<open>strings.Split(ip, "/")[0]\<close>\<close>

definition before_slash :: "string \<Rightarrow> string" where
  "before_slash s = takeWhile ((\<noteq>) CHR ''/'') s"

definition ReleaseIP :: "ip_allocator \<Rightarrow> string \<Rightarrow> ip_allocator \<times> goerr option" where
  "ReleaseIP a ip0 =
     (let ip = before_slash ip0 in
      if ip \<notin> allocated a then (a, Some (ErrorNew ''IP address is not allocated''))
      else (a\<lparr>allocated := allocated a - {ip}\<rparr>, None))"

definition IsAllocated :: "ip_allocator \<Rightarrow> string \<Rightarrow> bool" where
  "IsAllocated a ip \<longleftrightarrow> before_slash ip \<in> allocated a"

section \<open>Reports\<close>

record ip_status =
  st_network :: string
  st_subnet_mask :: string
  st_total_ips :: uint32
  st_allocated :: nat
  st_available :: uint32
  st_allocated_ips :: "string list"
  st_start_ip :: string
  st_end_ip :: string

text \<open>\<open>keys\<close>: the keys of the map in the order of this iteration.\<close>

definition GetStatus :: "ip_allocator \<Rightarrow> string list \<Rightarrow> ip_status" where
  "GetStatus a keys =
     \<lparr>st_network = network a, st_subnet_mask = subnetMask a, st_total_ips = totalIPs a,
      st_allocated = card (allocated a), st_available = totalIPs a - of_nat (card (allocated a)),
      st_allocated_ips = keys, st_start_ip = ip4_text (startIP a), st_end_ip = ip4_text (endIP a)\<rparr>"

definition GetNetworkInfo :: "ip_allocator \<Rightarrow> (string \<times> string) list" where
  "GetNetworkInfo a =
     [(''network'', network a), (''subnet_mask'', subnetMask a),
      (''start_ip'', ip4_text (startIP a)), (''end_ip'', ip4_text (endIP a))]"

text \<open>The value handed to \<^verbatim>\<open>json.Marshal\<close>; \<^verbatim>\<open>SubnetMaskBits\<close> is not set.\<close>

definition Bytes_value :: "ip_allocator \<Rightarrow> string list \<Rightarrow> serializable_ip_allocator" where
  "Bytes_value a keys =
     \<lparr>Network = network a, StartIP = ip4_text (startIP a), EndIP = ip4_text (endIP a), Allocated = keys,
      SubnetMask = subnetMask a, SubnetMaskBits = 0, TotalIPs = totalIPs a\<rparr>"

definition Bytes ::
    "(serializable_ip_allocator \<Rightarrow> goerr + bytes) \<Rightarrow> ip_allocator \<Rightarrow> string list \<Rightarrow> goerr + bytes" where
  "Bytes marshal a keys = marshal (Bytes_value a keys)"

definition LoadFromData ::
    "(bytes \<Rightarrow> goerr + serializable_ip_allocator) \<Rightarrow> bytes \<Rightarrow> goerr + ip_allocator" where
  "LoadFromData unmarshal data =
     (case unmarshal data of
        Inl e \<Rightarrow> Inl e
      | Inr s \<Rightarrow>
          (case NewIPAllocator (Network s) of
             Inl e \<Rightarrow> Inl e
           | Inr a \<Rightarrow> Inr (fold mark (Allocated s) a)))"

end
