(* ===== verification/IpPool_Props.thy ===== *)
theory IpPool_Props
  imports IpPool Router_Dump
begin

text \<open>
  Properties of the address allocator over arbitrary sequences of its operations: leases are never
  given twice, released addresses come back, a pool survives saving and loading; and the limits of
  the address arithmetic.
\<close>

section \<open>Text\<close>

lemma utoa_decimal: "n < 1000 \<Longrightarrow> utoa n = intToString (int n)"
proof -
  assume n: "n < 1000"
  consider "n < 10" | "10 \<le> n" "n < 100" | "100 \<le> n" "n < 1000" using n by linarith
  then show ?thesis
  proof cases
    case 1
    then show ?thesis by (simp add: utoa.simps [of n] decimal_1 dec_def)
  next
    case 2
    then have "n div 10 < 10" by (simp add: div_less_iff_less_mult)
    then show ?thesis using 2 by (simp add: utoa.simps [of n] utoa.simps [of "n div 10"] decimal_2 dec_def)
  next
    case 3
    then have "n div 10 div 10 < 10" "10 \<le> n div 10" by auto
    then show ?thesis
      using 3 by (simp add: utoa.simps [of n] utoa.simps [of "n div 10"] utoa.simps [of "n div 10 div 10"]
          decimal_3 dec_def)
  qed
qed

lemma ip4_text_eq: "ip4_text ip = ip4ToString ip"
proof -
  have "utoa (unat (b :: byte)) = intToString (uint b)" for b
  proof -
    have "unat b < 256" using unsigned_less [of b] by simp
    then show ?thesis using utoa_decimal [of "unat b"] by simp
  qed
  then show ?thesis by (simp add: ip4_text_def ip4ToString_def)
qed

lemma ip4_text_inject:
  assumes "length x = 4" "length y = 4" "ip4_text x = ip4_text y"
  shows "x = y"
proof -
  have "ParseAddr (ip4ToString x) = ParseAddr (ip4ToString y)" using assms(3) by (simp only: ip4_text_eq)
  then show ?thesis using assms by (simp add: ParseAddr_ip4)
qed

lemma before_slash_no: "CHR ''/'' \<notin> set s \<Longrightarrow> before_slash (s @ CHR ''/'' # t) = s"
  by (induction s) (auto simp: before_slash_def)

lemma before_slash_cidr_text [simp]: "before_slash (cidr_text a (ip4_text ip)) = ip4_text ip"
  by (simp add: cidr_text_def before_slash_no ip4_text_eq no_slash_ip4)

section \<open>Invariant\<close>

text \<open>Everything but the set of allocated addresses is fixed by the network the pool was made for.\<close>

definition pool_of :: "string \<Rightarrow> ip_allocator \<Rightarrow> bool" where
  "pool_of n a \<longleftrightarrow> finite (allocated a) \<and> NewIPAllocator n = Inr (a\<lparr>allocated := {}\<rparr>)"

lemma pool_of_new: "NewIPAllocator n = Inr a \<Longrightarrow> pool_of n a"
  by (auto simp: pool_of_def NewIPAllocator_def Let_def split: option.splits)

lemma pool_of_mark [simp]: "pool_of n (mark ip a) = pool_of n a"
  by (simp add: pool_of_def mark_def)

lemma allocated_mark [simp]: "allocated (mark ip a) = insert ip (allocated a)"
  by (simp add: mark_def)

lemma pool_of_release [simp]: "pool_of n a \<Longrightarrow> pool_of n (a\<lparr>allocated := allocated a - X\<rparr>)"
  by (simp add: pool_of_def)

lemma pool_of_facts:
  assumes "pool_of n a"
  shows "length (startIP a) = 4" "length (endIP a) = 4" "finite (allocated a)" "network a = n"
    "ParseCIDR n \<noteq> None" "totalIPs a = calculateIPRangeSize (get_be32 (startIP a)) (get_be32 (endIP a))"
proof -
  from assms obtain x net m ip4 where p: "ParseCIDR n = Some (x, net, m)" "To4 net = Some ip4"
    and a: "a\<lparr>allocated := {}\<rparr> = \<lparr>network = n, startIP = ip4[3 := 1],
      endIP = end_available (case IP_Mask net m of Some x \<Rightarrow> x | None \<Rightarrow> []) m, allocated = {},
      subnetMask = ip4_text m, subnetMaskBits = Mask_Size m, totalIPs = calculateIPRangeSize (get_be32 (ip4[3 := 1]))
        (get_be32 (end_available (case IP_Mask net m of Some x \<Rightarrow> x | None \<Rightarrow> []) m))\<rparr>"
    by (auto simp: pool_of_def NewIPAllocator_def Let_def split: option.splits)
  have m: "4 \<le> length m" using ParseCIDR_mask [OF p(1)] ParseCIDR_net(1) [OF p(1)] by auto
  have l: "length ip4 = 4" using p(2) by (auto simp: To4_def split: if_splits)
  have "startIP a = ip4[3 := 1]" "endIP a = end_available (case IP_Mask net m of Some x \<Rightarrow> x | None \<Rightarrow> []) m"
    "network a = n" "totalIPs a = calculateIPRangeSize (get_be32 (ip4[3 := 1]))
        (get_be32 (end_available (case IP_Mask net m of Some x \<Rightarrow> x | None \<Rightarrow> []) m))"
    using arg_cong [OF a, of startIP] arg_cong [OF a, of endIP] arg_cong [OF a, of network] arg_cong [OF a, of totalIPs]
    by simp_all
  then show "length (startIP a) = 4" "length (endIP a) = 4" "finite (allocated a)" "network a = n"
    "ParseCIDR n \<noteq> None" "totalIPs a = calculateIPRangeSize (get_be32 (startIP a)) (get_be32 (endIP a))"
    using assms p l m by (auto simp: pool_of_def end_available_def)
qed

section \<open>Sequences of operations\<close>

datatype pool_op = OpRandom "nat \<Rightarrow> nat" | OpOffset uint32 | OpSpecific string | OpRelease string

text \<open>
  One operation on the pool and on the list of addresses that are out: every address handed out is
  added, a released one is taken off.
\<close>

fun pool_step :: "pool_op \<Rightarrow> ip_allocator \<times> string list \<Rightarrow> (ip_allocator \<times> string list) option" where
  "pool_step (OpRandom draw) (a, out) =
     (case AssignRandom a draw of
        None \<Rightarrow> None | Some (a', Inl e) \<Rightarrow> Some (a', out) | Some (a', Inr s) \<Rightarrow> Some (a', before_slash s # out))"
| "pool_step (OpOffset off) (a, out) =
     (case AssignByOffset a off of
        None \<Rightarrow> None | Some (a', Inl e) \<Rightarrow> Some (a', out) | Some (a', Inr s) \<Rightarrow> Some (a', before_slash s # out))"
| "pool_step (OpSpecific ip) (a, out) =
     (case AssignSpecific a ip of
        None \<Rightarrow> None | Some (a', Inl e) \<Rightarrow> Some (a', out) | Some (a', Inr _) \<Rightarrow> Some (a', ip # out))"
| "pool_step (OpRelease ip) (a, out) =
     (case ReleaseIP a ip of
        (a', Some e) \<Rightarrow> Some (a', out) | (a', None) \<Rightarrow> Some (a', removeAll (before_slash ip) out))"

fun pool_run :: "pool_op list \<Rightarrow> ip_allocator \<times> string list \<Rightarrow> (ip_allocator \<times> string list) option" where
  "pool_run [] st = Some st"
| "pool_run (x # xs) st = (case pool_step x st of None \<Rightarrow> None | Some st' \<Rightarrow> pool_run xs st')"

lemma random_loop_cases:
  assumes "random_loop a start draw i k = (a', res)"
  shows "(\<exists>e. res = Inl e \<and> a' = a) \<or>
    (\<exists>j. let ip = ip4_text (put_be32 (start + of_nat (draw j))) in
       ip \<notin> allocated a \<and> a' = mark ip a \<and> res = Inr (cidr_text a ip))"
  using assms
  by (induction a start draw i k rule: random_loop.induct) (auto simp: Let_def uint32ToIP_def split: if_splits)

definition leases_ok :: "ip_allocator \<times> string list \<Rightarrow> bool" where
  "leases_ok st \<longleftrightarrow> distinct (snd st) \<and> set (snd st) = allocated (fst st)"

lemma ipToUint32_4: "length ip = 4 \<Longrightarrow> ipToUint32 ip = Some (get_be32 ip)"
  by (simp add: ipToUint32_def To4_def)

lemma Contains_v4:
  assumes "ParseCIDR n = Some (x, net, m)" "To4 net = Some ip4" "Contains net m ip"
  shows "\<exists>v. ipToUint32 ip = Some v"
proof -
  have l: "length ip4 = 4" using assms(2) by (auto simp: To4_def split: if_splits)
  have "length m = 4 \<or> length m = 16" using ParseCIDR_mask [OF assms(1)] ParseCIDR_net(1) [OF assms(1)] by simp
  then obtain mm where "net_number net m = Some (ip4, mm)"
    using assms(2) l by (auto simp: net_number_def Let_def)
  then show ?thesis
    using assms(3) l by (cases "To4 ip") (auto simp: Contains_def To4_def ipToUint32_def split: if_splits)
qed

lemma AssignByOffset_eq:
  assumes "pool_of n a"
  shows "AssignByOffset a off = Some (
     if get_be32 (startIP a) + off > get_be32 (endIP a) then (a, Inl (ErrorNew ''offset is out of range''))
     else if ip4_text (put_be32 (get_be32 (startIP a) + off)) \<in> allocated a
     then (a, Inl (ErrorNew ''IP address is already allocated''))
     else (mark (ip4_text (put_be32 (get_be32 (startIP a) + off))) a,
           Inr (cidr_text a (ip4_text (put_be32 (get_be32 (startIP a) + off))))))"
  using pool_of_facts(1,2) [OF assms] by (simp add: AssignByOffset_def ipToUint32_4 Let_def uint32ToIP_def)

lemma AssignByOffset_cases:
  assumes "pool_of n a" and ip_def: "ip = ip4_text (put_be32 (get_be32 (startIP a) + off))"
  shows "(\<exists>e. AssignByOffset a off = Some (a, Inl e)) \<or>
     AssignByOffset a off = Some (mark ip a, Inr (cidr_text a ip)) \<and> ip \<notin> allocated a"
  unfolding AssignByOffset_eq [OF assms(1)] ip_def [symmetric]
  by (cases "get_be32 (startIP a) + off > get_be32 (endIP a)"; cases "ip \<in> allocated a") simp_all

lemma AssignSpecific_cases:
  assumes "pool_of n a"
  shows "(\<exists>e. AssignSpecific a ip = Some (a, Inl e)) \<or> AssignSpecific a ip = Some (mark ip a, Inr ()) \<and> ip \<notin> allocated a"
proof -
  note f = pool_of_facts [OF assms]
  obtain y net m where p: "ParseCIDR n = Some (y, net, m)" using f(5) by auto
  obtain ip4 where t: "To4 net = Some ip4"
    using assms p by (auto simp: pool_of_def NewIPAllocator_def split: option.splits)
  show ?thesis
  proof (cases "ParseIP ip")
    case None
    then show ?thesis by (simp add: AssignSpecific_def)
  next
    case (Some z)
    show ?thesis
    proof (cases "Contains net m z")
      case True
      then obtain v where "ipToUint32 z = Some v" using Contains_v4 [OF p t] by blast
      then show ?thesis using Some True f p by (simp add: AssignSpecific_def ipToUint32_4)
    next
      case False
      then show ?thesis using Some f p by (simp add: AssignSpecific_def)
    qed
  qed
qed

text \<open>Every operation returns, keeps the pool's parameters, and keeps leases and map in step.\<close>

lemma pool_step_ok:
  assumes "pool_of n a" "leases_ok (a, out)"
  shows "\<exists>a' out'. pool_step x (a, out) = Some (a', out') \<and> pool_of n a' \<and> leases_ok (a', out')"
proof (cases x)
  case (OpRandom draw)
  note f = pool_of_facts [OF assms(1)]
  have nz: "get_be32 (endIP a) - get_be32 (startIP a) + 1 \<noteq> 0" if "\<not> of_nat (card (allocated a)) \<ge> totalIPs a"
    using that f(6) by (auto simp: calculateIPRangeSize_def split: if_splits)
  obtain a' res where r: "random_loop a (get_be32 (startIP a)) draw 0 maxAttempts = (a', res)" by force
  show ?thesis
    using random_loop_cases [OF r] nz assms f OpRandom r
    by (auto simp: AssignRandom_def ipToUint32_4 leases_ok_def Let_def)
next
  case (OpOffset off)
  consider e where "AssignByOffset a off = Some (a, Inl e)"
    | bs where "AssignByOffset a off = Some (mark (ip4_text bs) a, Inr (cidr_text a (ip4_text bs)))"
        "ip4_text bs \<notin> allocated a"
    using AssignByOffset_cases [OF assms(1) refl, of off] by blast
  then show ?thesis
  proof cases
    case 1
    show ?thesis unfolding OpOffset pool_step.simps 1 using assms by simp
  next
    case 2
    have "pool_of n (mark (ip4_text bs) a)" "leases_ok (mark (ip4_text bs) a, ip4_text bs # out)"
      using assms 2(2) by (simp_all add: leases_ok_def)
    then show ?thesis unfolding OpOffset pool_step.simps 2(1) by simp
  qed
next
  case (OpSpecific ip)
  consider e where "AssignSpecific a ip = Some (a, Inl e)"
    | "AssignSpecific a ip = Some (mark ip a, Inr ())" "ip \<notin> allocated a"
    using AssignSpecific_cases [OF assms(1), of ip] by blast
  then show ?thesis
  proof cases
    case 1
    show ?thesis unfolding OpSpecific pool_step.simps 1 using assms by simp
  next
    case 2
    have "pool_of n (mark ip a)" "leases_ok (mark ip a, ip # out)"
      using assms 2(2) by (simp_all add: leases_ok_def)
    then show ?thesis unfolding OpSpecific pool_step.simps 2(1) by simp
  qed
next
  case (OpRelease ip)
  then show ?thesis
    using assms by (auto simp: ReleaseIP_def Let_def leases_ok_def distinct_removeAll)
qed

lemma pool_run_ok:
  assumes "pool_of n a" "leases_ok (a, out)"
  shows "\<exists>a' out'. pool_run ops (a, out) = Some (a', out') \<and> pool_of n a' \<and> leases_ok (a', out')"
  using assms
proof (induction ops arbitrary: a out)
  case (Cons x xs)
  then show ?case using pool_step_ok [OF Cons.prems, of x] by fastforce
qed simp

section \<open>Properties\<close>

text \<open>Texts in dotted form, and operations that use no other: \<open>AssignSpecific\<close> takes any text that parses.\<close>

definition dotted :: "string \<Rightarrow> bool" where
  "dotted t \<longleftrightarrow> (\<exists>b. length b = 4 \<and> t = ip4_text b)"

definition dotted_op :: "pool_op \<Rightarrow> bool" where
  "dotted_op x = (case x of OpSpecific t \<Rightarrow> dotted t | _ \<Rightarrow> True)"

lemma dotted_be32 [simp]: "dotted (ip4_text (put_be32 v))"
  unfolding dotted_def by (rule exI [of _ "put_be32 v"]) simp

lemma pool_step_dotted:
  assumes "pool_of n a" "dotted_op x" "\<forall>t \<in> set out. dotted t" "pool_step x (a, out) = Some (a', out')"
  shows "\<forall>t \<in> set out'. dotted t"
proof (cases x)
  case (OpRandom draw)
  obtain a1 res where r: "random_loop a (get_be32 (startIP a)) draw 0 maxAttempts = (a1, res)" by force
  show ?thesis using random_loop_cases [OF r] assms(3,4) pool_of_facts(1,2) [OF assms(1)] r
    by (auto simp: OpRandom AssignRandom_def ipToUint32_4 Let_def split: if_splits)
next
  case (OpOffset off)
  show ?thesis using AssignByOffset_cases [OF assms(1) refl, of off] assms(3,4) by (auto simp: OpOffset)
next
  case (OpSpecific t)
  show ?thesis using AssignSpecific_cases [OF assms(1), of t] assms(2-4) by (auto simp: OpSpecific dotted_op_def)
next
  case (OpRelease t)
  show ?thesis using assms(3,4) by (auto simp: OpRelease split: prod.splits option.splits)
qed

lemma pool_run_dotted:
  assumes "pool_of n a" "leases_ok (a, out)" "\<forall>x \<in> set ops. dotted_op x" "\<forall>t \<in> set out. dotted t" "pool_run ops (a, out) = Some (a', out')"
  shows "\<forall>t \<in> set out'. dotted t"
  using assms
proof (induction ops arbitrary: a out)
  case (Cons x xs)
  obtain a1 out1 where s: "pool_step x (a, out) = Some (a1, out1)" "pool_of n a1" "leases_ok (a1, out1)"
    using pool_step_ok [OF Cons.prems(1,2), of x] by blast
  have "\<forall>t \<in> set out1. dotted t" using pool_step_dotted [OF Cons.prems(1) _ Cons.prems(4) s(1)] Cons.prems(3) by simp
  then show ?case using Cons.IH [OF s(2,3)] Cons.prems(3,5) s(1) by simp
qed simp

lemma dotted_addresses:
  "distinct out \<Longrightarrow> \<forall>t \<in> set out. dotted t \<Longrightarrow> \<exists>bs. out = map ip4_text bs \<and> distinct bs \<and> (\<forall>b \<in> set bs. length b = 4)"
proof (induction out)
  case (Cons t ts)
  obtain bs where bs: "ts = map ip4_text bs" "distinct bs" "\<forall>b \<in> set bs. length b = 4" using Cons by auto
  obtain b where b: "length b = 4" "t = ip4_text b" using Cons.prems(2) by (auto simp: dotted_def)
  have "b \<notin> set bs" using Cons.prems(1) bs(1) b(2) by auto
  then show ?case using bs b by (intro exI [of _ "b # bs"]) simp
qed simp

text \<open>
  C10. Leases are distinct: whatever sequence of random, offset and specific assignments and releases a new pool goes through, no operation panics, and the
  texts that are out are pairwise different and are exactly the entries of the allocation map. When specific addresses are asked for in dotted form only,
  the texts are those of pairwise different IPv4 addresses. (Another spelling of an address, such as ::ffff:10.0.0.5, is leased beside it.)
\<close>
theorem leases_distinct:
  assumes "NewIPAllocator n = Inr a0"
  shows "\<exists>a out. pool_run ops (a0, []) = Some (a, out) \<and> distinct out \<and> set out = allocated a \<and>
     ((\<forall>x \<in> set ops. dotted_op x) \<longrightarrow> (\<exists>bs. out = map ip4_text bs \<and> distinct bs \<and> (\<forall>b \<in> set bs. length b = 4)))"
proof -
  have "leases_ok (a0, [])" using assms by (auto simp: leases_ok_def NewIPAllocator_def Let_def split: option.splits)
  note ok = pool_of_new [OF assms] this
  obtain a out where r: "pool_run ops (a0, []) = Some (a, out)" "leases_ok (a, out)" using pool_run_ok [OF ok] by blast
  have "\<exists>bs. out = map ip4_text bs \<and> distinct bs \<and> (\<forall>b \<in> set bs. length b = 4)" if "\<forall>x \<in> set ops. dotted_op x"
    using pool_run_dotted [OF ok that _ r(1)] r(2) by (intro dotted_addresses) (simp_all add: leases_ok_def)
  then show ?thesis using r by (auto simp: leases_ok_def)
qed

lemma demo_pool: "NewIPAllocator ''10.0.0.0/24'' = Inr
  \<lparr>network = ''10.0.0.0/24'', startIP = [10, 0, 0, 1], endIP = [10, 0, 0, 254], allocated = {},
   subnetMask = ''255.255.255.0'', subnetMaskBits = 24, totalIPs = 254\<rparr>"
  by code_simp

theorem leases_distinct_witness:
  "\<exists>a0 a bs. NewIPAllocator ''10.0.0.0/24'' = Inr a0 \<and>
     pool_run [OpOffset 4, OpOffset 4, OpRandom (\<lambda>i. i), OpRelease ''10.0.0.5/24'', OpSpecific ''10.0.0.5''] (a0, []) =
       Some (a, map ip4_text bs) \<and> distinct bs"
proof -
  let ?ops = "[OpOffset 4, OpOffset 4, OpRandom (\<lambda>i. i), OpRelease ''10.0.0.5/24'', OpSpecific ''10.0.0.5'']"
  have "''10.0.0.5'' = ip4_text [10, 0, 0, 5]" by code_simp
  then have "dotted ''10.0.0.5''" unfolding dotted_def by (intro exI [of _ "[10, 0, 0, 5]"]) simp
  then have "\<forall>x \<in> set ?ops. dotted_op x" by (simp add: dotted_op_def)
  then show ?thesis using leases_distinct [OF demo_pool, of ?ops] demo_pool by blast
qed

text \<open>
  A random assignment hands out an address of the range: if \<^verbatim>\<open>Intn\<close> stays below its bound, the
  address is between the first and the last address of the pool, was free before, is recorded, and
  is printed with the prefix length of the network.
\<close>
theorem AssignRandom_in_range:
  assumes "pool_of n a" "\<And>i. draw i < unat (get_be32 (endIP a) - get_be32 (startIP a) + 1)"
    and "AssignRandom a draw = Some (a', Inr s)"
  shows "\<exists>x. get_be32 (startIP a) \<le> x \<and> x \<le> get_be32 (endIP a) \<and> s = cidr_text a (ip4_text (put_be32 x)) \<and>
     \<not> IsAllocated a s \<and> a' = mark (ip4_text (put_be32 x)) a"
proof -
  note f = pool_of_facts [OF assms(1)]
  let ?lo = "get_be32 (startIP a)" and ?hi = "get_be32 (endIP a)"
  have nf: "\<not> totalIPs a \<le> of_nat (card (allocated a))" "random_loop a ?lo draw 0 maxAttempts = (a', Inr s)"
    using assms(3) f(1,2) by (auto simp: AssignRandom_def ipToUint32_4 split: if_splits)
  then have le: "?lo \<le> ?hi" using f(6) by (auto simp: calculateIPRangeSize_def not_less split: if_splits)
  from random_loop_cases [OF nf(2)] obtain j where
    j: "ip4_text (put_be32 (?lo + of_nat (draw j))) \<notin> allocated a"
      "a' = mark (ip4_text (put_be32 (?lo + of_nat (draw j)))) a"
      "s = cidr_text a (ip4_text (put_be32 (?lo + of_nat (draw j))))"
    by (auto simp: Let_def)
  have "unat (?hi - ?lo + 1) \<le> unat ?hi - unat ?lo + 1"
    using le by (simp add: unat_word_ariths word_le_nat_alt) (metis mod_less_eq_dividend unat_sub word_le_nat_alt)
  then have "unat ?lo + draw j \<le> unat ?hi"
    using assms(2) [of j] le by (simp add: word_le_nat_alt)
  moreover have "unat (?lo + of_nat (draw j)) = unat ?lo + draw j"
    using calculation unat32_less [of ?hi] by (simp add: unat_word_ariths unat_of_nat take_bit_eq_mod)
  ultimately have "?lo \<le> ?lo + of_nat (draw j)" "?lo + of_nat (draw j) \<le> ?hi"
    by (simp_all add: word_le_nat_alt)
  then show ?thesis using j by (intro exI [of _ "?lo + of_nat (draw j)"]) (simp add: IsAllocated_def)
qed

theorem AssignRandom_in_range_witness:
  "\<exists>a s a' x. NewIPAllocator ''10.0.0.0/24'' = Inr a \<and> AssignRandom a (\<lambda>i. 7) = Some (a', Inr s) \<and>
     s = cidr_text a (ip4_text (put_be32 x)) \<and> x \<le> get_be32 (endIP a)"
proof -
  let ?a = "\<lparr>network = ''10.0.0.0/24'', startIP = [10, 0, 0, 1], endIP = [10, 0, 0, 254], allocated = {},
   subnetMask = ''255.255.255.0'', subnetMaskBits = 24, totalIPs = 254\<rparr>"
  have "map_option snd (AssignRandom ?a (\<lambda>i. 7)) = Some (Inr ''10.0.0.8/24'')" by code_simp
  then have r: "\<exists>a' s. AssignRandom ?a (\<lambda>i. 7) = Some (a', Inr s)" by auto
  have "unat (get_be32 (endIP ?a) - get_be32 (startIP ?a) + 1) = 254" by code_simp
  then show ?thesis
    using r demo_pool AssignRandom_in_range [OF pool_of_new [OF demo_pool], of "\<lambda>i. 7"] by fastforce
qed

text \<open>
  A pool survives saving and loading: for any state a new pool of a network can reach, loading
  what \<^verbatim>\<open>Bytes\<close> wrote gives back the same pool, with the same allocations and parameters (the prefix
  length, which \<^verbatim>\<open>Bytes\<close> leaves out, is recomputed), if JSON decoding undoes encoding.
\<close>
theorem LoadFromData_Bytes:
  assumes "NewIPAllocator n = Inr a0" "pool_run ops (a0, []) = Some (a, out)"
    and "set keys = allocated a"
    and "\<And>v data. marshal v = Inr data \<Longrightarrow> unmarshal data = Inr v" "Bytes marshal a keys = Inr data"
  shows "LoadFromData unmarshal data = Inr a"
proof -
  have "allocated a0 = {}" using assms(1) by (auto simp: NewIPAllocator_def Let_def split: option.splits)
  then have "pool_of n a"
    using pool_run_ok [OF pool_of_new [OF assms(1)], of "[]" ops] assms(2) by (auto simp: leases_ok_def)
  then have new: "NewIPAllocator (network a) = Inr (a\<lparr>allocated := {}\<rparr>)"
    using pool_of_facts(4) by (auto simp: pool_of_def)
  have "fold mark keys b = b\<lparr>allocated := allocated b \<union> set keys\<rparr>" for b
    by (induction keys arbitrary: b) (simp_all add: mark_def)
  then have "fold mark keys (a\<lparr>allocated := {}\<rparr>) = a" using assms(3) by simp
  moreover have "unmarshal data = Inr (Bytes_value a keys)" using assms(4,5) by (simp add: Bytes_def)
  ultimately show ?thesis using new by (simp add: LoadFromData_def Bytes_value_def)
qed

text \<open>A codec for the witness: it keeps the parts of the value \<^verbatim>\<open>LoadFromData\<close> cannot recompute.\<close>

theorem LoadFromData_Bytes_witness:
  "\<exists>a0 a out. NewIPAllocator ''10.0.0.0/24'' = Inr a0 \<and> pool_run [OpOffset 4] (a0, []) = Some (a, out) \<and>
     (\<forall>v. Bytes (\<lambda>v'. if v' = v then Inr [] else Inl EOF) a [''10.0.0.5''] = Inr [] \<longrightarrow>
          LoadFromData (\<lambda>d. Inr v) [] = Inr a)"
proof -
  let ?a0 = "\<lparr>network = ''10.0.0.0/24'', startIP = [10, 0, 0, 1], endIP = [10, 0, 0, 254], allocated = {},
   subnetMask = ''255.255.255.0'', subnetMaskBits = 24, totalIPs = 254\<rparr>"
  have "map_option (\<lambda>(a, out). (allocated a, out)) (pool_run [OpOffset 4] (?a0, [])) = Some ({''10.0.0.5''}, [''10.0.0.5''])"
    by code_simp
  then obtain a out where r: "pool_run [OpOffset 4] (?a0, []) = Some (a, out)" "allocated a = {''10.0.0.5''}" by auto
  have "LoadFromData (\<lambda>d. Inr v) [] = Inr a"
    if "Bytes (\<lambda>v'. if v' = v then Inr [] else Inl EOF) a [''10.0.0.5''] = Inr []" for v
    by (rule LoadFromData_Bytes [OF demo_pool r(1) _ _ that]) (auto simp: r(2) split: if_splits)
  then show ?thesis using demo_pool r by blast
qed

section \<open>The range of a pool\<close>

lemma bit_get_be32:
  assumes "length b = 4" "i < 32"
  shows "bit (get_be32 b) i \<longleftrightarrow> bits b ! (31 - i)"
proof -
  obtain p q r s where b: "b = [p, q, r, s]" using assms(1) unfolding length4 by blast
  define j k where "j = i div 8" and "k = i mod 8"
  have i: "i = 8 * j + k" "k < 8" "j < 4" using assms(2) by (auto simp: j_def k_def)
  have "31 - i = 8 * (3 - j) + (7 - k)" using i by simp
  moreover have "7 - k < 8" by simp
  ultimately have "(31 - i) div 8 = 3 - j" "(31 - i) mod 8 = 7 - k" by simp_all
  moreover have "31 - i < 32" by simp
  ultimately have "bits b ! (31 - i) \<longleftrightarrow> bit (b ! (3 - j)) k" using i(2) b by (simp add: nth_bits)
  moreover have "j = 0 \<or> j = 1 \<or> j = 2 \<or> j = 3" using i(3) by auto
  ultimately show ?thesis
    using i(2) unfolding b i(1)
    by (elim disjE) (auto simp: get_be32_def bit_simps dest: bit_imp_le_length)
qed

lemma get_be32_inject:
  assumes "length x = 4" "length y = 4" "get_be32 x = get_be32 y"
  shows "x = y"
proof (rule bits_inject)
  show "length x = length y" using assms by simp
  show "bits x = bits y"
  proof (rule nth_equalityI)
    fix i assume "i < length (bits x)"
    then have "i = 31 - (31 - i)" "31 - i < 32" using assms(1) by auto
    then show "bits x ! i = bits y ! i"
      using bit_get_be32 [OF assms(1), of "31 - i"] bit_get_be32 [OF assms(2), of "31 - i"] assms(3) by simp
  qed (use assms in simp)
qed

lemma put_get_be32: "length b = 4 \<Longrightarrow> put_be32 (get_be32 b) = b"
  by (rule get_be32_inject) simp_all

lemma bit_map2_and:
  assumes "length x = 4" "length m = 4" "i < 32"
  shows "bit (get_be32 (map2 (AND) x m)) i \<longleftrightarrow> bit (get_be32 x) i \<and> bits m ! (31 - i)"
  using assms by (simp add: bit_get_be32 nth_bits bit_and_iff)

lemma bits_CIDRMask: "i < 8 * l \<Longrightarrow> bits (CIDRMask n l) ! i \<longleftrightarrow> i < n"
  using bit_CIDRMask [of "i div 8" l "i mod 8" n] by (simp add: nth_bits)

text \<open>Addresses between two addresses that agree above bit \<open>s\<close> agree with them there.\<close>

lemma between_drop_bit:
  fixes lo hi x :: uint32
  assumes "lo \<le> x" "x \<le> hi" "drop_bit s lo = drop_bit s hi"
  shows "drop_bit s x = drop_bit s lo"
proof -
  have d: "unat (drop_bit s w) = unat w div 2 ^ s" for w :: uint32
    using unat32_less [of w] by (simp only: unsigned_drop_bit_eq) (simp add: drop_bit_eq_div take_bit_nat_eq_self)
  have "unat lo div 2 ^ s \<le> unat x div 2 ^ s" "unat x div 2 ^ s \<le> unat hi div 2 ^ s"
    using assms(1,2) by (simp_all add: word_le_nat_alt div_le_mono)
  moreover have "unat lo div 2 ^ s = unat hi div 2 ^ s"
    using assms(3) d [of lo] d [of hi] by simp
  ultimately show ?thesis by (simp add: word_unat_eq_iff d)
qed

lemma drop_bit_eqI:
  fixes u v :: uint32
  assumes "\<And>i. s \<le> i \<Longrightarrow> i < 32 \<Longrightarrow> bit u i \<longleftrightarrow> bit v i"
  shows "drop_bit s u = drop_bit s v"
proof (rule bit_word_eqI)
  fix n assume "n < LENGTH(32)"
  show "bit (drop_bit s u) n = bit (drop_bit s v) n"
    using assms [of "s + n"] by (cases "s + n < 32") (auto simp: bit_drop_bit_eq dest: bit_imp_le_length)
qed

text \<open>
  The pool of an IPv4 network with a prefix of at most 24 bits stays inside the network: every
  address from the first to the last address of the pool is contained in it.
\<close>
theorem pool_range_inside:
  assumes "ParseCIDR n = Some (y, net, m)" "length net = 4" "Mask_Size m \<le> 24"
    and "NewIPAllocator n = Inr a" "get_be32 (startIP a) \<le> x" "x \<le> get_be32 (endIP a)"
  shows "Contains net m (put_be32 x)"
proof -
  obtain ip k where "k \<le> 8 * length ip" "m = CIDRMask k (length ip)" "net = map2 (AND) ip m"
    using ParseCIDR_shape [OF assms(1)] by blast
  then have k: "m = CIDRMask k 4" "k \<le> 24" "net = map2 (AND) ip m" "length ip = 4"
    using assms(2,3) by (auto simp: min_def split: if_splits)
  have idem: "IP_Mask net m = Some net"
    using k assms(2) by (auto simp: IP_Mask_def Let_def map2_map_map intro!: nth_equalityI)
  have ends: "startIP a = net[3 := 1]" "endIP a = (map2 (OR) net (map NOT m))[3 := 254]"
    using assms(1,2,4) idem
    by (auto simp: NewIPAllocator_def To4_def Let_def end_available_def copy_to_def blit_def)
  have hb: "bits m ! (31 - i) \<longleftrightarrow> 32 - k \<le> i" if "i < 32" for i
    using that k bits_CIDRMask [of "31 - i" 4 k] by auto
  have up: "(31 - i) div 8 < 3 \<and> 3 \<noteq> (31 - i) div 8" if "32 - k \<le> i" "i < 32" for i
    using that k(2) by (auto simp: div_less_iff_less_mult)
  let ?d = "drop_bit (32 - k)"
  have lo: "?d (get_be32 (startIP a)) = ?d (get_be32 net)"
    by (rule drop_bit_eqI) (use assms(2) ends up in \<open>auto simp: bit_get_be32 nth_bits\<close>)
  have hi: "?d (get_be32 (endIP a)) = ?d (get_be32 net)"
  proof (rule drop_bit_eqI)
    fix i assume i: "32 - k \<le> i" "i < 32"
    have "bit (m ! ((31 - i) div 8)) (7 - (31 - i) mod 8)" using hb [OF i(2)] i k(1) by (simp add: nth_bits)
    then show "bit (get_be32 (endIP a)) i \<longleftrightarrow> bit (get_be32 net) i"
      using assms(2) ends up [OF i] i k(1) by (auto simp: bit_get_be32 nth_bits bit_or_iff bit_not_iff)
  qed
  have "?d x = ?d (get_be32 net)"
    using between_drop_bit [OF assms(5,6), of "32 - k"] lo hi by simp
  then have b: "bit x i \<longleftrightarrow> bit (get_be32 net) i" if "32 - k \<le> i" for i
  proof -
    have "bit (?d x) (i - (32 - k)) = bit (?d (get_be32 net)) (i - (32 - k))"
      using \<open>?d x = ?d (get_be32 net)\<close> by simp
    then show ?thesis using that by (simp add: bit_drop_bit_eq)
  qed
  have "get_be32 (map2 (AND) net m) = get_be32 (map2 (AND) (put_be32 x) m)"
    by (rule bit_word_eqI) (use assms(2) k(1) hb b in \<open>auto simp: bit_map2_and\<close>)
  then have "map2 (AND) net m = map2 (AND) (put_be32 x) m"
    using assms(2) k(1) by (intro get_be32_inject) simp_all
  then show ?thesis
    using assms(2) k(1) by (simp add: Contains_def net_number_def To4_def)
qed

theorem pool_range_inside_witness:
  "\<exists>y net m a. ParseCIDR ''10.0.0.0/24'' = Some (y, net, m) \<and> NewIPAllocator ''10.0.0.0/24'' = Inr a \<and>
     Contains net m (put_be32 (get_be32 [10, 0, 0, 77]))"
proof -
  have "map_option (\<lambda>(y, net, m). (net, Mask_Size m)) (ParseCIDR ''10.0.0.0/24'') = Some ([10, 0, 0, 0], 24)" by code_simp
  then obtain y m where p: "ParseCIDR ''10.0.0.0/24'' = Some (y, [10, 0, 0, 0], m)" "Mask_Size m = 24" by auto
  have "get_be32 [10, 0, 0, 1] \<le> get_be32 [10, 0, 0, 77]" "get_be32 [10, 0, 0, 77] \<le> get_be32 [10, 0, 0, 254]"
    by code_simp+
  then show ?thesis
    using pool_range_inside [OF p(1) _ _ demo_pool, of "get_be32 [10, 0, 0, 77]"] p demo_pool by auto
qed

text \<open>
  A longer prefix is ignored by the last byte of the range: the pool of a network with more than
  24 prefix bits still runs from \<^verbatim>\<open>.1\<close> to \<^verbatim>\<open>.254\<close>, so it hands out addresses outside its network.
\<close>

theorem small_pool_leaves_network:
  "\<exists>a. NewIPAllocator ''10.0.0.128/26'' = Inr a \<and>
     map_option snd (AssignByOffset a 0) = Some (Inr ''10.0.0.1/26'') \<and>
     (\<exists>y net m. ParseCIDR ''10.0.0.128/26'' = Some (y, net, m) \<and> \<not> Contains net m [10, 0, 0, 1])"
proof -
  have "(case NewIPAllocator ''10.0.0.128/26'' of Inl e \<Rightarrow> None | Inr a \<Rightarrow> map_option snd (AssignByOffset a 0)) =
      Some (Inr ''10.0.0.1/26'')" by code_simp
  moreover have "(case ParseCIDR ''10.0.0.128/26'' of None \<Rightarrow> False | Some (y, net, m) \<Rightarrow> \<not> Contains net m [10, 0, 0, 1])"
    by code_simp
  ultimately show ?thesis by (auto split: sum.splits option.splits)
qed

text \<open>
  The range check of \<^verbatim>\<open>AssignByOffset\<close> is on a sum that wraps: every offset that carries the sum
  past the end of the address space passes the check and yields an address below the first address
  of the pool, here the network address itself.
\<close>

theorem offset_wraps_below_start:
  assumes "pool_of n a" "2 ^ 32 \<le> unat (get_be32 (startIP a)) + unat off" "get_be32 (startIP a) \<le> get_be32 (endIP a)"
    and "ip4_text (put_be32 (get_be32 (startIP a) + off)) \<notin> allocated a"
  shows "get_be32 (startIP a) + off < get_be32 (startIP a) \<and>
     AssignByOffset a off = Some (mark (ip4_text (put_be32 (get_be32 (startIP a) + off))) a,
       Inr (cidr_text a (ip4_text (put_be32 (get_be32 (startIP a) + off)))))"
proof -
  let ?lo = "get_be32 (startIP a)"
  have "unat (?lo + off) = unat ?lo + unat off - 2 ^ 32"
    using assms(2) unat32_less [of ?lo] unat32_less [of off] by (simp add: unat_word_ariths mod_if)
  then have lt: "?lo + off < ?lo" using assms(2) unat32_less [of off] by (simp add: word_less_nat_alt)
  then have "\<not> ?lo + off > get_be32 (endIP a)" using assms(3) by (meson less_imp_le linorder_not_less order_trans)
  then show ?thesis using lt assms(1,4) by (simp add: AssignByOffset_eq)
qed

theorem offset_wraps_below_start_witness:
  "\<exists>a a'. NewIPAllocator ''10.0.0.0/24'' = Inr a \<and> AssignByOffset a 0xFFFFFFFF = Some (a', Inr ''10.0.0.0/24'')"
proof -
  let ?a = "\<lparr>network = ''10.0.0.0/24'', startIP = [10, 0, 0, 1], endIP = [10, 0, 0, 254], allocated = {},
   subnetMask = ''255.255.255.0'', subnetMaskBits = 24, totalIPs = 254\<rparr>"
  have "2 ^ 32 \<le> unat (get_be32 (startIP ?a)) + unat (0xFFFFFFFF :: uint32)" "get_be32 (startIP ?a) \<le> get_be32 (endIP ?a)"
    "cidr_text ?a (ip4_text (put_be32 (get_be32 (startIP ?a) + 0xFFFFFFFF))) = ''10.0.0.0/24''"
    by code_simp+
  then show ?thesis
    using offset_wraps_below_start [OF pool_of_new [OF demo_pool]] demo_pool by auto
qed

text \<open>
  A specific address is recorded under the text it was asked for, so the same address can be
  leased twice under two spellings.
\<close>

theorem same_address_leased_twice:
  "\<exists>a a' out. NewIPAllocator ''10.0.0.0/24'' = Inr a \<and> ParseIP ''10.0.0.5'' = ParseIP ''::ffff:10.0.0.5'' \<and>
     pool_run [OpSpecific ''10.0.0.5'', OpSpecific ''::ffff:10.0.0.5''] (a, []) =
       Some (a', [''::ffff:10.0.0.5'', ''10.0.0.5''])"
proof -
  have "ParseIP ''10.0.0.5'' = ParseIP ''::ffff:10.0.0.5''" by code_simp
  moreover have "(case NewIPAllocator ''10.0.0.0/24'' of Inl e \<Rightarrow> None | Inr a \<Rightarrow>
      map_option snd (pool_run [OpSpecific ''10.0.0.5'', OpSpecific ''::ffff:10.0.0.5''] (a, []))) =
      Some [''::ffff:10.0.0.5'', ''10.0.0.5'']" by code_simp
  ultimately show ?thesis by (auto split: sum.splits)
qed

end
