(* ===== verification/Session_Quic.thy ===== *)
theory Session_Quic
  imports VNet_Prelude "HOL-Library.Multiset"
begin

text \<open>
  The datagram session of \<^verbatim>\<open>common/session/session_quic.go\<close>: messages longer than a datagram are cut into
  numbered fragments with a ten-byte header, and the receiver collects the fragments of the
  messages in flight in a map from message id to partial message. The QUIC connection is a library:
  \<^verbatim>\<open>SendDatagram\<close> is a parameter of \<open>Send\<close>, and \<open>Receive\<close> reads the results of successive
  \<^verbatim>\<open>ReceiveDatagram\<close> calls from a list, blocking where the list ends. A nil fragment slot is \<open>None\<close>.
\<close>

section \<open>Fragment headers\<close>

definition MaxDatagramSize :: nat where
  "MaxDatagramSize = 1000"

definition FragmentMagic :: uint16 where
  "FragmentMagic = 0xD0C0"

record fragmentHeader =
  Magic :: uint16
  MessageID :: uint32
  FragmentIndex :: uint16
  FragmentCount :: uint16

definition encode :: "fragmentHeader \<Rightarrow> bytes" where
  "encode h =
     (let buf = replicate 10 0;
          buf = blit 0 (put_be16 (Magic h)) buf;
          buf = blit 2 (put_be32 (MessageID h)) buf;
          buf = blit 6 (put_be16 (FragmentIndex h)) buf
      in blit 8 (put_be16 (FragmentCount h)) buf)"

definition decodeFragmentHeader :: "bytes \<Rightarrow> goerr + (fragmentHeader \<times> bytes)" where
  "decodeFragmentHeader data =
     (if length data < 10 then Inl (ErrorNew ''data too short for fragment header'')
      else let magic = get_be16 (sub 0 2 data) in
        if magic \<noteq> FragmentMagic then Inl (ErrorNew ''invalid magic number - not a fragment'')
        else let header = \<lparr> Magic = magic, MessageID = get_be32 (sub 2 4 data),
                            FragmentIndex = get_be16 (sub 6 2 data),
                            FragmentCount = get_be16 (sub 8 2 data) \<rparr> in
          if FragmentIndex header \<ge> FragmentCount header
          then Inl (ErrorNew ''invalid fragment header: index >= count'')
          else Inr (header, drop 10 data))"

section \<open>The reassembler\<close>

record partialMessage =
  fragments :: "bytes option list"
  received :: uint16

type_synonym messageReassembler = "uint32 \<rightharpoonup> partialMessage"

definition newMessageReassembler :: messageReassembler where
  "newMessageReassembler = Map.empty"

text \<open>
  The result is the new map and the completed message, if there is one. The entry of an unknown
  message is made before the checks, as in the source; the fragments of a complete message are
  appended in index order, a nil slot contributing nothing.
\<close>

definition frag_bytes :: "bytes option \<Rightarrow> bytes" where
  "frag_bytes f = (case f of None \<Rightarrow> [] | Some b \<Rightarrow> b)"

definition addFragment ::
    "messageReassembler \<Rightarrow> fragmentHeader \<Rightarrow> bytes \<Rightarrow> messageReassembler \<times> bytes option" where
  "addFragment r header data =
     (let mid = MessageID header;
          msg = (case r mid of Some m \<Rightarrow> m
                 | None \<Rightarrow> \<lparr> fragments = replicate (unat (FragmentCount header)) None, received = 0 \<rparr>);
          r = r(mid \<mapsto> msg)
      in if length (fragments msg) \<noteq> unat (FragmentCount header) then (r(mid := None), None)
         else if unat (FragmentIndex header) \<ge> length (fragments msg) then (r, None)
         else if fragments msg ! unat (FragmentIndex header) \<noteq> None then (r, None)
         else let msg = \<lparr> fragments = (fragments msg)[unat (FragmentIndex header) := Some data],
                          received = received msg + 1 \<rparr> in
           if received msg = FragmentCount header
           then (r(mid := None), Some (concat (map frag_bytes (fragments msg))))
           else (r(mid \<mapsto> msg), None))"

definition cleanup :: "messageReassembler \<Rightarrow> messageReassembler" where
  "cleanup r = Map.empty"

section \<open>Send and Receive\<close>

definition nextMessageID :: "uint32 \<Rightarrow> uint32 \<times> uint32" where
  "nextMessageID messageIDCounter = (messageIDCounter + 1, messageIDCounter + 1)"

definition maxPayloadSize :: nat where
  "maxPayloadSize = MaxDatagramSize - 10"

definition fragment_datagram :: "bytes \<Rightarrow> uint32 \<Rightarrow> uint16 \<Rightarrow> nat \<Rightarrow> bytes" where
  "fragment_datagram data msgID cnt i =
     (let start = i * maxPayloadSize;
          e = min (start + maxPayloadSize) (length data)
      in encode \<lparr> Magic = FragmentMagic, MessageID = msgID, FragmentIndex = of_nat i,
                  FragmentCount = cnt \<rparr> @ sub start (e - start) data)"

function send_fragments ::
    "('c \<Rightarrow> bytes \<Rightarrow> 'c \<times> goerr option) \<Rightarrow> 'c \<Rightarrow> bytes \<Rightarrow> uint32 \<Rightarrow> uint16 \<Rightarrow> nat \<Rightarrow> 'c \<times> goerr option" where
  "send_fragments sd c data msgID cnt i =
     (if i < unat cnt
      then (case sd c (fragment_datagram data msgID cnt i) of
              (c', Some e) \<Rightarrow> (c', Some (ErrorNew ''failed to send fragment''))
            | (c', None) \<Rightarrow> send_fragments sd c' data msgID cnt (Suc i))
      else (c, None))"
  by pat_completeness auto
termination by (relation "measure (\<lambda>(sd, c, data, msgID, cnt, i). unat cnt - i)") auto

definition Send ::
    "('c \<Rightarrow> bytes \<Rightarrow> 'c \<times> goerr option) \<Rightarrow> uint32 \<Rightarrow> 'c \<Rightarrow> bytes \<Rightarrow> uint32 \<times> 'c \<times> goerr option" where
  "Send sd messageIDCounter c data =
     (if length data \<le> MaxDatagramSize - 10 then (messageIDCounter, sd c data)
      else let (messageIDCounter, msgID) = nextMessageID messageIDCounter;
               fragmentCount = (length data + maxPayloadSize - 1) div maxPayloadSize
           in (messageIDCounter, send_fragments sd c data msgID (of_nat fragmentCount) 0))"

text \<open>
  One call of \<open>Receive\<close>: the reassembler afterwards, the datagrams not yet read, and the result,
  \<open>None\<close> when the call is still waiting for a datagram.
\<close>

fun receive_loop ::
    "messageReassembler \<Rightarrow> (goerr + bytes) list \<Rightarrow>
     messageReassembler \<times> (goerr + bytes) list \<times> (goerr + bytes) option" where
  "receive_loop r [] = (r, [], None)"
| "receive_loop r (Inl e # ds) = (r, ds, Some (Inl e))"
| "receive_loop r (Inr datagram # ds) =
     (if length datagram \<ge> 10
      then (case decodeFragmentHeader datagram of
              Inr (header, payload) \<Rightarrow>
                (case addFragment r header payload of
                   (r', Some completeMsg) \<Rightarrow> (r', ds, Some (Inr completeMsg))
                 | (r', None) \<Rightarrow> receive_loop r' ds)
            | Inl _ \<Rightarrow> (r, ds, Some (Inr datagram)))
      else (r, ds, Some (Inr datagram)))"

definition Receive ::
    "messageReassembler option \<Rightarrow> (goerr + bytes) list \<Rightarrow>
     messageReassembler \<times> (goerr + bytes) list \<times> (goerr + bytes) option" where
  "Receive reassembler ds =
     receive_loop (case reassembler of None \<Rightarrow> newMessageReassembler | Some r \<Rightarrow> r) ds"

lemma receive_loop_shorter:
  "receive_loop r ds = (r', ds', Some x) \<Longrightarrow> length ds' < length ds"
  by (induction r ds rule: receive_loop.induct) (fastforce split: if_splits sum.splits prod.splits option.splits)+

text \<open>The messages that successive calls of \<open>Receive\<close> return until one blocks.\<close>

function receive_all ::
    "messageReassembler \<Rightarrow> (goerr + bytes) list \<Rightarrow> messageReassembler \<times> (goerr + bytes) list" where
  "receive_all r ds =
     (case receive_loop r ds of
        (r', ds', None) \<Rightarrow> (r', [])
      | (r', ds', Some x) \<Rightarrow> (case receive_all r' ds' of (r'', xs) \<Rightarrow> (r'', x # xs)))"
  by pat_completeness auto
termination
  by (relation "measure (\<lambda>(r, ds). length ds)") (auto dest: receive_loop_shorter [OF sym])

end
