(* ===== verification/Session_Quic_Props.thy ===== *)
theory Session_Quic_Props
  imports Session_Quic
begin

text \<open>
  Properties of the datagram session: headers decode to what was encoded, the fragments of any
  number of messages may arrive in any order and interleaved, the reassembler's invariant holds under
  arbitrary datagrams, and two limits of the format.
\<close>

section \<open>Headers\<close>

lemma of_nat16_eq_iff: "a < 65536 \<Longrightarrow> b < 65536 \<Longrightarrow> (of_nat a :: uint16) = of_nat b \<longleftrightarrow> a = b"
  by (metis unat_of_nat16)

lemma encode_eq:
  "encode h = put_be16 (Magic h) @ put_be32 (MessageID h) @ put_be16 (FragmentIndex h) @ put_be16 (FragmentCount h)"
  by (simp add: encode_def blit_def Let_def)

lemma length_encode [simp]: "length (encode h) = 10"
  by (simp add: encode_eq)

lemma decode_encode:
  assumes "Magic h = FragmentMagic" "FragmentIndex h < FragmentCount h"
  shows "decodeFragmentHeader (encode h @ p) = Inr (h, p)"
proof -
  have subs: "sub 0 2 (encode h @ p) = put_be16 (Magic h)" "sub 2 4 (encode h @ p) = put_be32 (MessageID h)"
    "sub 6 2 (encode h @ p) = put_be16 (FragmentIndex h)" "sub 8 2 (encode h @ p) = put_be16 (FragmentCount h)"
    by (simp_all add: encode_eq buf_simps)
  have "\<not> FragmentCount h \<le> FragmentIndex h" using assms by simp
  then show ?thesis using assms(1) by (simp add: decodeFragmentHeader_def subs Let_def)
qed

lemma decode_index_less:
  "decodeFragmentHeader d = Inr (h, p) \<Longrightarrow> FragmentIndex h < FragmentCount h"
  by (auto simp: decodeFragmentHeader_def Let_def split: if_splits)

section \<open>Cutting a message\<close>

definition frag_count :: "bytes \<Rightarrow> nat" where
  "frag_count data = (length data + maxPayloadSize - 1) div maxPayloadSize"

definition frag_payload :: "bytes \<Rightarrow> nat \<Rightarrow> bytes" where
  "frag_payload data i = sub (i * 990) 990 data"

definition sendable :: "bytes \<Rightarrow> bool" where
  "sendable data \<longleftrightarrow> 990 < length data \<and> length data \<le> 990 * 65535"

lemma maxPayloadSize_eq [simp]: "maxPayloadSize = 990"
  by (simp add: maxPayloadSize_def MaxDatagramSize_def)

lemma frag_count_bounds: "sendable d \<Longrightarrow> 1 < frag_count d \<and> frag_count d \<le> 65535"
  by (auto simp: sendable_def frag_count_def)

lemma unat_frag_count: "sendable d \<Longrightarrow> unat (of_nat (frag_count d) :: uint16) = frag_count d"
  using frag_count_bounds [of d] by simp

lemma concat_chunks: "concat (map (\<lambda>i. sub (i * n) n xs) [0..<k]) = take (k * n) xs"
proof (induction k)
  case (Suc k)
  have "take (k * n) xs @ take n (drop (k * n) xs) = take (k * n + n) xs" by (rule take_add [symmetric])
  with Suc show ?case by (simp add: sub_def add.commute)
qed simp

lemma concat_frag_payload: "concat (map (frag_payload d) [0..<frag_count d]) = d"
proof -
  have "length d \<le> frag_count d * 990" by (simp add: frag_count_def)
  then show ?thesis using concat_chunks [of 990 d "frag_count d"] by (simp add: frag_payload_def [abs_def])
qed

lemma fragment_datagram_eq:
  "fragment_datagram d mid n i =
     encode \<lparr> Magic = FragmentMagic, MessageID = mid, FragmentIndex = of_nat i, FragmentCount = n \<rparr> @ frag_payload d i"
  by (simp add: fragment_datagram_def frag_payload_def sub_def Let_def min_def)

lemma decode_fragment_datagram:
  assumes "sendable d" "i < frag_count d"
  shows "decodeFragmentHeader (fragment_datagram d mid (of_nat (frag_count d)) i) =
     Inr (\<lparr> Magic = FragmentMagic, MessageID = mid, FragmentIndex = of_nat i, FragmentCount = of_nat (frag_count d) \<rparr>,
          frag_payload d i)"
  unfolding fragment_datagram_eq
  using assms frag_count_bounds [of d] by (intro decode_encode) (simp_all add: word_less_nat_alt)

section \<open>Reassembly\<close>

text \<open>
  The state of the reassembler is a function of the fragments seen: with \<open>ms\<close> the messages in flight
  and \<open>P\<close> the set of (id, index) pairs received, an entry exists while some but not all fragments
  of the message are there.
\<close>

definition seen :: "(uint32 \<times> nat) set \<Rightarrow> uint32 \<Rightarrow> nat \<Rightarrow> nat set" where
  "seen P mid n = {i. i < n \<and> (mid, i) \<in> P}"

definition partial_state :: "(uint32 \<rightharpoonup> bytes) \<Rightarrow> (uint32 \<times> nat) set \<Rightarrow> messageReassembler" where
  "partial_state ms P mid =
     (case ms mid of None \<Rightarrow> None
      | Some d \<Rightarrow> (if seen P mid (frag_count d) = {} \<or> seen P mid (frag_count d) = {..<frag_count d} then None
                  else Some \<lparr> fragments = map (\<lambda>i. if (mid, i) \<in> P then Some (frag_payload d i) else None) [0..<frag_count d],
                              received = of_nat (card (seen P mid (frag_count d))) \<rparr>))"

lemma seen_insert_same: "i < n \<Longrightarrow> seen (insert (mid, i) P) mid n = insert i (seen P mid n)"
  by (auto simp: seen_def)

lemma seen_insert_other: "mid' \<noteq> mid \<Longrightarrow> seen (insert (mid, i) P) mid' n = seen P mid' n"
  by (auto simp: seen_def)

lemma seen_subset: "seen P mid n \<subseteq> {..<n}"
  by (auto simp: seen_def)

lemma finite_seen [simp]: "finite (seen P mid n)"
  by (rule finite_subset [OF seen_subset finite_lessThan])

lemma card_seen_less: "seen P mid n \<noteq> {..<n} \<Longrightarrow> card (seen P mid n) < n"
  using psubset_card_mono [of "{..<n}" "seen P mid n"] seen_subset [of P mid n] by (simp add: psubset_eq)

lemma seen_empty_fragments:
  "seen P mid n = {} \<Longrightarrow> map (\<lambda>i. if (mid, i) \<in> P then Some (f i) else None) [0..<n] = replicate n None"
  by (rule nth_equalityI) (auto simp: seen_def)

lemma partial_state_entry:
  assumes "ms mid = Some d" "seen P mid (frag_count d) \<noteq> {..<frag_count d}"
  shows "(case partial_state ms P mid of Some m \<Rightarrow> m
          | None \<Rightarrow> \<lparr> fragments = replicate (frag_count d) None, received = 0 \<rparr>) =
         \<lparr> fragments = map (\<lambda>i. if (mid, i) \<in> P then Some (frag_payload d i) else None) [0..<frag_count d],
           received = of_nat (card (seen P mid (frag_count d))) \<rparr>"
  using assms by (auto simp: partial_state_def seen_empty_fragments)

lemma update_fragments:
  "i < n \<Longrightarrow> (map (\<lambda>j. if (mid, j) \<in> P then Some (f j) else None) [0..<n])[i := Some (f i)] =
     map (\<lambda>j. if (mid, j) \<in> insert (mid, i) P then Some (f j) else None) [0..<n]"
  by (rule nth_equalityI) (auto simp: nth_list_update)

lemma complete_fragments:
  "seen P mid n = {..<n} \<Longrightarrow>
     concat (map frag_bytes (map (\<lambda>j. if (mid, j) \<in> P then Some (f j) else None) [0..<n])) = concat (map f [0..<n])"
proof -
  assume full: "seen P mid n = {..<n}"
  have "(mid, i) \<in> P" if "i < n" for i
    using that full unfolding seen_def by blast
  then have "map frag_bytes (map (\<lambda>j. if (mid, j) \<in> P then Some (f j) else None) [0..<n]) = map f [0..<n]"
    by (simp add: frag_bytes_def)
  then show ?thesis by (rule arg_cong)
qed

lemma addFragment_partial_state:
  assumes ms: "ms mid = Some d" and d: "sendable d" and i: "i < frag_count d" and new: "(mid, i) \<notin> P"
  shows "addFragment (partial_state ms P)
           \<lparr> Magic = FragmentMagic, MessageID = mid, FragmentIndex = of_nat i, FragmentCount = of_nat (frag_count d) \<rparr>
           (frag_payload d i) =
         (partial_state ms (insert (mid, i) P),
          if seen (insert (mid, i) P) mid (frag_count d) = {..<frag_count d} then Some d else None)"
proof -
  let ?n = "frag_count d" and ?P' = "insert (mid, i) P"
  have n: "?n \<le> 65535" using frag_count_bounds [OF d] by simp
  have inc: "seen P mid ?n \<noteq> {..<?n}" using i new by (auto simp: seen_def)
  have ins: "seen ?P' mid ?n = insert i (seen P mid ?n)" using seen_insert_same [OF i] .
  have fresh: "i \<notin> seen P mid ?n" using new by (simp add: seen_def)
  have card': "card (seen ?P' mid ?n) = Suc (card (seen P mid ?n))" using fresh by (simp add: ins)
  have le: "card (seen ?P' mid ?n) \<le> ?n" using card_seen_less [OF inc] card' by simp
  have full: "card (seen ?P' mid ?n) = ?n \<longleftrightarrow> seen ?P' mid ?n = {..<?n}"
    using card_subset_eq [OF finite_lessThan seen_subset [of ?P' mid ?n]] by (metis card_lessThan)
  have cnt: "1 + of_nat (card (seen P mid ?n)) = (of_nat ?n :: uint16) \<longleftrightarrow> card (seen ?P' mid ?n) = ?n"
  proof -
    have "1 + of_nat (card (seen P mid ?n)) = (of_nat (card (seen ?P' mid ?n)) :: uint16)" by (simp add: card')
    then show ?thesis using of_nat16_eq_iff [of "card (seen ?P' mid ?n)" ?n] le n by simp
  qed
  have other: "partial_state ms ?P' m = partial_state ms P m" if "m \<noteq> mid" for m
    using that by (simp add: partial_state_def seen_insert_other split: option.split)
  have done': "partial_state ms ?P' = (partial_state ms P)(mid := None)" if "seen ?P' mid ?n = {..<?n}"
    using that ms other by (auto simp: partial_state_def fun_eq_iff)
  have more': "partial_state ms ?P' = (partial_state ms P)(mid \<mapsto>
      \<lparr> fragments = map (\<lambda>j. if (mid, j) \<in> ?P' then Some (frag_payload d j) else None) [0..<?n],
        received = of_nat (card (seen ?P' mid ?n)) \<rparr>)" if "seen ?P' mid ?n \<noteq> {..<?n}"
    using that ms other by (auto simp: partial_state_def fun_eq_iff ins)
  have ui: "unat (of_nat i :: uint16) = i" "unat (of_nat ?n :: uint16) = ?n"
    using i n by simp_all
  let ?h = "\<lparr> Magic = FragmentMagic, MessageID = mid, FragmentIndex = of_nat i, FragmentCount = of_nat ?n \<rparr>"
  have nth: "map (\<lambda>j. if (mid, j) \<in> P then Some (frag_payload d j) else None) [0..<?n] ! i = None"
    using i new by simp
  have step: "addFragment (partial_state ms P) ?h (frag_payload d i) =
     (if card (seen ?P' mid ?n) = ?n
      then ((partial_state ms P)(mid := None),
            Some (concat (map frag_bytes (map (\<lambda>j. if (mid, j) \<in> ?P' then Some (frag_payload d j) else None) [0..<?n]))))
      else ((partial_state ms P)(mid \<mapsto>
              \<lparr> fragments = map (\<lambda>j. if (mid, j) \<in> ?P' then Some (frag_payload d j) else None) [0..<?n],
                received = of_nat (card (seen ?P' mid ?n)) \<rparr>), None))"
    unfolding addFragment_def Let_def fragmentHeader.simps ui partial_state_entry [of ms mid d P, OF ms inc] partialMessage.simps
      nth update_fragments [OF i]
    using i cnt by (simp add: card' add.commute)
  show ?thesis
    unfolding step full using done' more' complete_fragments [of ?P' mid ?n "frag_payload d"]
    by (simp add: concat_frag_payload)
qed

section \<open>A stream of datagrams\<close>

text \<open>
  A datagram on the wire is either a fragment, named by message id and index, or a short message
  sent as it is.
\<close>

type_synonym tag = "uint32 \<times> nat + bytes"

definition plain :: "bytes \<Rightarrow> bool" where
  "plain d \<longleftrightarrow> length d \<le> 990 \<and> \<not> (\<exists>hp. decodeFragmentHeader d = Inr hp)"

definition wire :: "(uint32 \<rightharpoonup> bytes) \<Rightarrow> tag \<Rightarrow> bytes" where
  "wire ms t = (case t of
       Inl (mid, i) \<Rightarrow> fragment_datagram (the (ms mid)) mid (of_nat (frag_count (the (ms mid)))) i
     | Inr d \<Rightarrow> d)"

definition tag_ok :: "(uint32 \<rightharpoonup> bytes) \<Rightarrow> tag \<Rightarrow> bool" where
  "tag_ok ms t = (case t of
       Inl (mid, i) \<Rightarrow> (\<exists>d. ms mid = Some d \<and> sendable d \<and> i < frag_count d)
     | Inr d \<Rightarrow> plain d)"

fun deliveries :: "(uint32 \<rightharpoonup> bytes) \<Rightarrow> (uint32 \<times> nat) set \<Rightarrow> tag list \<Rightarrow> (uint32 + bytes) list" where
  "deliveries ms P [] = []"
| "deliveries ms P (Inl (mid, i) # ts) =
     (if seen (insert (mid, i) P) mid (frag_count (the (ms mid))) = {..<frag_count (the (ms mid))}
      then Inl mid # deliveries ms (insert (mid, i) P) ts else deliveries ms (insert (mid, i) P) ts)"
| "deliveries ms P (Inr d # ts) = Inr d # deliveries ms P ts"

definition content :: "(uint32 \<rightharpoonup> bytes) \<Rightarrow> uint32 + bytes \<Rightarrow> bytes" where
  "content ms x = (case x of Inl mid \<Rightarrow> the (ms mid) | Inr d \<Rightarrow> d)"

definition frags :: "tag list \<Rightarrow> (uint32 \<times> nat) list" where
  "frags ts = concat (map (case_sum (\<lambda>q. [q]) (\<lambda>_. [])) ts)"

lemma frags_simps [simp]:
  "frags [] = []" "frags (Inl q # ts) = q # frags ts" "frags (Inr d # ts) = frags ts" "frags (ts @ us) = frags ts @ frags us"
  by (simp_all add: frags_def)

declare receive_all.simps [simp del]

lemma receive_all_result:
  "receive_loop r (d # ds) = (r', ds, Some x) \<Longrightarrow> receive_all r (d # ds) = (let (r'', xs) = receive_all r' ds in (r'', x # xs))"
  by (subst receive_all.simps) (simp split: prod.split)

lemma receive_all_continue:
  "receive_loop r (d # ds) = receive_loop r' ds \<Longrightarrow> receive_all r (d # ds) = receive_all r' ds"
  by (subst receive_all.simps, subst (2) receive_all.simps) simp

lemma receive_all_plain:
  assumes "plain d"
  shows "receive_all r (Inr d # ds) = (let (r', xs) = receive_all r ds in (r', Inr d # xs))"
proof (rule receive_all_result)
  show "receive_loop r (Inr d # ds) = (r, ds, Some (Inr d))"
    using assms by (cases "decodeFragmentHeader d") (auto simp: plain_def)
qed

lemma receive_all_fragment:
  assumes "ms mid = Some d" "sendable d" "i < frag_count d" "(mid, i) \<notin> P"
  shows "receive_all (partial_state ms P) (Inr (wire ms (Inl (mid, i))) # ds) =
     (let (r, xs) = receive_all (partial_state ms (insert (mid, i) P)) ds in
        (r, if seen (insert (mid, i) P) mid (frag_count d) = {..<frag_count d} then Inr d # xs else xs))"
proof -
  let ?g = "fragment_datagram d mid (of_nat (frag_count d)) i"
  have long: "\<not> length ?g < 10" by (simp add: fragment_datagram_eq)
  have loop: "receive_loop (partial_state ms P) (Inr ?g # ds) =
     (case (partial_state ms (insert (mid, i) P),
            if seen (insert (mid, i) P) mid (frag_count d) = {..<frag_count d} then Some d else None) of
        (r', Some m) \<Rightarrow> (r', ds, Some (Inr m)) | (r', None) \<Rightarrow> receive_loop r' ds)"
    using long by (simp add: decode_fragment_datagram [OF assms(2,3)] addFragment_partial_state [of ms mid d i P, OF assms])
  show ?thesis
  proof (cases "seen (insert (mid, i) P) mid (frag_count d) = {..<frag_count d}")
    case True
    then show ?thesis using loop assms(1) receive_all_result [of "partial_state ms P" "Inr ?g" ds _ "Inr d"]
      by (simp add: wire_def Let_def case_prod_unfold del: receive_loop.simps)
  next
    case False
    then show ?thesis using loop assms(1) receive_all_continue [of "partial_state ms P" "Inr ?g" ds]
      by (simp add: wire_def Let_def case_prod_unfold del: receive_loop.simps)
  qed
qed

lemma receive_all_deliveries:
  assumes "list_all (tag_ok ms) ts" "distinct (frags ts)" "set (frags ts) \<inter> P = {}"
  shows "receive_all (partial_state ms P) (map (Inr \<circ> wire ms) ts) =
     (partial_state ms (P \<union> set (frags ts)), map (Inr \<circ> content ms) (deliveries ms P ts))"
  using assms
proof (induction ts arbitrary: P)
  case Nil
  show ?case by (subst receive_all.simps) simp
next
  case (Cons t ts)
  show ?case
  proof (cases t)
    case (Inl q)
    obtain mid i where q: "q = (mid, i)" by (cases q)
    obtain d where d: "ms mid = Some d" "sendable d" "i < frag_count d"
      using Cons.prems(1) Inl q by (auto simp: tag_ok_def)
    have "receive_all (partial_state ms (insert (mid, i) P)) (map (Inr \<circ> wire ms) ts) =
       (partial_state ms (insert (mid, i) P \<union> set (frags ts)), map (Inr \<circ> content ms) (deliveries ms (insert (mid, i) P) ts))"
      using Cons.prems Inl q by (intro Cons.IH) auto
    moreover have "(mid, i) \<notin> P" using Cons.prems(3) Inl q by simp
    ultimately show ?thesis
      using receive_all_fragment [of ms mid d i P "map (Inr \<circ> wire ms) ts"] d
      by (simp add: Inl q content_def comp_def)
  next
    case (Inr d)
    then show ?thesis using Cons by (simp add: wire_def content_def tag_ok_def receive_all_plain)
  qed
qed

definition complete :: "(uint32 \<rightharpoonup> bytes) \<Rightarrow> (uint32 \<times> nat) set \<Rightarrow> uint32 \<Rightarrow> bool" where
  "complete ms P mid \<longleftrightarrow> seen P mid (frag_count (the (ms mid))) = {..<frag_count (the (ms mid))}"

definition lefts :: "('a + 'b) list \<Rightarrow> 'a list" where
  "lefts xs = concat (map (case_sum (\<lambda>a. [a]) (\<lambda>_. [])) xs)"

definition rights :: "('a + 'b) list \<Rightarrow> 'b list" where
  "rights xs = concat (map (case_sum (\<lambda>_. []) (\<lambda>b. [b])) xs)"

lemma lefts_rights_simps [simp]:
  "lefts [] = []" "lefts (Inl a # xs) = a # lefts xs" "lefts (Inr b # xs) = lefts xs" "lefts (xs @ ys) = lefts xs @ lefts ys"
  "rights [] = []" "rights (Inl a # xs) = rights xs" "rights (Inr b # xs) = b # rights xs" "rights (xs @ ys) = rights xs @ rights ys"
  by (simp_all add: lefts_def rights_def)

lemma lefts_rights_map_Inl [simp]: "lefts (map (\<lambda>x. Inl (f x)) xs) = map f xs" "rights (map (\<lambda>x. Inl (f x)) xs) = []"
  by (induction xs) simp_all

lemma frags_lefts: "frags ts = lefts ts"
  by (simp add: frags_def lefts_def)

lemma complete_iff: "complete ms P m \<longleftrightarrow> (\<forall>i<frag_count (the (ms m)). (m, i) \<in> P)"
  unfolding complete_def seen_def by blast

lemma complete_insert: "m \<noteq> fst q \<Longrightarrow> complete ms (insert q P) m \<longleftrightarrow> complete ms P m"
  by (auto simp: complete_iff)

lemma complete_mono: "complete ms P m \<Longrightarrow> P \<subseteq> Q \<Longrightarrow> complete ms Q m"
  by (auto simp: complete_iff)

lemma complete_fresh: "tag_ok ms (Inl (mid, i)) \<Longrightarrow> (mid, i) \<notin> P \<Longrightarrow> \<not> complete ms P mid"
  by (auto simp: complete_iff tag_ok_def)

lemma deliveries_Inl:
  "deliveries ms P (Inl (mid, i) # ts) =
     (if complete ms (insert (mid, i) P) mid then [Inl mid] else []) @ deliveries ms (insert (mid, i) P) ts"
  by (simp add: complete_def)

lemma rights_deliveries: "rights (deliveries ms P ts) = rights ts"
  by (induction ms P ts rule: deliveries.induct) simp_all

lemma newly_complete:
  assumes "tag_ok ms (Inl (mid, i))" "(mid, i) \<notin> P" "insert (mid, i) P \<subseteq> Q"
  shows "{m. complete ms Q m \<and> \<not> complete ms P m} =
     (if complete ms (insert (mid, i) P) mid then {mid} else {}) \<union> {m. complete ms Q m \<and> \<not> complete ms (insert (mid, i) P) m}"
proof -
  have "\<not> complete ms P mid" using complete_fresh [OF assms(1,2)] .
  moreover have "complete ms (insert (mid, i) P) m \<longleftrightarrow> complete ms P m" if "m \<noteq> mid" for m
    using complete_insert [of m "(mid, i)"] that by simp
  moreover have "complete ms Q mid" if "complete ms (insert (mid, i) P) mid"
    using complete_mono [OF that assms(3)] .
  ultimately show ?thesis by (auto split: if_splits) metis+
qed

lemma lefts_deliveries:
  assumes "list_all (tag_ok ms) ts" "distinct (lefts ts)" "set (lefts ts) \<inter> P = {}"
  shows "distinct (lefts (deliveries ms P ts)) \<and>
     set (lefts (deliveries ms P ts)) = {m. complete ms (P \<union> set (lefts ts)) m \<and> \<not> complete ms P m}"
  using assms
proof (induction ts arbitrary: P)
  case (Cons t ts)
  show ?case
  proof (cases t)
    case (Inl q)
    obtain mid i where q: "q = (mid, i)" by (cases q)
    let ?P' = "insert (mid, i) P"
    have IH: "distinct (lefts (deliveries ms ?P' ts))"
      "set (lefts (deliveries ms ?P' ts)) = {m. complete ms (?P' \<union> set (lefts ts)) m \<and> \<not> complete ms ?P' m}"
      using Cons.IH [of ?P'] Cons.prems Inl q by auto
    have fresh: "(mid, i) \<notin> P" "tag_ok ms (Inl (mid, i))" using Cons.prems Inl q by auto
    have new: "{m. complete ms (P \<union> set (lefts (t # ts))) m \<and> \<not> complete ms P m} =
      (if complete ms ?P' mid then {mid} else {}) \<union> {m. complete ms (?P' \<union> set (lefts ts)) m \<and> \<not> complete ms ?P' m}"
      using newly_complete [OF fresh(2,1) Un_upper1 [of ?P' "set (lefts ts)"]]
      by (simp only: Inl q lefts_rights_simps list.set Un_insert_left Un_insert_right Un_upper1)
    show ?thesis unfolding new using IH by (simp add: Inl q deliveries_Inl del: deliveries.simps)
  next
    case (Inr d)
    then show ?thesis using Cons by simp
  qed
qed simp

lemma mset_content:
  "image_mset (content ms) (mset xs) = image_mset (\<lambda>m. the (ms m)) (mset (lefts xs)) + mset (rights xs)"
proof (induction xs)
  case (Cons x xs)
  then show ?case by (cases x) (simp_all add: content_def)
qed simp

section \<open>The sender\<close>

text \<open>
  A connection that accepts every datagram and keeps what was sent; \<open>send_all\<close> sends messages one
  after another through the process-wide message counter.
\<close>

definition record_sd :: "bytes list \<Rightarrow> bytes \<Rightarrow> bytes list \<times> goerr option" where
  "record_sd c d = (c @ [d], None)"

fun send_all :: "uint32 \<Rightarrow> bytes list \<Rightarrow> bytes list \<Rightarrow> uint32 \<times> bytes list" where
  "send_all ctr c [] = (ctr, c)"
| "send_all ctr c (m # msgs) = (case Send record_sd ctr c m of (ctr', c', _) \<Rightarrow> send_all ctr' c' msgs)"

fun tags_of :: "uint32 \<Rightarrow> bytes list \<Rightarrow> tag list" where
  "tags_of ctr [] = []"
| "tags_of ctr (m # msgs) =
     (if length m \<le> 990 then Inr m # tags_of ctr msgs
      else map (\<lambda>i. Inl (ctr + 1, i)) [0..<frag_count m] @ tags_of (ctr + 1) msgs)"

fun ids_of :: "uint32 \<Rightarrow> bytes list \<Rightarrow> (uint32 \<times> bytes) list" where
  "ids_of ctr [] = []"
| "ids_of ctr (m # msgs) = (if length m \<le> 990 then ids_of ctr msgs else (ctr + 1, m) # ids_of (ctr + 1) msgs)"

declare send_fragments.simps [simp del]

lemma send_fragments_record:
  "i \<le> unat cnt \<Longrightarrow> send_fragments record_sd c d mid cnt i = (c @ map (fragment_datagram d mid cnt) [i..<unat cnt], None)"
proof (induction "unat cnt - i" arbitrary: c i)
  case 0
  then show ?case by (subst send_fragments.simps) simp
next
  case (Suc n)
  then have "i < unat cnt" by simp
  then show ?case using Suc by (subst send_fragments.simps) (simp add: record_sd_def upt_conv_Cons)
qed

lemma Send_long:
  assumes "sendable m"
  shows "Send record_sd ctr c m =
     (ctr + 1, c @ map (fragment_datagram m (ctr + 1) (of_nat (frag_count m))) [0..<frag_count m], None)"
  using assms unat_frag_count [OF assms] send_fragments_record [of 0 "of_nat (frag_count m)" c m "ctr + 1"]
  unfolding Send_def nextMessageID_def frag_count_def [symmetric]
  by (simp add: MaxDatagramSize_def sendable_def)

lemma Send_short: "length m \<le> 990 \<Longrightarrow> Send record_sd ctr c m = (ctr, c @ [m], None)"
  by (simp add: Send_def MaxDatagramSize_def record_sd_def)

definition offsets :: "uint32 \<Rightarrow> nat \<Rightarrow> uint32 set" where
  "offsets ctr n = {ctr + of_nat j | j. 1 \<le> j \<and> j \<le> n}"

lemma offsets_Suc: "insert (ctr + 1) (offsets (ctr + 1) n) \<subseteq> offsets ctr (Suc n)"
proof
  fix x assume "x \<in> insert (ctr + 1) (offsets (ctr + 1) n)"
  then obtain j where "x = ctr + 1 + of_nat j" "j \<le> n" by (auto simp: offsets_def intro: that [of 0])
  then have "x = ctr + of_nat (Suc j) \<and> 1 \<le> Suc j \<and> Suc j \<le> Suc n" by simp
  then show "x \<in> offsets ctr (Suc n)" unfolding offsets_def by blast
qed

lemma offsets_fresh: "n < 2 ^ 32 \<Longrightarrow> ctr \<notin> offsets ctr n"
proof
  assume n: "n < 2 ^ 32" and "ctr \<in> offsets ctr n"
  then obtain j where j: "1 \<le> j" "j \<le> n" "of_nat j = (0 :: uint32)" by (auto simp: offsets_def)
  then have "unat (of_nat j :: uint32) = j" using n by (intro unat_of_nat32) simp
  then show False using j by simp
qed

lemma offsets_mono: "n \<le> m \<Longrightarrow> offsets ctr n \<subseteq> offsets ctr m"
  unfolding offsets_def by (blast intro: order_trans)

lemma fst_ids_of: "fst ` set (ids_of ctr msgs) \<subseteq> offsets ctr (length msgs)"
proof (induction ctr msgs rule: ids_of.induct)
  case (2 ctr m msgs)
  then show ?case
    using offsets_Suc [of ctr "length msgs"] offsets_mono [of "length msgs" "Suc (length msgs)" ctr]
    by (cases "length m \<le> 990") auto
qed simp

lemma distinct_ids_of: "length msgs < 2 ^ 32 \<Longrightarrow> distinct (map fst (ids_of ctr msgs))"
proof (induction ctr msgs rule: ids_of.induct)
  case (2 ctr m msgs)
  then show ?case
    using fst_ids_of [of "ctr + 1" msgs] offsets_fresh [of "length msgs" "ctr + 1"]
    by (cases "length m \<le> 990") auto
qed simp

definition good_msg :: "bytes \<Rightarrow> bool" where
  "good_msg m \<longleftrightarrow> plain m \<or> sendable m"

lemma good_msg_length: "good_msg m \<Longrightarrow> \<not> length m \<le> 990 \<Longrightarrow> sendable m" "good_msg m \<Longrightarrow> length m \<le> 990 \<Longrightarrow> plain m"
  by (auto simp: good_msg_def plain_def sendable_def)

lemma send_all_wire:
  assumes "list_all good_msg msgs" "\<forall>(i, d) \<in> set (ids_of ctr msgs). ms i = Some d"
  shows "snd (send_all ctr c msgs) = c @ map (wire ms) (tags_of ctr msgs) \<and> list_all (tag_ok ms) (tags_of ctr msgs)"
  using assms
proof (induction msgs arbitrary: ctr c)
  case (Cons m msgs)
  show ?case
  proof (cases "length m \<le> 990")
    case True
    then show ?thesis using Cons good_msg_length(2) [of m]
      by (simp add: Send_short wire_def tag_ok_def)
  next
    case False
    then have m: "sendable m" "ms (ctr + 1) = Some m" using Cons.prems good_msg_length(1) [of m] by auto
    then show ?thesis using Cons.prems Cons.IH [of "ctr + 1"] False
      by (simp add: Send_long wire_def tag_ok_def list_all_iff ball_Un)
  qed
qed simp

lemma lefts_tags_of:
  "set (lefts (tags_of ctr msgs)) = {(i, j). \<exists>d. (i, d) \<in> set (ids_of ctr msgs) \<and> j < frag_count d}"
  by (induction ctr msgs rule: tags_of.induct) auto

lemma distinct_lefts_tags_of:
  "distinct (map fst (ids_of ctr msgs)) \<Longrightarrow> distinct (lefts (tags_of ctr msgs))"
proof (induction ctr msgs rule: tags_of.induct)
  case (2 ctr m msgs)
  then show ?case
    by (cases "length m \<le> 990") (auto simp: lefts_tags_of distinct_map inj_on_def image_iff)
qed simp

lemma mset_split_msgs:
  "mset msgs = mset (map snd (ids_of ctr msgs)) + mset (rights (tags_of ctr msgs))"
  by (induction ctr msgs rule: ids_of.induct) simp_all

lemma mset_eq_map:
  "mset ds = mset (map f ts) \<Longrightarrow> \<exists>us. mset us = mset ts \<and> ds = map f us"
proof (induction ds arbitrary: ts)
  case (Cons d ds)
  then have "d \<in> set (map f ts)" by (metis list.set_intros(1) mset_eq_setD)
  then obtain xs t ys where ts: "ts = xs @ t # ys" "d = f t" by (auto simp: in_set_conv_decomp)
  then have "mset ds = mset (map f (xs @ ys))" using Cons.prems by simp
  then obtain us where "mset us = mset (xs @ ys)" "ds = map f us" using Cons.IH by blast
  then show ?case using ts by (intro exI [of _ "t # us"]) simp
qed simp

lemma mset_lefts: "mset (lefts xs) = image_mset projl (filter_mset isl (mset xs))"
proof (induction xs)
  case (Cons x xs)
  then show ?case by (cases x) simp_all
qed simp

lemma mset_rights: "mset (rights xs) = image_mset projr (filter_mset (Not \<circ> isl) (mset xs))"
proof (induction xs)
  case (Cons x xs)
  then show ?case by (cases x) simp_all
qed simp

lemma ids_of_sendable: "list_all good_msg msgs \<Longrightarrow> (i, d) \<in> set (ids_of ctr msgs) \<Longrightarrow> sendable d"
  by (induction ctr msgs rule: ids_of.induct) (auto split: if_splits intro: good_msg_length(1))

lemma map_of_fst_snd: "distinct (map fst xs) \<Longrightarrow> map (\<lambda>k. the (map_of xs k)) (map fst xs) = map snd xs"
  by (auto simp: map_of_is_SomeI)

section \<open>The theorems\<close>

text \<open>
  C14. Any number of messages, sent one after another through the global message counter, are received
  from any permutation of their datagrams: with fragments reordered and those of different messages
  interleaved, successive calls of Receive return exactly the messages sent, each once, and leave no
  partial message behind. Messages are either short ones that do not look like a fragment or between
  991 and 64879650 bytes; fewer than 2 ^ 32 are in flight, so that ids do not repeat.
\<close>
theorem fragments_any_order:
  assumes good: "list_all good_msg msgs" and few: "length msgs < 2 ^ 32"
    and perm: "mset ds = mset (snd (send_all ctr [] msgs))"
  shows "\<exists>outs. receive_all newMessageReassembler (map Inr ds) = (newMessageReassembler, map Inr outs) \<and>
                mset outs = mset msgs"
proof -
  define ids where "ids = ids_of ctr msgs"
  define ms where "ms = map_of ids"
  have dist: "distinct (map fst ids)" using distinct_ids_of [OF few] by (simp add: ids_def)
  have wired: "snd (send_all ctr [] msgs) = map (wire ms) (tags_of ctr msgs)" "list_all (tag_ok ms) (tags_of ctr msgs)"
    using send_all_wire [OF good, of ctr ms "[]"] dist by (auto simp: ms_def ids_def)
  obtain ts where ts: "mset ts = mset (tags_of ctr msgs)" "ds = map (wire ms) ts"
    using mset_eq_map [OF perm [unfolded wired(1)]] by blast
  have ok: "list_all (tag_ok ms) ts" using wired(2) mset_eq_setD [OF ts(1)] by (simp add: list_all_iff)
  have lts: "mset (lefts ts) = mset (lefts (tags_of ctr msgs))" "mset (rights ts) = mset (rights (tags_of ctr msgs))"
    by (simp_all add: mset_lefts mset_rights ts(1))
  have dts: "distinct (lefts ts)"
    using distinct_lefts_tags_of [of ctr msgs] dist lts(1) mset_eq_imp_distinct_iff by (auto simp: ids_def)
  have all: "complete ms (set (lefts ts)) m \<longleftrightarrow> True" if "m \<in> fst ` set ids" for m
    using that dist mset_eq_setD [OF lts(1)] by (auto simp: complete_iff lefts_tags_of ids_def ms_def)
  have none: "set (lefts ts) \<inter> {m} \<times> UNIV = {}" if "m \<notin> fst ` set ids" for m
    using that mset_eq_setD [OF lts(1)] by (force simp: lefts_tags_of ids_def)
  let ?D = "deliveries ms {} ts"
  have start: "partial_state ms {} = newMessageReassembler"
    by (auto simp: partial_state_def newMessageReassembler_def seen_def fun_eq_iff split: option.split)
  have final: "partial_state ms (set (lefts ts)) = newMessageReassembler"
    using all by (force simp: partial_state_def newMessageReassembler_def complete_def fun_eq_iff ms_def
        dest: map_of_SomeD split: option.split)
  have run: "receive_all newMessageReassembler (map Inr ds) = (newMessageReassembler, map Inr (map (content ms) ?D))"
    using receive_all_deliveries [OF ok, of "{}"] dts start final by (simp add: frags_lefts ts(2))
  have "set (lefts ?D) = fst ` set ids"
  proof -
    have "m \<in> fst ` set ids" if "complete ms (set (lefts ts)) m" "\<not> complete ms {} m" for m
      using that none [of m] by (fastforce simp: complete_iff)
    moreover have "\<not> complete ms {} m" if "m \<in> fst ` set ids" for m
      using that dist ids_of_sendable [OF good] frag_count_bounds
      by (fastforce simp: complete_iff ms_def ids_def)
    ultimately show ?thesis using lefts_deliveries [OF ok dts, of "{}"] all by auto
  qed
  then have "mset (lefts ?D) = mset (map fst ids)"
    using lefts_deliveries [OF ok dts, of "{}"] dist set_eq_iff_mset_eq_distinct [of "lefts ?D" "map fst ids"] by simp
  then have "mset (map (content ms) ?D) = mset (map (\<lambda>k. the (ms k)) (map fst ids)) + mset (rights ts)"
    using mset_content [of ms ?D] by (simp add: rights_deliveries multiset.map_comp comp_def)
  also have "\<dots> = mset msgs"
    unfolding ms_def map_of_fst_snd [OF dist] using mset_split_msgs [of msgs ctr] lts(2) by (simp add: ids_def)
  finally show ?thesis using run by blast
qed

theorem fragments_any_order_witness:
  "\<exists>outs. receive_all newMessageReassembler (map Inr (rev (snd (send_all 4294967295 [] [replicate 991 7, [1, 2, 3]])))) =
            (newMessageReassembler, map Inr outs) \<and> mset outs = mset [replicate 991 7, [1, 2, 3]]"
  by (rule fragments_any_order) (simp_all add: good_msg_def sendable_def plain_def decodeFragmentHeader_def)

section \<open>The reassembler's invariant\<close>

text \<open>
  Every partial message has at least one and not all of its slots filled, the counter says how many,
  and there are at most 65535 slots.
\<close>

definition filled :: "bytes option list \<Rightarrow> nat" where
  "filled fs = length (filter (\<lambda>f. f \<noteq> None) fs)"

definition partial_wf :: "partialMessage \<Rightarrow> bool" where
  "partial_wf m \<longleftrightarrow> length (fragments m) \<le> 65535 \<and> unat (received m) = filled (fragments m) \<and>
     0 < filled (fragments m) \<and> filled (fragments m) < length (fragments m)"

definition reassembler_wf :: "messageReassembler \<Rightarrow> bool" where
  "reassembler_wf r \<longleftrightarrow> (\<forall>m \<in> ran r. partial_wf m)"

lemma filled_update: "i < length fs \<Longrightarrow> fs ! i = None \<Longrightarrow> filled (fs[i := Some d]) = Suc (filled fs)"
proof (induction fs arbitrary: i)
  case (Cons f fs)
  then show ?case by (cases i) (auto simp: filled_def)
qed simp

lemma filled_le: "filled fs \<le> length fs"
  by (simp add: filled_def)

lemma filled_replicate [simp]: "filled (replicate n None) = 0"
  by (simp add: filled_def)

lemma reassembler_wf_upd: "reassembler_wf r \<Longrightarrow> partial_wf m \<Longrightarrow> reassembler_wf (r(mid \<mapsto> m))"
  by (auto simp: reassembler_wf_def ran_def)

lemma reassembler_wf_delete: "reassembler_wf r \<Longrightarrow> reassembler_wf (r(mid := None))"
  by (auto simp: reassembler_wf_def ran_def)

lemma addFragment_wf:
  assumes "reassembler_wf r" "FragmentIndex h < FragmentCount h"
  shows "reassembler_wf (fst (addFragment r h d))"
proof -
  let ?new = "\<lparr> fragments = replicate (unat (FragmentCount h)) None, received = 0 \<rparr>"
  define m where "m = (case r (MessageID h) of Some m \<Rightarrow> m | None \<Rightarrow> ?new)"
  have idx: "unat (FragmentIndex h) < unat (FragmentCount h)" using assms(2) by (simp add: word_less_nat_alt)
  have cases: "partial_wf m \<or> m = ?new"
    using assms(1) by (auto simp: m_def reassembler_wf_def ran_def split: option.split)
  have rcv: "unat (received m) = filled (fragments m)" "length (fragments m) \<le> 65535"
    using cases unat16_less [of "FragmentCount h"] by (auto simp: partial_wf_def)
  have cnt: "unat (received m + 1) = Suc (filled (fragments m))" if "filled (fragments m) < length (fragments m)"
    using that rcv by (simp add: unat_word_ariths)
  show ?thesis
  proof (cases "length (fragments m) = unat (FragmentCount h) \<and> fragments m ! unat (FragmentIndex h) = None")
    case True
    let ?fs = "(fragments m)[unat (FragmentIndex h) := Some d]"
    have f: "filled ?fs = Suc (filled (fragments m))" using True idx by (intro filled_update) auto
    then have le: "filled (fragments m) < length (fragments m)" using filled_le [of ?fs] by simp
    have "partial_wf \<lparr> fragments = ?fs, received = received m + 1 \<rparr>" if "received m + 1 \<noteq> FragmentCount h"
    proof -
      have "Suc (filled (fragments m)) \<noteq> length (fragments m)" using that cnt [OF le] True by (metis word_unat_eq_iff)
      then show ?thesis using f cnt [OF le] rcv(2) le by (simp add: partial_wf_def)
    qed
    then show ?thesis using True idx reassembler_wf_upd [OF assms(1)] reassembler_wf_delete [OF assms(1)]
      by (simp add: addFragment_def m_def [symmetric] Let_def)
  next
    case False
    have "partial_wf m" if "fragments m ! unat (FragmentIndex h) \<noteq> None" "length (fragments m) = unat (FragmentCount h)"
      using that cases idx by auto
    then show ?thesis using False idx reassembler_wf_upd [OF assms(1)] reassembler_wf_delete [OF assms(1)]
      by (simp add: addFragment_def m_def [symmetric] Let_def)
  qed
qed

lemma receive_loop_wf: "reassembler_wf r \<Longrightarrow> reassembler_wf (fst (receive_loop r ds))"
proof (induction r ds rule: receive_loop.induct)
  case (3 r g ds)
  show ?case
  proof (cases "decodeFragmentHeader g")
    case (Inr hp)
    obtain h p where hp: "hp = (h, p)" by (cases hp)
    obtain r' out where a: "addFragment r h p = (r', out)" by (cases "addFragment r h p")
    have "reassembler_wf r'"
      using addFragment_wf [OF 3(2) decode_index_less, of g h p p] Inr hp a by simp
    moreover have "reassembler_wf (fst (receive_loop r' ds))" if "length g \<ge> 10" "out = None"
      using 3(1) [OF that(1) Inr hp [symmetric] a [symmetric] that(2)] calculation by simp
    ultimately show ?thesis using Inr hp a 3(2) by (cases out) simp_all
  qed (use 3(2) in simp)
qed auto

text \<open>
  C29. Whatever datagrams arrive, from a peer that follows the protocol or not, Receive keeps the
  reassembler's invariant: each partial message has at most 65535 slots, some but not all of them filled, and its
  counter is the number of filled ones, so that completion is detected exactly when the last slot is filled.
\<close>
theorem Receive_invariant:
  assumes "\<And>r. reassembler = Some r \<Longrightarrow> reassembler_wf r"
  shows "reassembler_wf (fst (Receive reassembler ds))"
proof -
  have "reassembler_wf newMessageReassembler" by (simp add: reassembler_wf_def newMessageReassembler_def)
  then show ?thesis using assms receive_loop_wf by (auto simp: Receive_def split: option.split)
qed

theorem Receive_invariant_witness:
  "reassembler_wf (fst (Receive None [Inr [0xD0, 0xC0, 0, 0, 0, 1, 0, 0, 0, 2, 9], Inr [0xD0, 0xC0, 0, 0, 0, 1, 0, 2, 0, 3]]))"
  by (rule Receive_invariant) simp

section \<open>Limits of the format\<close>

text \<open>
  The fragment count is truncated to 16 bits: a message whose fragment count is a multiple of
  65536 is not sent at all, and Send reports success.
\<close>
theorem Send_count_wraps:
  assumes "990 < length m" "((length m + 989) div 990) mod 65536 = 0"
  shows "Send sd ctr c m = (ctr + 1, c, None)"
proof -
  have "(of_nat ((length m + 989) div 990) :: uint16) = 0"
    using assms(2) by (intro unat_eq_zero [THEN iffD1]) (simp add: unat_of_nat take_bit_eq_mod)
  then show ?thesis using assms(1)
    by (simp add: Send_def nextMessageID_def MaxDatagramSize_def send_fragments.simps Let_def add.commute)
qed

theorem Send_count_wraps_witness:
  "Send record_sd 5 [] (replicate 64880640 (1 :: byte)) = (6, [], None)"
  using Send_count_wraps [of "replicate 64880640 1" record_sd 5 "[]"] by simp

text \<open>
  A short message is sent without a header, so one whose first ten bytes form a fragment header of
  a message of several fragments is taken for a fragment: the receiver does not return it but waits,
  and keeps its tail as part of a partial message.
\<close>
theorem short_message_swallowed:
  assumes "length m \<le> 990" "decodeFragmentHeader m = Inr (h, p)" "FragmentCount h \<noteq> 1"
  shows "Send record_sd ctr [] m = (ctr, [m], None) \<and>
         (\<exists>pm. Receive None [Inr m] = (newMessageReassembler(MessageID h \<mapsto> pm), [], None) \<and>
               fragments pm ! unat (FragmentIndex h) = Some p)"
proof -
  have idx: "unat (FragmentIndex h) < unat (FragmentCount h)"
    using decode_index_less [OF assms(2)] by (simp add: word_less_nat_alt)
  have "\<not> length m < 10" using assms(2) by (auto simp: decodeFragmentHeader_def)
  moreover have "(1 :: uint16) \<noteq> FragmentCount h" using assms(3) by auto
  ultimately show ?thesis using assms(2) idx
    by (simp add: Send_short [OF assms(1)] Receive_def addFragment_def newMessageReassembler_def Let_def)
      (rule exI, rule conjI [OF refl], simp)
qed

theorem short_message_swallowed_witness:
  "Send record_sd 0 [] [0xD0, 0xC0, 0, 0, 0, 1, 0, 0, 0, 2, 42] = (0, [[0xD0, 0xC0, 0, 0, 0, 1, 0, 0, 0, 2, 42]], None) \<and>
   (\<exists>pm. Receive None [Inr [0xD0, 0xC0, 0, 0, 0, 1, 0, 0, 0, 2, 42]] = (newMessageReassembler(1 \<mapsto> pm), [], None) \<and>
         fragments pm ! 0 = Some [42])"
  using short_message_swallowed [of "[0xD0, 0xC0, 0, 0, 0, 1, 0, 0, 0, 2, 42]"
      "\<lparr> Magic = FragmentMagic, MessageID = 1, FragmentIndex = 0, FragmentCount = 2 \<rparr>" "[42]" 0]
  by (simp add: decodeFragmentHeader_def FragmentMagic_def get_be16_def get_be32_def sub_def)

end
