(* ===== verification/Limiter.thy ===== *)
theory Limiter
  imports VNet_Prelude Complex_Main
begin

text \<open>
  The token bucket of \<^verbatim>\<open>common/rate/limiter.go\<close> and the pacing limiter of
  \<^verbatim>\<open>common/rate/smooth_limiter.go\<close>. The bucket is lock-free: \<open>limiter_step\<close> runs a goroutine inside one of its
  methods up to the next atomic operation, one program point per \<^verbatim>\<open>Load\<close>, \<^verbatim>\<open>Store\<close> or
  \<^verbatim>\<open>CompareAndSwap\<close> of the source; \<open>run_step\<close> interleaves any number of goroutines. \<open>AllowN\<close>,
  \<open>PutBack\<close> and \<open>PutBackFromLast\<close> are the same methods run without interference. The clock is an
  argument: \<open>now\<close> is what \<^verbatim>\<open>time.Now().UnixNano()\<close> returned.
\<close>

record limiter =
  lastUpdate :: int
  available :: int
  rate :: int
  burst :: int
  precision :: int
  lastConsumed :: int

definition NewLimiter :: "int \<Rightarrow> int \<Rightarrow> int \<Rightarrow> limiter" where
  "NewLimiter now r b =
     \<lparr> lastUpdate = now, available = wrap64 (b * 1000000), rate = wrap64 (r * 1000000),
       burst = wrap64 (b * 1000000), precision = 1000000, lastConsumed = 0 \<rparr>"

section \<open>Arithmetic of the methods\<close>

text \<open>\<^verbatim>\<open>elapsed := now - last\<close> and \<^verbatim>\<open>added = elapsed * l.rate / 1e9\<close>, in \<^verbatim>\<open>int64\<close>.\<close>

definition elapsed_ns :: "int \<Rightarrow> int \<Rightarrow> int" where
  "elapsed_ns now lst = wrap64 (now - lst)"

definition added_tokens :: "limiter \<Rightarrow> int \<Rightarrow> int" where
  "added_tokens l elapsed = (if elapsed > 0 then quot (wrap64 (elapsed * rate l)) 1000000000 else 0)"

definition cap_add :: "limiter \<Rightarrow> int \<Rightarrow> int \<Rightarrow> int" where
  "cap_add l current x = (let newCurrent = wrap64 (current + x) in if newCurrent > burst l then burst l else newCurrent)"

definition units :: "limiter \<Rightarrow> int \<Rightarrow> int" where
  "units l n = wrap64 (n * precision l)"

section \<open>Goroutines inside a method\<close>

datatype limiter_pc =
    Idle
  | AllowLoadLast int int
  | AllowLoadAvail int int int int int
  | AllowCasLast int int int int int
  | AllowAddLoad int int int
  | AllowAddCas int int int int
  | AllowReload int int
  | AllowCheck int int
  | AllowConsume int int int
  | AllowStore int
  | PutLoad int
  | PutCas int int
  | PutLoadConsumed int int
  | PutStoreConsumed int int
  | LastLoad int
  | ReturnBool bool
  | ReturnInt int

definition start_AllowN :: "int \<Rightarrow> int \<Rightarrow> limiter_pc" where
  "start_AllowN now n = (if n \<le> 0 then ReturnBool False else AllowLoadLast n now)"

definition start_PutBack :: "int \<Rightarrow> limiter_pc" where
  "start_PutBack n = (if n \<le> 0 then ReturnInt 0 else PutLoad n)"

definition start_PutBackFromLast :: "int \<Rightarrow> limiter_pc" where
  "start_PutBackFromLast used = (if used < 0 then ReturnInt 0 else LastLoad used)"

text \<open>
  The arguments of a program point are the local variables that are still needed: \<open>n\<close>, \<open>now\<close>,
  \<open>lst\<close> (\<^verbatim>\<open>last\<close>), \<open>elapsed\<close>, \<open>added\<close>, \<open>current\<close>. \<open>AllowLoadAvail\<close> and \<open>AllowReload\<close> load a value that
  the source overwrites before using it.
\<close>

fun limiter_step :: "limiter \<Rightarrow> limiter_pc \<Rightarrow> limiter \<times> limiter_pc" where
  "limiter_step l (AllowLoadLast n now) =
     (let lst = lastUpdate l; elapsed = elapsed_ns now lst
      in (l, AllowLoadAvail n now lst elapsed (added_tokens l elapsed)))"
| "limiter_step l (AllowLoadAvail n now lst elapsed added) = (l, AllowCasLast n now lst elapsed added)"
| "limiter_step l (AllowCasLast n now lst elapsed added) =
     (if elapsed > 0 \<and> lastUpdate l = lst
      then (l\<lparr>lastUpdate := now\<rparr>, if added > 0 then AllowAddLoad n now added else AllowReload n now)
      else (l, AllowCheck n now))"
| "limiter_step l (AllowAddLoad n now added) = (l, AllowAddCas n now added (available l))"
| "limiter_step l (AllowAddCas n now added current) =
     (if available l = current then (l\<lparr>available := cap_add l current added\<rparr>, AllowReload n now)
      else (l, AllowAddLoad n now added))"
| "limiter_step l (AllowReload n now) = (l, AllowCheck n now)"
| "limiter_step l (AllowCheck n now) =
     (if available l \<ge> units l n then (l, AllowConsume n now (available l)) else (l, ReturnBool False))"
| "limiter_step l (AllowConsume n now current) =
     (if available l = current then (l\<lparr>available := wrap64 (current - units l n)\<rparr>, AllowStore n)
      else (l, AllowLoadLast n now))"
| "limiter_step l (AllowStore n) = (l\<lparr>lastConsumed := n\<rparr>, ReturnBool True)"
| "limiter_step l (PutLoad n) = (l, PutCas n (available l))"
| "limiter_step l (PutCas n current) =
     (if available l = current
      then let newCurrent = cap_add l current (units l n);
               actualPutback = max 0 (wrap64 (newCurrent - current))
           in (l\<lparr>available := newCurrent\<rparr>, PutLoadConsumed n (quot actualPutback (precision l)))
      else (l, PutLoad n))"
| "limiter_step l (PutLoadConsumed n actual) =
     (l, PutStoreConsumed (if lastConsumed l \<ge> n then wrap64 (lastConsumed l - n) else 0) actual)"
| "limiter_step l (PutStoreConsumed v actual) = (l\<lparr>lastConsumed := v\<rparr>, ReturnInt actual)"
| "limiter_step l (LastLoad used) =
     (if lastConsumed l \<le> 0 then (l, ReturnInt 0)
      else let availablePutback = wrap64 (lastConsumed l - used)
           in (l, if availablePutback \<le> 0 then ReturnInt 0 else start_PutBack availablePutback))"
| "limiter_step l Idle = (l, Idle)"
| "limiter_step l (ReturnBool b) = (l, ReturnBool b)"
| "limiter_step l (ReturnInt n) = (l, ReturnInt n)"

section \<open>The methods run alone\<close>

text \<open>Without other goroutines every compare-and-swap succeeds.\<close>

definition refill :: "int \<Rightarrow> limiter \<Rightarrow> limiter" where
  "refill now l =
     (let elapsed = elapsed_ns now (lastUpdate l); added = added_tokens l elapsed in
      if elapsed > 0
      then let l' = l\<lparr>lastUpdate := now\<rparr>
           in if added > 0 then l'\<lparr>available := cap_add l (available l) added\<rparr> else l'
      else l)"

definition AllowN :: "int \<Rightarrow> int \<Rightarrow> limiter \<Rightarrow> limiter \<times> bool" where
  "AllowN now n l =
     (if n \<le> 0 then (l, False)
      else let l = refill now l in
        if available l \<ge> units l n
        then (l\<lparr>available := wrap64 (available l - units l n), lastConsumed := n\<rparr>, True)
        else (l, False))"

definition Allow :: "int \<Rightarrow> limiter \<Rightarrow> limiter \<times> bool" where
  "Allow now l = AllowN now 1 l"

definition PutBack :: "int \<Rightarrow> limiter \<Rightarrow> limiter \<times> int" where
  "PutBack n l =
     (if n \<le> 0 then (l, 0)
      else let newCurrent = cap_add l (available l) (units l n);
               actualPutback = max 0 (wrap64 (newCurrent - available l));
               lc = (if lastConsumed l \<ge> n then wrap64 (lastConsumed l - n) else 0)
           in (l\<lparr>available := newCurrent, lastConsumed := lc\<rparr>, quot actualPutback (precision l)))"

definition PutBackFromLast :: "int \<Rightarrow> limiter \<Rightarrow> limiter \<times> int" where
  "PutBackFromLast used l =
     (if used < 0 \<or> lastConsumed l \<le> 0 then (l, 0)
      else let availablePutback = wrap64 (lastConsumed l - used)
           in if availablePutback \<le> 0 then (l, 0) else PutBack availablePutback l)"

text \<open>The numerator of \<^verbatim>\<open>Tokens()\<close>, which the source divides by the precision as \<^verbatim>\<open>float64\<close>.\<close>

definition Tokens_units :: "int \<Rightarrow> limiter \<Rightarrow> int" where
  "Tokens_units now l =
     (let elapsed = elapsed_ns now (lastUpdate l) in
      if elapsed > 0 then cap_add l (available l) (quot (wrap64 (elapsed * rate l)) 1000000000)
      else available l)"

definition Rate :: "limiter \<Rightarrow> int" where
  "Rate l = quot (rate l) (precision l)"

definition Burst :: "limiter \<Rightarrow> int" where
  "Burst l = quot (burst l) (precision l)"

section \<open>Interleavings\<close>

text \<open>
  A bucket shared by goroutines, with ghost counters: the tokens granted by successful \<^verbatim>\<open>AllowN\<close>
  calls, those put back, and the latest clock reading. A goroutine that has returned (or not yet
  called) starts a method with arguments in a range that excludes overflow of the unit conversion.
\<close>

record limiter_run =
  lim :: limiter
  pcs :: "limiter_pc list"
  granted :: int
  returned :: int
  clock :: int

definition idle :: "limiter_pc \<Rightarrow> bool" where
  "idle pc = (case pc of Idle \<Rightarrow> True | ReturnBool _ \<Rightarrow> True | ReturnInt _ \<Rightarrow> True | _ \<Rightarrow> False)"

definition grants :: "limiter \<Rightarrow> limiter_pc \<Rightarrow> int" where
  "grants l pc = (case pc of AllowConsume n now current \<Rightarrow> if available l = current then n else 0 | _ \<Rightarrow> 0)"

definition puts :: "limiter \<Rightarrow> limiter_pc \<Rightarrow> int" where
  "puts l pc = (case pc of PutCas n current \<Rightarrow> if available l = current then n else 0 | _ \<Rightarrow> 0)"

definition arg_ok :: "int \<Rightarrow> bool" where
  "arg_ok n \<longleftrightarrow> 0 \<le> n \<and> n \<le> 1000000000000"

definition time_ok :: "int \<Rightarrow> bool" where
  "time_ok t \<longleftrightarrow> 0 \<le> t \<and> t < 2 ^ 62"

inductive run_step :: "limiter_run \<Rightarrow> limiter_run \<Rightarrow> bool" where
  call_AllowN: "i < length (pcs s) \<Longrightarrow> idle (pcs s ! i) \<Longrightarrow> arg_ok n \<Longrightarrow> time_ok now \<Longrightarrow>
     run_step s (s\<lparr>pcs := (pcs s)[i := start_AllowN now n], clock := max (clock s) now\<rparr>)"
| call_PutBack: "i < length (pcs s) \<Longrightarrow> idle (pcs s ! i) \<Longrightarrow> arg_ok n \<Longrightarrow>
     run_step s (s\<lparr>pcs := (pcs s)[i := start_PutBack n]\<rparr>)"
| call_PutBackFromLast: "i < length (pcs s) \<Longrightarrow> idle (pcs s ! i) \<Longrightarrow> arg_ok used \<Longrightarrow>
     run_step s (s\<lparr>pcs := (pcs s)[i := start_PutBackFromLast used]\<rparr>)"
| go: "i < length (pcs s) \<Longrightarrow> limiter_step (lim s) (pcs s ! i) = (l', pc') \<Longrightarrow>
     run_step s (s\<lparr>lim := l', pcs := (pcs s)[i := pc'],
                   granted := granted s + grants (lim s) (pcs s ! i),
                   returned := returned s + puts (lim s) (pcs s ! i)\<rparr>)"

definition initial_run :: "int \<Rightarrow> int \<Rightarrow> int \<Rightarrow> nat \<Rightarrow> limiter_run" where
  "initial_run t0 r b k =
     \<lparr> lim = NewLimiter t0 r b, pcs = replicate k Idle, granted = 0, returned = 0, clock = t0 \<rparr>"

section \<open>The smooth limiter\<close>

text \<open>
  \<^verbatim>\<open>float64\<close> arithmetic is a parameter: \<open>fdiv3 n r s\<close> is \<^verbatim>\<open>int64(float64(n) / float64(r) / s)\<close>.
  \<open>smoothing\<close> is the decimal value of the literal. \<^verbatim>\<open>WaitN\<close> takes the clock before and after the sleep and
  returns the time it asked to sleep.
\<close>

record smooth_limiter =
  sl_rate :: int
  lastTime :: int
  smoothing :: rat

definition NewSmoothLimiter :: "int \<Rightarrow> int \<Rightarrow> smooth_limiter" where
  "NewSmoothLimiter now r = \<lparr> sl_rate = r, lastTime = now, smoothing = 21 / 20 \<rparr>"

definition smooth_WaitN ::
    "(int \<Rightarrow> int \<Rightarrow> rat \<Rightarrow> int) \<Rightarrow> int \<Rightarrow> (int \<Rightarrow> int) \<Rightarrow> int \<Rightarrow> smooth_limiter \<Rightarrow> smooth_limiter \<times> int" where
  "smooth_WaitN fdiv3 now after n l =
     (if n \<le> 0 \<or> sl_rate l \<le> 0 then (l, 0)
      else let expectedInterval = fdiv3 (wrap64 (n * 1000000000)) (sl_rate l) (smoothing l);
               elapsed = wrap64 (now - lastTime l);
               waitTime = (if elapsed < expectedInterval then max 0 (wrap64 (expectedInterval - elapsed)) else 0)
           in (l\<lparr>lastTime := after waitTime\<rparr>, waitTime))"

definition SetSmoothing :: "rat \<Rightarrow> smooth_limiter \<Rightarrow> smooth_limiter" where
  "SetSmoothing factor l = (if factor > 0 \<and> factor \<le> 1 then l\<lparr>smoothing := factor\<rparr> else l)"

definition sl_Rate :: "smooth_limiter \<Rightarrow> int" where
  "sl_Rate l = sl_rate l"

definition SetRate :: "int \<Rightarrow> smooth_limiter \<Rightarrow> smooth_limiter" where
  "SetRate r l = l\<lparr>sl_rate := r\<rparr>"

end
