(* ===== verification/Limiter_Props.thy ===== *)
theory Limiter_Props
  imports Limiter
begin

text \<open>
  Properties of the token bucket: under every interleaving the tokens granted are bounded by burst, rate and
  elapsed time; a method run alone returns, with the result of its sequential description; and two ways in
  which idle or polled buckets lose tokens.
\<close>

section \<open>Arithmetic\<close>

lemma wrap64_le: "0 \<le> x \<Longrightarrow> wrap64 x \<le> x"
proof -
  assume "0 \<le> x"
  then have "(x + 2 ^ 63) mod 2 ^ 64 \<le> x + 2 ^ 63" by (intro zmod_le_nonneg_dividend) simp
  then show ?thesis by (simp add: wrap64_def)
qed

lemma wrap64_less: "wrap64 x < 2 ^ 63"
  using in64_wrap64 [of x] unfolding in64_def by blast

lemma quot_bound: "quot a 1000000000 * 1000000000 \<le> max 0 a"
proof (cases "0 < a")
  case True
  then show ?thesis by (simp add: quot_nonneg)
next
  case False
  then have "quot a 1000000000 \<le> 0" by (auto simp: quot_def sgn_if)
  then show ?thesis by simp
qed

lemma added_tokens_bounds:
  assumes "0 \<le> rate l" "0 < e"
  shows "1000000000 * added_tokens l e \<le> e * rate l" "added_tokens l e \<le> 9223372037"
proof -
  have "wrap64 (e * rate l) \<le> e * rate l" "0 \<le> e * rate l" using assms by (simp_all add: wrap64_le)
  then show "1000000000 * added_tokens l e \<le> e * rate l"
    using quot_bound [of "wrap64 (e * rate l)"] assms(2)
    by (auto simp: added_tokens_def max_def mult.commute [of _ 1000000000] simp del: zero_le_mult_iff mult_le_0_iff split: if_splits)
  show "added_tokens l e \<le> 9223372037"
    using quot_bound [of "wrap64 (e * rate l)"] wrap64_less [of "e * rate l"] assms by (simp add: added_tokens_def)
qed

section \<open>The invariant\<close>

definition pend :: "limiter_pc \<Rightarrow> int" where
  "pend pc = (case pc of AllowAddLoad n now a \<Rightarrow> a | AllowAddCas n now a c \<Rightarrow> a | _ \<Rightarrow> 0)"

definition n_ok :: "int \<Rightarrow> bool" where
  "n_ok n \<longleftrightarrow> 0 < n \<and> n \<le> 1000000000000"

definition now_ok :: "int \<Rightarrow> int \<Rightarrow> bool" where
  "now_ok clk now \<longleftrightarrow> time_ok now \<and> now \<le> clk"

definition pc_ok :: "int \<Rightarrow> int \<Rightarrow> limiter_pc \<Rightarrow> bool" where
  "pc_ok R clk pc = (case pc of
       AllowLoadLast n now \<Rightarrow> n_ok n \<and> now_ok clk now
     | AllowLoadAvail n now lst e a \<Rightarrow> n_ok n \<and> now_ok clk now \<and> e = now - lst \<and> (0 < e \<longrightarrow> 1000000000 * a \<le> e * R \<and> a \<le> 9223372037)
     | AllowCasLast n now lst e a \<Rightarrow> n_ok n \<and> now_ok clk now \<and> e = now - lst \<and> (0 < e \<longrightarrow> 1000000000 * a \<le> e * R \<and> a \<le> 9223372037)
     | AllowAddLoad n now a \<Rightarrow> n_ok n \<and> now_ok clk now \<and> 0 < a \<and> a \<le> 9223372037
     | AllowAddCas n now a c \<Rightarrow> n_ok n \<and> now_ok clk now \<and> 0 < a \<and> a \<le> 9223372037
     | AllowReload n now \<Rightarrow> n_ok n \<and> now_ok clk now
     | AllowCheck n now \<Rightarrow> n_ok n \<and> now_ok clk now
     | AllowConsume n now c \<Rightarrow> n_ok n \<and> now_ok clk now \<and> 1000000 * n \<le> c
     | AllowStore n \<Rightarrow> n_ok n
     | PutLoad n \<Rightarrow> n_ok n
     | PutCas n c \<Rightarrow> n_ok n
     | PutLoadConsumed n a \<Rightarrow> n_ok n
     | PutStoreConsumed v a \<Rightarrow> arg_ok v
     | LastLoad used \<Rightarrow> arg_ok used
     | _ \<Rightarrow> True)"

definition lim_ok :: "int \<Rightarrow> int \<Rightarrow> int \<Rightarrow> int \<Rightarrow> limiter \<Rightarrow> bool" where
  "lim_ok t0 r b clk l \<longleftrightarrow> rate l = r * 1000000 \<and> burst l = b * 1000000 \<and> precision l = 1000000 \<and>
     0 \<le> available l \<and> available l \<le> burst l \<and> t0 \<le> lastUpdate l \<and> now_ok clk (lastUpdate l) \<and> arg_ok (lastConsumed l)"

lemmas ok_defs = lim_ok_def pc_ok_def n_ok_def now_ok_def arg_ok_def time_ok_def

lemma units_eq: "precision l = 1000000 \<Longrightarrow> n_ok n \<Longrightarrow> units l n = 1000000 * n"
  by (simp add: units_def n_ok_def in64_def)

lemma cap_add_bounds:
  assumes "0 \<le> available l" "available l \<le> burst l" "burst l \<le> 1000000000000000000" "0 < x" "x \<le> 1000000000000000000"
  shows "0 \<le> cap_add l (available l) x \<and> cap_add l (available l) x \<le> burst l \<and>
         cap_add l (available l) x \<le> available l + x \<and> available l \<le> cap_add l (available l) x"
proof -
  have "wrap64 (available l + x) = available l + x" using assms by (intro wrap64_id) (simp add: in64_def)
  then show ?thesis using assms by (simp add: cap_add_def Let_def)
qed

text \<open>One step of one goroutine keeps everything in range and never creates tokens beyond the elapsed time.\<close>

definition fair_step :: "int \<Rightarrow> int \<Rightarrow> int \<Rightarrow> int \<Rightarrow> limiter \<Rightarrow> limiter_pc \<Rightarrow> limiter \<times> limiter_pc \<Rightarrow> bool" where
  "fair_step t0 r b clk l pc out \<longleftrightarrow> (case out of (l', pc') \<Rightarrow>
     lim_ok t0 r b clk l' \<and> pc_ok (r * 1000000) clk pc' \<and>
     1000000000 * (1000000 * grants l pc + (available l' - available l) + (pend pc' - pend pc) - 1000000 * puts l pc)
       \<le> r * 1000000 * (lastUpdate l' - lastUpdate l))"

lemma limiter_step_ok:
  assumes l: "lim_ok t0 r b clk l" and pc: "pc_ok (r * 1000000) clk pc" and r: "arg_ok r" and b: "arg_ok b"
    and out: "limiter_step l pc = (l', pc')"
  shows "fair_step t0 r b clk l pc (l', pc')"
proof -
  note rng = l [unfolded lim_ok_def]
  have b18: "burst l \<le> 1000000000000000000" and r0: "0 \<le> r" "0 \<le> rate l" using rng b r by (auto simp: arg_ok_def)
  show ?thesis
  proof (cases pc)
    case (AllowLoadLast n now)
    have e: "elapsed_ns now (lastUpdate l) = now - lastUpdate l"
      using pc rng AllowLoadLast by (simp add: elapsed_ns_def ok_defs in64_def)
    show ?thesis using out pc l AllowLoadLast added_tokens_bounds [OF r0(2)] rng
      by (auto simp: fair_step_def pc_ok_def e grants_def puts_def pend_def Let_def)
  next
    case (AllowCasLast n now lst e a)
    have pos: "0 < e \<Longrightarrow> 0 \<le> r * (1000000 * e)" using r0 by simp
    show ?thesis using out pc rng AllowCasLast pos r0
      by (auto simp: fair_step_def ok_defs grants_def puts_def pend_def algebra_simps split: if_splits)
  next
    case (AllowAddCas n now a c)
    show ?thesis
      using out pc l AllowAddCas rng cap_add_bounds [of l a] b18
      by (auto simp: fair_step_def ok_defs grants_def puts_def pend_def split: if_splits)
  next
    case (AllowConsume n now c)
    show ?thesis
      using out pc l AllowConsume rng b18 units_eq [of l n]
      by (auto simp: fair_step_def ok_defs grants_def puts_def pend_def in64_def split: if_splits)
  next
    case (PutCas n c)
    show ?thesis
      using out pc l PutCas rng b18 units_eq [of l n] cap_add_bounds [of l "1000000 * n"]
      by (auto simp: fair_step_def ok_defs grants_def puts_def pend_def Let_def split: if_splits)
  next
    case (PutLoadConsumed n a)
    show ?thesis
      using out pc l PutLoadConsumed rng
      by (auto simp: fair_step_def ok_defs grants_def puts_def pend_def in64_def split: if_splits)
  next
    case (LastLoad used)
    show ?thesis
      using out pc l LastLoad rng
      by (auto simp: fair_step_def ok_defs start_PutBack_def grants_def puts_def pend_def in64_def Let_def split: if_splits)
  next
    case (AllowCheck n now)
    then show ?thesis using out pc l rng units_eq [of l n]
      by (auto simp: fair_step_def pc_ok_def grants_def puts_def pend_def split: if_splits)
  qed (use out pc l in \<open>auto simp: fair_step_def ok_defs grants_def puts_def pend_def\<close>)
qed

section \<open>Runs\<close>

definition pending :: "limiter_run \<Rightarrow> int" where
  "pending s = sum_list (map pend (pcs s))"

definition run_inv :: "int \<Rightarrow> int \<Rightarrow> int \<Rightarrow> limiter_run \<Rightarrow> bool" where
  "run_inv t0 r b s \<longleftrightarrow> lim_ok t0 r b (clock s) (lim s) \<and> (\<forall>pc \<in> set (pcs s). pc_ok (r * 1000000) (clock s) pc) \<and>
     1000000000 * (1000000 * granted s + available (lim s) + pending s - b * 1000000 - 1000000 * returned s)
       \<le> r * 1000000 * (lastUpdate (lim s) - t0)"

lemma sum_list_map_update:
  "i < length xs \<Longrightarrow> sum_list (map f (xs[i := x])) = sum_list (map f xs) - f (xs ! i) + (f x :: int)"
  by (induction xs arbitrary: i) (auto simp: nth_Cons' list_update_code split: nat.split)

lemma pc_ok_mono: "pc_ok R clk pc \<Longrightarrow> clk \<le> clk' \<Longrightarrow> pc_ok R clk' pc"
  by (cases pc) (auto simp: pc_ok_def now_ok_def)

lemma lim_ok_mono: "lim_ok t0 r b clk l \<Longrightarrow> clk \<le> clk' \<Longrightarrow> lim_ok t0 r b clk' l"
  by (auto simp: lim_ok_def now_ok_def)

lemma idle_pend [simp]: "idle pc \<Longrightarrow> pend pc = 0"
  by (cases pc) (simp_all add: idle_def pend_def)

lemma run_inv_call:
  assumes inv: "run_inv t0 r b s" and i: "i < length (pcs s)" "idle (pcs s ! i)"
    and pc: "pc_ok (r * 1000000) clk' pc" "pend pc = 0" "clock s \<le> clk'"
  shows "run_inv t0 r b (s\<lparr>pcs := (pcs s)[i := pc], clock := clk'\<rparr>)"
  using inv i pc lim_ok_mono [OF _ pc(3)] pc_ok_mono [OF _ pc(3)]
  by (auto simp: run_inv_def pending_def sum_list_map_update dest: set_update_subset_insert [THEN subsetD])

lemma run_inv_step:
  assumes "run_step s s'" "run_inv t0 r b s" "arg_ok r" "arg_ok b"
  shows "run_inv t0 r b s'"
  using assms(1)
proof cases
  case (call_AllowN i n now)
  have "pc_ok (r * 1000000) (max (clock s) now) (start_AllowN now n)" "pend (start_AllowN now n) = 0"
    using call_AllowN by (auto simp: start_AllowN_def ok_defs pend_def)
  then show ?thesis using run_inv_call [OF assms(2) call_AllowN(2,3), of "max (clock s) now"] call_AllowN(1) by simp
next
  case (call_PutBack i n)
  have "pc_ok (r * 1000000) (clock s) (start_PutBack n)" "pend (start_PutBack n) = 0"
    using call_PutBack by (auto simp: start_PutBack_def ok_defs pend_def)
  then show ?thesis using run_inv_call [OF assms(2) call_PutBack(2,3), of "clock s"] call_PutBack(1) by simp
next
  case (call_PutBackFromLast i n)
  have "pc_ok (r * 1000000) (clock s) (start_PutBackFromLast n)" "pend (start_PutBackFromLast n) = 0"
    using call_PutBackFromLast by (auto simp: start_PutBackFromLast_def ok_defs pend_def)
  then show ?thesis
    using run_inv_call [OF assms(2) call_PutBackFromLast(2,3), of "clock s"] call_PutBackFromLast(1) by simp
next
  case (go i l' pc')
  have "pcs s ! i \<in> set (pcs s)" using go(2) by simp
  then have "fair_step t0 r b (clock s) (lim s) (pcs s ! i) (l', pc')"
    using limiter_step_ok [OF _ _ assms(3,4) go(3)] assms(2) by (simp add: run_inv_def)
  then show ?thesis using go(1,2) assms(2)
    by (auto simp: run_inv_def fair_step_def pending_def sum_list_map_update algebra_simps
        dest: set_update_subset_insert [THEN subsetD])
qed

lemma run_inv_initial:
  assumes "arg_ok r" "arg_ok b" "time_ok t0"
  shows "run_inv t0 r b (initial_run t0 r b k)"
  using assms
  by (auto simp: run_inv_def initial_run_def NewLimiter_def pending_def ok_defs in64_def pend_def sum_list_replicate)

lemma run_inv_reachable:
  assumes "run_step\<^sup>*\<^sup>* (initial_run t0 r b k) s" "arg_ok r" "arg_ok b" "time_ok t0"
  shows "run_inv t0 r b s"
  using assms(1)
  by (induction rule: rtranclp_induct) (use assms run_inv_initial run_inv_step in blast)+

lemma pending_nonneg: "run_inv t0 r b s \<Longrightarrow> 0 \<le> pending s"
  unfolding pending_def run_inv_def
  by (intro sum_list_nonneg) (fastforce simp: pend_def pc_ok_def split: limiter_pc.splits)

text \<open>
  C15. However the goroutines that use a bucket are interleaved, at every moment the tokens granted are at
  most the burst, plus the tokens put back, plus the rate times the time since the bucket was made;
  and the number of available tokens stays between zero and the burst. (Rate, burst and arguments up to 10 ^ 12,
  clock readings in any order.)
\<close>
theorem Limiter_rate_bound:
  assumes "run_step\<^sup>*\<^sup>* (initial_run t0 r b k) s" "arg_ok r" "arg_ok b" "time_ok t0"
  shows "1000000000 * (granted s - returned s - b) \<le> r * (clock s - t0) \<and>
         0 \<le> available (lim s) \<and> available (lim s) \<le> burst (lim s)"
proof -
  have inv: "run_inv t0 r b s" using run_inv_reachable [OF assms] .
  then have "1000000 * (1000000000 * (granted s - returned s - b)) \<le> 1000000 * (r * (lastUpdate (lim s) - t0))"
    using pending_nonneg [OF inv] by (simp add: run_inv_def lim_ok_def algebra_simps)
  moreover have "r * (lastUpdate (lim s) - t0) \<le> r * (clock s - t0)"
    using inv assms(2) by (intro mult_left_mono) (auto simp: run_inv_def lim_ok_def now_ok_def arg_ok_def)
  ultimately show ?thesis using inv by (simp add: run_inv_def lim_ok_def)
qed

lemma demo_run:
  "run_step\<^sup>*\<^sup>* (initial_run 0 5 2 1) ((initial_run 0 5 2 1)\<lparr>pcs := [start_AllowN 7 1], clock := 7\<rparr>)"
proof -
  have "run_step (initial_run 0 5 2 1) ((initial_run 0 5 2 1)\<lparr>pcs := (pcs (initial_run 0 5 2 1))[0 := start_AllowN 7 1],
     clock := max (clock (initial_run 0 5 2 1)) 7\<rparr>)"
    by (rule call_AllowN) (simp_all add: initial_run_def idle_def arg_ok_def time_ok_def)
  then show ?thesis by (simp add: initial_run_def)
qed

theorem Limiter_rate_bound_witness:
  "1000000000 * (granted ((initial_run 0 5 2 1)\<lparr>pcs := [start_AllowN 7 1], clock := 7\<rparr>) -
     returned ((initial_run 0 5 2 1)\<lparr>pcs := [start_AllowN 7 1], clock := 7\<rparr>) - 2) \<le> 5 * (7 - 0)"
  using Limiter_rate_bound [OF demo_run] by (simp add: arg_ok_def time_ok_def)

section \<open>A method run alone\<close>

fun run_alone :: "nat \<Rightarrow> limiter \<times> limiter_pc \<Rightarrow> limiter \<times> limiter_pc" where
  "run_alone 0 s = s"
| "run_alone (Suc k) s = run_alone k (limiter_step (fst s) (snd s))"

text \<open>
  C30. A goroutine that runs alone inside a method returns: after at most nine atomic operations in AllowN,
  four in PutBack and five in PutBackFromLast, with the result and the bucket that the sequential descriptions
  give. (A failed compare-and-swap, the only reason to loop, needs another goroutine.)
\<close>
theorem Limiter_solo_returns:
  "run_alone 9 (l, start_AllowN now n) = (let (l', ok) = AllowN now n l in (l', ReturnBool ok)) \<and>
   run_alone 4 (l, start_PutBack m) = (let (l', k) = PutBack m l in (l', ReturnInt k)) \<and>
   run_alone 5 (l, start_PutBackFromLast used) = (let (l', k) = PutBackFromLast used l in (l', ReturnInt k))"
proof (intro conjI)
  show "run_alone 9 (l, start_AllowN now n) = (let (l', ok) = AllowN now n l in (l', ReturnBool ok))"
    by (auto simp: AllowN_def refill_def start_AllowN_def eval_nat_numeral Let_def cap_add_def units_def added_tokens_def)
  show "run_alone 4 (l, start_PutBack m) = (let (l', k) = PutBack m l in (l', ReturnInt k))"
    by (simp add: PutBack_def start_PutBack_def eval_nat_numeral Let_def)
  show "run_alone 5 (l, start_PutBackFromLast used) = (let (l', k) = PutBackFromLast used l in (l', ReturnInt k))"
    by (simp add: PutBackFromLast_def PutBack_def start_PutBack_def start_PutBackFromLast_def eval_nat_numeral Let_def)
qed

section \<open>Lost tokens\<close>

text \<open>
  The product of elapsed time and rate is computed in int64: when it lies between 2 ^ 63 and 2 ^ 64 the
  refill is negative and ignored, but the time stamp moves on, so the idle time is lost. A bucket of 1000 tokens
  per second that was emptied and then left idle for 9.3 seconds refuses a single token.
\<close>
theorem AllowN_idle_overflow:
  assumes "0 < n" "available l < units l n" "0 < e" "e < 2 ^ 62" "2 ^ 63 \<le> e * rate l" "e * rate l < 2 ^ 64"
  shows "AllowN (lastUpdate l + e) n l = (l\<lparr>lastUpdate := lastUpdate l + e\<rparr>, False)"
proof -
  have w: "wrap64 (e * rate l) = e * rate l - 2 ^ 64"
    using assms(5,6) unfolding wrap64_def
    by (subst mod_pos_geq) simp_all
  have "added_tokens l e \<le> 0"
    using assms(6) quot_bound [of "wrap64 (e * rate l)"] by (simp add: added_tokens_def w)
  moreover have "elapsed_ns (lastUpdate l + e) (lastUpdate l) = e"
    using assms(3,4) by (simp add: elapsed_ns_def in64_def)
  ultimately show ?thesis using assms(1,2,3) by (simp add: AllowN_def refill_def Let_def units_def)
qed

theorem AllowN_idle_overflow_witness:
  "AllowN 9300000000 1 ((NewLimiter 0 1000 1000)\<lparr>available := 0\<rparr>) =
     ((NewLimiter 0 1000 1000)\<lparr>available := 0, lastUpdate := 9300000000\<rparr>, False)"
  using AllowN_idle_overflow [of 1 "(NewLimiter 0 1000 1000)\<lparr>available := 0\<rparr>" 9300000000]
  by (simp add: NewLimiter_def units_def in64_def)

text \<open>Polling often enough keeps an empty bucket empty: each poll takes the time since the last one and rounds the refill down to nothing.\<close>

fun polls :: "int list \<Rightarrow> limiter \<Rightarrow> bool list" where
  "polls [] l = []"
| "polls (gap # gaps) l = (case AllowN (lastUpdate l + gap) 1 l of (l', ok) \<Rightarrow> ok # polls gaps l')"

lemma polling_starves:
  assumes "\<forall>g \<in> set gaps. 0 < g \<and> g * rate l < 1000000000" "0 \<le> available l" "available l < units l 1" "0 < rate l"
  shows "polls gaps l = replicate (length gaps) False"
  using assms
proof (induction gaps arbitrary: l)
  case (Cons g gaps)
  have g: "0 < g" "g * rate l < 1000000000" "0 \<le> g * rate l" "g \<le> g * rate l" using Cons.prems by auto
  have "in64 x" if "0 \<le> x" "x < 1000000000" for x using that by (simp add: in64_def)
  moreover have "g < 1000000000" using g by linarith
  ultimately have "in64 (g * rate l)" "in64 g" using g(1,2,3) less_imp_le [OF g(1)] by blast+
  then have w: "wrap64 (g * rate l) = g * rate l" "wrap64 g = g" by simp_all
  then have "added_tokens l g = 0" "elapsed_ns (lastUpdate l + g) (lastUpdate l) = g"
    using g by (simp_all add: added_tokens_def elapsed_ns_def quot_nonneg del: mult_le_cancel_left1)
  then have "AllowN (lastUpdate l + g) 1 l = (l\<lparr>lastUpdate := lastUpdate l + g\<rparr>, False)"
    using g Cons.prems by (simp add: AllowN_def refill_def units_def)
  then show ?case using Cons.IH [of "l\<lparr>lastUpdate := lastUpdate l + g\<rparr>"] Cons.prems by (simp add: units_def)
qed simp

end
