(* ===== verification/Pools.thy ===== *)
theory Pools
  imports VNet_Prelude "HOL-Library.Multiset"
begin

text \<open>
  The two object pools, \<^verbatim>\<open>common/pool/pool.go\<close> (\<open>BufferedPool\<close>) and
  \<^verbatim>\<open>vnet/client/hub/hub_pool.go\<close> (\<open>EventPool\<close>): a prefilled channel in front of a \<^verbatim>\<open>sync.Pool\<close>.
  \<^verbatim>\<open>sync.Pool\<close> may return any object it holds or make a new one, and may drop what it holds at a
  garbage collection; the choice is an argument (\<open>pick\<close>). \<open>newFunc k\<close> is the object made by the
  \<open>k\<close>-th call of the constructor. The contract both share is the locale \<open>object_pool\<close>.
\<close>

record 'a object_store =
  ch :: "'a list"
  chcap :: nat
  stash :: "'a list"
  made :: nat

section \<open>sync.Pool\<close>

definition sync_Get :: "(nat \<Rightarrow> 'a) \<Rightarrow> nat option \<Rightarrow> 'a object_store \<Rightarrow> 'a object_store \<times> 'a" where
  "sync_Get newFunc pick p =
     (case pick of
        Some i \<Rightarrow> if i < length (stash p)
                  then (p\<lparr>stash := take i (stash p) @ drop (Suc i) (stash p)\<rparr>, stash p ! i)
                  else (p\<lparr>made := Suc (made p)\<rparr>, newFunc (made p))
      | None \<Rightarrow> (p\<lparr>made := Suc (made p)\<rparr>, newFunc (made p)))"

definition sync_Put :: "'a \<Rightarrow> 'a object_store \<Rightarrow> 'a object_store" where
  "sync_Put e p = p\<lparr>stash := stash p @ [e]\<rparr>"

definition sync_gc :: "'a object_store \<Rightarrow> 'a object_store" where
  "sync_gc p = p\<lparr>stash := []\<rparr>"

section \<open>BufferedPool\<close>

fun prefill :: "(nat \<Rightarrow> 'a) \<Rightarrow> nat \<Rightarrow> 'a object_store \<Rightarrow> 'a object_store" where
  "prefill newFunc 0 p = p"
| "prefill newFunc (Suc k) p =
     (let (p', e) = sync_Get newFunc None p in prefill newFunc k (p'\<lparr>ch := ch p' @ [e]\<rparr>))"

definition NewBufferedPool :: "nat \<Rightarrow> (nat \<Rightarrow> 'a) \<Rightarrow> 'a object_store" where
  "NewBufferedPool minPoolSize newFunc =
     prefill newFunc minPoolSize \<lparr> ch = [], chcap = minPoolSize, stash = [], made = 0 \<rparr>"

definition BufferedPool_Get :: "(nat \<Rightarrow> 'a) \<Rightarrow> nat option \<Rightarrow> 'a object_store \<Rightarrow> 'a object_store \<times> 'a" where
  "BufferedPool_Get newFunc pick p =
     (case ch p of e # es \<Rightarrow> (p\<lparr>ch := es\<rparr>, e) | [] \<Rightarrow> sync_Get newFunc pick p)"

definition BufferedPool_Put :: "'a \<Rightarrow> 'a object_store \<Rightarrow> 'a object_store" where
  "BufferedPool_Put e p = (if length (ch p) < chcap p then p\<lparr>ch := ch p @ [e]\<rparr> else sync_Put e p)"

definition BufferedPool_Size :: "'a object_store \<Rightarrow> nat" where
  "BufferedPool_Size p = length (ch p)"

section \<open>EventPool\<close>

definition NewEventPool :: "nat \<Rightarrow> (nat \<Rightarrow> 'a) \<Rightarrow> 'a object_store" where
  "NewEventPool minPoolSize newFunc =
     prefill newFunc minPoolSize \<lparr> ch = [], chcap = minPoolSize, stash = [], made = 0 \<rparr>"

definition EventPool_Get :: "(nat \<Rightarrow> 'a) \<Rightarrow> nat option \<Rightarrow> 'a object_store \<Rightarrow> 'a object_store \<times> 'a" where
  "EventPool_Get newFunc pick p =
     (case ch p of e # es \<Rightarrow> (p\<lparr>ch := es\<rparr>, e) | [] \<Rightarrow> sync_Get newFunc pick p)"

definition EventPool_Put :: "'a \<Rightarrow> 'a object_store \<Rightarrow> 'a object_store" where
  "EventPool_Put e p = (if length (ch p) < chcap p then p\<lparr>ch := ch p @ [e]\<rparr> else sync_Put e p)"

definition EventPool_Size :: "'a object_store \<Rightarrow> nat" where
  "EventPool_Size p = length (ch p)"

section \<open>Clients of a pool\<close>

text \<open>
  A history of a pool's use: an object is taken, one of the objects held is put back, or a garbage
  collection empties the \<^verbatim>\<open>sync.Pool\<close>.
\<close>

datatype pool_op = OpGet "nat option" | OpPut nat | OpGc

fun pool_run ::
    "(nat option \<Rightarrow> 'p \<Rightarrow> 'p \<times> 'a) \<Rightarrow> ('a \<Rightarrow> 'p \<Rightarrow> 'p) \<Rightarrow> ('p \<Rightarrow> 'p) \<Rightarrow> pool_op list \<Rightarrow> 'p \<times> 'a list \<Rightarrow> 'p \<times> 'a list" where
  "pool_run get put gc [] s = s"
| "pool_run get put gc (OpGet pick # ops) (p, held) =
     (let (p', e) = get pick p in pool_run get put gc ops (p', e # held))"
| "pool_run get put gc (OpPut i # ops) (p, held) =
     (if i < length held then pool_run get put gc ops (put (held ! i) p, take i held @ drop (Suc i) held)
      else pool_run get put gc ops (p, held))"
| "pool_run get put gc (OpGc # ops) (p, held) = pool_run get put gc ops (gc p, held)"

text \<open>The objects made by the first \<open>n\<close> calls of the constructor.\<close>

definition made_by :: "(nat \<Rightarrow> 'a) \<Rightarrow> nat \<Rightarrow> 'a multiset" where
  "made_by newFunc n = mset (map newFunc [0..<n])"

lemma made_by_Suc: "made_by newFunc (Suc n) = add_mset (newFunc n) (made_by newFunc n)"
  by (simp only: made_by_def upt_Suc_append [OF le0] map_append mset_append) simp

lemma count_made_by: "inj newFunc \<Longrightarrow> count (made_by newFunc n) x \<le> 1"
  unfolding made_by_def
  by (subst distinct_count_atmost_1 [THEN iffD1, rule_format]) (auto simp: distinct_map inj_on_def)

locale object_pool =
  fixes get :: "nat option \<Rightarrow> 'p \<Rightarrow> 'p \<times> 'a"
    and put :: "'a \<Rightarrow> 'p \<Rightarrow> 'p"
    and gc :: "'p \<Rightarrow> 'p"
    and contents :: "'p \<Rightarrow> 'a multiset"
    and count_made :: "'p \<Rightarrow> nat"
    and newFunc :: "nat \<Rightarrow> 'a"
  assumes get_spec: "get pick p = (p', e) \<Longrightarrow>
      contents p = add_mset e (contents p') \<and> count_made p' = count_made p \<or>
      contents p' = contents p \<and> e = newFunc (count_made p) \<and> count_made p' = Suc (count_made p)"
    and put_spec: "contents (put e p) = add_mset e (contents p)" "count_made (put e p) = count_made p"
    and gc_spec: "contents (gc p) \<subseteq># contents p" "count_made (gc p) = count_made p"
    and new_inj: "inj newFunc"
begin

text \<open>Objects are known by the constructor call that made them; none is in two places.\<close>

lemma own_get:
  assumes "get pick p = (p', e)" "contents p + mset held \<subseteq># made_by newFunc (count_made p)"
  shows "contents p' + mset (e # held) \<subseteq># made_by newFunc (count_made p')"
  using get_spec [OF assms(1)] assms(2) by (auto simp: made_by_Suc)

lemma own_put:
  assumes "i < length held" "contents p + mset held \<subseteq># made_by newFunc (count_made p)"
  shows "contents (put (held ! i) p) + mset (take i held @ drop (Suc i) held) \<subseteq># made_by newFunc (count_made (put (held ! i) p))"
proof -
  have "mset held = mset (take i held @ held ! i # drop (Suc i) held)" using assms(1) by (simp add: id_take_nth_drop [symmetric])
  then show ?thesis using assms(2) by (simp add: put_spec)
qed

lemma own_run:
  assumes "contents p + mset held \<subseteq># made_by newFunc (count_made p)" "pool_run get put gc ops (p, held) = (p', held')"
  shows "contents p' + mset held' \<subseteq># made_by newFunc (count_made p')"
  using assms
proof (induction ops arbitrary: p held)
  case (Cons op ops)
  show ?case
  proof (cases op)
    case (OpGet pick)
    obtain q e where q: "get pick p = (q, e)" by (cases "get pick p")
    then show ?thesis using Cons.IH [OF own_get [OF q Cons.prems(1)]] Cons.prems(2) OpGet by simp
  next
    case (OpPut i)
    then show ?thesis
      using Cons.IH [OF own_put [OF _ Cons.prems(1)]] Cons.IH [OF Cons.prems(1)] Cons.prems(2)
      by (cases "i < length held") simp_all
  next
    case OpGc
    have "contents (gc p) + mset held \<subseteq># made_by newFunc (count_made (gc p))"
      using Cons.prems(1) gc_spec [of p] by (metis subset_mset.add_right_mono subset_mset.order_trans)
    then show ?thesis using Cons OpGc by simp
  qed
qed simp

lemma never_shared:
  assumes "contents p + mset held \<subseteq># made_by newFunc (count_made p)" "pool_run get put gc ops (p, held) = (p', held')"
  shows "distinct held' \<and> (\<forall>e \<in># contents p'. e \<notin> set held')"
proof -
  have le: "contents p' + mset held' \<subseteq># made_by newFunc (count_made p')" by (rule own_run [OF assms])
  have le1: "count (contents p') x + count (mset held') x \<le> 1" for x
    using mset_subset_eq_count [OF le, of x] count_made_by [OF new_inj, of "count_made p'" x] by simp
  have "count (mset held') x = (if x \<in> set held' then 1 else 0)" for x
  proof (cases "x \<in> set held'")
    case True
    then have "0 < count (mset held') x" by simp
    then have "count (mset held') x = 1" using le1 [of x] by linarith
    then show ?thesis using True by simp
  next
    case False
    then show ?thesis by simp
  qed
  then have "distinct held'" by (simp add: distinct_count_atmost_1)
  moreover have "e \<notin> set held'" if "e \<in># contents p'" for e
  proof
    assume "e \<in> set held'"
    then have "0 < count (mset held') e" "0 < count (contents p') e" using that by simp_all
    then show False using le1 [of e] by linarith
  qed
  ultimately show ?thesis by blast
qed

end

section \<open>Both pools keep the contract\<close>

definition store_contents :: "'a object_store \<Rightarrow> 'a multiset" where
  "store_contents p = mset (ch p) + mset (stash p)"

lemma mset_remove_nth: "i < length xs \<Longrightarrow> mset xs = add_mset (xs ! i) (mset (take i xs @ drop (Suc i) xs))"
  by (metis id_take_nth_drop mset.simps(2) mset_append union_mset_add_mset_right)

lemma sync_Get_spec:
  "sync_Get newFunc pick p = (p', e) \<Longrightarrow>
     ch p' = ch p \<and> chcap p' = chcap p \<and>
     (mset (stash p) = add_mset e (mset (stash p')) \<and> made p' = made p \<or>
      stash p' = stash p \<and> e = newFunc (made p) \<and> made p' = Suc (made p))"
  using mset_remove_nth [of _ "stash p"] by (auto simp: sync_Get_def split: option.splits if_splits)

lemma prefill_spec:
  "mset (ch p) + mset (stash p) = made_by newFunc (made p) \<Longrightarrow>
     store_contents (prefill newFunc k p) = made_by newFunc (made (prefill newFunc k p)) \<and>
     chcap (prefill newFunc k p) = chcap p \<and> length (ch (prefill newFunc k p)) = length (ch p) + k"
proof (induction k arbitrary: p)
  case (Suc k)
  let ?p = "p\<lparr>made := Suc (made p), ch := ch p @ [newFunc (made p)]\<rparr>"
  have "mset (ch ?p) + mset (stash ?p) = made_by newFunc (made ?p)"
    using Suc.prems by (simp add: made_by_Suc)
  then show ?case using Suc.IH [of ?p] by (simp add: sync_Get_def)
qed (simp add: store_contents_def)

lemma pool_get_contract:
  assumes "(case ch p of e # es \<Rightarrow> (p\<lparr>ch := es\<rparr>, e) | [] \<Rightarrow> sync_Get newFunc pick p) = (p', e)"
  shows "store_contents p = add_mset e (store_contents p') \<and> made p' = made p \<or>
         store_contents p' = store_contents p \<and> e = newFunc (made p) \<and> made p' = Suc (made p)"
  using assms sync_Get_spec [of newFunc pick p p' e]
  by (cases "ch p") (auto simp: store_contents_def)

lemma pool_put_contract:
  "store_contents (if length (ch p) < chcap p then p\<lparr>ch := ch p @ [e]\<rparr> else sync_Put e p) = add_mset e (store_contents p)"
  "made (if length (ch p) < chcap p then p\<lparr>ch := ch p @ [e]\<rparr> else sync_Put e p) = made p"
  by (simp_all add: store_contents_def sync_Put_def)

lemma sync_gc_contract: "store_contents (sync_gc p) \<subseteq># store_contents p" "made (sync_gc p) = made p"
  by (simp_all add: store_contents_def sync_gc_def)

text \<open>The constructor makes a new object at each call: \<open>Suc\<close> stands for its identity.\<close>

interpretation bp: object_pool "BufferedPool_Get Suc" BufferedPool_Put sync_gc store_contents made Suc
  by unfold_locales (auto simp: BufferedPool_Get_def BufferedPool_Put_def pool_put_contract sync_gc_contract dest: pool_get_contract)

interpretation ep: object_pool "EventPool_Get Suc" EventPool_Put sync_gc store_contents made Suc
  by unfold_locales (auto simp: EventPool_Get_def EventPool_Put_def pool_put_contract sync_gc_contract dest: pool_get_contract)

lemma pool_step_capacity:
  "length (ch p) \<le> chcap p \<Longrightarrow> length (ch (fst (EventPool_Get newFunc pick p))) \<le> chcap (fst (EventPool_Get newFunc pick p))"
  "length (ch p) \<le> chcap p \<Longrightarrow> length (ch (EventPool_Put e p)) \<le> chcap (EventPool_Put e p)"
  by (auto simp: EventPool_Get_def EventPool_Put_def sync_Put_def sync_Get_def split: list.split option.split)

text \<open>
  C31. Both pools hand an object to one holder at a time: after any history of taking objects, putting back objects
  that are held, and garbage collections, no object is held twice and none that is held is still in the
  pool.
\<close>
theorem pools_never_share:
  "(case pool_run (BufferedPool_Get Suc) BufferedPool_Put sync_gc ops (NewBufferedPool n Suc, []) of
      (p, held) \<Rightarrow> distinct held \<and> set held \<inter> (set (ch p) \<union> set (stash p)) = {}) \<and>
   (case pool_run (EventPool_Get Suc) EventPool_Put sync_gc ops (NewEventPool n Suc, []) of
      (p, held) \<Rightarrow> distinct held \<and> set held \<inter> (set (ch p) \<union> set (stash p)) = {})"
proof -
  let ?p = "prefill Suc n \<lparr> ch = [], chcap = n, stash = [], made = 0 \<rparr>"
  have start: "store_contents ?p + mset [] \<subseteq># made_by Suc (made ?p)"
    using prefill_spec [of "\<lparr> ch = [], chcap = n, stash = [], made = 0 \<rparr>" Suc n] by (simp add: made_by_def)
  show ?thesis
    using bp.never_shared [OF start] ep.never_shared [OF start]
    by (fastforce simp: NewBufferedPool_def NewEventPool_def store_contents_def split: prod.split)
qed

end
