(* ===== verification/Hub_Tx.thy ===== *)
theory Hub_Tx
  imports Router Pools "HOL-Library.AList"
begin

text \<open>
  The transmit side of the client's hub, \<^verbatim>\<open>vnet/client/hub/hub_tx.go\<close>, \<^verbatim>\<open>hub.go\<close> and
  \<^verbatim>\<open>hub_event.go\<close>. One round of each loop is a function: \<open>tx_dispatch\<close> routes the packets of an event to
  destinations, \<open>txLoop_round\<close> and \<open>txLoopN_round\<close> collect what is queued for a destination, and the
  operations of a \<open>destination\<close> are state transformers. \<open>None\<close> is a run-time panic. Events are
  values; a destination is known by a reference of type \<open>'d\<close>, and \<open>did\<close> gives its id. The router's
  targets are of type \<open>'d option\<close>, with \<open>None\<close> for the nil value that the client registers for its
  own address; \<open>RouteBatch\<close> then yields \<open>Some None\<close> for such a packet and \<open>None\<close> without a route, both
  nil for the code.
\<close>

section \<open>Configuration and events\<close>

record hub_config =
  BatchSize :: nat
  HeaderSize :: nat
  MTU :: nat
  MaxRxEventBuf :: nat
  MaxTxEventBuf :: nat

record txEvent =
  Buffer :: "bytes list"
  Sizes :: "nat list"
  N :: nat

definition new_txEvent :: "hub_config \<Rightarrow> txEvent" where
  "new_txEvent cfg =
     \<lparr> Buffer = replicate (BatchSize cfg) (replicate (MTU cfg + HeaderSize cfg) 0),
       Sizes = replicate (BatchSize cfg) 0, N = 0 \<rparr>"

definition putTxEvent :: "txEvent \<Rightarrow> txEvent object_store \<Rightarrow> txEvent object_store" where
  "putTxEvent e p = EventPool_Put (e\<lparr>N := 0\<rparr>) p"

definition getTxEvent :: "hub_config \<Rightarrow> nat option \<Rightarrow> txEvent object_store \<Rightarrow> txEvent object_store \<times> txEvent" where
  "getTxEvent cfg pick p = EventPool_Get (\<lambda>_. new_txEvent cfg) pick p"

section \<open>Reading the device\<close>

text \<open>
  One round of \<open>readDevice\<close>: the device stores the packet at the start of the first buffer. The
  result is the event queued for the transmit loop, if there is one.
\<close>

definition readDevice_round ::
    "hub_config \<Rightarrow> nat option \<Rightarrow> goerr + bytes \<Rightarrow> txEvent object_store \<Rightarrow>
     txEvent object_store \<times> (goerr + txEvent option)" where
  "readDevice_round cfg pick res p =
     (let (p, e) = getTxEvent cfg pick p in
      case res of
        Inl err \<Rightarrow> (putTxEvent e p, Inl err)
      | Inr data \<Rightarrow>
          let n = min (length data) (length (Buffer e ! 0));
              e = e\<lparr>Buffer := (Buffer e)[0 := copy_to 0 data (Buffer e ! 0)], Sizes := (Sizes e)[0 := n], N := 1\<rparr>
          in if n = 0 then (putTxEvent e p, Inr None) else (p, Inr (Some e)))"

text \<open>\<open>readDeviceLinux\<close>: \<^verbatim>\<open>BatchRead\<close> of the device fills buffers and sizes and returns the number of packets.\<close>

definition readDeviceLinux_round ::
    "hub_config \<Rightarrow> nat option \<Rightarrow> (txEvent \<Rightarrow> goerr + bytes list \<times> nat list \<times> nat) \<Rightarrow> txEvent object_store \<Rightarrow>
     txEvent object_store \<times> (goerr + txEvent option)" where
  "readDeviceLinux_round cfg pick batchRead p =
     (let (p, e) = getTxEvent cfg pick p in
      case batchRead e of
        Inl err \<Rightarrow> (putTxEvent e p, Inl err)
      | Inr (b, s, n) \<Rightarrow>
          let e = e\<lparr>Buffer := b, Sizes := s\<rparr>
          in if n = 0 then (putTxEvent e p, Inr None) else (p, Inr (Some (e\<lparr>N := n\<rparr>))))"

section \<open>Dispatching an event\<close>

text \<open>\<^verbatim>\<open>e.Buffer[i][h.cfg.HeaderSize : e.Sizes[i]+h.cfg.HeaderSize]\<close>\<close>

definition packet_slice :: "hub_config \<Rightarrow> txEvent \<Rightarrow> nat \<Rightarrow> bytes option" where
  "packet_slice cfg e i =
     (if i < length (Buffer e) \<and> i < length (Sizes e) \<and> Sizes e ! i + HeaderSize cfg \<le> length (Buffer e ! i)
      then Some (sub (HeaderSize cfg) (Sizes e ! i) (Buffer e ! i)) else None)"

fun packet_slices :: "hub_config \<Rightarrow> txEvent \<Rightarrow> nat list \<Rightarrow> bytes list option" where
  "packet_slices cfg e [] = Some []"
| "packet_slices cfg e (i # is) =
     (case packet_slice cfg e i of None \<Rightarrow> None
      | Some p \<Rightarrow> map_option ((#) p) (packet_slices cfg e is))"

definition target_of :: "'d option option \<Rightarrow> 'd option" where
  "target_of t = (case t of Some (Some d) \<Rightarrow> Some d | _ \<Rightarrow> None)"

text \<open>The routes with a target, with the index of their packet; \<open>left\<close> is \<^verbatim>\<open>validRouteCount - validRoutes\<close>.\<close>

fun collect_routes :: "'d option option list \<Rightarrow> nat \<Rightarrow> nat \<Rightarrow> ('d \<times> nat) list" where
  "collect_routes [] i left = []"
| "collect_routes (t # ts) i left =
     (if left = 0 then []
      else case target_of t of
        Some d \<Rightarrow> (d, i) # collect_routes ts (Suc i) (left - 1)
      | None \<Rightarrow> collect_routes ts (Suc i) left)"

definition allSame :: "('d \<times> nat) list \<Rightarrow> bool" where
  "allSame routes \<longleftrightarrow> (\<forall>r \<in> set routes. fst r = fst (hd routes))"

text \<open>
  The map from destination id to the batch collected for it; \<open>fresh k\<close> is the event that the
  \<open>k\<close>-th \<^verbatim>\<open>getTxEvent\<close> of this round returns. The batches left at the end are sent in the order they
  were begun; Go's map iteration may take another order, which concerns different destinations only.
\<close>

record 'd dispatch =
  dstBatches :: "(string \<times> 'd \<times> txEvent) list"
  taken :: nat
  pushed :: "('d \<times> txEvent) list"

definition copy_packet :: "txEvent \<Rightarrow> nat \<Rightarrow> txEvent \<Rightarrow> txEvent option" where
  "copy_packet e srcIdx ev =
     (if N ev < length (Buffer ev) \<and> N ev < length (Sizes ev)
      then Some (ev\<lparr>Buffer := (Buffer ev)[N ev := copy_to 0 (Buffer e ! srcIdx) (Buffer ev ! N ev)],
                    Sizes := (Sizes ev)[N ev := Sizes e ! srcIdx], N := N ev + 1\<rparr>)
      else None)"

fun aggregate ::
    "nat \<Rightarrow> ('d \<Rightarrow> string) \<Rightarrow> (nat \<Rightarrow> txEvent) \<Rightarrow> txEvent \<Rightarrow> ('d \<times> nat) list \<Rightarrow> 'd dispatch \<Rightarrow> 'd dispatch option" where
  "aggregate batchSize did fresh e [] s = Some s"
| "aggregate batchSize did fresh e ((dst, srcIdx) # routes) s =
     (let (bdst, ev, k) = (case map_of (dstBatches s) (did dst) of
                             Some (d, ev) \<Rightarrow> (d, ev, taken s) | None \<Rightarrow> (dst, fresh (taken s), Suc (taken s)))
      in case copy_packet e srcIdx ev of
        None \<Rightarrow> None
      | Some ev' \<Rightarrow>
          if N ev' = batchSize
          then aggregate batchSize did fresh e routes
                 (s\<lparr>dstBatches := AList.delete (did dst) (dstBatches s), taken := k, pushed := pushed s @ [(dst, ev')]\<rparr>)
          else aggregate batchSize did fresh e routes
                 (s\<lparr>dstBatches := AList.update (did dst) (bdst, ev') (dstBatches s), taken := k\<rparr>))"

text \<open>
  One round of the transmit loop: the events pushed to destinations, and the events put back into the
  pool.
\<close>

definition tx_dispatch ::
    "hub_config \<Rightarrow> 'd option router \<Rightarrow> ('d \<Rightarrow> string) \<Rightarrow> (nat \<Rightarrow> txEvent) \<Rightarrow> txEvent \<Rightarrow>
     (('d \<times> txEvent) list \<times> txEvent list) option" where
  "tx_dispatch cfg r did fresh e =
     (if N e > BatchSize cfg then None
      else case packet_slices cfg e [0..<N e] of
        None \<Rightarrow> None
      | Some packetSlices \<Rightarrow>
          (case RouteBatch r packetSlices (replicate (N e) None) of
             None \<Rightarrow> None
           | Some (targets, validRouteCount) \<Rightarrow>
               let routes = collect_routes targets 0 validRouteCount in
               if routes \<noteq> [] \<and> allSame routes then Some ([(fst (hd routes), e)], [])
               else case aggregate (BatchSize cfg) did fresh e routes \<lparr> dstBatches = [], taken = 0, pushed = [] \<rparr> of
                 None \<Rightarrow> None
               | Some s \<Rightarrow>
                   Some (pushed s @ map snd (filter (\<lambda>(_, _, ev). N ev > 0) (dstBatches s)),
                         e\<lparr>N := 0\<rparr> # map (\<lambda>(_, _, ev). ev\<lparr>N := 0\<rparr>) (filter (\<lambda>(_, _, ev). \<not> N ev > 0) (dstBatches s)))))"

section \<open>The loops of a destination\<close>

text \<open>
  One round of \<open>txLoop\<close>: the first packet of each queued event, up to \<^verbatim>\<open>MaxTxEventBuf\<close> events. The
  result: the packets with their sizes, the events to recycle, the events still queued.
\<close>

definition event_packets :: "txEvent \<Rightarrow> nat \<Rightarrow> (bytes \<times> nat) list" where
  "event_packets e k = map (\<lambda>j. (Buffer e ! j, Sizes e ! j)) [0..<k]"

definition txLoop_round ::
    "nat \<Rightarrow> txEvent list \<Rightarrow> ((bytes \<times> nat) list \<times> txEvent list \<times> txEvent list) option" where
  "txLoop_round maxBuf queue =
     (if maxBuf = 0 \<or> (\<exists>e \<in> set (take maxBuf queue). Buffer e = [] \<or> Sizes e = []) then None
      else let evs = take maxBuf queue
           in Some (map (\<lambda>e. (Buffer e ! 0, Sizes e ! 0)) evs, evs, drop maxBuf queue))"

text \<open>
  One round of \<open>txLoopN\<close>: all packets of the first event, then those of further events while there
  is room. Room for \<open>maxBuf\<close> packets and \<open>maxBuf\<close> events; an index beyond it is a panic.
\<close>

fun collect_more ::
    "nat \<Rightarrow> nat \<Rightarrow> txEvent list \<Rightarrow> (bytes \<times> nat) list \<Rightarrow> txEvent list \<Rightarrow>
     ((bytes \<times> nat) list \<times> txEvent list \<times> txEvent list) option" where
  "collect_more maxBuf remainingBuf [] packets events = Some (packets, events, [])"
| "collect_more maxBuf remainingBuf (event # queue) packets events =
     (if remainingBuf = 0 then Some (packets, events, event # queue)
      else if length events \<ge> maxBuf then None
      else collect_more maxBuf (remainingBuf - min (N event) remainingBuf) queue
             (packets @ event_packets event (min (N event) remainingBuf)) (events @ [event]))"

definition txLoopN_round ::
    "nat \<Rightarrow> txEvent list \<Rightarrow> ((bytes \<times> nat) list \<times> txEvent list \<times> txEvent list) option" where
  "txLoopN_round maxBuf queue =
     (case queue of
        [] \<Rightarrow> Some ([], [], [])
      | event # queue \<Rightarrow>
          if N event > maxBuf \<or> maxBuf = 0 then None
          else collect_more maxBuf (maxBuf - N event) queue (event_packets event (N event)) [event])"

end
