(* ===== verification/Hub_Tx_Props.thy ===== *)
theory Hub_Tx_Props
  imports Hub_Tx Router_Props
begin

text \<open>
  Properties of the transmit side: which packets of an event reach which destination, and which packets a
  destination's loop hands to its transport.
\<close>

section \<open>Events\<close>

definition event_ok :: "hub_config \<Rightarrow> txEvent \<Rightarrow> bool" where
  "event_ok cfg e \<longleftrightarrow> length (Buffer e) = BatchSize cfg \<and> length (Sizes e) = BatchSize cfg \<and> N e \<le> BatchSize cfg \<and>
     (\<forall>b \<in> set (Buffer e). length b = MTU cfg + HeaderSize cfg) \<and> (\<forall>i<N e. Sizes e ! i \<le> MTU cfg)"

definition pkt :: "hub_config \<Rightarrow> txEvent \<Rightarrow> nat \<Rightarrow> bytes" where
  "pkt cfg e i = sub (HeaderSize cfg) (Sizes e ! i) (Buffer e ! i)"

definition ev_pkts :: "hub_config \<Rightarrow> txEvent \<Rightarrow> bytes list" where
  "ev_pkts cfg e = map (pkt cfg e) [0..<N e]"

definition sent_to :: "hub_config \<Rightarrow> 'd \<Rightarrow> ('d \<times> txEvent) list \<Rightarrow> bytes list" where
  "sent_to cfg d out = concat (map (\<lambda>(d', ev). if d' = d then ev_pkts cfg ev else []) out)"

lemma sent_to_simps [simp]:
  "sent_to cfg d [] = []" "sent_to cfg d (x # xs) = (if fst x = d then ev_pkts cfg (snd x) else []) @ sent_to cfg d xs"
  "sent_to cfg d (xs @ ys) = sent_to cfg d xs @ sent_to cfg d ys"
  by (simp_all add: sent_to_def case_prod_unfold)

lemma packet_slices_ok:
  assumes "event_ok cfg e" "\<forall>i \<in> set is. i < N e"
  shows "packet_slices cfg e is = Some (map (pkt cfg e) is)"
  using assms(2)
proof (induction "is")
  case (Cons i "is")
  then have "i < N e" by simp
  then have "Sizes e ! i \<le> MTU cfg" "i < length (Buffer e)" "i < length (Sizes e)" "Buffer e ! i \<in> set (Buffer e)"
    using assms(1) by (simp_all add: event_ok_def)
  then have "packet_slice cfg e i = Some (pkt cfg e i)"
    using assms(1) by (simp add: packet_slice_def pkt_def event_ok_def)
  then show ?case using Cons by simp
qed simp

section \<open>Routes\<close>

fun all_routes :: "'d option option list \<Rightarrow> nat \<Rightarrow> ('d \<times> nat) list" where
  "all_routes [] i = []"
| "all_routes (t # ts) i =
     (case target_of t of Some d \<Rightarrow> (d, i) # all_routes ts (Suc i) | None \<Rightarrow> all_routes ts (Suc i))"

lemma collect_routes_all:
  "length (filter (\<lambda>t. t \<noteq> None) ts) \<le> left \<Longrightarrow> collect_routes ts i left = all_routes ts i"
proof (induction ts arbitrary: i left)
  case (Cons t ts)
  have none: "target_of t' = None" if "filter (\<lambda>t. t \<noteq> None) ts' = []" "t' \<in> set ts'" for ts' :: "'a option option list" and t'
    using that by (auto simp: filter_empty_conv target_of_def)
  have nil: "all_routes ts' j = []" if "filter (\<lambda>t. t \<noteq> None) ts' = []" for ts' :: "'a option option list" and j
    using that by (induction ts' arbitrary: j) (auto simp: target_of_def split: if_splits)
  show ?case
  proof (cases left)
    case 0
    then show ?thesis using Cons.prems nil [of "t # ts" i] by simp
  next
    case (Suc l)
    then show ?thesis using Cons by (cases t) (auto simp: target_of_def split: option.split)
  qed
qed simp

lemma all_routes_map:
  "all_routes (map f [i..<j]) i = map (\<lambda>k. (the (target_of (f k)), k)) (filter (\<lambda>k. target_of (f k) \<noteq> None) [i..<j])"
proof (induction "j - i" arbitrary: i)
  case (Suc n)
  then have "i < j" by simp
  then have "[i..<j] = i # [Suc i..<j]" by (rule upt_conv_Cons)
  then show ?case using Suc(1) [of "Suc i"] Suc(2) by (auto split: option.split)
qed simp

section \<open>Aggregation\<close>

definition pending_for :: "hub_config \<Rightarrow> ('d \<Rightarrow> string) \<Rightarrow> (string \<times> 'd \<times> txEvent) list \<Rightarrow> 'd \<Rightarrow> bytes list" where
  "pending_for cfg did bs d = (case map_of bs (did d) of Some (d', ev) \<Rightarrow> ev_pkts cfg ev | None \<Rightarrow> [])"

definition sent_by :: "hub_config \<Rightarrow> ('d \<Rightarrow> string) \<Rightarrow> 'd dispatch \<Rightarrow> 'd \<Rightarrow> bytes list" where
  "sent_by cfg did s d = sent_to cfg d (pushed s) @ pending_for cfg did (dstBatches s) d"

definition batches_ok :: "hub_config \<Rightarrow> ('d \<Rightarrow> string) \<Rightarrow> 'd dispatch \<Rightarrow> bool" where
  "batches_ok cfg did s \<longleftrightarrow> distinct (map fst (dstBatches s)) \<and>
     (\<forall>k d ev. map_of (dstBatches s) k = Some (d, ev) \<longrightarrow> did d = k \<and> event_ok cfg ev \<and> 0 < N ev \<and> N ev < BatchSize cfg)"

lemma copy_packet_ok:
  assumes e: "event_ok cfg e" "i < N e" and ev: "event_ok cfg ev" "N ev < BatchSize cfg"
  obtains ev' where "copy_packet e i ev = Some ev'" "event_ok cfg ev'" "N ev' = Suc (N ev)"
    "ev_pkts cfg ev' = ev_pkts cfg ev @ [pkt cfg e i]"
proof -
  let ?b = "Buffer e ! i"
  have i: "i < length (Buffer e)" "i < length (Sizes e)" using e by (simp_all add: event_ok_def)
  have lb: "length ?b = MTU cfg + HeaderSize cfg" "length (Buffer ev ! N ev) = MTU cfg + HeaderSize cfg"
    using e ev nth_mem [OF i(1)] nth_mem [of "N ev" "Buffer ev"] unfolding event_ok_def by auto
  have full: "copy_to 0 ?b (Buffer ev ! N ev) = ?b" using lb by (simp add: copy_to_def blit_def)
  let ?ev = "ev\<lparr>Buffer := (Buffer ev)[N ev := ?b], Sizes := (Sizes ev)[N ev := Sizes e ! i], N := N ev + 1\<rparr>"
  have c: "copy_packet e i ev = Some ?ev" using ev by (simp add: copy_packet_def full event_ok_def)
  have ok: "event_ok cfg ?ev"
    using e ev lb set_update_subset_insert [of "Buffer ev" "N ev" ?b]
    by (auto simp: event_ok_def nth_list_update less_Suc_eq)
  have "map (pkt cfg ?ev) [0..<N ev] = map (pkt cfg ev) [0..<N ev]"
    using ev by (intro map_cong) (auto simp: pkt_def)
  moreover have "pkt cfg ?ev (N ev) = pkt cfg e i" using ev by (simp add: pkt_def event_ok_def)
  ultimately have "ev_pkts cfg ?ev = ev_pkts cfg ev @ [pkt cfg e i]" by (simp add: ev_pkts_def)
  then show thesis using that c ok by simp
qed

lemma aggregate_ok:
  assumes e: "event_ok cfg e" and fresh: "\<forall>k. event_ok cfg (fresh k) \<and> N (fresh k) = 0" and did: "inj did"
    and "\<forall>r \<in> set rts. snd r < N e" "batches_ok cfg did s"
  shows "\<exists>s'. aggregate (BatchSize cfg) did fresh e rts s = Some s' \<and> batches_ok cfg did s' \<and>
     (\<forall>d. sent_by cfg did s' d = sent_by cfg did s d @ map (\<lambda>r. pkt cfg e (snd r)) (filter (\<lambda>r. fst r = d) rts))"
  using assms(4,5)
proof (induction rts arbitrary: s)
  case (Cons r rts)
  obtain dst i where r: "r = (dst, i)" by (cases r)
  have i: "i < N e" using Cons.prems(1) r by simp
  define sel where "sel = (case map_of (dstBatches s) (did dst) of
     Some (d, ev) \<Rightarrow> (d, ev, taken s) | None \<Rightarrow> (dst, fresh (taken s), Suc (taken s)))"
  obtain bd ev k where sel: "sel = (bd, ev, k)" by (cases sel) auto
  have bd: "bd = dst" and ev: "event_ok cfg ev" "N ev < BatchSize cfg"
    and pend: "ev_pkts cfg ev = pending_for cfg did (dstBatches s) dst"
  proof -
    have pos: "0 < BatchSize cfg" using e i by (simp add: event_ok_def)
    have "bd = dst \<and> event_ok cfg ev \<and> N ev < BatchSize cfg \<and> ev_pkts cfg ev = pending_for cfg did (dstBatches s) dst"
    proof (cases "map_of (dstBatches s) (did dst)")
      case None
      then show ?thesis using sel pos fresh by (auto simp: sel_def pending_for_def ev_pkts_def)
    next
      case (Some dv)
      then have sel': "dv = (bd, ev)" using sel by (simp add: sel_def split: prod.splits)
      then have "did bd = did dst \<and> event_ok cfg ev \<and> N ev < BatchSize cfg"
        using Cons.prems(2) Some unfolding batches_ok_def by blast
      then show ?thesis using did Some sel' by (simp add: pending_for_def inj_eq)
    qed
    then show "bd = dst" "event_ok cfg ev" "N ev < BatchSize cfg" "ev_pkts cfg ev = pending_for cfg did (dstBatches s) dst"
      by blast+
  qed
  obtain ev' where ev': "copy_packet e i ev = Some ev'" "event_ok cfg ev'" "N ev' = Suc (N ev)"
    "ev_pkts cfg ev' = ev_pkts cfg ev @ [pkt cfg e i]"
    using copy_packet_ok [OF e i ev] .
  define s1 where "s1 = (if N ev' = BatchSize cfg
      then s\<lparr>dstBatches := AList.delete (did dst) (dstBatches s), taken := k, pushed := pushed s @ [(dst, ev')]\<rparr>
      else s\<lparr>dstBatches := AList.update (did dst) (bd, ev') (dstBatches s), taken := k\<rparr>)"
  have step: "aggregate (BatchSize cfg) did fresh e (r # rts) s = aggregate (BatchSize cfg) did fresh e rts s1"
    using sel ev'(1) by (simp add: r s1_def sel_def)
  have ok1: "batches_ok cfg did s1"
    using Cons.prems(2) ev' ev(2) bd
    by (auto simp: s1_def batches_ok_def delete_conv' update_conv' distinct_delete distinct_update simp del: map_of_eq_Some_iff split: if_splits)
  have pend1: "pending_for cfg did (dstBatches s1) d = (if d = dst then if N ev' = BatchSize cfg then [] else ev_pkts cfg ev'
       else pending_for cfg did (dstBatches s) d)" for d
    using did by (simp add: s1_def pending_for_def delete_conv' update_conv' inj_eq)
  have sent1: "sent_by cfg did s1 d = sent_by cfg did s d @ (if d = dst then [pkt cfg e i] else [])" for d
    using pend ev'(4) by (auto simp: sent_by_def pend1) (auto simp: s1_def)
  obtain s' where "aggregate (BatchSize cfg) did fresh e rts s1 = Some s'" "batches_ok cfg did s'"
    "\<forall>d. sent_by cfg did s' d = sent_by cfg did s1 d @ map (\<lambda>r. pkt cfg e (snd r)) (filter (\<lambda>r. fst r = d) rts)"
    using Cons.IH [OF _ ok1] Cons.prems(1) by auto
  then show ?case unfolding step using sent1 r by auto
qed simp

lemma sent_to_batches:
  assumes "distinct (map fst bs)" "\<forall>k d ev. map_of bs k = Some (d, ev) \<longrightarrow> did d = k \<and> 0 < N ev" "inj did"
  shows "sent_to cfg d (map snd (filter (\<lambda>(_, _, ev). N ev > 0) bs)) = pending_for cfg did bs d"
  using assms(1,2)
proof (induction bs)
  case (Cons b bs)
  obtain k d' ev where b: "b = (k, d', ev)" by (cases b)
  have k: "did d' = k" "0 < N ev" using Cons.prems(2) [rule_format, of k d' ev] b by auto
  have rest: "map_of bs k = None" using Cons.prems(1) b by (simp add: map_of_eq_None_iff)
  have "map_of bs k' = Some v \<Longrightarrow> map_of (b # bs) k' = Some v" for k' v using b rest by auto
  then have "\<forall>k d ev. map_of bs k = Some (d, ev) \<longrightarrow> did d = k \<and> 0 < N ev" using Cons.prems(2) by blast
  then have "sent_to cfg d (map snd (filter (\<lambda>(_, _, ev). N ev > 0) bs)) = pending_for cfg did bs d"
    using Cons.IH Cons.prems(1) by simp
  then show ?case using k rest b assms(3) by (auto simp: pending_for_def inj_eq)
qed (simp add: pending_for_def)

section \<open>The theorems\<close>

definition tgt :: "hub_config \<Rightarrow> 'd option router \<Rightarrow> txEvent \<Rightarrow> nat \<Rightarrow> 'd option" where
  "tgt cfg r e i = target_of (Route r (pkt cfg e i))"

definition only_target :: "hub_config \<Rightarrow> 'd option router \<Rightarrow> txEvent \<Rightarrow> 'd \<Rightarrow> bool" where
  "only_target cfg r e d \<longleftrightarrow> (\<exists>i<N e. tgt cfg r e i = Some d) \<and> (\<forall>i<N e. \<forall>d'. tgt cfg r e i = Some d' \<longrightarrow> d' = d)"

lemma tx_dispatch_routes:
  assumes "event_ok cfg e"
  shows "tx_dispatch cfg r did fresh e =
    (let rts = map (\<lambda>k. (the (tgt cfg r e k), k)) (filter (\<lambda>k. tgt cfg r e k \<noteq> None) [0..<N e]) in
     if rts \<noteq> [] \<and> allSame rts then Some ([(fst (hd rts), e)], [])
     else case aggregate (BatchSize cfg) did fresh e rts \<lparr> dstBatches = [], taken = 0, pushed = [] \<rparr> of
       None \<Rightarrow> None
     | Some s \<Rightarrow> Some (pushed s @ map snd (filter (\<lambda>(_, _, ev). N ev > 0) (dstBatches s)),
                      e\<lparr>N := 0\<rparr> # map (\<lambda>(_, _, ev). ev\<lparr>N := 0\<rparr>) (filter (\<lambda>(_, _, ev). \<not> N ev > 0) (dstBatches s))))"
proof -
  let ?ps = "map (pkt cfg e) [0..<N e]" and ?cnt = "length (filter (\<lambda>p. Route r p \<noteq> None) (map (pkt cfg e) [0..<N e]))"
  have slices: "packet_slices cfg e [0..<N e] = Some ?ps" using assms by (intro packet_slices_ok) auto
  have batch: "RouteBatch r ?ps (replicate (N e) None) = Some (map (Route r) ?ps, ?cnt)"
    using RouteBatch_loop_eq [of "N e" ?ps "replicate (N e) None" r 0] by (simp add: RouteBatch_def)
  have "collect_routes (map (Route r) ?ps) 0 ?cnt = all_routes (map (Route r) ?ps) 0"
    by (rule collect_routes_all) (simp add: filter_map comp_def)
  also have "\<dots> = map (\<lambda>k. (the (tgt cfg r e k), k)) (filter (\<lambda>k. tgt cfg r e k \<noteq> None) [0..<N e])"
    using all_routes_map [of "\<lambda>k. Route r (pkt cfg e k)" 0 "N e"] by (simp add: tgt_def comp_def)
  finally have routes: "collect_routes (map (Route r) ?ps) 0 ?cnt = \<dots>" .
  have n: "\<not> N e > BatchSize cfg" using assms by (simp add: event_ok_def)
  show ?thesis unfolding tx_dispatch_def slices option.case batch prod.case routes Let_def using n by simp
qed

lemma only_target_iff:
  fixes cfg r e
  defines "rts \<equiv> map (\<lambda>k. (the (tgt cfg r e k), k)) (filter (\<lambda>k. tgt cfg r e k \<noteq> None) [0..<N e])"
  shows "only_target cfg r e d \<longleftrightarrow> rts \<noteq> [] \<and> allSame rts \<and> fst (hd rts) = d"
proof
  assume o: "only_target cfg r e d"
  then obtain i where "i < N e" "tgt cfg r e i = Some d" by (auto simp: only_target_def)
  then have "(d, i) \<in> set rts" by (force simp: rts_def)
  then have ne: "rts \<noteq> []" by auto
  have all: "fst x = d" if "x \<in> set rts" for x using that o by (auto simp: rts_def only_target_def)
  show "rts \<noteq> [] \<and> allSame rts \<and> fst (hd rts) = d" using ne all hd_in_set [OF ne] by (auto simp: allSame_def)
next
  assume a: "rts \<noteq> [] \<and> allSame rts \<and> fst (hd rts) = d"
  then have all: "x \<in> set rts \<Longrightarrow> fst x = d" for x by (auto simp: allSame_def)
  have mem: "(d', i) \<in> set rts \<longleftrightarrow> i < N e \<and> tgt cfg r e i = Some d'" for d' i by (force simp: rts_def)
  have "hd rts \<in> set rts" using a by simp
  then have "\<exists>i<N e. tgt cfg r e i = Some d" using mem a by (metis prod.collapse)
  then show "only_target cfg r e d" using all mem unfolding only_target_def by fastforce
qed

text \<open>
  C16. One round of the transmit loop pushes to each destination exactly the packets that the router sends there,
  in order and unaltered, however they are spread over the event, and it never panics. The exception is the fast
  path: when all packets that have a route have the same destination, that destination is given the whole event,
  including the packets that have no route.
\<close>
theorem tx_dispatch_delivers:
  assumes e: "event_ok cfg e" and fresh: "\<forall>k. event_ok cfg (fresh k) \<and> N (fresh k) = 0" and did: "inj did"
  shows "\<exists>out recycled. tx_dispatch cfg r did fresh e = Some (out, recycled) \<and>
     (\<forall>d. sent_to cfg d out = (if only_target cfg r e d then ev_pkts cfg e
                               else map (pkt cfg e) (filter (\<lambda>i. tgt cfg r e i = Some d) [0..<N e])))"
proof -
  let ?is = "filter (\<lambda>k. tgt cfg r e k \<noteq> None) [0..<N e]"
  let ?rts = "map (\<lambda>k. (the (tgt cfg r e k), k)) ?is"
  have only: "only_target cfg r e d \<longleftrightarrow> ?rts \<noteq> [] \<and> allSame ?rts \<and> fst (hd ?rts) = d" for d
    by (rule only_target_iff)
  have fil: "map (\<lambda>r. pkt cfg e (snd r)) (filter (\<lambda>r. fst r = d) ?rts) =
      map (pkt cfg e) (filter (\<lambda>i. tgt cfg r e i = Some d) [0..<N e])" for d
    by (auto simp: filter_map comp_def intro!: arg_cong [where f = "map (pkt cfg e)"] filter_cong)
  show ?thesis
  proof (cases "?rts \<noteq> [] \<and> allSame ?rts")
    case True
    then have none: "filter (\<lambda>i. tgt cfg r e i = Some d) [0..<N e] = []" if "d \<noteq> fst (hd ?rts)" for d
      using that by (force simp: allSame_def filter_empty_conv)
    have "tx_dispatch cfg r did fresh e = Some ([(fst (hd ?rts), e)], [])"
      unfolding tx_dispatch_routes [OF e] Let_def by (rule if_P [OF True])
    then show ?thesis using none True by (intro exI conjI) (auto simp: only)
  next
    case False
    have "\<forall>r \<in> set ?rts. snd r < N e" by auto
    then obtain s where s: "aggregate (BatchSize cfg) did fresh e ?rts \<lparr> dstBatches = [], taken = 0, pushed = [] \<rparr> = Some s"
      "batches_ok cfg did s" "\<And>d. sent_by cfg did s d = map (\<lambda>r. pkt cfg e (snd r)) (filter (\<lambda>r. fst r = d) ?rts)"
      using aggregate_ok [OF e fresh did, of ?rts "\<lparr> dstBatches = [], taken = 0, pushed = [] \<rparr>"]
      by (auto simp: batches_ok_def sent_by_def pending_for_def)
    have "sent_to cfg d (pushed s @ map snd (filter (\<lambda>(_, _, ev). N ev > 0) (dstBatches s))) = sent_by cfg did s d" for d
      using s(2) did sent_to_batches [of "dstBatches s" did cfg d] by (simp add: sent_by_def batches_ok_def)
    then have "sent_to cfg d (pushed s @ map snd (filter (\<lambda>(_, _, ev). N ev > 0) (dstBatches s))) =
        map (pkt cfg e) (filter (\<lambda>i. tgt cfg r e i = Some d) [0..<N e])" for d
      unfolding s(3) fil .
    moreover have "\<not> only_target cfg r e d" for d using only [of d] False by blast
    ultimately have "\<forall>d. sent_to cfg d (pushed s @ map snd (filter (\<lambda>(_, _, ev). N ev > 0) (dstBatches s))) =
        (if only_target cfg r e d then ev_pkts cfg e else map (pkt cfg e) (filter (\<lambda>i. tgt cfg r e i = Some d) [0..<N e]))"
      by (simp del: sent_to_simps(3))
    then show ?thesis
      unfolding tx_dispatch_routes [OF e] Let_def if_not_P [OF False] s(1) option.case by blast
  qed
qed

definition demo_cfg :: hub_config where
  "demo_cfg = \<lparr> BatchSize = 2, HeaderSize = 0, MTU = 20, MaxRxEventBuf = 4, MaxTxEventBuf = 4 \<rparr>"

definition demo_event :: txEvent where
  "demo_event = \<lparr> Buffer = [demo_packet, [0x45] @ replicate 15 0 @ [10, 9, 9, 9]], Sizes = [20, 20], N = 2 \<rparr>"

definition demo_router :: "nat option router" where
  "demo_router = the (Register NewRouter ''10.1.2.3/32'' (Some 7))"

definition demo_did :: "nat \<Rightarrow> string" where
  "demo_did d = replicate d (CHR ''x'')"

lemma inj_demo_did: "inj demo_did"
  by (rule injI) (metis demo_did_def length_replicate)

lemma demo_targets: "tgt demo_cfg demo_router demo_event 0 = Some 7" "tgt demo_cfg demo_router demo_event 1 = None"
  by code_simp+

text \<open>The second packet has no route and is sent to destination 7 all the same.\<close>

theorem tx_dispatch_delivers_witness:
  "\<exists>out recycled. tx_dispatch demo_cfg demo_router demo_did (\<lambda>_. new_txEvent demo_cfg) demo_event = Some (out, recycled) \<and>
     sent_to demo_cfg 7 out = [demo_packet, [0x45] @ replicate 15 0 @ [10, 9, 9, 9]] \<and>
     tgt demo_cfg demo_router demo_event 1 = None"
proof -
  have "event_ok demo_cfg demo_event" by (auto simp: event_ok_def demo_cfg_def demo_event_def demo_packet_def less_Suc_eq eval_nat_numeral)
  moreover have "\<forall>k::nat. event_ok demo_cfg (new_txEvent demo_cfg) \<and> N (new_txEvent demo_cfg) = 0"
    by (auto simp: event_ok_def demo_cfg_def new_txEvent_def)
  ultimately obtain out recycled where run: "tx_dispatch demo_cfg demo_router demo_did (\<lambda>_. new_txEvent demo_cfg) demo_event = Some (out, recycled)"
    "\<forall>d. sent_to demo_cfg d out = (if only_target demo_cfg demo_router demo_event d then ev_pkts demo_cfg demo_event
       else map (pkt demo_cfg demo_event) (filter (\<lambda>i. tgt demo_cfg demo_router demo_event i = Some d) [0..<N demo_event]))"
    using tx_dispatch_delivers [OF _ _ inj_demo_did, of demo_cfg demo_event "\<lambda>_. new_txEvent demo_cfg" demo_router] by blast
  have "N demo_event = 2" by (simp add: demo_event_def)
  then have "only_target demo_cfg demo_router demo_event 7"
    using demo_targets by (auto simp: only_target_def less_2_cases_iff)
  moreover have "ev_pkts demo_cfg demo_event = [demo_packet, [0x45] @ replicate 15 0 @ [10, 9, 9, 9]]" by code_simp
  ultimately show ?thesis using run demo_targets by auto
qed

section \<open>Collecting queued events\<close>

lemma length_event_packets [simp]: "length (event_packets e k) = k"
  by (simp add: event_packets_def)

definition queued :: "txEvent list \<Rightarrow> (bytes \<times> nat) list" where
  "queued es = concat (map (\<lambda>e. event_packets e (N e)) es)"

lemma queued_simps [simp]: "queued [] = []" "queued (e # es) = event_packets e (N e) @ queued es" "queued (es @ fs) = queued es @ queued fs"
  by (simp_all add: queued_def)

lemma take_event_packets: "take k (event_packets e n) = event_packets e (min n k)"
  by (cases "k \<le> n") (simp_all add: event_packets_def take_map take_upt)

lemma collect_more_ok:
  assumes "\<forall>e \<in> set queue. 0 < N e" "remaining + length (queued events) = maxBuf" "events \<noteq> []"
    "\<forall>e \<in> set events. 0 < N e"
  shows "\<exists>more rest. queue = more @ rest \<and>
     collect_more maxBuf remaining queue (queued events) events = Some (take maxBuf (queued (events @ more)), events @ more, rest) \<and>
     (rest = [] \<or> maxBuf \<le> length (queued (events @ more))) \<and> (more = [] \<or> length (queued (events @ butlast more)) < maxBuf)"
  using assms
proof (induction queue arbitrary: remaining events)
  case Nil
  then show ?case by simp
next
  case (Cons e queue)
  have len: "length es \<le> length (queued es)" if "\<forall>e \<in> set es. 0 < N e" for es
    using that by (induction es) (auto simp: Suc_le_eq add_strict_increasing)
  show ?case
  proof (cases "remaining = 0")
    case True
    then show ?thesis using Cons.prems by (intro exI [of _ "[]"] exI [of _ "e # queue"]) simp
  next
    case False
    have room: "\<not> maxBuf \<le> length events" using len [OF Cons.prems(4)] Cons.prems(2) False by linarith
    show ?thesis
    proof (cases "N e \<le> remaining")
      case True
      have pre: "remaining - N e + length (queued (events @ [e])) = maxBuf" "\<forall>x \<in> set (events @ [e]). 0 < N x"
        "\<forall>x \<in> set queue. 0 < N x" using Cons.prems True by auto
      obtain more rest where m: "queue = more @ rest"
        "collect_more maxBuf (remaining - N e) queue (queued (events @ [e])) (events @ [e]) =
           Some (take maxBuf (queued (events @ [e] @ more)), events @ [e] @ more, rest)"
        "rest = [] \<or> maxBuf \<le> length (queued (events @ [e] @ more))"
        "more = [] \<or> length (queued (events @ [e] @ butlast more)) < maxBuf"
        using Cons.IH [OF pre(3,1) _ pre(2)] by auto
      have "length (queued (events @ butlast (e # more))) < maxBuf"
        using m(4) Cons.prems(2) \<open>remaining \<noteq> 0\<close> by (cases "more = []") auto
      then show ?thesis using m(1,2,3) True False room by (intro exI [of _ "e # more"] exI [of _ rest]) simp
    next
      case big: False
      have stop: "collect_more maxBuf 0 queue ps es = Some (ps, es, queue)" for ps es by (cases queue) simp_all
      have tk: "take maxBuf (queued (events @ [e])) = queued events @ event_packets e remaining"
        using Cons.prems(2) [symmetric] big by (simp add: take_event_packets min_def)
      show ?thesis using big False room stop tk Cons.prems(2) by (intro exI [of _ "[e]"] exI [of _ queue]) (simp add: min_def)
    qed
  qed
qed

lemma txLoopN_round_ok:
  assumes "queue \<noteq> []" "\<forall>e \<in> set queue. 0 < N e" "N (hd queue) \<le> maxBuf"
  shows "\<exists>events rest. queue = events @ rest \<and> events \<noteq> [] \<and>
     txLoopN_round maxBuf queue = Some (take maxBuf (queued events), events, rest) \<and>
     (rest = [] \<or> maxBuf \<le> length (queued events)) \<and> length (queued (butlast events)) < maxBuf"
proof -
  obtain e es where q: "queue = e # es" using assms(1) by (cases queue) auto
  have pre: "\<forall>x \<in> set es. 0 < N x" "maxBuf - N e + length (queued [e]) = maxBuf" "\<forall>x \<in> set [e]. 0 < N x" "[e] \<noteq> []"
    using assms q by auto
  obtain more rest where m: "es = more @ rest"
    "collect_more maxBuf (maxBuf - N e) es (queued [e]) [e] = Some (take maxBuf (queued ([e] @ more)), [e] @ more, rest)"
    "rest = [] \<or> maxBuf \<le> length (queued ([e] @ more))" "more = [] \<or> length (queued ([e] @ butlast more)) < maxBuf"
    using collect_more_ok [OF pre(1,2,4,3)] by blast
  have "\<not> (N e > maxBuf \<or> maxBuf = 0)" using assms q by auto
  then show ?thesis using m assms q by (intro exI [of _ "e # more"] exI [of _ rest]) (auto simp: txLoopN_round_def)
qed

text \<open>
  A round of a destination's transmit loop takes events off its queue, in order, until the write buffer is
  full or the queue is empty, hands the transport the packets of these events in order, and returns every event it took.
  The packets of the last event that do not fit any more are dropped. (Events hold between 1 and \<open>maxBuf\<close>
  packets.)
\<close>
theorem txLoopN_collects:
  assumes "queue \<noteq> []" "\<forall>e \<in> set queue. 0 < N e" "N (hd queue) \<le> maxBuf"
  shows "\<exists>events rest. queue = events @ rest \<and> events \<noteq> [] \<and>
     txLoopN_round maxBuf queue = Some (take maxBuf (queued events), events, rest) \<and>
     (rest = [] \<or> maxBuf \<le> length (queued events)) \<and> length (queued (butlast events)) < maxBuf"
  by (rule txLoopN_round_ok [OF assms])

definition three_packets :: "byte \<Rightarrow> txEvent" where
  "three_packets b = \<lparr> Buffer = [[b], [b], [b]], Sizes = [1, 1, 1], N = 3 \<rparr>"

theorem txLoopN_collects_witness:
  "\<exists>events rest. [three_packets 1, three_packets 2, three_packets 3] = events @ rest \<and> events \<noteq> [] \<and>
     txLoopN_round 4 [three_packets 1, three_packets 2, three_packets 3] = Some (take 4 (queued events), events, rest) \<and>
     (rest = [] \<or> 4 \<le> length (queued events)) \<and> length (queued (butlast events)) < 4"
  by (rule txLoopN_collects) (simp_all add: three_packets_def)

end
