(* ===== verification/Destination.thy ===== *)
theory Destination
  imports Hub_Tx
begin

text \<open>
  A destination of the hub (\<^verbatim>\<open>Destination\<close> in \<^verbatim>\<open>vnet/client/hub/hub_tx.go\<close>) and the peer-to-peer upgrade
  of its transport (\<^verbatim>\<open>vnet/client/client_p2p.go\<close>). A transport is known by a handle and its type.
  What the network answers during a negotiation is an argument. Calls of the error and fallback hooks are
  returned as a list of effects. \<open>None\<close> is a run-time panic, here the call of a method of a nil
  interface. A send into the event channel is an append to the queue.
\<close>

section \<open>State\<close>

datatype rw = Rw (handle: nat) (rw_type: string)

definition TransportTypeP2P :: string where
  "TransportTypeP2P = ''p2p''"

record destination =
  dref :: nat
  ip :: string
  tx :: "rw option"
  fallback :: "rw option"
  queue :: "txEvent list"

datatype dst_effect = OnError goerr | OnFallback rw goerr | AfterDial

definition NewDestination :: "nat \<Rightarrow> string \<Rightarrow> destination" where
  "NewDestination r addr = \<lparr> dref = r, ip = addr, tx = None, fallback = None, queue = [] \<rparr>"

definition dst_Type :: "destination \<Rightarrow> string" where
  "dst_Type c = (case tx c of None \<Rightarrow> [] | Some t \<Rightarrow> rw_type t)"

section \<open>Replacing and falling back\<close>

definition ReplaceTx :: "(rw option \<Rightarrow> rw option \<times> bool) \<Rightarrow> destination \<Rightarrow> destination \<times> bool" where
  "ReplaceTx fn c =
     (if fallback c \<noteq> None then (c, False)
      else let (newOne, replaced) = fn (tx c) in
        if replaced
        then ((if tx c \<noteq> None then c\<lparr>fallback := tx c\<rparr> else c)\<lparr>tx := newOne\<rparr>, True)
        else (c, False))"

text \<open>\<open>None\<close>: \<open>OnFallback\<close> reads the type of a nil transport.\<close>

definition fallbackOrReportError :: "goerr \<Rightarrow> destination \<Rightarrow> (destination \<times> dst_effect list) option" where
  "fallbackOrReportError err c =
     (case fallback c of
        Some f \<Rightarrow> (case tx c of None \<Rightarrow> None | Some cur \<Rightarrow> Some (c\<lparr>tx := Some f\<rparr>, [OnFallback cur err]))
      | None \<Rightarrow> Some (c, [OnError err]))"

section \<open>The peer-to-peer upgrade\<close>

text \<open>
  The client's table of peer-to-peer connections: \<open>replaceP2P\<close> stores under the destination, the
  other operations look up by address; the two kinds of key are never equal.
\<close>

datatype p2p_key = KeyDst nat | KeyIp string

record p2p_state =
  enabled :: bool
  peerMapping :: "string \<rightharpoonup> string"
  connections :: "p2p_key \<rightharpoonup> rw"
  cancelled :: "rw list"

text \<open>The answers of the peer: dialling the stream, the ping and its cost in milliseconds.\<close>

record p2p_env =
  dial_stream :: "goerr + nat"
  ping_write :: "goerr option"
  ping_read :: "goerr option"
  ping_cost :: int

definition acceptableLatency :: int where
  "acceptableLatency = 1000"

definition replaceP2P :: "nat \<Rightarrow> p2p_state \<times> destination \<Rightarrow> p2p_state \<times> destination" where
  "replaceP2P stream s =
     (case s of (c, dst) \<Rightarrow>
        let t = Rw stream TransportTypeP2P;
            (dst', replaced) = ReplaceTx (\<lambda>old. if (case old of Some o' \<Rightarrow> rw_type o' = TransportTypeP2P | None \<Rightarrow> False)
                                               then (None, False) else (Some t, True)) dst
        in if \<not> replaced then (c\<lparr>cancelled := cancelled c @ [t]\<rparr>, dst')
           else (c\<lparr>connections := (connections c)(KeyDst (dref dst) \<mapsto> t)\<rparr>, dst'))"

definition evaluateAndReplaceP2PTx ::
    "p2p_env \<Rightarrow> nat \<Rightarrow> p2p_state \<times> destination \<Rightarrow> (p2p_state \<times> destination) \<times> goerr option" where
  "evaluateAndReplaceP2PTx env stream s =
     (case ping_write env of
        Some e \<Rightarrow> (s, Some e)
      | None \<Rightarrow>
          (case ping_read env of
             Some e \<Rightarrow> (s, Some e)
           | None \<Rightarrow>
               if \<not> ping_cost env < acceptableLatency then (s, Some (ErrorNew ''cannot accept latency''))
               else (replaceP2P stream s, None)))"

definition tryP2P :: "p2p_env \<Rightarrow> p2p_state \<times> destination \<Rightarrow> (p2p_state \<times> destination) \<times> goerr option" where
  "tryP2P env s =
     (case s of (c, dst) \<Rightarrow>
        if \<not> enabled c then (s, None)
        else if dst_Type dst = TransportTypeP2P then (s, None)
        else case peerMapping c (ip dst) of
          None \<Rightarrow> (s, None)
        | Some _ \<Rightarrow>
            (case dial_stream env of
               Inl e \<Rightarrow> (s, Some e)
             | Inr stream \<Rightarrow> evaluateAndReplaceP2PTx env stream s))"

definition client_OnFallback :: "string \<Rightarrow> rw \<Rightarrow> p2p_state \<Rightarrow> p2p_state" where
  "client_OnFallback addr r c =
     (if rw_type r = TransportTypeP2P
      then (case connections c (KeyIp addr) of
              None \<Rightarrow> c
            | Some conn \<Rightarrow> c\<lparr>connections := (connections c)(KeyIp addr := None), cancelled := cancelled c @ [conn]\<rparr>)
      else c)"

section \<open>Negotiation and pushing\<close>

definition NegotiateResponseSuccess :: byte where
  "NegotiateResponseSuccess = 1"

definition NegotiateResponseQuotaExceeded :: byte where
  "NegotiateResponseQuotaExceeded = 2"

text \<open>What the dial, the write of the address and the read of the acknowledgement give.\<close>

record negotiation =
  dial :: "goerr + rw"
  send_addr :: "goerr option"
  recv_ack :: "goerr + byte"

definition negotiate ::
    "negotiation \<Rightarrow> p2p_env \<Rightarrow> p2p_state \<times> destination \<Rightarrow> (p2p_state \<times> destination) \<times> goerr option" where
  "negotiate n env s =
     (if tx (snd s) \<noteq> None then (s, None)
      else case dial n of
        Inl e \<Rightarrow> (s, Some e)
      | Inr t \<Rightarrow>
          (case send_addr n of
             Some e \<Rightarrow> (s, Some e)
           | None \<Rightarrow>
               (case recv_ack n of
                  Inl e \<Rightarrow> (s, Some e)
                | Inr b \<Rightarrow>
                    if b = NegotiateResponseQuotaExceeded then tryP2P env s
                    else if b = NegotiateResponseSuccess
                    then (fst (tryP2P env (fst s, (snd s)\<lparr>tx := Some t\<rparr>)), None)
                    else (s, Some (ErrorNew ''negotiate failed'')))))"

definition PushTxEvent ::
    "negotiation \<Rightarrow> p2p_env \<Rightarrow> txEvent \<Rightarrow> p2p_state \<times> destination \<Rightarrow>
     (p2p_state \<times> destination) \<times> dst_effect list \<times> goerr option" where
  "PushTxEvent n env e s =
     (let (s', err) = (if tx (snd s) = None then negotiate n env s else (s, None)) in
      case err of
        Some x \<Rightarrow> (s', [OnError x], Some x)
      | None \<Rightarrow> ((fst s', (snd s')\<lparr>queue := queue (snd s') @ [e]\<rparr>), [], None))"

section \<open>A round of the transmit loop with its write\<close>

text \<open>
  \<open>write t ps\<close> is the error, if any, of \<^verbatim>\<open>BatchWrite\<close> on transport \<open>t\<close>. The result: the state, the events
  recycled, and the hooks called.
\<close>

definition destination_round ::
    "nat \<Rightarrow> (rw \<Rightarrow> (bytes \<times> nat) list \<Rightarrow> goerr option) \<Rightarrow> p2p_state \<times> destination \<Rightarrow>
     ((p2p_state \<times> destination) \<times> txEvent list \<times> dst_effect list) option" where
  "destination_round maxBuf write s =
     (case s of (c, d) \<Rightarrow>
        case txLoopN_round maxBuf (queue d) of
          None \<Rightarrow> None
        | Some (ps, events, rest) \<Rightarrow>
            let d = d\<lparr>queue := rest\<rparr> in
            if ps = [] then Some ((c, d), events, [])
            else case tx d of
              None \<Rightarrow> None
            | Some t \<Rightarrow>
                (case write t ps of
                   None \<Rightarrow> Some ((c, d), events, [])
                 | Some err \<Rightarrow>
                     (case fallbackOrReportError err d of
                        None \<Rightarrow> None
                      | Some (d', effects) \<Rightarrow>
                          Some ((fold (\<lambda>ef c. case ef of OnFallback r _ \<Rightarrow> client_OnFallback (ip d') r c | _ \<Rightarrow> c) effects c, d'),
                                events, effects))))"

section \<open>Close\<close>

text \<open>The transports closed, in order.\<close>

definition dst_Close :: "destination \<Rightarrow> rw list" where
  "dst_Close c = (case fallback c of Some f \<Rightarrow> [f] | None \<Rightarrow> []) @ (case tx c of Some t \<Rightarrow> [t] | None \<Rightarrow> [])"

section \<open>Properties\<close>

text \<open>
  When the server answers a negotiation with \<^verbatim>\<open>quota exceeded\<close> and the peer-to-peer upgrade is not
  enabled, or the destination is not a known peer, the push reports no error and queues the event although
  the destination has no transport; the next round of its transmit loop then panics on the nil transport, whatever
  the network does.
\<close>
theorem quota_exceeded_then_panic:
  assumes "tx d = None" "queue d = []" "dial n = Inr t" "send_addr n = None" "recv_ack n = Inr NegotiateResponseQuotaExceeded"
    and "\<not> enabled c \<or> peerMapping c (ip d) = None" and "0 < N e" "N e \<le> maxBuf"
  shows "PushTxEvent n env e (c, d) = ((c, d\<lparr>queue := [e]\<rparr>), [], None) \<and>
         destination_round maxBuf write (c, d\<lparr>queue := [e]\<rparr>) = None"
proof -
  have "tryP2P env (c, d) = ((c, d), None)"
    using assms(1,6) by (auto simp: tryP2P_def dst_Type_def TransportTypeP2P_def)
  moreover have "txLoopN_round maxBuf [e] = Some (event_packets e (N e), [e], [])"
    using assms(7,8) by (simp add: txLoopN_round_def)
  ultimately show ?thesis using assms
    by (simp add: PushTxEvent_def negotiate_def destination_round_def event_packets_def)
qed

theorem quota_exceeded_then_panic_witness:
  "PushTxEvent \<lparr> dial = Inr (Rw 1 ''tcp''), send_addr = None, recv_ack = Inr 2 \<rparr>
     \<lparr> dial_stream = Inl EOF, ping_write = None, ping_read = None, ping_cost = 0 \<rparr>
     \<lparr> Buffer = [[1]], Sizes = [1], N = 1 \<rparr>
     (\<lparr> enabled = False, peerMapping = Map.empty, connections = Map.empty, cancelled = [] \<rparr>, NewDestination 5 ''10.0.0.2'') =
   ((\<lparr> enabled = False, peerMapping = Map.empty, connections = Map.empty, cancelled = [] \<rparr>,
     (NewDestination 5 ''10.0.0.2'')\<lparr>queue := [\<lparr> Buffer = [[1]], Sizes = [1], N = 1 \<rparr>]\<rparr>), [], None) \<and>
   destination_round 1024 (\<lambda>_ _. None)
     (\<lparr> enabled = False, peerMapping = Map.empty, connections = Map.empty, cancelled = [] \<rparr>,
      (NewDestination 5 ''10.0.0.2'')\<lparr>queue := [\<lparr> Buffer = [[1]], Sizes = [1], N = 1 \<rparr>]\<rparr>) = None"
  by (rule quota_exceeded_then_panic [where t = "Rw 1 ''tcp''"])
     (simp_all add: NewDestination_def NegotiateResponseQuotaExceeded_def)

text \<open>Operations on a destination after its creation, in any order.\<close>

datatype dst_op =
    TryP2P p2p_env
  | Push negotiation p2p_env txEvent
  | Round "rw \<Rightarrow> (bytes \<times> nat) list \<Rightarrow> goerr option"

fun dst_run ::
    "nat \<Rightarrow> dst_op list \<Rightarrow> p2p_state \<times> destination \<Rightarrow> ((p2p_state \<times> destination) \<times> dst_effect list) option" where
  "dst_run maxBuf [] s = Some (s, [])"
| "dst_run maxBuf (TryP2P env # ops) s = dst_run maxBuf ops (fst (tryP2P env s))"
| "dst_run maxBuf (Push n env e # ops) s =
     (case PushTxEvent n env e s of (s', fx, _) \<Rightarrow>
        map_option (\<lambda>(s'', fs). (s'', fx @ fs)) (dst_run maxBuf ops s'))"
| "dst_run maxBuf (Round write # ops) s =
     (case destination_round maxBuf write s of
        None \<Rightarrow> None
      | Some (s', _, fx) \<Rightarrow> map_option (\<lambda>(s'', fs). (s'', fx @ fs)) (dst_run maxBuf ops s'))"

definition reports :: "dst_effect list \<Rightarrow> goerr list" where
  "reports fx = concat (map (\<lambda>f. case f of OnError e \<Rightarrow> [e] | _ \<Rightarrow> []) fx)"

definition upgraded :: "rw \<Rightarrow> rw \<Rightarrow> destination \<Rightarrow> bool" where
  "upgraded f p d \<longleftrightarrow> fallback d = Some f \<and> (tx d = Some f \<or> tx d = Some p)"

lemma reports_simps [simp]:
  "reports [] = []" "reports (xs @ ys) = reports xs @ reports ys" "reports [OnFallback r e] = []" "reports [OnError e] = [e]"
  by (simp_all add: reports_def)

lemma tryP2P_upgraded: "upgraded f p d \<Longrightarrow> snd (fst (tryP2P env (c, d))) = d"
  by (auto simp: upgraded_def tryP2P_def evaluateAndReplaceP2PTx_def replaceP2P_def ReplaceTx_def Let_def
      split: option.split sum.split)

lemma destination_round_upgraded:
  "upgraded f p d \<Longrightarrow> destination_round maxBuf write (c, d) = Some (s', evs, fx) \<Longrightarrow> upgraded f p (snd s') \<and> reports fx = []"
  by (auto simp: upgraded_def destination_round_def fallbackOrReportError_def Let_def split: option.splits if_splits)

text \<open>
  Once a destination has been upgraded to a peer-to-peer transport \<open>p\<close> with \<open>f\<close> as fallback, it keeps
  \<open>f\<close> as its fallback for good: its transport is always one of the two, no further upgrade ever takes place, and no write
  error is reported to the client any more, even when the write on the fallback itself fails.
\<close>
theorem fallback_is_final:
  assumes "upgraded f p d" "dst_run maxBuf ops (c, d) = Some (s, fx)"
  shows "upgraded f p (snd s) \<and> reports fx = []"
  using assms
proof (induction ops arbitrary: c d fx)
  case (Cons op ops)
  show ?case
  proof (cases op)
    case (TryP2P env)
    then show ?thesis
      using Cons.IH [of d "fst (fst (tryP2P env (c, d)))"] Cons.prems tryP2P_upgraded [OF Cons.prems(1), of env c]
      by (metis dst_run.simps(2) prod.collapse)
  next
    case (Push n env e)
    have push: "PushTxEvent n env e (c, d) = ((c, d\<lparr>queue := queue d @ [e]\<rparr>), [], None)"
      using Cons.prems(1) by (auto simp: PushTxEvent_def upgraded_def)
    moreover have "upgraded f p (d\<lparr>queue := queue d @ [e]\<rparr>)" using Cons.prems(1) by (simp add: upgraded_def)
    ultimately show ?thesis using Cons.IH Cons.prems(2) Push by auto
  next
    case (Round wr)
    then obtain s' evs fx' fs where r: "destination_round maxBuf wr (c, d) = Some (s', evs, fx')"
      "dst_run maxBuf ops s' = Some (s, fs)" "fx = fx' @ fs"
      using Cons.prems(2) by (auto split: option.splits)
    then show ?thesis
      using Cons.IH [of "snd s'" "fst s'" fs] destination_round_upgraded [OF Cons.prems(1) r(1)] by simp
  qed
qed auto

definition demo_dst :: destination where
  "demo_dst = (NewDestination 5 ''10.0.0.2'')\<lparr>tx := Some (Rw 2 ''p2p''), fallback := Some (Rw 1 ''tcp'')\<rparr>"

definition demo_p2p :: p2p_state where
  "demo_p2p = \<lparr> enabled = True, peerMapping = Map.empty, connections = Map.empty, cancelled = [] \<rparr>"

lemma demo_dst_run:
  "dst_run 4 [Push \<lparr> dial = Inl EOF, send_addr = None, recv_ack = Inl EOF \<rparr>
       \<lparr> dial_stream = Inl EOF, ping_write = None, ping_read = None, ping_cost = 0 \<rparr> \<lparr> Buffer = [[1]], Sizes = [1], N = 1 \<rparr>,
     Round (\<lambda>_ _. Some EOF)] (demo_p2p, demo_dst) =
   Some ((demo_p2p, demo_dst\<lparr>tx := Some (Rw 1 ''tcp'')\<rparr>), [OnFallback (Rw 2 ''p2p'') EOF])"
  by (simp add: demo_dst_def demo_p2p_def NewDestination_def PushTxEvent_def destination_round_def txLoopN_round_def
      event_packets_def fallbackOrReportError_def client_OnFallback_def)

theorem fallback_is_final_witness:
  "upgraded (Rw 1 ''tcp'') (Rw 2 ''p2p'') (demo_dst\<lparr>tx := Some (Rw 1 ''tcp'')\<rparr>) \<and> reports [OnFallback (Rw 2 ''p2p'') EOF] = []"
proof -
  have "upgraded (Rw 1 ''tcp'') (Rw 2 ''p2p'') demo_dst" by (simp add: upgraded_def demo_dst_def)
  then show ?thesis using fallback_is_final [OF _ demo_dst_run] by simp
qed

lemma p2p_connection_never_cancelled:
  assumes "\<And>a. connections c (KeyIp a) = None"
  shows "client_OnFallback addr r c = c"
  using assms by (simp add: client_OnFallback_def)

end
