(* ===== verification/Quota.thy ===== *)
theory Quota
  imports VNet_Prelude
begin

text \<open>
  Traffic quotas: the in-memory counter of \<^verbatim>\<open>common/quota/quota.go\<close> and its persistence in
  \<^verbatim>\<open>manager/server/internal/logic/quota\<close> (\<^verbatim>\<open>adaptor.go\<close>, \<^verbatim>\<open>flow.go\<close>, \<^verbatim>\<open>quota.go\<close>). The counter's
  operations return the values handed to \<^verbatim>\<open>SubmitUsage\<close>. The database access objects are a parameter: the
  record \<open>quota_dao\<close> has one field per query or statement that the code issues, each of which may fail.
  Times are Unix seconds; the bounds of the current day or month come from the calendar of the
  \<^verbatim>\<open>time\<close> package and are an argument.
\<close>

section \<open>The counter\<close>

definition ValueNoLimit :: int where
  "ValueNoLimit = -1"

definition ErrQuotaExceeded :: goerr where
  "ErrQuotaExceeded = Sentinel ''quota exceeded''"

record quota =
  used :: int
  maxLimit :: int
  usage :: int

definition New :: "int \<Rightarrow> goerr + int \<Rightarrow> goerr + quota" where
  "New quotaMaxUsage loadUsage =
     (case loadUsage of
        Inl e \<Rightarrow> Inl e
      | Inr u \<Rightarrow> Inr \<lparr> used = u, maxLimit = quotaMaxUsage, usage = 0 \<rparr>)"

definition isExceeded :: "quota \<Rightarrow> bool" where
  "isExceeded q \<longleftrightarrow> wrap64 (usage q + used q) > maxLimit q \<and> maxLimit q \<noteq> ValueNoLimit"

definition IsExceeded :: "quota \<Rightarrow> bool" where
  "IsExceeded q = isExceeded q"

definition CommitUsage :: "quota \<Rightarrow> quota \<times> int \<times> int list" where
  "CommitUsage q = (if usage q = 0 then (q, 0, []) else (q\<lparr>usage := 0\<rparr>, usage q, [usage q]))"

definition AddUsage :: "int \<Rightarrow> quota \<Rightarrow> quota \<times> goerr option \<times> int list" where
  "AddUsage value q =
     (if value = 0 then (q, None, [])
      else if isExceeded q then (case CommitUsage q of (q', _, submitted) \<Rightarrow> (q', Some ErrQuotaExceeded, submitted))
      else (q\<lparr>usage := wrap64 (usage q + value)\<rparr>, None, []))"

definition GetUsage :: "quota \<Rightarrow> int" where
  "GetUsage q = usage q"

definition GetMaxLimit :: "quota \<Rightarrow> int" where
  "GetMaxLimit q = maxLimit q"

definition Reset :: "quota \<Rightarrow> quota" where
  "Reset q = q\<lparr>usage := 0\<rparr>"

section \<open>The database\<close>

record quota_row =
  q_id :: int
  q_name :: string
  q_type :: string
  q_unit :: string
  q_value :: int
  q_period :: string

record flow_row =
  f_id :: nat
  f_quota :: int
  f_usage :: int
  f_target :: string
  f_targetType :: string
  f_start :: int
  f_end :: int

text \<open>
  The statements: a quota by id; the latest flow record of a quota, target and target type; the flow
  records of a period; update of usage and end of a record; insertion (the id is assigned by the
  database); insertion, update and deletion of quotas; reset of the \<^verbatim>\<open>quota\<close> column of devices and of networks.
\<close>

record 'db quota_dao =
  quota_One :: "'db \<Rightarrow> int \<Rightarrow> goerr + quota_row option"
  flow_Latest :: "'db \<Rightarrow> int \<Rightarrow> string \<Rightarrow> string \<Rightarrow> goerr + flow_row option"
  flow_All :: "'db \<Rightarrow> int \<Rightarrow> string \<Rightarrow> string \<Rightarrow> int \<Rightarrow> int \<Rightarrow> goerr + flow_row list"
  flow_Update :: "'db \<Rightarrow> nat \<Rightarrow> int \<Rightarrow> int \<Rightarrow> 'db \<times> goerr option"
  flow_Insert :: "'db \<Rightarrow> flow_row \<Rightarrow> 'db \<times> goerr option"

definition IdNoLimit :: int where
  "IdNoLimit = 0"

definition CodeNotFound :: goerr where
  "CodeNotFound = Sentinel ''not found''"

text \<open>\<open>GetById\<close>: the value in bytes, according to the type; arithmetic in \<^verbatim>\<open>int\<close> (64 bits).\<close>

definition quota_bytes :: "string \<Rightarrow> int \<Rightarrow> int" where
  "quota_bytes typ' v =
     (if typ' = ''mb'' then wrap64 (v * 1024 * 1024)
      else if typ' = ''gb'' then wrap64 (v * 1024 * 1024 * 1024)
      else if typ' = ''tb'' then wrap64 (v * 1024 * 1024 * 1024 * 1024)
      else v)"

definition GetById :: "'db quota_dao \<Rightarrow> 'db \<Rightarrow> int \<Rightarrow> goerr + quota_row" where
  "GetById dao db qid =
     (if qid = IdNoLimit
      then Inr \<lparr> q_id = 0, q_name = ''unlimited'', q_type = [], q_unit = [], q_value = ValueNoLimit, q_period = [] \<rparr>
      else case quota_One dao db qid of
        Inl e \<Rightarrow> Inl e
      | Inr None \<Rightarrow> Inl CodeNotFound
      | Inr (Some r) \<Rightarrow> Inr (r\<lparr>q_value := quota_bytes (q_type r) (q_value r)\<rparr>))"

text \<open>\<open>LoadUsage\<close> with the bounds of the current period.\<close>

definition LoadUsage ::
    "'db quota_dao \<Rightarrow> (string \<Rightarrow> int \<times> int) \<Rightarrow> 'db \<Rightarrow> int \<Rightarrow> string \<Rightarrow> string \<Rightarrow> goerr + int" where
  "LoadUsage dao period db qid target targetType =
     (case GetById dao db qid of
        Inl e \<Rightarrow> Inl e
      | Inr q \<Rightarrow>
          (case period (q_period q) of (startT, endT) \<Rightarrow>
             case flow_All dao db qid target targetType startT endT of
               Inl e \<Rightarrow> Inl e
             | Inr results \<Rightarrow> Inr (fold (\<lambda>r u. wrap64 (u + f_usage r)) results 0)))"

text \<open>
  \<open>submitToDatabase\<close>: \<open>cur\<close> is the start time handed in, \<open>now\<close> the clock when a new record is
  made.
\<close>

definition submitToDatabase ::
    "'db quota_dao \<Rightarrow> int \<Rightarrow> 'db \<Rightarrow> int \<Rightarrow> string \<Rightarrow> string \<Rightarrow> int \<Rightarrow> int \<Rightarrow> 'db \<times> goerr option" where
  "submitToDatabase dao now db qid target targetType u cur =
     (let ins = flow_Insert dao db \<lparr> f_id = 0, f_quota = qid, f_usage = u, f_target = target,
                                     f_targetType = targetType, f_start = cur, f_end = now \<rparr>
      in case flow_Latest dao db qid target targetType of
           Inl e \<Rightarrow> (db, Some e)
         | Inr None \<Rightarrow> ins
         | Inr (Some flow) \<Rightarrow>
             if f_end flow > 0 \<and> \<bar>cur - f_end flow\<bar> < 3600
             then flow_Update dao db (f_id flow) (wrap64 (f_usage flow + u)) cur
             else ins)"

text \<open>The adaptor: submissions carry the time at which the adaptor was made.\<close>

record adaptor =
  a_quota :: quota_row
  a_target :: string
  a_targetType :: string
  startTime :: int

definition GetQuotaAdaptor :: "'db quota_dao \<Rightarrow> 'db \<Rightarrow> int \<Rightarrow> int \<Rightarrow> string \<Rightarrow> string \<Rightarrow> goerr + adaptor" where
  "GetQuotaAdaptor dao db now qid target targetType =
     (case GetById dao db qid of
        Inl e \<Rightarrow> Inl e
      | Inr q \<Rightarrow> Inr \<lparr> a_quota = q, a_target = target, a_targetType = targetType, startTime = now \<rparr>)"

definition GetQuotaMaxUsage :: "adaptor \<Rightarrow> int" where
  "GetQuotaMaxUsage a = q_value (a_quota a)"

definition adaptor_LoadUsage ::
    "'db quota_dao \<Rightarrow> (string \<Rightarrow> int \<times> int) \<Rightarrow> 'db \<Rightarrow> adaptor \<Rightarrow> goerr + int" where
  "adaptor_LoadUsage dao period db a = LoadUsage dao period db (q_id (a_quota a)) (a_target a) (a_targetType a)"

definition SubmitUsage :: "'db quota_dao \<Rightarrow> int \<Rightarrow> adaptor \<Rightarrow> int \<Rightarrow> 'db \<Rightarrow> 'db" where
  "SubmitUsage dao now a u db =
     fst (submitToDatabase dao now db (q_id (a_quota a)) (a_target a) (a_targetType a) u (startTime a))"

text \<open>\<open>GetQuotaDetails\<close>: the usage and whether it exceeds the limit.\<close>

definition GetQuotaDetails ::
    "'db quota_dao \<Rightarrow> (string \<Rightarrow> int \<times> int) \<Rightarrow> 'db \<Rightarrow> int \<Rightarrow> string \<Rightarrow> string \<Rightarrow> bool \<Rightarrow> goerr + quota_row \<times> int \<times> bool" where
  "GetQuotaDetails dao period db qid target targetType wanted =
     (case GetById dao db qid of
        Inl e \<Rightarrow> Inl e
      | Inr q \<Rightarrow>
          if wanted
          then (case LoadUsage dao period db qid target targetType of
                  Inl e \<Rightarrow> Inl e | Inr u \<Rightarrow> Inr (q, u, u > q_value q))
          else Inr (q, 0, False))"

section \<open>Runs of the counter\<close>

text \<open>
  What happens to the counter of a session: traffic is added, the background loop commits. The run
  returns the values of the additions that were accepted and those submitted.
\<close>

datatype quota_op = Add int | Commit

fun quota_run :: "quota_op list \<Rightarrow> quota \<Rightarrow> quota \<times> int list \<times> int list" where
  "quota_run [] q = (q, [], [])"
| "quota_run (Add v # ops) q =
     (case AddUsage v q of (q', err, sub1) \<Rightarrow> case quota_run ops q' of (q'', acc, sub2) \<Rightarrow>
        (q'', (if err = None then v # acc else acc), sub1 @ sub2))"
| "quota_run (Commit # ops) q =
     (case CommitUsage q of (q', _, sub1) \<Rightarrow> case quota_run ops q' of (q'', acc, sub2) \<Rightarrow> (q'', acc, sub1 @ sub2))"

lemma wrap64_eq_mod: "wrap64 x mod 2 ^ 64 = x mod 2 ^ 64"
proof -
  have "wrap64 x mod 2 ^ 64 = ((x + 2 ^ 63) - 2 ^ 63) mod 2 ^ 64" unfolding wrap64_def by (rule mod_diff_left_eq)
  then show ?thesis by simp
qed

section \<open>Concurrent callers\<close>

text \<open>
  The session's proxy, the proxies of its peers, the background loop and the end of the session call \<^verbatim>\<open>AddUsage\<close> and \<^verbatim>\<open>CommitUsage\<close>
  with no lock: a call is a sequence of operations on the atomic \<^verbatim>\<open>usage\<close> between which other goroutines run. The place of a goroutine in its call:
  the load of \<^verbatim>\<open>isExceeded\<close>, the addition, and the load, the swap and the submission of \<^verbatim>\<open>CommitUsage\<close>.
\<close>

datatype quota_pc = QIdle | QExceeded int | QAdd int | QCommitLoad | QSwap | QSubmit int

fun quota_begin :: "quota_op \<Rightarrow> quota_pc" where
  "quota_begin (Add v) = (if v = 0 then QIdle else QExceeded v)"
| "quota_begin Commit = QCommitLoad"

text \<open>One atomic operation: the counter, the next place, what was accepted and what was submitted.\<close>

fun quota_step :: "quota \<Rightarrow> quota_pc \<Rightarrow> quota \<times> quota_pc \<times> int list \<times> int list" where
  "quota_step q QIdle = (q, QIdle, [], [])"
| "quota_step q (QExceeded v) = (q, if isExceeded q then QCommitLoad else QAdd v, [], [])"
| "quota_step q (QAdd v) = (q\<lparr>usage := wrap64 (usage q + v)\<rparr>, QIdle, [v], [])"
| "quota_step q QCommitLoad = (q, if usage q = 0 then QIdle else QSwap, [], [])"
| "quota_step q QSwap = (q\<lparr>usage := 0\<rparr>, QSubmit (usage q), [], [])"
| "quota_step q (QSubmit u) = (q, QIdle, [], [u])"

record quota_sys =
  qs_quota :: quota
  qs_pcs :: "quota_pc list"
  qs_accepted :: "int list"
  qs_submitted :: "int list"

text \<open>A schedule: an idle goroutine begins a call, or a goroutine does its next operation.\<close>

datatype quota_event = Begin nat quota_op | Go nat

fun quota_exec :: "quota_event \<Rightarrow> quota_sys \<Rightarrow> quota_sys" where
  "quota_exec (Begin i op) s =
     (if i < length (qs_pcs s) \<and> qs_pcs s ! i = QIdle then s\<lparr>qs_pcs := (qs_pcs s)[i := quota_begin op]\<rparr> else s)"
| "quota_exec (Go i) s =
     (if i < length (qs_pcs s)
      then (case quota_step (qs_quota s) (qs_pcs s ! i) of (q, pc, acc, gone) \<Rightarrow>
              s\<lparr>qs_quota := q, qs_pcs := (qs_pcs s)[i := pc], qs_accepted := qs_accepted s @ acc, qs_submitted := qs_submitted s @ gone\<rparr>)
      else s)"

definition quota_start :: "nat \<Rightarrow> quota \<Rightarrow> quota_sys" where
  "quota_start n q = \<lparr> qs_quota = q, qs_pcs = replicate n QIdle, qs_accepted = [], qs_submitted = [] \<rparr>"

text \<open>What a goroutine has taken out of the counter and not yet submitted.\<close>

fun in_hand :: "quota_pc \<Rightarrow> int" where
  "in_hand (QSubmit u) = u"
| "in_hand _ = 0"

definition quota_held :: "quota_sys \<Rightarrow> int" where
  "quota_held s = sum_list (qs_submitted s) + sum_list (map in_hand (qs_pcs s)) + usage (qs_quota s)"

text \<open>A call that no other goroutine interrupts is the call of the sequential description.\<close>

fun quota_solo :: "nat \<Rightarrow> quota \<times> quota_pc \<times> int list \<times> int list \<Rightarrow> quota \<times> quota_pc \<times> int list \<times> int list" where
  "quota_solo 0 s = s"
| "quota_solo (Suc n) (q, pc, acc, gone) = (case quota_step q pc of (q', pc', acc', gone') \<Rightarrow> quota_solo n (q', pc', acc @ acc', gone @ gone'))"

lemma quota_solo_Commit:
  "CommitUsage q = (q', u, gone) \<Longrightarrow> quota_solo 3 (q, quota_begin Commit, [], []) = (q', QIdle, [], gone)"
  by (auto simp: CommitUsage_def numeral_3_eq_3 split: if_splits)

lemma quota_solo_Add:
  "AddUsage v q = (q', err, gone) \<Longrightarrow>
     quota_solo 4 (q, quota_begin (Add v), [], []) = (q', QIdle, if err = None \<and> v \<noteq> 0 then [v] else [], gone)"
  by (auto simp: AddUsage_def CommitUsage_def eval_nat_numeral split: if_splits)

lemma sum_list_exchange:
  fixes f :: "'a \<Rightarrow> int"
  shows "i < length xs \<Longrightarrow> sum_list (map f (xs[i := x])) = sum_list (map f xs) - f (xs ! i) + f x"
  by (induction xs arbitrary: i) (auto simp: nth_Cons split: nat.split)

lemma in_hand_begin [simp]: "in_hand (quota_begin op) = 0"
  by (cases op) simp_all

lemma quota_step_conserves:
  "quota_step q pc = (q', pc', acc, gone) \<Longrightarrow>
     (sum_list gone + in_hand pc' + usage q') mod 2 ^ 64 = (sum_list acc + in_hand pc + usage q) mod 2 ^ 64"
  by (cases pc) (auto simp: wrap64_eq_mod [simplified] add.commute)

lemma quota_exec_conserves:
  "(quota_held (quota_exec ev s) - sum_list (qs_accepted (quota_exec ev s))) mod 2 ^ 64 = (quota_held s - sum_list (qs_accepted s)) mod 2 ^ 64"
proof (cases ev)
  case (Begin i op)
  then show ?thesis by (simp add: quota_held_def sum_list_exchange)
next
  case (Go i)
  obtain q pc acc gone where st: "quota_step (qs_quota s) (qs_pcs s ! i) = (q, pc, acc, gone)" by (cases "quota_step (qs_quota s) (qs_pcs s ! i)") auto
  let ?r = "sum_list (qs_submitted s) + sum_list (map in_hand (qs_pcs s)) - in_hand (qs_pcs s ! i) - sum_list (qs_accepted s) - sum_list acc"
  have "(?r + (sum_list gone + in_hand pc + usage q)) mod 2 ^ 64 =
      (?r + (sum_list acc + in_hand (qs_pcs s ! i) + usage (qs_quota s))) mod 2 ^ 64"
    using quota_step_conserves [OF st] by (metis mod_add_right_eq)
  then show ?thesis using st Go by (simp add: quota_held_def sum_list_exchange algebra_simps)
qed

text \<open>
  C24. No traffic is lost or counted twice, however the calls of \<^verbatim>\<open>AddUsage\<close> and \<^verbatim>\<open>CommitUsage\<close> interleave: for any number of goroutines and any schedule
  of their atomic operations, what was submitted to the store, plus what a goroutine has swapped out of the counter and is about to submit, plus what is in the
  counter, is what was accepted plus what the counter held at the start (modulo 2 ^ 64); used and limit stay as they were; and when no call is
  running nothing is in between. \<^verbatim>\<open>Reset\<close>, which nothing calls, is not an operation of the schedules.
\<close>
theorem quota_conserves_usage:
  fixes events :: "quota_event list" and n :: nat and q :: quota
  defines "s \<equiv> fold quota_exec events (quota_start n q)"
  shows "(sum_list (qs_submitted s) + sum_list (map in_hand (qs_pcs s)) + usage (qs_quota s)) mod 2 ^ 64 =
      (sum_list (qs_accepted s) + usage q) mod 2 ^ 64 \<and>
    used (qs_quota s) = used q \<and> maxLimit (qs_quota s) = maxLimit q \<and>
    (list_all ((=) QIdle) (qs_pcs s) \<longrightarrow>
       (sum_list (qs_submitted s) + usage (qs_quota s)) mod 2 ^ 64 = (sum_list (qs_accepted s) + usage q) mod 2 ^ 64)"
proof -
  have "(quota_held (fold quota_exec events t) - sum_list (qs_accepted (fold quota_exec events t))) mod 2 ^ 64 =
      (quota_held t - sum_list (qs_accepted t)) mod 2 ^ 64" for t
    by (induction events arbitrary: t) (simp_all add: quota_exec_conserves [simplified])
  from this [of "quota_start n q"] have "(quota_held s - sum_list (qs_accepted s)) mod 2 ^ 64 = usage q mod 2 ^ 64"
    by (simp add: s_def quota_start_def quota_held_def sum_list_replicate)
  then have all: "quota_held s mod 2 ^ 64 = (sum_list (qs_accepted s) + usage q) mod 2 ^ 64"
    by (metis add_diff_cancel_left' diff_add_cancel mod_add_right_eq add.commute)
  have same: "used (qs_quota (quota_exec ev t)) = used (qs_quota t) \<and> maxLimit (qs_quota (quota_exec ev t)) = maxLimit (qs_quota t)" for ev t
  proof (cases ev)
    case (Go i)
    then show ?thesis by (cases "qs_pcs t ! i") auto
  qed simp
  have "used (qs_quota (fold quota_exec events t)) = used (qs_quota t) \<and> maxLimit (qs_quota (fold quota_exec events t)) = maxLimit (qs_quota t)" for t
    by (induction events arbitrary: t) (simp_all add: same)
  from this [of "quota_start n q"] have const: "used (qs_quota s) = used q \<and> maxLimit (qs_quota s) = maxLimit q"
    by (simp add: s_def quota_start_def)
  have none: "sum_list (map in_hand pcs) = 0" if "list_all ((=) QIdle) pcs" for pcs
    using that by (induction pcs) auto
  show ?thesis using all const none [of "qs_pcs s"] unfolding quota_held_def by (metis add.right_neutral)
qed

text \<open>
  Three goroutines: one adds 7 while the two others, having both seen the usage 3, commit. One submits 3, the other what was added since.
\<close>

theorem quota_conserves_usage_witness:
  "\<exists>s. s = fold quota_exec [Begin 0 (Add 7), Go 0, Begin 1 Commit, Begin 2 Commit, Go 1, Go 2, Go 1, Go 0, Go 2, Go 2, Go 1]
         (quota_start 3 \<lparr> used = 0, maxLimit = 10, usage = 3 \<rparr>) \<and>
     qs_submitted s = [7, 3] \<and> qs_accepted s = [7] \<and> usage (qs_quota s) = 0 \<and>
     (sum_list (qs_submitted s) + usage (qs_quota s)) mod 2 ^ 64 = (sum_list (qs_accepted s) + 3) mod 2 ^ 64"
proof -
  let ?ev = "[Begin 0 (Add 7), Go 0, Begin 1 Commit, Begin 2 Commit, Go 1, Go 2, Go 1, Go 0, Go 2, Go 2, Go 1]"
  let ?q = "\<lparr> used = 0, maxLimit = 10, usage = 3 \<rparr>"
  let ?s = "fold quota_exec ?ev (quota_start 3 ?q)"
  have s: "?s = \<lparr> qs_quota = ?q\<lparr>usage := 0\<rparr>, qs_pcs = [QIdle, QIdle, QIdle], qs_accepted = [7], qs_submitted = [7, 3] \<rparr>"
    by (simp add: quota_start_def numeral_3_eq_3 isExceeded_def wrap64_def)
  show ?thesis using quota_conserves_usage [of ?ev 3 ?q, unfolded s] by (intro exI [of _ ?s]) (unfold s, simp)
qed

section \<open>The limit\<close>

text \<open>
  A commit restarts the limit: \<^verbatim>\<open>CommitUsage\<close> clears the counter but does not add it to \<^verbatim>\<open>used\<close>, so a session whose
  traffic between two commits fits the quota can go on for ever: for every number of rounds, all of the traffic is
  accepted, however small the limit.
\<close>
theorem quota_limit_restarts:
  assumes "0 < v" "v < 2 ^ 62" "0 \<le> used q" "used q \<le> maxLimit q" "maxLimit q < 2 ^ 62" "usage q = 0"
  shows "\<exists>submitted. quota_run (concat (replicate k [Add v, Commit])) q = (q, replicate k v, submitted)"
proof (induction k)
  case (Suc k)
  have w: "wrap64 (used q) = used q" "wrap64 v = v" using assms by (intro wrap64_id; simp add: in64_def)+
  have "\<not> isExceeded q" using assms w by (simp add: isExceeded_def)
  then have "AddUsage v q = (q\<lparr>usage := v\<rparr>, None, [])" using assms w by (simp add: AddUsage_def)
  moreover have "CommitUsage (q\<lparr>usage := v\<rparr>) = (q, v, [v])" using assms by (simp add: CommitUsage_def)
  ultimately show ?case using Suc by (auto split: prod.splits)
qed simp

theorem quota_limit_restarts_witness:
  "\<exists>submitted. quota_run (concat (replicate 1000 [Add 10, Commit])) \<lparr> used = 0, maxLimit = 10, usage = 0 \<rparr> =
     (\<lparr> used = 0, maxLimit = 10, usage = 0 \<rparr>, replicate 1000 10, submitted)"
  by (rule quota_limit_restarts) simp_all

end
