(* ===== verification/Quota_Flow.thy ===== *)
theory Quota_Flow
  imports Quota "HOL-Library.Multiset"
begin

text \<open>
  The flow records of the database: what the code relies on of the database access objects (\<open>dao_ok\<close>), and that
  every submission is accounted for exactly once, in all and in the period that \<open>LoadUsage\<close> looks at.
\<close>

definition flow_key :: "int \<Rightarrow> string \<Rightarrow> string \<Rightarrow> flow_row \<Rightarrow> bool" where
  "flow_key qid target targetType r \<longleftrightarrow> f_quota r = qid \<and> f_target r = target \<and> f_targetType r = targetType"

definition in_period :: "int \<Rightarrow> int \<Rightarrow> int \<Rightarrow> bool" where
  "in_period a b e \<longleftrightarrow> a \<le> e \<and> e \<le> b"

text \<open>
  \<open>rows\<close> is the content of the flow table: ids are a key, a query returns a stored record with the columns
  asked for, a query for a period returns the records that end in it, in any order, an update changes the columns of the record with the
  given id only, an insertion adds one record under a new id, and neither touches the table of quotas.
\<close>

definition dao_ok :: "'db quota_dao \<Rightarrow> ('db \<Rightarrow> flow_row list) \<Rightarrow> bool" where
  "dao_ok dao rows \<longleftrightarrow>
     (\<forall>db. distinct (map f_id (rows db))) \<and>
     (\<forall>db k t tt f. flow_Latest dao db k t tt = Inr (Some f) \<longrightarrow> f \<in> set (rows db) \<and> flow_key k t tt f) \<and>
     (\<forall>db k t tt a b rs. flow_All dao db k t tt a b = Inr rs \<longrightarrow>
        mset rs = mset (filter (\<lambda>r. flow_key k t tt r \<and> in_period a b (f_end r)) (rows db))) \<and>
     (\<forall>db i u e db'. flow_Update dao db i u e = (db', None) \<longrightarrow> quota_One dao db' = quota_One dao db) \<and>
     (\<forall>db r db'. flow_Insert dao db r = (db', None) \<longrightarrow> quota_One dao db' = quota_One dao db) \<and>
     (\<forall>db i u e db'. flow_Update dao db i u e = (db', None) \<longrightarrow>
        rows db' = map (\<lambda>r. if f_id r = i then r\<lparr>f_usage := u, f_end := e\<rparr> else r) (rows db)) \<and>
     (\<forall>db r db'. flow_Insert dao db r = (db', None) \<longrightarrow> (\<exists>i. rows db' = rows db @ [r\<lparr>f_id := i\<rparr>]))"

lemma dao_okD:
  assumes "dao_ok dao rows"
  shows "distinct (map f_id (rows db))"
    and "flow_Latest dao db k t tt = Inr (Some f) \<Longrightarrow> f \<in> set (rows db) \<and> flow_key k t tt f"
    and "flow_All dao db k t tt a b = Inr rs \<Longrightarrow> mset rs = mset (filter (\<lambda>r. flow_key k t tt r \<and> in_period a b (f_end r)) (rows db))"
    and "flow_Update dao db i u e = (db', None) \<Longrightarrow> quota_One dao db' = quota_One dao db"
    and "flow_Insert dao db r = (db', None) \<Longrightarrow> quota_One dao db' = quota_One dao db"
    and "flow_Update dao db i u e = (db', None) \<Longrightarrow>
      rows db' = map (\<lambda>r. if f_id r = i then r\<lparr>f_usage := u, f_end := e\<rparr> else r) (rows db)"
    and "flow_Insert dao db r = (db', None) \<Longrightarrow> \<exists>i. rows db' = rows db @ [r\<lparr>f_id := i\<rparr>]"
  using assms unfolding dao_ok_def by meson+

definition flow_total :: "(flow_row \<Rightarrow> bool) \<Rightarrow> flow_row list \<Rightarrow> int" where
  "flow_total P rs = sum_list (map f_usage (filter P rs))"

lemma flow_total_simps [simp]:
  "flow_total P [] = 0" "flow_total P (r # rs) = (if P r then f_usage r else 0) + flow_total P rs"
  "flow_total P (rs @ qs) = flow_total P rs + flow_total P qs"
  by (simp_all add: flow_total_def)

lemma flow_key_upd [simp]: "flow_key k t tt (r\<lparr>f_usage := u, f_end := e\<rparr>) = flow_key k t tt r"
  "flow_key k t tt (r\<lparr>f_id := i\<rparr>) = flow_key k t tt r"
  by (simp_all add: flow_key_def)

lemma flow_total_update:
  assumes "distinct (map f_id rs)" "f \<in> set rs"
  shows "flow_total P (map (\<lambda>r. if f_id r = f_id f then r\<lparr>f_usage := u, f_end := e\<rparr> else r) rs) =
     flow_total P rs - (if P f then f_usage f else 0) + (if P (f\<lparr>f_usage := u, f_end := e\<rparr>) then u else 0)"
  using assms
proof (induction rs)
  case (Cons r rs)
  show ?case
  proof (cases "r = f")
    case True
    then have "map (\<lambda>r. if f_id r = f_id f then r\<lparr>f_usage := u, f_end := e\<rparr> else r) rs = rs"
      using Cons.prems(1) by (intro map_idI) (auto simp: image_iff)
    then show ?thesis using True by simp
  next
    case False
    then have "f \<in> set rs" "f_id r \<noteq> f_id f" using Cons.prems by (auto simp: image_iff)
    then show ?thesis using Cons by simp
  qed
qed simp

text \<open>What \<open>LoadUsage\<close> returns is the total of the period, at 64 bits.\<close>

lemma fold_usage_mod: "fold (\<lambda>r u. wrap64 (u + f_usage r)) rs x mod 2 ^ 64 = (x + sum_list (map f_usage rs)) mod 2 ^ 64"
proof (induction rs arbitrary: x)
  case (Cons r rs)
  have "(wrap64 (x + f_usage r) + sum_list (map f_usage rs)) mod 2 ^ 64 = (x + f_usage r + sum_list (map f_usage rs)) mod 2 ^ 64"
    by (metis mod_add_left_eq wrap64_eq_mod)
  then show ?case using Cons.IH by (simp add: add.assoc)
qed simp

lemma LoadUsage_total:
  assumes "dao_ok dao rows" "LoadUsage dao period db qid target targetType = Inr v"
    and "GetById dao db qid = Inr q" "period (q_period q) = (a, b)"
  shows "v mod 2 ^ 64 = flow_total (\<lambda>r. flow_key qid target targetType r \<and> in_period a b (f_end r)) (rows db) mod 2 ^ 64"
proof -
  obtain rs where rs: "flow_All dao db qid target targetType a b = Inr rs" "v = fold (\<lambda>r u. wrap64 (u + f_usage r)) rs 0"
    using assms(2-4) by (auto simp: LoadUsage_def split: sum.splits)
  have "mset rs = mset (filter (\<lambda>r. flow_key qid target targetType r \<and> in_period a b (f_end r)) (rows db))"
    by (rule dao_okD(3) [OF assms(1) rs(1)])
  then have "sum_list (map f_usage rs) = flow_total (\<lambda>r. flow_key qid target targetType r \<and> in_period a b (f_end r)) (rows db)"
    unfolding flow_total_def sum_mset_sum_list [symmetric] mset_map by simp
  then show ?thesis using fold_usage_mod [of rs 0] rs(2) by simp
qed

text \<open>A submission is merged into the latest record if that ended within an hour of the start time of the session.\<close>

definition merges_into :: "'db quota_dao \<Rightarrow> 'db \<Rightarrow> int \<Rightarrow> string \<Rightarrow> string \<Rightarrow> int \<Rightarrow> flow_row \<Rightarrow> bool" where
  "merges_into dao db qid target targetType cur f \<longleftrightarrow>
     flow_Latest dao db qid target targetType = Inr (Some f) \<and> 0 < f_end f \<and> \<bar>cur - f_end f\<bar> < 3600"

lemma submit_cases:
  assumes dao: "dao_ok dao rows" and ok: "submitToDatabase dao now db qid target targetType u cur = (db', None)"
  obtains i where "\<forall>f. \<not> merges_into dao db qid target targetType cur f" "quota_One dao db' = quota_One dao db"
      "rows db' = rows db @ [\<lparr> f_id = i, f_quota = qid, f_usage = u, f_target = target, f_targetType = targetType, f_start = cur, f_end = now \<rparr>]"
    | f where "merges_into dao db qid target targetType cur f" "quota_One dao db' = quota_One dao db"
      "flow_key qid target targetType f"
      "\<And>P. flow_total P (rows db') = flow_total P (rows db) - (if P f then f_usage f else 0) +
         (if P (f\<lparr>f_usage := wrap64 (f_usage f + u), f_end := cur\<rparr>) then wrap64 (f_usage f + u) else 0)"
proof -
  let ?new = "\<lparr> f_id = 0, f_quota = qid, f_usage = u, f_target = target, f_targetType = targetType, f_start = cur, f_end = now \<rparr>"
  consider "flow_Insert dao db ?new = (db', None)" "\<forall>f. \<not> merges_into dao db qid target targetType cur f"
    | f where "merges_into dao db qid target targetType cur f"
        "flow_Update dao db (f_id f) (wrap64 (f_usage f + u)) cur = (db', None)"
    using ok by (auto simp: submitToDatabase_def merges_into_def Let_def split: sum.splits option.splits if_splits)
  then show thesis
  proof cases
    case 1
    obtain i where "rows db' = rows db @ [?new\<lparr>f_id := i\<rparr>]" using dao_okD(7) [OF dao 1(1)] by blast
    moreover have "quota_One dao db' = quota_One dao db" by (rule dao_okD(5) [OF dao 1(1)])
    ultimately show ?thesis using that(1) [of i] 1(2) by simp
  next
    case 2
    have f: "f \<in> set (rows db)" "flow_key qid target targetType f" "distinct (map f_id (rows db))"
      using dao_okD(1,2) [OF dao] 2(1) unfolding merges_into_def by blast+
    have db': "rows db' = map (\<lambda>r. if f_id r = f_id f then r\<lparr>f_usage := wrap64 (f_usage f + u), f_end := cur\<rparr> else r) (rows db)"
      "quota_One dao db' = quota_One dao db" by (rule dao_okD(6) [OF dao 2(2)], rule dao_okD(4) [OF dao 2(2)])
    show ?thesis by (rule that(2) [OF 2(1) db'(2) f(2)]) (simp only: db'(1) flow_total_update [OF f(3,1)])
  qed
qed

lemma merged_mod: "(T - f_usage f + wrap64 (f_usage f + u)) mod 2 ^ 64 = (T + u) mod 2 ^ 64" for f :: flow_row
proof -
  have "(T - f_usage f + wrap64 (f_usage f + u)) mod 2 ^ 64 = (T - f_usage f + (f_usage f + u)) mod 2 ^ 64"
    by (metis mod_add_right_eq wrap64_eq_mod)
  then show ?thesis by (simp add: algebra_simps)
qed

lemma load_both:
  assumes "dao_ok dao rows" "quota_One dao db' = quota_One dao db" "GetById dao db qid = Inr q" "period (q_period q) = (a, b)"
    and "LoadUsage dao period db qid target targetType = Inr v" "LoadUsage dao period db' qid target targetType = Inr v'"
  shows "v mod 2 ^ 64 = flow_total (\<lambda>r. flow_key qid target targetType r \<and> in_period a b (f_end r)) (rows db) mod 2 ^ 64"
    and "v' mod 2 ^ 64 = flow_total (\<lambda>r. flow_key qid target targetType r \<and> in_period a b (f_end r)) (rows db') mod 2 ^ 64"
proof -
  have "GetById dao db' qid = Inr q" using assms(2,3) by (simp only: GetById_def)
  then show "v mod 2 ^ 64 = flow_total (\<lambda>r. flow_key qid target targetType r \<and> in_period a b (f_end r)) (rows db) mod 2 ^ 64"
    "v' mod 2 ^ 64 = flow_total (\<lambda>r. flow_key qid target targetType r \<and> in_period a b (f_end r)) (rows db') mod 2 ^ 64"
    using LoadUsage_total [OF assms(1,5,3,4)] LoadUsage_total [OF assms(1,6) _ assms(4)] by blast+
qed

text \<open>
  C32. A submission that succeeds is booked exactly once, when no other submission runs at the same time: the total of all flow records of its quota, target and
  type grows by the usage submitted (modulo 2 ^ 64), whether it is merged into the latest record or gets a record of its own, and the records of every
  other quota, target or type keep their total. What \<open>LoadUsage\<close> returns for the period grows by that usage if the end of the
  new record, or the ends of the merged record before and after, are in the period. But a merged record ends when the session started: if that
  is outside of the period, \<open>LoadUsage\<close> does not count the submission, and loses what the record counted before.
\<close>
theorem submit_books_once:
  assumes dao: "dao_ok dao rows" and ok: "submitToDatabase dao now db qid target targetType u cur = (db', None)"
  shows "flow_total (flow_key qid target targetType) (rows db') mod 2 ^ 64 =
           (flow_total (flow_key qid target targetType) (rows db) + u) mod 2 ^ 64 \<and>
         (\<forall>k t tt. (k, t, tt) \<noteq> (qid, target, targetType) \<longrightarrow>
            flow_total (flow_key k t tt) (rows db') = flow_total (flow_key k t tt) (rows db)) \<and>
         (\<forall>period q a b v v'. GetById dao db qid = Inr q \<longrightarrow> period (q_period q) = (a, b) \<longrightarrow>
            LoadUsage dao period db qid target targetType = Inr v \<longrightarrow> LoadUsage dao period db' qid target targetType = Inr v' \<longrightarrow>
            ((\<forall>f. \<not> merges_into dao db qid target targetType cur f) \<and> in_period a b now \<longrightarrow> v' mod 2 ^ 64 = (v + u) mod 2 ^ 64) \<and>
            (\<forall>f. merges_into dao db qid target targetType cur f \<and> in_period a b (f_end f) \<longrightarrow>
               v' mod 2 ^ 64 = (if in_period a b cur then v + u else v - f_usage f) mod 2 ^ 64))"
  (is "?all \<and> ?others \<and> ?load")
proof -
  note usages = load_both [OF dao]
  show ?thesis using dao ok
  proof (cases rule: submit_cases)
    case (1 i)
    let ?P = "\<lambda>a b r. flow_key qid target targetType r \<and> in_period a b (f_end r)"
    have "v' mod 2 ^ 64 = (v + u) mod 2 ^ 64"
      if h: "GetById dao db qid = Inr q" "period (q_period q) = (a, b)" "LoadUsage dao period db qid target targetType = Inr v"
        "LoadUsage dao period db' qid target targetType = Inr v'" "in_period a b now" for period q a b v v'
    proof -
      have "flow_total (?P a b) (rows db') = flow_total (?P a b) (rows db) + u" using h(5) unfolding 1(3) by (simp add: flow_key_def)
      then show ?thesis using usages(2) [OF 1(2) h(1-4)] mod_add_cong [OF usages(1) [OF 1(2) h(1-4)] refl [of "u mod 2 ^ 64"]] by (simp only:)
    qed
    moreover have ?all ?others unfolding 1(3) by (auto simp: flow_key_def)
    ultimately show ?thesis using 1(1) by blast
  next
    case (2 f)
    let ?P = "\<lambda>a b r. flow_key qid target targetType r \<and> in_period a b (f_end r)"
    have one: "g = f" if "merges_into dao db qid target targetType cur g" for g using 2(1) that by (simp add: merges_into_def)
    have "v' mod 2 ^ 64 = (if in_period a b cur then v + u else v - f_usage f) mod 2 ^ 64"
      if h: "GetById dao db qid = Inr q" "period (q_period q) = (a, b)" "LoadUsage dao period db qid target targetType = Inr v"
        "LoadUsage dao period db' qid target targetType = Inr v'" "in_period a b (f_end f)" for period q a b v v'
    proof -
      have "flow_total (?P a b) (rows db') = flow_total (?P a b) (rows db) - f_usage f + (if in_period a b cur then wrap64 (f_usage f + u) else 0)"
        using 2(4) [of "?P a b"] 2(3) h(5) by simp
      then have "flow_total (?P a b) (rows db') mod 2 ^ 64 =
          (if in_period a b cur then flow_total (?P a b) (rows db) + u else flow_total (?P a b) (rows db) - f_usage f) mod 2 ^ 64"
        using merged_mod by simp
      moreover have "(v + x) mod 2 ^ 64 = (flow_total (?P a b) (rows db) + x) mod 2 ^ 64" for x
        using usages(1) [OF 2(2) h(1-4)] by (metis mod_add_left_eq)
      from this [of u] this [of "- f_usage f"] have "(if in_period a b cur then v + u else v - f_usage f) mod 2 ^ 64 =
          (if in_period a b cur then flow_total (?P a b) (rows db) + u else flow_total (?P a b) (rows db) - f_usage f) mod 2 ^ 64" by simp
      ultimately show ?thesis using usages(2) [OF 2(2) h(1-4)] by simp
    qed
    moreover have ?all using 2(4) [of "flow_key qid target targetType"] 2(3) merged_mod by simp
    moreover have ?others
    proof (intro allI impI)
      fix k t tt assume "(k, t, tt) \<noteq> (qid, target, targetType)"
      then have "\<not> flow_key k t tt f" using 2(3) by (auto simp: flow_key_def)
      then show "flow_total (flow_key k t tt) (rows db') = flow_total (flow_key k t tt) (rows db)" using 2(4) [of "flow_key k t tt"] by simp
    qed
    ultimately show ?thesis using 2(1) one by blast
  qed
qed

section \<open>A database in memory\<close>

fun latest :: "flow_row list \<Rightarrow> flow_row option" where
  "latest [] = None"
| "latest (r # rs) = (case latest rs of None \<Rightarrow> Some r | Some r' \<Rightarrow> if f_end r \<ge> f_end r' then Some r else Some r')"

text \<open>The id of a record is its position in the table.\<close>

definition mem_rows :: "flow_row list \<Rightarrow> flow_row list" where
  "mem_rows db = map (\<lambda>i. (db ! i)\<lparr>f_id := i\<rparr>) [0..<length db]"

definition mem_dao :: "quota_row list \<Rightarrow> flow_row list quota_dao" where
  "mem_dao quotas =
     \<lparr> quota_One = (\<lambda>db i. Inr (find (\<lambda>r. q_id r = i) quotas)),
       flow_Latest = (\<lambda>db k t tt. Inr (latest (filter (flow_key k t tt) (mem_rows db)))),
       flow_All = (\<lambda>db k t tt a b. Inr (filter (\<lambda>r. flow_key k t tt r \<and> in_period a b (f_end r)) (mem_rows db))),
       flow_Update = (\<lambda>db i u e. (if i < length db then db[i := (db ! i)\<lparr>f_usage := u, f_end := e\<rparr>] else db, None)),
       flow_Insert = (\<lambda>db r. (db @ [r], None)) \<rparr>"

lemma latest_in_set: "latest rs = Some r \<Longrightarrow> r \<in> set rs"
  by (induction rs arbitrary: r) (auto split: option.splits if_splits)

lemma mem_rows_update:
  "mem_rows (if i < length db then db[i := (db ! i)\<lparr>f_usage := u, f_end := e\<rparr>] else db) =
     map (\<lambda>r. if f_id r = i then r\<lparr>f_usage := u, f_end := e\<rparr> else r) (mem_rows db)"
  by (cases "i < length db"; rule nth_equalityI) (auto simp: mem_rows_def nth_list_update)

lemma mem_dao_ok: "dao_ok (mem_dao quotas) mem_rows"
  unfolding dao_ok_def
proof (intro conjI allI impI)
  show "distinct (map f_id (mem_rows db))" for db by (simp add: mem_rows_def comp_def)
  show "mem_rows db' = map (\<lambda>r. if f_id r = i then r\<lparr>f_usage := u, f_end := e\<rparr> else r) (mem_rows db)"
    if "flow_Update (mem_dao quotas) db i u e = (db', None)" for db i u e db'
    using that mem_rows_update [where i = i and db = db and u = u and e = e] by (simp add: mem_dao_def split: if_splits)
  show "\<exists>i. mem_rows db' = mem_rows db @ [r\<lparr>f_id := i\<rparr>]" if "flow_Insert (mem_dao quotas) db r = (db', None)" for db r db'
  proof -
    have "db' = db @ [r]" using that by (simp add: mem_dao_def)
    then have "mem_rows db' = mem_rows db @ [r\<lparr>f_id := length db\<rparr>]" by (simp add: mem_rows_def nth_append)
    then show ?thesis by blast
  qed
qed (auto simp: mem_dao_def dest!: latest_in_set)

definition demo_flow :: flow_row where
  "demo_flow = \<lparr> f_id = 0, f_quota = 1, f_usage = 40, f_target = ''dev'', f_targetType = ''device_traffic'', f_start = 900, f_end = 1000 \<rparr>"

definition demo_quota :: quota_row where
  "demo_quota = \<lparr> q_id = 1, q_name = ''q'', q_type = [], q_unit = [], q_value = 1000, q_period = ''day'' \<rparr>"

text \<open>Two units are merged into a record: they count in a period that contains the start 1500 of the session; in one that ends before, the 40 counted before are gone too.\<close>

theorem submit_books_once_witness:
  "\<exists>db'. submitToDatabase (mem_dao [demo_quota]) 1600 [demo_flow] 1 ''dev'' ''device_traffic'' 2 1500 = (db', None) \<and>
     flow_total (flow_key 1 ''dev'' ''device_traffic'') (mem_rows db') mod 2 ^ 64 = 42 \<and>
     (\<exists>v v'. LoadUsage (mem_dao [demo_quota]) (\<lambda>_. (500, 2000)) [demo_flow] 1 ''dev'' ''device_traffic'' = Inr v \<and>
        LoadUsage (mem_dao [demo_quota]) (\<lambda>_. (500, 2000)) db' 1 ''dev'' ''device_traffic'' = Inr v' \<and> v' mod 2 ^ 64 = (v + 2) mod 2 ^ 64) \<and>
     (\<exists>v v'. LoadUsage (mem_dao [demo_quota]) (\<lambda>_. (500, 1200)) [demo_flow] 1 ''dev'' ''device_traffic'' = Inr v \<and>
        LoadUsage (mem_dao [demo_quota]) (\<lambda>_. (500, 1200)) db' 1 ''dev'' ''device_traffic'' = Inr v' \<and> v' mod 2 ^ 64 = (v - 40) mod 2 ^ 64)"
proof -
  let ?dao = "mem_dao [demo_quota]" let ?db = "[demo_flow\<lparr>f_usage := 42, f_end := 1500\<rparr>]" let ?t = "''device_traffic''"
  note defs = mem_dao_def mem_rows_def flow_key_def demo_flow_def demo_quota_def GetById_def IdNoLimit_def LoadUsage_def in_period_def
  have ok: "submitToDatabase ?dao 1600 [demo_flow] 1 ''dev'' ?t 2 1500 = (?db, None)"
    by (simp add: submitToDatabase_def defs wrap64_def)
  note booked = submit_books_once [OF mem_dao_ok ok]
  have tot: "flow_total (flow_key 1 ''dev'' ?t) (mem_rows [demo_flow]) = 40" by (simp add: defs flow_total_def)
  have q: "GetById ?dao [demo_flow] 1 = Inr demo_quota" by (simp add: defs quota_bytes_def)
  have m: "merges_into ?dao [demo_flow] 1 ''dev'' ?t 1500 (demo_flow\<lparr>f_id := 0\<rparr>)" by (simp add: merges_into_def defs)
  obtain v where v: "LoadUsage ?dao (\<lambda>_. (500, 2000)) [demo_flow] 1 ''dev'' ?t = Inr v" by (simp add: defs)
  obtain v' where v': "LoadUsage ?dao (\<lambda>_. (500, 2000)) ?db 1 ''dev'' ?t = Inr v'" by (simp add: defs)
  obtain w where w: "LoadUsage ?dao (\<lambda>_. (500, 1200)) [demo_flow] 1 ''dev'' ?t = Inr w" by (simp add: defs)
  obtain w' where w': "LoadUsage ?dao (\<lambda>_. (500, 1200)) ?db 1 ''dev'' ?t = Inr w'" by (simp add: defs)
  have "in_period 500 2000 (f_end (demo_flow\<lparr>f_id := 0\<rparr>))" "in_period 500 1200 (f_end (demo_flow\<lparr>f_id := 0\<rparr>))"
    "in_period 500 2000 1500" "\<not> in_period 500 1200 1500" "f_usage (demo_flow\<lparr>f_id := 0\<rparr>) = 40" by (simp_all add: demo_flow_def in_period_def)
  note here = this
  have "v' mod 2 ^ 64 = (v + 2) mod 2 ^ 64"
    using booked [THEN conjunct2, THEN conjunct2, rule_format, OF q _ v v', of 500 2000] m here by auto
  moreover have "w' mod 2 ^ 64 = (w - 40) mod 2 ^ 64"
    using booked [THEN conjunct2, THEN conjunct2, rule_format, OF q _ w w', of 500 1200] m here by auto
  moreover have "flow_total (flow_key 1 ''dev'' ?t) (mem_rows ?db) mod 2 ^ 64 = 42"
    using booked [THEN conjunct1] tot by simp
  ultimately show ?thesis using ok v v' w w' by blast
qed

section \<open>Two consequences of the code\<close>

text \<open>An unlimited quota is reported as exceeded as soon as its usage is known.\<close>

lemma unlimited_reported_exceeded:
  assumes "LoadUsage dao period db IdNoLimit target targetType = Inr u" "0 \<le> u"
  shows "\<exists>q. GetQuotaDetails dao period db IdNoLimit target targetType True = Inr (q, u, True)"
  using assms by (simp add: GetQuotaDetails_def GetById_def ValueNoLimit_def)

text \<open>
  A merged record ends at the start of the session: traffic submitted after midnight by a session that began before it
  is booked on the day before.
\<close>

lemma merged_record_ends_at_start:
  assumes "dao_ok dao rows" "flow_Latest dao db qid target targetType = Inr (Some f)" "0 < f_end f" "\<bar>cur - f_end f\<bar> < 3600"
    and "submitToDatabase dao now db qid target targetType u cur = (db', None)"
  shows "\<exists>r \<in> set (rows db'). f_id r = f_id f \<and> f_end r = cur \<and> f_usage r = wrap64 (f_usage f + u)"
proof -
  have f: "f \<in> set (rows db)" using dao_okD(2) [OF assms(1,2)] by blast
  have "flow_Update dao db (f_id f) (wrap64 (f_usage f + u)) cur = (db', None)"
    using assms(2-5) by (simp add: submitToDatabase_def)
  then have "rows db' = map (\<lambda>r. if f_id r = f_id f then r\<lparr>f_usage := wrap64 (f_usage f + u), f_end := cur\<rparr> else r) (rows db)"
    by (rule dao_okD(6) [OF assms(1)])
  then show ?thesis using f by (auto intro!: bexI [of _ "f\<lparr>f_usage := wrap64 (f_usage f + u), f_end := cur\<rparr>"] image_eqI [of _ _ f])
qed

end
