(* ===== verification/Metrics.thy ===== *)
theory Metrics
  imports IpPool
begin

text \<open>
  Traffic metrics, \<^verbatim>\<open>common/metrics/transport.go\<close>, and the server's loop that adds the sessions' speeds to
  their network, \<^verbatim>\<open>vnet/server/loop.go\<close>. Counters are 64-bit words. The two counter types have the same
  methods; the contract they share is the locale \<open>traffic_counter\<close>.
\<close>

section \<open>Counters\<close>

record bytes_counter =
  bc_Total :: uint64
  bc_Last :: uint64
  bc_Speed :: uint64

record packet_counter =
  pc_Total :: uint64
  pc_Last :: uint64
  pc_Speed :: uint64

definition NewBytesCounter :: bytes_counter where
  "NewBytesCounter = \<lparr> bc_Total = 0, bc_Last = 0, bc_Speed = 0 \<rparr>"

definition NewPacketCounter :: packet_counter where
  "NewPacketCounter = \<lparr> pc_Total = 0, pc_Last = 0, pc_Speed = 0 \<rparr>"

definition BytesCounter_Add :: "uint64 \<Rightarrow> bytes_counter \<Rightarrow> bytes_counter" where
  "BytesCounter_Add delta c = c\<lparr>bc_Total := bc_Total c + delta\<rparr>"

definition BytesCounter_Get :: "bytes_counter \<Rightarrow> uint64 \<times> uint64 \<times> uint64" where
  "BytesCounter_Get c = (bc_Total c, bc_Last c, bc_Speed c)"

definition BytesCounter_UpdateStats :: "bytes_counter \<Rightarrow> bytes_counter" where
  "BytesCounter_UpdateStats c =
     (let total = bc_Total c; delta = total - bc_Last c
      in c\<lparr>bc_Speed := (if delta > 0 then delta else 0), bc_Last := total\<rparr>)"

definition BytesCounter_Reset :: "bytes_counter \<Rightarrow> bytes_counter" where
  "BytesCounter_Reset c = c\<lparr>bc_Total := 0, bc_Last := 0, bc_Speed := 0\<rparr>"

definition PacketCounter_Add :: "uint64 \<Rightarrow> packet_counter \<Rightarrow> packet_counter" where
  "PacketCounter_Add delta c = c\<lparr>pc_Total := pc_Total c + delta\<rparr>"

definition PacketCounter_Get :: "packet_counter \<Rightarrow> uint64 \<times> uint64 \<times> uint64" where
  "PacketCounter_Get c = (pc_Total c, pc_Last c, pc_Speed c)"

definition PacketCounter_UpdateStats :: "packet_counter \<Rightarrow> packet_counter" where
  "PacketCounter_UpdateStats c =
     (let total = pc_Total c; delta = total - pc_Last c
      in c\<lparr>pc_Speed := (if delta > 0 then delta else 0), pc_Last := total\<rparr>)"

definition PacketCounter_Reset :: "packet_counter \<Rightarrow> packet_counter" where
  "PacketCounter_Reset c = c\<lparr>pc_Total := 0, pc_Last := 0, pc_Speed := 0\<rparr>"

section \<open>Transport metrics\<close>

record transport_metrics =
  RxBytes :: bytes_counter
  RxPackets :: packet_counter
  TxBytes :: bytes_counter
  TxPackets :: packet_counter

definition NewTransportMetrics :: transport_metrics where
  "NewTransportMetrics =
     \<lparr> RxBytes = NewBytesCounter, RxPackets = NewPacketCounter, TxBytes = NewBytesCounter, TxPackets = NewPacketCounter \<rparr>"

definition UpdateAll :: "transport_metrics \<Rightarrow> transport_metrics" where
  "UpdateAll t =
     t\<lparr>RxBytes := BytesCounter_UpdateStats (RxBytes t), RxPackets := PacketCounter_UpdateStats (RxPackets t),
       TxBytes := BytesCounter_UpdateStats (TxBytes t), TxPackets := PacketCounter_UpdateStats (TxPackets t)\<rparr>"

definition Metrics_Reset :: "transport_metrics \<Rightarrow> transport_metrics" where
  "Metrics_Reset t =
     t\<lparr>RxBytes := BytesCounter_Reset (RxBytes t), RxPackets := PacketCounter_Reset (RxPackets t),
       TxBytes := BytesCounter_Reset (TxBytes t), TxPackets := PacketCounter_Reset (TxPackets t)\<rparr>"

text \<open>\<open>AppendUint\<close> writes a number in decimal.\<close>

definition AppendUint :: "string \<Rightarrow> uint64 \<Rightarrow> string" where
  "AppendUint buf v = buf @ utoa (unat v)"

definition MarshalJSON :: "transport_metrics \<Rightarrow> string" where
  "MarshalJSON t =
     (let q = [CHR 0x22]; field = (\<lambda>buf name v. AppendUint (buf @ q @ name @ q @ '':'') v);
          buf = ''{'';
          buf = field buf ''rx_bytes_total'' (bc_Total (RxBytes t)) @ '','';
          buf = field buf ''rx_bytes_speed'' (bc_Speed (RxBytes t)) @ '','';
          buf = field buf ''rx_packets_total'' (pc_Total (RxPackets t)) @ '','';
          buf = field buf ''rx_packets_speed'' (pc_Speed (RxPackets t)) @ '','';
          buf = field buf ''tx_bytes_total'' (bc_Total (TxBytes t)) @ '','';
          buf = field buf ''tx_bytes_speed'' (bc_Speed (TxBytes t)) @ '','';
          buf = field buf ''tx_packets_total'' (pc_Total (TxPackets t)) @ '','';
          buf = field buf ''tx_packets_speed'' (pc_Speed (TxPackets t))
      in buf @ ''}'')"

section \<open>The server's metrics loop\<close>

text \<open>\<open>updateSessionMetrics\<close> on the metrics of a session and of its network.\<close>

definition updateSessionMetrics ::
    "transport_metrics \<Rightarrow> transport_metrics \<Rightarrow> transport_metrics \<times> transport_metrics" where
  "updateSessionMetrics ss net =
     (let ss = UpdateAll ss
      in (ss, net\<lparr>RxBytes := BytesCounter_Add (bc_Speed (RxBytes ss)) (RxBytes net),
                  TxBytes := BytesCounter_Add (bc_Speed (TxBytes ss)) (TxBytes net),
                  RxPackets := PacketCounter_Add (pc_Speed (RxPackets ss)) (RxPackets net),
                  TxPackets := PacketCounter_Add (pc_Speed (TxPackets ss)) (TxPackets net)\<rparr>))"

text \<open>One tick of the loop over the sessions of a network.\<close>

fun metrics_tick :: "transport_metrics list \<Rightarrow> transport_metrics \<Rightarrow> transport_metrics list \<times> transport_metrics" where
  "metrics_tick [] net = ([], net)"
| "metrics_tick (ss # sss) net =
     (let (ss', net') = updateSessionMetrics ss net; (sss', net'') = metrics_tick sss net' in (ss' # sss', net''))"

section \<open>The contract of a counter\<close>

locale traffic_counter =
  fixes total :: "'c \<Rightarrow> uint64" and lastv :: "'c \<Rightarrow> uint64" and speed :: "'c \<Rightarrow> uint64"
    and add :: "uint64 \<Rightarrow> 'c \<Rightarrow> 'c" and update :: "'c \<Rightarrow> 'c"
  assumes add_spec: "total (add d c) = total c + d" "lastv (add d c) = lastv c" "speed (add d c) = speed c"
    and update_spec: "total (update c) = total c" "lastv (update c) = total c" "speed (update c) = total c - lastv c"
begin

text \<open>After an update, the speed is what was added since the last one.\<close>

lemma speed_since_update: "speed (update (fold add ds (update c))) = sum_list ds"
proof -
  have "total (fold add ds x) = total x + sum_list ds \<and> lastv (fold add ds x) = lastv x" for x
    by (induction ds arbitrary: x) (simp_all add: add_spec add.assoc)
  then show ?thesis by (simp add: update_spec)
qed

end

interpretation bc: traffic_counter bc_Total bc_Last bc_Speed BytesCounter_Add BytesCounter_UpdateStats
  by unfold_locales (simp_all add: BytesCounter_Add_def BytesCounter_UpdateStats_def Let_def word_gt_0)

interpretation pc: traffic_counter pc_Total pc_Last pc_Speed PacketCounter_Add PacketCounter_UpdateStats
  by unfold_locales (simp_all add: PacketCounter_Add_def PacketCounter_UpdateStats_def Let_def word_gt_0)

section \<open>Sessions and their network\<close>

text \<open>
  What happens between and at the ticks, while the sessions of the network stay the same: sessions count packets, received and sent, as the proxy does, and
  the loop ticks, which updates the network's own statistics at the end.
\<close>

datatype metrics_op = Rx nat uint64 | Tx nat uint64 | Tick

definition rx_packet :: "uint64 \<Rightarrow> transport_metrics \<Rightarrow> transport_metrics" where
  "rx_packet n t = t\<lparr>RxBytes := BytesCounter_Add n (RxBytes t), RxPackets := PacketCounter_Add 1 (RxPackets t)\<rparr>"

definition tx_packet :: "uint64 \<Rightarrow> transport_metrics \<Rightarrow> transport_metrics" where
  "tx_packet n t = t\<lparr>TxBytes := BytesCounter_Add n (TxBytes t), TxPackets := PacketCounter_Add 1 (TxPackets t)\<rparr>"

fun metrics_run :: "metrics_op list \<Rightarrow> transport_metrics list \<times> transport_metrics \<Rightarrow> transport_metrics list \<times> transport_metrics" where
  "metrics_run [] s = s"
| "metrics_run (Rx i n # ops) (sss, net) = metrics_run ops (if i < length sss then sss[i := rx_packet n (sss ! i)] else sss, net)"
| "metrics_run (Tx i n # ops) (sss, net) = metrics_run ops (if i < length sss then sss[i := tx_packet n (sss ! i)] else sss, net)"
| "metrics_run (Tick # ops) (sss, net) = metrics_run ops (case metrics_tick sss net of (sss', net') \<Rightarrow> (sss', UpdateAll net'))"

text \<open>The traffic of session \<open>i\<close>, with \<open>f n\<close> for every packet of \<open>n\<close> bytes received and \<open>g n\<close> for every packet sent.\<close>

fun traffic :: "(uint64 \<Rightarrow> uint64) \<Rightarrow> (uint64 \<Rightarrow> uint64) \<Rightarrow> metrics_op list \<Rightarrow> nat \<Rightarrow> uint64" where
  "traffic f g [] i = 0"
| "traffic f g (Rx j n # ops) i = (if j = i then f n else 0) + traffic f g ops i"
| "traffic f g (Tx j n # ops) i = (if j = i then g n else 0) + traffic f g ops i"
| "traffic f g (Tick # ops) i = traffic f g ops i"

lemma metrics_run_append: "metrics_run (ops @ ops') s = metrics_run ops' (metrics_run ops s)"
  by (induction ops s rule: metrics_run.induct) simp_all

lemma metrics_run_Tick: "metrics_run (Tick # ops) s = metrics_run ops (case metrics_tick (fst s) (snd s) of (sss', net') \<Rightarrow> (sss', UpdateAll net'))"
  by (cases s) simp

text \<open>One of the four quantities that are counted, for sessions and for the network.\<close>

locale metric_view =
  fixes tot :: "transport_metrics \<Rightarrow> uint64" and lst :: "transport_metrics \<Rightarrow> uint64"
    and f :: "uint64 \<Rightarrow> uint64" and g :: "uint64 \<Rightarrow> uint64"
  assumes rx: "tot (rx_packet n t) = tot t + f n" "lst (rx_packet n t) = lst t"
    and tx: "tot (tx_packet n t) = tot t + g n" "lst (tx_packet n t) = lst t"
    and visit: "updateSessionMetrics ss net = (ss', net') \<Longrightarrow> tot ss' = tot ss \<and> lst ss' = tot ss \<and> tot net' = tot net + (tot ss - lst ss)"
    and own: "tot (UpdateAll t) = tot t"
begin

lemma tick_spec:
  "metrics_tick sss net = (sss', net') \<Longrightarrow>
     map tot sss' = map tot sss \<and> map lst sss' = map tot sss \<and> tot net' = tot net + (sum_list (map tot sss) - sum_list (map lst sss))"
proof (induction sss arbitrary: net sss')
  case (Cons ss sss)
  obtain ss1 net1 where u: "updateSessionMetrics ss net = (ss1, net1)" by (cases "updateSessionMetrics ss net")
  obtain sss2 net2 where t: "metrics_tick sss net1 = (sss2, net2)" by (cases "metrics_tick sss net1")
  have "sss' = ss1 # sss2" "net' = net2" using Cons.prems u t by simp_all
  then show ?case using visit [OF u] Cons.IH [of net1 sss2] t by simp
qed simp

lemma packet_spec:
  assumes "tot p = tot (sss ! i) + x" "lst p = lst (sss ! i)" "i < length sss"
  shows "map lst (sss[i := p]) = map lst sss" "j < length sss \<Longrightarrow> tot (sss[i := p] ! j) = tot (sss ! j) + (if i = j then x else 0)"
  using assms by (auto simp: map_update nth_list_update intro!: list_update_same_conv [THEN iffD2])

text \<open>The totals of the sessions, through any run.\<close>

lemma run_sessions:
  "metrics_run ops s = s' \<Longrightarrow> length (fst s') = length (fst s) \<and> (\<forall>i < length (fst s). tot (fst s' ! i) = tot (fst s ! i) + traffic f g ops i)"
proof (induction ops s arbitrary: s' rule: metrics_run.induct)
  case (2 i n ops sss net)
  then show ?case using packet_spec(2) [OF rx, of i sss] by (auto simp: ac_simps)
next
  case (3 i n ops sss net)
  then show ?case using packet_spec(2) [OF tx, of i sss] by (auto simp: ac_simps)
next
  case (4 ops sss net)
  obtain sss1 net1 where t: "metrics_tick sss net = (sss1, net1)" by (cases "metrics_tick sss net")
  have len: "length sss1 = length sss" and same: "map tot sss1 = map tot sss" using tick_spec [OF t] by (auto dest: map_eq_imp_length_eq)
  have "tot (sss1 ! i) = tot (sss ! i)" if "i < length sss" for i using same that len by (metis nth_map)
  moreover have "metrics_run ops (sss1, UpdateAll net1) = s'" using 4(2) t by simp
  ultimately show ?case using 4(1) [of s'] t len by simp
qed simp

text \<open>The network's total moves with the sessions' last values.\<close>

lemma run_balance:
  "metrics_run ops s = s' \<Longrightarrow> tot (snd s') - sum_list (map lst (fst s')) = tot (snd s) - sum_list (map lst (fst s))"
proof (induction ops s arbitrary: s' rule: metrics_run.induct)
  case (2 i n ops sss net)
  then show ?case using packet_spec(1) [OF rx, of i sss] by (auto split: if_splits)
next
  case (3 i n ops sss net)
  then show ?case using packet_spec(1) [OF tx, of i sss] by (auto split: if_splits)
next
  case (4 ops sss net)
  obtain sss1 net1 where t: "metrics_tick sss net = (sss1, net1)" by (cases "metrics_tick sss net")
  show ?case using 4(1) [of s'] 4(2) tick_spec [OF t] t by (simp add: own)
qed simp

lemma run_no_tick:
  "metrics_run ops s = s' \<Longrightarrow> Tick \<notin> set ops \<Longrightarrow> snd s' = snd s"
  by (induction ops s arbitrary: s' rule: metrics_run.induct) auto

lemma network_total:
  assumes "metrics_run (ops @ Tick # rest) (sss, net) = (sss', net')" "Tick \<notin> set rest"
  shows "tot net' = tot net + (\<Sum>i < length sss. tot (sss ! i) - lst (sss ! i) + traffic f g ops i)"
proof -
  obtain sss1 net1 where r: "metrics_run ops (sss, net) = (sss1, net1)" by (cases "metrics_run ops (sss, net)")
  obtain sss2 net2 where t: "metrics_tick sss1 net1 = (sss2, net2)" by (cases "metrics_tick sss1 net1")
  have "metrics_run rest (sss2, UpdateAll net2) = (sss', net')" using assms(1) r t by (simp add: metrics_run_append)
  then have "tot net' = tot net2" using run_no_tick [OF _ assms(2)] own by fastforce
  also have "\<dots> = (tot net1 - sum_list (map lst sss1)) + sum_list (map tot sss1)" using tick_spec [OF t] by simp
  also have "\<dots> = (tot net - sum_list (map lst sss)) + sum_list (map tot sss1)" using run_balance [OF r] by simp
  finally have eq: "tot net' = tot net - sum_list (map lst sss) + sum_list (map tot sss1)" .
  have s1: "length sss1 = length sss" "\<forall>i < length sss. tot (sss1 ! i) = tot (sss ! i) + traffic f g ops i" using run_sessions [OF r] by simp_all
  have sums: "sum_list (map h xs) = (\<Sum>i < length xs. h (xs ! i))" for h :: "transport_metrics \<Rightarrow> uint64" and xs
    by (simp add: sum_list_sum_nth atLeast0LessThan)
  have "sum_list (map tot sss1) = (\<Sum>i < length sss. tot (sss ! i) + traffic f g ops i)" unfolding sums s1(1) using s1(2) by simp
  then show ?thesis unfolding eq by (simp add: sums sum.distrib sum_subtractf)
qed

end

lemmas metrics_defs = rx_packet_def tx_packet_def updateSessionMetrics_def UpdateAll_def Let_def
  bc.add_spec bc.update_spec pc.add_spec pc.update_spec

interpretation rxb: metric_view "\<lambda>t. bc_Total (RxBytes t)" "\<lambda>t. bc_Last (RxBytes t)" "\<lambda>n. n" "\<lambda>n. 0"
  by unfold_locales (auto simp: metrics_defs)

interpretation rxp: metric_view "\<lambda>t. pc_Total (RxPackets t)" "\<lambda>t. pc_Last (RxPackets t)" "\<lambda>n. 1" "\<lambda>n. 0"
  by unfold_locales (auto simp: metrics_defs)

interpretation txb: metric_view "\<lambda>t. bc_Total (TxBytes t)" "\<lambda>t. bc_Last (TxBytes t)" "\<lambda>n. 0" "\<lambda>n. n"
  by unfold_locales (auto simp: metrics_defs)

interpretation txp: metric_view "\<lambda>t. pc_Total (TxPackets t)" "\<lambda>t. pc_Last (TxPackets t)" "\<lambda>n. 0" "\<lambda>n. 1"
  by unfold_locales (auto simp: metrics_defs)

text \<open>
  C33. The network's totals account for the traffic of its sessions exactly, while its sessions stay the same: after any sequence of packets and ticks of the metrics
  loop, each total of the network is its initial value plus, for every session, what that session had counted at the start and not yet
  handed over, plus the bytes or packets it received or sent before the last tick (modulo 2 ^ 64). Packets after the last tick are in
  the session's own totals only.
\<close>
theorem network_totals_exact:
  assumes "metrics_run (ops @ Tick # rest) (sss, net) = (sss', net')" "Tick \<notin> set rest"
  shows "bc_Total (RxBytes net') = bc_Total (RxBytes net) +
       (\<Sum>i < length sss. bc_Total (RxBytes (sss ! i)) - bc_Last (RxBytes (sss ! i)) + traffic (\<lambda>n. n) (\<lambda>n. 0) ops i) \<and>
     pc_Total (RxPackets net') = pc_Total (RxPackets net) +
       (\<Sum>i < length sss. pc_Total (RxPackets (sss ! i)) - pc_Last (RxPackets (sss ! i)) + traffic (\<lambda>n. 1) (\<lambda>n. 0) ops i) \<and>
     bc_Total (TxBytes net') = bc_Total (TxBytes net) +
       (\<Sum>i < length sss. bc_Total (TxBytes (sss ! i)) - bc_Last (TxBytes (sss ! i)) + traffic (\<lambda>n. 0) (\<lambda>n. n) ops i) \<and>
     pc_Total (TxPackets net') = pc_Total (TxPackets net) +
       (\<Sum>i < length sss. pc_Total (TxPackets (sss ! i)) - pc_Last (TxPackets (sss ! i)) + traffic (\<lambda>n. 0) (\<lambda>n. 1) ops i) \<and>
     length sss' = length sss \<and>
     (\<forall>i < length sss. bc_Total (RxBytes (sss' ! i)) = bc_Total (RxBytes (sss ! i)) + traffic (\<lambda>n. n) (\<lambda>n. 0) (ops @ Tick # rest) i \<and>
        pc_Total (RxPackets (sss' ! i)) = pc_Total (RxPackets (sss ! i)) + traffic (\<lambda>n. 1) (\<lambda>n. 0) (ops @ Tick # rest) i \<and>
        bc_Total (TxBytes (sss' ! i)) = bc_Total (TxBytes (sss ! i)) + traffic (\<lambda>n. 0) (\<lambda>n. n) (ops @ Tick # rest) i \<and>
        pc_Total (TxPackets (sss' ! i)) = pc_Total (TxPackets (sss ! i)) + traffic (\<lambda>n. 0) (\<lambda>n. 1) (ops @ Tick # rest) i)"
  using rxb.network_total [OF assms] rxp.network_total [OF assms] txb.network_total [OF assms] txp.network_total [OF assms]
    rxb.run_sessions [OF assms(1)] rxp.run_sessions [OF assms(1)] txb.run_sessions [OF assms(1)] txp.run_sessions [OF assms(1)]
  by (simp del: traffic.simps)

text \<open>Two sessions, two ticks: the 7 bytes that session 1 receives after the second tick are not in the network's total yet.\<close>

theorem network_totals_exact_witness:
  "\<exists>sss net. metrics_run ([Rx 0 100, Tick, Tx 1 30, Rx 1 20] @ Tick # [Rx 1 7]) ([NewTransportMetrics, NewTransportMetrics], NewTransportMetrics) = (sss, net) \<and>
     bc_Total (RxBytes net) = 120 \<and> pc_Total (RxPackets net) = 2 \<and> bc_Total (TxBytes net) = 30 \<and> pc_Total (TxPackets net) = 1 \<and>
     bc_Total (RxBytes (sss ! 1)) = 27"
proof -
  let ?s = "([NewTransportMetrics, NewTransportMetrics], NewTransportMetrics)"
  obtain sss net where r: "metrics_run ([Rx 0 100, Tick, Tx 1 30, Rx 1 20] @ Tick # [Rx 1 7]) ?s = (sss, net)"
    by (cases "metrics_run ([Rx 0 100, Tick, Tx 1 30, Rx 1 20] @ Tick # [Rx 1 7]) ?s")
  have "Tick \<notin> set [Rx 1 7]" by simp
  from network_totals_exact [OF r this] r show ?thesis
    by (intro exI [of _ sss] exI [of _ net])
       (simp add: NewTransportMetrics_def NewBytesCounter_def NewPacketCounter_def numeral_2_eq_2 del: metrics_run.simps)
qed

end
