(* ===== verification/Hub_Rx.thy ===== *)
theory Hub_Rx
  imports Hub_Tx Transport_Props "HOL-Library.Sublist"
begin

text \<open>
  The receive side of the client's hub, \<^verbatim>\<open>vnet/client/hub/hub_rx.go\<close> with the receive events of \<^verbatim>\<open>hub.go\<close>
  and \<^verbatim>\<open>hub_event.go\<close>. \<open>rx_round\<close> is one round of the goroutine of \<open>HandleRx\<close>, \<open>rx_run\<close> a number
  of rounds; \<open>fresh i\<close> is the event that \<^verbatim>\<open>getRxEvent\<close> returns in round \<open>i\<close>. \<open>None\<close> is a run-time panic.
\<close>

section \<open>Events\<close>

record rxEvent =
  rx_packet :: bytes
  rx_buf :: "bytes list"
  rx_sizes :: "nat list"
  rx_n :: nat

definition new_rxEvent :: "hub_config \<Rightarrow> rxEvent" where
  "new_rxEvent cfg =
     \<lparr> rx_packet = replicate MaxTransportByteSize 0,
       rx_buf = replicate (BatchSize cfg) (replicate (MTU cfg + HeaderSize cfg) 0),
       rx_sizes = replicate (BatchSize cfg) 0, rx_n = 0 \<rparr>"

definition getRxEvent :: "hub_config \<Rightarrow> nat option \<Rightarrow> rxEvent object_store \<Rightarrow> rxEvent object_store \<times> rxEvent" where
  "getRxEvent cfg pick p = EventPool_Get (\<lambda>_. new_rxEvent cfg) pick p"

definition putRxEvent :: "rxEvent \<Rightarrow> rxEvent object_store \<Rightarrow> rxEvent object_store" where
  "putRxEvent e p = EventPool_Put (e\<lparr>rx_n := 0\<rparr>) p"

section \<open>Receiving\<close>

text \<open>
  What a round does with its event: it goes to the device loop, back to the pool (and the goroutine goes on
  or returns with an error), or, for an unknown message type, nowhere.
\<close>

datatype rx_outcome = Queue rxEvent | Recycle rxEvent | Stop goerr rxEvent | Ignore

definition rx_round :: "hub_config \<Rightarrow> rxEvent \<Rightarrow> transport \<Rightarrow> (transport \<times> rx_outcome) option" where
  "rx_round cfg event rw =
     (case ReadMessage rw (rx_packet event) of
        None \<Rightarrow> None
      | Some (rw, packet, typ, n, err) \<Rightarrow>
          let event = event\<lparr>rx_packet := packet\<rparr>; offset = HeaderSize cfg in
          (case err of
             Some e \<Rightarrow> Some (rw, if e = ErrInvalidMagic then Recycle event else Stop e event)
           | None \<Rightarrow>
               if typ = TypeTransport
               then (if rx_buf event = [] \<or> rx_sizes event = [] \<or> length (rx_buf event ! 0) < offset + n \<or> length packet < n
                     then None
                     else Some (rw, Queue (event\<lparr>rx_n := 1, rx_sizes := (rx_sizes event)[0 := n],
                            rx_buf := (rx_buf event)[0 := copy_to offset (take n packet) (rx_buf event ! 0)]\<rparr>)))
               else if typ = TypeBatchTransport
               then (case ParseBatch packet (rx_buf event) (rx_sizes event) offset of
                       None \<Rightarrow> None
                     | Some (buf, sizes, nn, Some e) \<Rightarrow> Some (rw, Stop e (event\<lparr>rx_buf := buf, rx_sizes := sizes\<rparr>))
                     | Some (buf, sizes, nn, None) \<Rightarrow>
                         Some (rw, Queue (event\<lparr>rx_buf := buf, rx_sizes := sizes, rx_n := nn\<rparr>)))
               else Some (rw, Ignore)))"

text \<open>\<open>k\<close> rounds, unless the goroutine returns: the events queued for the device, and the error it returned with.\<close>

fun rx_run ::
    "hub_config \<Rightarrow> (nat \<Rightarrow> rxEvent) \<Rightarrow> nat \<Rightarrow> nat \<Rightarrow> transport \<Rightarrow> (transport \<times> rxEvent list \<times> goerr option) option" where
  "rx_run cfg fresh i 0 rw = Some (rw, [], None)"
| "rx_run cfg fresh i (Suc k) rw =
     (case rx_round cfg (fresh i) rw of
        None \<Rightarrow> None
      | Some (rw, Stop e _) \<Rightarrow> Some (rw, [], Some e)
      | Some (rw, Queue ev) \<Rightarrow> map_option (\<lambda>(rw, evs, e). (rw, ev # evs, e)) (rx_run cfg fresh (Suc i) k rw)
      | Some (rw, _) \<Rightarrow> rx_run cfg fresh (Suc i) k rw)"

section \<open>Writing the device\<close>

text \<open>\<open>writeDevice\<close> on one event: the slices given to the device, one \<^verbatim>\<open>Write\<close> each.\<close>

definition writeDevice_round :: "rxEvent \<Rightarrow> bytes list option" where
  "writeDevice_round event =
     (if \<forall>i < rx_n event. i < length (rx_buf event) \<and> i < length (rx_sizes event) \<and> rx_sizes event ! i \<le> length (rx_buf event ! i)
      then Some (map (\<lambda>i. take (rx_sizes event ! i) (rx_buf event ! i)) [0..<rx_n event]) else None)"

text \<open>
  \<open>writeDeviceLinux\<close>: the buffers handed to \<^verbatim>\<open>BatchWrite\<close> of the device, whole, behind the offset; their
  sizes are not used.
\<close>

definition writeDeviceLinux_round :: "hub_config \<Rightarrow> rxEvent \<Rightarrow> bytes list option" where
  "writeDeviceLinux_round cfg event =
     (if rx_n event \<le> length (rx_buf event) then Some (map (drop (HeaderSize cfg)) (take (rx_n event) (rx_buf event))) else None)"

section \<open>From the wire to the device\<close>

definition event_out :: "nat \<Rightarrow> rxEvent \<Rightarrow> bytes list" where
  "event_out offset ev = packets (take (rx_n ev) (rx_buf ev)) (take (rx_n ev) (rx_sizes ev)) offset"

definition event_ok :: "hub_config \<Rightarrow> bytes list \<Rightarrow> rxEvent \<Rightarrow> bool" where
  "event_ok cfg P ev \<longleftrightarrow> 65535 \<le> length (rx_packet ev) \<and> slots_for P (rx_buf ev) (rx_sizes ev) (HeaderSize cfg)"

text \<open>The packets of an event lie inside its buffers, so that the device loops can write them.\<close>

definition event_fits :: "hub_config \<Rightarrow> rxEvent \<Rightarrow> bool" where
  "event_fits cfg ev \<longleftrightarrow> rx_n ev \<le> length (rx_buf ev) \<and> rx_n ev \<le> length (rx_sizes ev) \<and>
     (\<forall>i < rx_n ev. HeaderSize cfg + rx_sizes ev ! i \<le> length (rx_buf ev ! i))"

lemma event_out_nth:
  assumes "event_fits cfg ev"
  shows "length (event_out h ev) = rx_n ev" "i < rx_n ev \<Longrightarrow> event_out h ev ! i = sub h (rx_sizes ev ! i) (rx_buf ev ! i)"
  using assms by (simp_all add: event_out_def packets_def event_fits_def)

lemma writeDevice_out:
  assumes "event_fits cfg ev" "HeaderSize cfg = 0"
  shows "writeDevice_round ev = Some (event_out 0 ev)"
proof -
  have "map (\<lambda>i. take (rx_sizes ev ! i) (rx_buf ev ! i)) [0..<rx_n ev] = event_out 0 ev"
  proof (rule nth_equalityI)
    show "map (\<lambda>i. take (rx_sizes ev ! i) (rx_buf ev ! i)) [0..<rx_n ev] ! i = event_out 0 ev ! i"
      if "i < length (map (\<lambda>i. take (rx_sizes ev ! i) (rx_buf ev ! i)) [0..<rx_n ev])" for i
      using that event_out_nth(2) [OF assms(1), of i 0] by (simp add: sub_def)
  qed (simp add: event_out_nth(1) [OF assms(1)])
  then show ?thesis using assms by (simp add: writeDevice_round_def event_fits_def)
qed

lemma writeDeviceLinux_out:
  assumes "event_fits cfg ev"
  shows "\<exists>bs. writeDeviceLinux_round cfg ev = Some bs \<and> list_all2 prefix (event_out (HeaderSize cfg) ev) bs"
proof -
  have "prefix (event_out (HeaderSize cfg) ev ! i) (drop (HeaderSize cfg) (take (rx_n ev) (rx_buf ev) ! i))" if "i < rx_n ev" for i
    using that event_out_nth(2) [OF assms that] by (simp add: sub_def take_is_prefix)
  then show ?thesis using assms event_out_nth(1) [OF assms, of "HeaderSize cfg"]
    by (auto simp: writeDeviceLinux_round_def event_fits_def list_all2_conv_all_nth)
qed

lemma rx_round_batch:
  assumes "batch_of t ps f" "codecs_ok t" "peers t rw" "inb (upstream rw) = f @ rest" "event_ok cfg P ev" "set ps \<subseteq> set P"
  obtains rw' ev' where "rx_round cfg ev rw = Some (rw', Queue ev')" "event_out (HeaderSize cfg) ev' = ps"
    "event_fits cfg ev'" "received rw rest rw'"
proof -
  have ok: "65535 \<le> length (rx_packet ev)" "slots_for P (rx_buf ev) (rx_sizes ev) (HeaderSize cfg)"
    using assms(5) by (simp_all add: event_ok_def)
  have n: "length ps \<le> 128" "length (batch_payload ps) \<le> 65528" using assms(1) by (auto simp: batch_of_def)
  from recv_one [OF assms(1-4) ok(1)] obtain rw1 m after where
    r: "ReadMessage rw (rx_packet ev) = Some (rw1, batch_payload ps @ after, TypeBatchTransport, m, None)"
      "received rw rest rw1" by blast
  note S = slots_split [OF ok(2) assms(6) n(1)]
  let ?b = "blit 0 (map2 (blit (HeaderSize cfg)) ps (take (length ps) (rx_buf ev))) (rx_buf ev)"
    and ?s = "blit 0 (map length ps) (rx_sizes ev)"
  have "packets (take (length ps) ?b) (take (length ps) ?s) (HeaderSize cfg) = ps"
    using packets_stored [OF S(1)] ok(2) n by (simp add: blit_def slots_for_def)
  then have "event_out (HeaderSize cfg) (ev\<lparr>rx_packet := batch_payload ps @ after, rx_buf := ?b, rx_sizes := ?s, rx_n := length ps\<rparr>) = ps"
    by (simp add: event_out_def)
  moreover have "rx_round cfg ev rw = Some (rw1, Queue (ev\<lparr>rx_packet := batch_payload ps @ after, rx_buf := ?b, rx_sizes := ?s, rx_n := length ps\<rparr>))"
    using r(1) S ParseBatch_ok [OF n(2) S(2), of "rx_sizes ev" after] ok(2) n
    by (simp add: rx_round_def slots_for_def TypeTransport_def TypeBatchTransport_def)
  moreover have "event_fits cfg (ev\<lparr>rx_packet := batch_payload ps @ after, rx_buf := ?b, rx_sizes := ?s, rx_n := length ps\<rparr>)"
    using S(1) ok(2) n by (auto simp: event_fits_def blit_def slots_for_def nth_append list_all2_conv_all_nth)
  ultimately show thesis using that r(2) by blast
qed

lemma rx_run_batches:
  assumes "list_all2 (batch_of t) pss fs" "codecs_ok t" "peers t rw" "inb (upstream rw) = concat fs @ rest"
    and "\<And>i. event_ok cfg P (fresh i)" "set (concat pss) \<subseteq> set P"
  shows "\<exists>rw' evs. rx_run cfg fresh i (length pss) rw = Some (rw', evs, None) \<and>
     concat (map (event_out (HeaderSize cfg)) evs) = concat pss \<and> (\<forall>ev \<in> set evs. event_fits cfg ev) \<and> received rw rest rw'"
  using assms(1,3,4,6)
proof (induction arbitrary: rw i rule: list_all2_induct)
  case Nil
  then show ?case by (simp add: received_def peers_def)
next
  case (Cons ps pss f fs)
  have i: "inb (upstream rw) = f @ (concat fs @ rest)" "set ps \<subseteq> set P" using Cons.prems by simp_all
  obtain rw1 ev where r: "rx_round cfg (fresh i) rw = Some (rw1, Queue ev)" "event_out (HeaderSize cfg) ev = ps"
    "event_fits cfg ev" "received rw (concat fs @ rest) rw1"
    using rx_round_batch [OF Cons.hyps(1) assms(2) Cons.prems(1) i(1) assms(5) i(2)] by blast
  have "peers t rw1" "inb (upstream rw1) = concat fs @ rest"
    using Cons.prems r(4) received_opts [OF r(4)] by (simp_all add: peers_def received_def)
  then obtain rw2 evs where "rx_run cfg fresh (Suc i) (length pss) rw1 = Some (rw2, evs, None)"
    "concat (map (event_out (HeaderSize cfg)) evs) = concat pss" "\<forall>ev \<in> set evs. event_fits cfg ev" "received rw1 rest rw2"
    using Cons.IH [of rw1 "Suc i"] Cons.prems(3) by auto
  then show ?case using r by (simp add: received_def)
qed

end
