(* ===== verification/Session_Request.thy ===== *)
theory Session_Request
  imports VNet_Prelude
begin

text \<open>
  The request/response envelope of the handshake, \<^verbatim>\<open>common/session/request.go\<close>. A Go byte slice or string is a
  list of characters here. Cryptography, base64 and JSON are library code: the record \<open>codecs\<close> has one
  field per library call, and \<open>codecs_law\<close> states what the package relies on (decoding undoes
  encoding, AES in CBC mode takes every message under a 16-byte key and initial vector, and neither base64 text nor an
  MD5 digest contains a dot). \<open>None\<close> is a run-time panic.
\<close>

section \<open>Splitting\<close>

text \<open>\<^verbatim>\<open>strings.Split\<close> at a single character.\<close>

fun split_at :: "char \<Rightarrow> string \<Rightarrow> string list" where
  "split_at c [] = [[]]"
| "split_at c (x # xs) =
     (if x = c then [] # split_at c xs
      else case split_at c xs of w # ws \<Rightarrow> (x # w) # ws | [] \<Rightarrow> [[x]])"

lemma split_at_nil [simp]: "split_at c s \<noteq> []"
  by (induction s) (auto split: list.splits)

lemma split_at_none: "c \<notin> set s \<Longrightarrow> split_at c s = [s]"
  by (induction s) auto

lemma split_at_append: "c \<notin> set s \<Longrightarrow> split_at c (s @ c # t) = s # split_at c t"
  by (induction s) auto

lemma hd_split_at: "hd (split_at c s) = takeWhile (\<lambda>x. x \<noteq> c) s"
  by (induction s) (auto split: list.splits)

section \<open>Data\<close>

record header =
  Timestamp :: int
  Nonce :: string
  SubDeviceId :: uint64
  Key :: string
  Secret :: string

text \<open>
  The library calls: \<open>'q\<close> is the type of the request map, \<open>'r\<close> of the response map. \<^verbatim>\<open>gbase64\<close> is standard base64,
  \<open>raw64\<close> the unpadded variant. The RSA functions belong to one key pair; their randomness is fixed.
\<close>

record ('q, 'r) codecs =
  md5 :: "string \<Rightarrow> string"
  b64 :: "string \<Rightarrow> string"
  unb64 :: "string \<Rightarrow> string option"
  raw64 :: "string \<Rightarrow> string"
  unraw64 :: "string \<Rightarrow> string option"
  EncryptCBC :: "string \<Rightarrow> string \<Rightarrow> string \<Rightarrow> goerr + string"
  DecryptCBC :: "string \<Rightarrow> string \<Rightarrow> string \<Rightarrow> goerr + string"
  EncryptOAEP :: "string \<Rightarrow> goerr + string"
  DecryptOAEP :: "string \<Rightarrow> goerr + string"
  json_header :: "header \<Rightarrow> string"
  unjson_header :: "string \<Rightarrow> header option"
  json_payload :: "'q \<Rightarrow> goerr + string"
  unjson_payload :: "string \<Rightarrow> 'q option"
  json_resp :: "'r \<Rightarrow> goerr + string"
  unjson_resp :: "string \<Rightarrow> goerr + 'r"

definition NewHeader :: "int \<Rightarrow> string \<Rightarrow> uint64 \<Rightarrow> string \<Rightarrow> header" where
  "NewHeader now nonce subDeviceId key =
     \<lparr> Timestamp = now, Nonce = nonce, SubDeviceId = subDeviceId, Key = key, Secret = [] \<rparr>"

section \<open>Building and parsing messages\<close>

definition toBase64 :: "('q, 'r) codecs \<Rightarrow> header \<Rightarrow> string" where
  "toBase64 C h = raw64 C (json_header C h)"

definition base64ToPtr :: "('q, 'r) codecs \<Rightarrow> string \<Rightarrow> header option" where
  "base64ToPtr C data = (case unraw64 C data of None \<Rightarrow> None | Some bs \<Rightarrow> unjson_header C bs)"

text \<open>\<open>bs\<close> is the outcome of \<^verbatim>\<open>json.Marshal(data)\<close>.\<close>

definition buildMessage :: "('q, 'r) codecs \<Rightarrow> header \<Rightarrow> string \<Rightarrow> goerr + string \<Rightarrow> goerr + string" where
  "buildMessage C h secret bs =
     (case bs of
        Inl e \<Rightarrow> Inl e
      | Inr bs \<Rightarrow>
          (case EncryptCBC C bs secret (Nonce h) of
             Inl e \<Rightarrow> Inl e
           | Inr encrypted \<Rightarrow>
               let text = toBase64 C h @ ''.'' @ b64 C encrypted in Inr (text @ ''.'' @ md5 C text)))"

definition buildRequest :: "('q, 'r) codecs \<Rightarrow> 'q \<Rightarrow> header \<Rightarrow> string \<Rightarrow> goerr + string" where
  "buildRequest C req h secret =
     (case EncryptOAEP C secret of
        Inl e \<Rightarrow> Inl e
      | Inr encryptedSecret \<Rightarrow> buildMessage C (h\<lparr>Secret := b64 C encryptedSecret\<rparr>) secret (json_payload C req))"

definition ParseRequest :: "('q, 'r) codecs \<Rightarrow> string \<Rightarrow> goerr + header \<times> string" where
  "ParseRequest C receive =
     (case split_at CHR ''.'' receive of
        [p0, p1, p2] \<Rightarrow>
          if md5 C (p0 @ ''.'' @ p1) \<noteq> p2 then Inl (ErrorNew ''failed to checksum'')
          else (case base64ToPtr C p0 of
                  None \<Rightarrow> Inl (ErrorNew ''failed to decode Header'')
                | Some h \<Rightarrow> Inr (h, p1))
      | _ \<Rightarrow> Inl (ErrorNew ''invalid data format''))"

text \<open>The client's \<open>decode\<close>: \<^verbatim>\<open>MustDecodeString\<close> panics on text that is not base64.\<close>

definition decode :: "('q, 'r) codecs \<Rightarrow> string \<Rightarrow> string \<Rightarrow> string \<Rightarrow> (goerr + 'r) option" where
  "decode C receive secret nonce =
     (case split_at CHR ''.'' receive of
        [p0, p1, p2] \<Rightarrow>
          if md5 C (p0 @ ''.'' @ p1) \<noteq> p2 then Some (Inl (ErrorNew ''failed to checksum''))
          else (case unb64 C p1 of
                  None \<Rightarrow> None
                | Some encrypted \<Rightarrow>
                    (case DecryptCBC C encrypted secret nonce of
                       Inl e \<Rightarrow> Some (Inl e)
                     | Inr raw \<Rightarrow> Some (unjson_resp C raw)))
      | _ \<Rightarrow> Some (Inl (ErrorNew receive)))"

text \<open>
  \<open>HandleRequest\<close>: the handler works on a state \<open>'s\<close> and returns a response and an error; both the message and
  the handler's error are returned.
\<close>

definition HandleRequest ::
    "('q, 'r) codecs \<Rightarrow> int \<Rightarrow> header \<Rightarrow> string \<Rightarrow> ('q \<Rightarrow> 's \<Rightarrow> ('s \<times> 'r \<times> goerr option) option) \<Rightarrow> 's \<Rightarrow>
     ('s \<times> string \<times> goerr option) option" where
  "HandleRequest C now h encryptedPayload handler s =
     (case unb64 C (Secret h) of
        None \<Rightarrow> None
      | Some es \<Rightarrow>
          (case DecryptOAEP C es of
             Inl e \<Rightarrow> Some (s, [], Some e)
           | Inr secret \<Rightarrow>
               (case unb64 C encryptedPayload of
                  None \<Rightarrow> None
                | Some bs \<Rightarrow>
                    (case DecryptCBC C bs secret (Nonce h) of
                       Inl e \<Rightarrow> Some (s, [], Some e)
                     | Inr plBs \<Rightarrow>
                         (case unjson_payload C plBs of
                            None \<Rightarrow> Some (s, [], Some (ErrorNew ''failed to decode payload''))
                          | Some req \<Rightarrow>
                              (case handler req s of
                                 None \<Rightarrow> None
                               | Some (s', resp, err) \<Rightarrow>
                                   Some (s', (case buildMessage C (h\<lparr>Timestamp := now\<rparr>) secret (json_resp C resp) of
                                               Inl _ \<Rightarrow> [] | Inr data \<Rightarrow> data), err)))))))"

text \<open>
  \<open>RequestClient.Do\<close>: \<open>transmit\<close> sends the request and waits for the reply, both of which may fail.
\<close>

definition Do ::
    "('q, 'r) codecs \<Rightarrow> string \<Rightarrow> (string \<Rightarrow> goerr + string) \<Rightarrow> header \<Rightarrow> 'q \<Rightarrow> (goerr + 'r) option" where
  "Do C secret transmit h req =
     (case buildRequest C req h secret of
        Inl e \<Rightarrow> Some (Inl e)
      | Inr request \<Rightarrow>
          (case transmit request of
             Inl e \<Rightarrow> Some (Inl e)
           | Inr receive \<Rightarrow> decode C receive secret (Nonce h)))"

section \<open>Properties\<close>

definition codecs_law :: "('q, 'r) codecs \<Rightarrow> bool" where
  "codecs_law C \<longleftrightarrow>
     (\<forall>x. CHR ''.'' \<notin> set (md5 C x)) \<and> (\<forall>x. CHR ''.'' \<notin> set (b64 C x)) \<and> (\<forall>x. CHR ''.'' \<notin> set (raw64 C x)) \<and>
     (\<forall>x. unb64 C (b64 C x) = Some x) \<and> (\<forall>x. unraw64 C (raw64 C x) = Some x) \<and>
     (\<forall>x k n y. EncryptCBC C x k n = Inr y \<longrightarrow> DecryptCBC C y k n = Inr x) \<and>
     (\<forall>x k n. length k = 16 \<and> length n = 16 \<longrightarrow> (\<exists>y. EncryptCBC C x k n = Inr y)) \<and>
     (\<forall>x y. EncryptOAEP C x = Inr y \<longrightarrow> DecryptOAEP C y = Inr x) \<and>
     (\<forall>h. unjson_header C (json_header C h) = Some h) \<and>
     (\<forall>q x. json_payload C q = Inr x \<longrightarrow> unjson_payload C x = Some q) \<and>
     (\<forall>r x. json_resp C r = Inr x \<longrightarrow> unjson_resp C x = Inr r)"

lemma buildMessage_parts:
  assumes "codecs_law C" "buildMessage C h secret (Inr bs) = Inr m"
  obtains enc where "EncryptCBC C bs secret (Nonce h) = Inr enc"
    "split_at CHR ''.'' m = [toBase64 C h, b64 C enc, md5 C (toBase64 C h @ ''.'' @ b64 C enc)]"
proof -
  obtain enc where e: "EncryptCBC C bs secret (Nonce h) = Inr enc"
    "m = toBase64 C h @ CHR ''.'' # b64 C enc @ CHR ''.'' # md5 C (toBase64 C h @ ''.'' @ b64 C enc)"
    using assms(2) by (auto simp: buildMessage_def Let_def split: sum.splits)
  have "CHR ''.'' \<notin> set (toBase64 C h)" "CHR ''.'' \<notin> set (b64 C enc)" "\<And>x. CHR ''.'' \<notin> set (md5 C x)"
    using assms(1) by (simp_all add: codecs_law_def toBase64_def)
  then show thesis using that [OF e(1)] e(2) by (simp add: split_at_append split_at_none)
qed

lemma ParseRequest_build:
  assumes "codecs_law C" "buildMessage C h secret (Inr bs) = Inr m" "EncryptCBC C bs secret (Nonce h) = Inr enc"
  shows "ParseRequest C m = Inr (h, b64 C enc)"
proof -
  obtain enc' where p: "EncryptCBC C bs secret (Nonce h) = Inr enc'"
    "split_at CHR ''.'' m = [toBase64 C h, b64 C enc', md5 C (toBase64 C h @ ''.'' @ b64 C enc')]"
    using buildMessage_parts [OF assms(1,2)] by metis
  moreover have "base64ToPtr C (toBase64 C h) = Some h" using assms(1) by (simp add: base64ToPtr_def toBase64_def codecs_law_def)
  ultimately show ?thesis using assms(3) by (simp add: ParseRequest_def)
qed

lemma decode_build:
  assumes "codecs_law C" "buildMessage C h secret (json_resp C r) = Inr m"
  shows "decode C m secret (Nonce h) = Some (Inr r)"
proof -
  obtain bs where bs: "json_resp C r = Inr bs" using assms(2) by (auto simp: buildMessage_def split: sum.splits)
  then have "unjson_resp C bs = Inr r" using assms(1) by (simp add: codecs_law_def)
  moreover obtain enc where "EncryptCBC C bs secret (Nonce h) = Inr enc"
    "split_at CHR ''.'' m = [toBase64 C h, b64 C enc, md5 C (toBase64 C h @ ''.'' @ b64 C enc)]"
    using buildMessage_parts [OF assms(1)] assms(2) bs by metis
  ultimately show ?thesis using assms(1) by (auto simp: decode_def codecs_law_def)
qed

text \<open>What the server makes of a request, and the message that it builds from the response.\<close>

lemma request_handled:
  assumes "codecs_law C" "length secret = 16" "length (Nonce h) = 16" "EncryptOAEP C secret = Inr es"
    and "json_payload C req = Inr qb" "json_resp C resp = Inr rb" "handler req s = Some (s', resp, err)"
  shows "\<exists>request h' payload h2 reply. buildRequest C req h secret = Inr request \<and> ParseRequest C request = Inr (h', payload) \<and>
     SubDeviceId h' = SubDeviceId h \<and> Key h' = Key h \<and> HandleRequest C now h' payload handler s = Some (s', reply, err) \<and>
     Nonce h2 = Nonce h \<and> buildMessage C h2 secret (json_resp C resp) = Inr reply"
proof -
  let ?h = "h\<lparr>Secret := b64 C es\<rparr>"
  let ?h2 = "?h\<lparr>Timestamp := now\<rparr>"
  have total: "\<exists>y. EncryptCBC C x secret (Nonce h) = Inr y" for x
    using assms(1-3) unfolding codecs_law_def by (elim conjE allE [of _ x] allE [of _ secret] allE [of _ "Nonce h"]) blast
  then obtain enc where enc: "EncryptCBC C qb secret (Nonce ?h) = Inr enc" by fastforce
  then obtain request where m: "buildMessage C ?h secret (Inr qb) = Inr request" by (simp add: buildMessage_def Let_def)
  obtain enc2 where "EncryptCBC C rb secret (Nonce ?h2) = Inr enc2" using total by fastforce
  then obtain reply where r: "buildMessage C ?h2 secret (json_resp C resp) = Inr reply" using assms(6) by (simp add: buildMessage_def Let_def)
  have b: "buildRequest C req h secret = Inr request" using assms(4,5) m by (simp add: buildRequest_def)
  have law: "unb64 C (b64 C es) = Some es" "DecryptOAEP C es = Inr secret" "unb64 C (b64 C enc) = Some enc"
    "DecryptCBC C enc secret (Nonce h) = Inr qb" "unjson_payload C qb = Some req"
    using assms(1,4,5) enc by (auto simp: codecs_law_def)
  have "HandleRequest C now ?h (b64 C enc) handler s = Some (s', reply, err)"
    using law assms(7) r by (simp add: HandleRequest_def)
  then show ?thesis using b r ParseRequest_build [OF assms(1) m enc]
    by (intro exI [of _ request] exI [of _ ?h] exI [of _ "b64 C enc"] exI [of _ ?h2] exI [of _ reply]) simp
qed

text \<open>
  A request reaches the handler unchanged and its answer comes back unchanged: when the server passes what it received
  through \<^verbatim>\<open>ParseRequest\<close> and \<^verbatim>\<open>HandleRequest\<close>, the handler is called exactly once, with the request the client
  gave to \<^verbatim>\<open>Do\<close> and the device id and key of its header, and \<^verbatim>\<open>Do\<close> returns the response of the handler, also when the handler
  reports an error (which stays with the server).
\<close>
theorem request_roundtrip:
  assumes "codecs_law C" "length secret = 16" "length (Nonce h) = 16" "EncryptOAEP C secret = Inr es"
    and "json_payload C req = Inr qb" "json_resp C resp = Inr rb" "handler req s = Some (s', resp, err)"
  shows "\<exists>request h' payload reply. buildRequest C req h secret = Inr request \<and> ParseRequest C request = Inr (h', payload) \<and>
     SubDeviceId h' = SubDeviceId h \<and> Key h' = Key h \<and> HandleRequest C now h' payload handler s = Some (s', reply, err) \<and>
     Do C secret (\<lambda>m. if m = request then Inr reply else Inl EOF) h req = Some (Inr resp)"
proof -
  obtain request h' payload h2 reply where r: "buildRequest C req h secret = Inr request" "ParseRequest C request = Inr (h', payload)"
    "SubDeviceId h' = SubDeviceId h" "Key h' = Key h" "HandleRequest C now h' payload handler s = Some (s', reply, err)"
    "Nonce h2 = Nonce h" "buildMessage C h2 secret (json_resp C resp) = Inr reply"
    using request_handled [where handler = handler and s = s, OF assms] by blast
  have "decode C reply secret (Nonce h) = Some (Inr resp)" using decode_build [OF assms(1) r(7)] r(6) by simp
  then show ?thesis using r by (intro exI [of _ request] exI [of _ h'] exI [of _ payload] exI [of _ reply]) (simp add: Do_def)
qed

text \<open>
  The two ends use different types for the response: \<open>D\<close> decodes what \<open>C\<close> encoded to its view of it. All other codecs are the same.
\<close>

definition wire :: "('q, 'v) codecs \<Rightarrow> ('q, 'r) codecs \<Rightarrow> ('r \<Rightarrow> 'v) \<Rightarrow> bool" where
  "wire D C view \<longleftrightarrow> md5 D = md5 C \<and> b64 D = b64 C \<and> unb64 D = unb64 C \<and> raw64 D = raw64 C \<and> EncryptCBC D = EncryptCBC C \<and>
     DecryptCBC D = DecryptCBC C \<and> EncryptOAEP D = EncryptOAEP C \<and> json_header D = json_header C \<and> json_payload D = json_payload C \<and>
     (\<forall>r x. json_resp C r = Inr x \<longrightarrow> unjson_resp D x = Inr (view r))"

lemma wire_request: "wire D C view \<Longrightarrow> buildRequest D req h secret = buildRequest C req h secret"
  by (auto simp: wire_def buildRequest_def buildMessage_def toBase64_def Let_def split: sum.split)

lemma wire_decode:
  assumes "codecs_law C" "wire D C view" "buildMessage C h secret (json_resp C r) = Inr m"
  shows "decode D m secret (Nonce h) = Some (Inr (view r))"
proof -
  obtain bs where bs: "json_resp C r = Inr bs" using assms(3) by (auto simp: buildMessage_def split: sum.splits)
  obtain enc where e: "EncryptCBC C bs secret (Nonce h) = Inr enc"
    "split_at CHR ''.'' m = [toBase64 C h, b64 C enc, md5 C (toBase64 C h @ ''.'' @ b64 C enc)]"
    using buildMessage_parts [OF assms(1)] assms(3) bs by metis
  have "unb64 C (b64 C enc) = Some enc" "DecryptCBC C enc secret (Nonce h) = Inr bs" using assms(1) e(1) by (auto simp: codecs_law_def)
  then show ?thesis using assms(2) e(2) bs by (simp add: decode_def wire_def)
qed

text \<open>Codecs that satisfy the laws: every encoding quotes its text, so that no dot is left, and encryption is the identity.\<close>

definition quote :: "string \<Rightarrow> string" where
  "quote s = concat (map (\<lambda>c. if c = CHR ''.'' then ''dd'' else [CHR ''c'', c]) s)"

fun unquote :: "string \<Rightarrow> string option" where
  "unquote [] = Some []"
| "unquote (x # y # s) = map_option ((#) (if x = CHR ''d'' then CHR ''.'' else y)) (unquote s)"
| "unquote [x] = None"

lemma unquote_quote [simp]: "unquote (quote s) = Some s"
  by (induction s) (auto simp: quote_def)

lemma quote_no_dot [simp]: "CHR ''.'' \<notin> set (quote s)"
  by (induction s) (auto simp: quote_def)

definition int_text :: "int \<Rightarrow> string" where
  "int_text i = (if i < 0 then CHR ''-'' # replicate (nat (- i)) CHR ''1'' else replicate (nat i) CHR ''1'')"

definition text_int :: "string \<Rightarrow> int" where
  "text_int s = (case s of c # r \<Rightarrow> if c = CHR ''-'' then - int (length r) else int (length s) | [] \<Rightarrow> 0)"

lemma text_int_text [simp]: "text_int (int_text i) = i"
  by (cases "nat i") (auto simp: text_int_def int_text_def)

definition header_text :: "header \<Rightarrow> string" where
  "header_text h = int_text (Timestamp h) @ CHR ''.'' # quote (Nonce h) @ CHR ''.'' # replicate (unat (SubDeviceId h)) CHR ''1'' @
     CHR ''.'' # quote (Key h) @ CHR ''.'' # quote (Secret h)"

definition text_header :: "string \<Rightarrow> header option" where
  "text_header s =
     (case split_at CHR ''.'' s of
        [a, b, c, d, e] \<Rightarrow>
          (case (unquote b, unquote d, unquote e) of
             (Some n, Some k, Some x) \<Rightarrow> Some \<lparr> Timestamp = text_int a, Nonce = n, SubDeviceId = of_nat (length c), Key = k, Secret = x \<rparr>
           | _ \<Rightarrow> None)
      | _ \<Rightarrow> None)"

lemma text_header_text [simp]: "text_header (header_text h) = Some h"
proof -
  have "CHR ''.'' \<notin> set (int_text i)" for i by (simp add: int_text_def)
  then show ?thesis by (simp add: text_header_def header_text_def split_at_append split_at_none)
qed

definition plain_codecs :: "(string, string) codecs" where
  "plain_codecs =
     \<lparr> md5 = quote, b64 = quote, unb64 = unquote, raw64 = quote, unraw64 = unquote,
       EncryptCBC = (\<lambda>x k n. Inr x), DecryptCBC = (\<lambda>x k n. Inr x), EncryptOAEP = Inr, DecryptOAEP = Inr,
       json_header = header_text, unjson_header = text_header,
       json_payload = Inr, unjson_payload = Some, json_resp = Inr, unjson_resp = Inr \<rparr>"

lemma plain_codecs_law: "codecs_law plain_codecs"
  by (simp add: codecs_law_def plain_codecs_def)

theorem request_roundtrip_witness:
  "\<exists>request h' payload reply.
     buildRequest plain_codecs ''hello'' (NewHeader 5 ''0123456789abcdef'' 3 ''key'') ''fedcba9876543210'' = Inr request \<and>
     ParseRequest plain_codecs request = Inr (h', payload) \<and> SubDeviceId h' = 3 \<and>
     HandleRequest plain_codecs 6 h' payload (\<lambda>q n. Some (n + 1, ''you said '' @ q, None)) (0 :: nat) = Some (1, reply, None) \<and>
     Do plain_codecs ''fedcba9876543210'' (\<lambda>m. if m = request then Inr reply else Inl EOF)
       (NewHeader 5 ''0123456789abcdef'' 3 ''key'') ''hello'' = Some (Inr ''you said hello'')"
proof -
  have c: "EncryptOAEP plain_codecs x = Inr x" "json_payload plain_codecs x = Inr x" "json_resp plain_codecs x = Inr x" for x
    by (simp_all add: plain_codecs_def)
  have h: "length (Nonce (NewHeader 5 ''0123456789abcdef'' 3 ''key'')) = 16"
    "SubDeviceId (NewHeader 5 ''0123456789abcdef'' 3 ''key'') = 3" by (simp_all add: NewHeader_def)
  have "\<exists>request h' payload reply.
     buildRequest plain_codecs ''hello'' (NewHeader 5 ''0123456789abcdef'' 3 ''key'') ''fedcba9876543210'' = Inr request \<and>
     ParseRequest plain_codecs request = Inr (h', payload) \<and> SubDeviceId h' = SubDeviceId (NewHeader 5 ''0123456789abcdef'' 3 ''key'') \<and>
     Key h' = Key (NewHeader 5 ''0123456789abcdef'' 3 ''key'') \<and>
     HandleRequest plain_codecs 6 h' payload (\<lambda>q n. Some (n + 1, ''you said '' @ q, None)) (0 :: nat) = Some (1, reply, None) \<and>
     Do plain_codecs ''fedcba9876543210'' (\<lambda>m. if m = request then Inr reply else Inl EOF)
       (NewHeader 5 ''0123456789abcdef'' 3 ''key'') ''hello'' = Some (Inr ''you said hello'')"
    by (rule request_roundtrip [OF plain_codecs_law _ h(1)]) (simp_all add: c)
  then show ?thesis unfolding h(2) by blast
qed

text \<open>A request whose secret is not base64 is a panic in the server, not an error.\<close>

lemma HandleRequest_bad_secret: "unb64 C (Secret h) = None \<Longrightarrow> HandleRequest C now h payload handler s = None"
  by (simp add: HandleRequest_def)

section \<open>The public key of a client\<close>

text \<open>\<open>NewRequestClient\<close>: the key that PEM and PKIX decoding give must be an RSA key; the type assertion on any other panics.\<close>

datatype 'k any_key = RSAKey 'k | OtherKey

definition NewRequestClient :: "(string \<Rightarrow> bytes option) \<Rightarrow> (bytes \<Rightarrow> goerr + 'k any_key) \<Rightarrow> string \<Rightarrow> (goerr + 'k) option" where
  "NewRequestClient pemDecode parsePKIX publicKeyPEM =
     (case pemDecode publicKeyPEM of
        None \<Rightarrow> Some (Inl (ErrorNew ''invalid public key pem''))
      | Some block \<Rightarrow>
          (case parsePKIX block of
             Inl e \<Rightarrow> Some (Inl e)
           | Inr (RSAKey k) \<Rightarrow> Some (Inr k)
           | Inr OtherKey \<Rightarrow> None))"

lemma NewRequestClient_panics:
  "NewRequestClient pemDecode parsePKIX pem = None \<longleftrightarrow> (\<exists>block. pemDecode pem = Some block \<and> parsePKIX block = Inr OtherKey)"
  by (auto simp: NewRequestClient_def split: option.splits sum.splits any_key.splits)

end
