(* ===== verification/Session_Conn.thy ===== *)
theory Session_Conn
  imports Transport IpPool
begin

text \<open>
  Control messages over a stream connection, \<^verbatim>\<open>common/session/session_conn.go\<close>, and the error type of
  \<^verbatim>\<open>common/session/session.go\<close>. A message is a type byte, a 32-bit length and the data. The connection is
  the \<open>upstream\<close> of the transport theory. JSON of the error message is a pair of functions.
\<close>

section \<open>Errors\<close>

record session_error =
  se_msg :: string
  se_code :: int
  se_cause :: "string option"

definition NewError :: "string \<Rightarrow> int \<Rightarrow> session_error" where
  "NewError msg code = \<lparr> se_msg = msg, se_code = code, se_cause = None \<rparr>"

definition fmt_d :: "int \<Rightarrow> string" where
  "fmt_d i = (if i < 0 then ''-'' @ utoa (nat (- i)) else utoa (nat i))"

text \<open>\<open>Error\<close> with \<open>cause.Error()\<close> as the text of the cause.\<close>

definition Error_text :: "session_error \<Rightarrow> string" where
  "Error_text e =
     ''['' @ fmt_d (se_code e) @ '']'' @ se_msg e @ (case se_cause e of Some c \<Rightarrow> '': '' @ c | None \<Rightarrow> [])"

definition Code :: "session_error \<Rightarrow> int" where
  "Code e = se_code e"

definition Error_Clone :: "session_error \<Rightarrow> session_error" where
  "Error_Clone e = \<lparr> se_msg = se_msg e, se_code = se_code e, se_cause = se_cause e \<rparr>"

definition WithCause :: "session_error \<Rightarrow> string \<Rightarrow> session_error" where
  "WithCause e cause = (Error_Clone e)\<lparr>se_cause := Some cause\<rparr>"

text \<open>An error a connection is closed with or that a receive returns: another error, or a session error.\<close>

datatype conn_error = Plain goerr | SessionError session_error

section \<open>Sending\<close>

definition msgTypeData :: byte where
  "msgTypeData = 0"

definition msgTypeError :: byte where
  "msgTypeError = 1"

definition conn_frame :: "byte \<Rightarrow> bytes \<Rightarrow> bytes" where
  "conn_frame typ data = typ # put_be32 (of_nat (length data)) @ data"

definition send :: "byte \<Rightarrow> bytes \<Rightarrow> upstream \<Rightarrow> upstream \<times> goerr option" where
  "send typ data u = up_Write u (conn_frame typ data)"

definition conn_Send :: "bytes \<Rightarrow> upstream \<Rightarrow> upstream \<times> goerr option" where
  "conn_Send data u = send msgTypeData data u"

text \<open>
  The text and code sent for an error; \<open>plain_text\<close> is \<^verbatim>\<open>err.Error()\<close> of an error that is no session error.
\<close>

definition err_message :: "(goerr \<Rightarrow> string) \<Rightarrow> conn_error \<Rightarrow> string \<times> int" where
  "err_message plain_text err = (case err of Plain e \<Rightarrow> (plain_text e, 500) | SessionError e \<Rightarrow> (se_msg e, Code e))"

text \<open>\<open>marshal\<close> gives the JSON of the message.\<close>

definition conn_CloseWithError ::
    "(goerr \<Rightarrow> string) \<Rightarrow> (string \<times> int \<Rightarrow> bytes) \<Rightarrow> conn_error option \<Rightarrow> upstream \<Rightarrow> upstream" where
  "conn_CloseWithError plain_text marshal err u =
     (case err of
        None \<Rightarrow> u
      | Some e \<Rightarrow> fst (send msgTypeError (marshal (err_message plain_text e)) u))\<lparr>up_closed := True\<rparr>"

section \<open>Receiving\<close>

text \<open>The data (empty for nil) and the error, if any.\<close>

definition conn_Receive :: "(bytes \<Rightarrow> (string \<times> int) option) \<Rightarrow> upstream \<Rightarrow> upstream \<times> bytes \<times> conn_error option" where
  "conn_Receive unmarshal u =
     (case ReadFull u 5 of
        (u1, _, Some e) \<Rightarrow> (u1, [], Some (Plain e))
      | (u1, header, None) \<Rightarrow>
          let dataLen = unat (get_be32 (drop 1 header)) in
          if dataLen = 0 then (u1, [], None)
          else (case ReadFull u1 dataLen of
                  (u2, data, Some e) \<Rightarrow> (u2, data @ replicate (dataLen - length data) 0, Some (Plain e))
                | (u2, data, None) \<Rightarrow>
                    if header ! 0 = msgTypeError
                    then (u2, [], case unmarshal data of Some (msg, code) \<Rightarrow> Some (SessionError (NewError msg code)) | None \<Rightarrow> None)
                    else (u2, data, None)))"

section \<open>Properties\<close>

lemma conn_Receive_frame:
  assumes "length data < 2 ^ 32" "inb u = conn_frame typ data @ rest"
  shows "conn_Receive unmarshal u = (u\<lparr>inb := rest\<rparr>, if data = [] \<or> typ = msgTypeError then [] else data,
     if data \<noteq> [] \<and> typ = msgTypeError
     then map_option (\<lambda>(msg, code). SessionError (NewError msg code)) (unmarshal data) else None)"
proof -
  have u: "unat (of_nat (length data) :: uint32) = length data" using assms(1) by (simp add: unat_of_nat take_bit_eq_mod)
  have r: "ReadFull u 5 = (u\<lparr>inb := data @ rest\<rparr>, typ # put_be32 (of_nat (length data)), None)"
    using assms(2) by (simp add: ReadFull_def conn_frame_def put_be32_def)
  have r2: "ReadFull (u\<lparr>inb := data @ rest\<rparr>) (length data) = (u\<lparr>inb := rest\<rparr>, data, None)" by (simp add: ReadFull_def)
  show ?thesis using u r r2 by (auto simp: conn_Receive_def Let_def split: option.splits)
qed

text \<open>\<open>k\<close> calls of \<open>Receive\<close>.\<close>

fun conn_receive_n ::
    "(bytes \<Rightarrow> (string \<times> int) option) \<Rightarrow> nat \<Rightarrow> upstream \<Rightarrow> upstream \<times> (bytes \<times> conn_error option) list" where
  "conn_receive_n unmarshal 0 u = (u, [])"
| "conn_receive_n unmarshal (Suc k) u =
     (case conn_Receive unmarshal u of (u', r) \<Rightarrow> case conn_receive_n unmarshal k u' of (u'', rs) \<Rightarrow> (u'', r # rs))"

fun conn_send_all :: "bytes list \<Rightarrow> upstream \<Rightarrow> upstream" where
  "conn_send_all [] u = u"
| "conn_send_all (d # ds) u = conn_send_all ds (fst (conn_Send d u))"

lemma conn_send_all_out:
  "wfault u = None \<Longrightarrow> outb (conn_send_all ds u) = outb u @ concat (map (conn_frame msgTypeData) ds) \<and> wfault (conn_send_all ds u) = None"
  by (induction ds arbitrary: u) (auto simp: conn_Send_def send_def up_Write_def)

lemma conn_receive_n_frames:
  assumes "\<forall>d \<in> set ds. length d < 2 ^ 32" "inb u = concat (map (conn_frame msgTypeData) ds) @ rest"
  shows "conn_receive_n unmarshal (length ds + k) u =
     (case conn_receive_n unmarshal k (u\<lparr>inb := rest\<rparr>) of (u', rs) \<Rightarrow> (u', map (\<lambda>d. (d, None)) ds @ rs))"
  using assms
proof (induction ds arbitrary: u)
  case Nil
  then have "u\<lparr>inb := rest\<rparr> = u" by simp
  then show ?case by simp
next
  case (Cons d ds)
  have "conn_Receive unmarshal u = (u\<lparr>inb := concat (map (conn_frame msgTypeData) ds) @ rest\<rparr>, d, None)"
    using conn_Receive_frame [of d u msgTypeData "concat (map (conn_frame msgTypeData) ds) @ rest" unmarshal] Cons.prems
    by (auto simp: msgTypeData_def msgTypeError_def)
  then show ?case using Cons.IH [of "u\<lparr>inb := concat (map (conn_frame msgTypeData) ds) @ rest\<rparr>"] Cons.prems by (simp split: prod.splits)
qed

text \<open>
  Control messages over a stream arrive as they were sent: any sequence of messages of less than 4 GB, followed by a close
  with an error, is received as the same sequence of messages and then the error, with the code and text of a session error and
  code 500 for any other; if JSON restores the pair of text and code.
\<close>
theorem control_stream_roundtrip:
  assumes "wfault u = None" "outb u = []" "\<forall>d \<in> set ds. length d < 2 ^ 32" "em = err_message plain_text err"
    and "unmarshal (marshal em) = Some em" "marshal em \<noteq> []" "length (marshal em) < 2 ^ 32"
    and "inb v = outb (conn_CloseWithError plain_text marshal (Some err) (conn_send_all ds u))"
  shows "conn_receive_n unmarshal (length ds + 1) v =
     (v\<lparr>inb := []\<rparr>, map (\<lambda>d. (d, None)) ds @ [([], Some (SessionError (NewError (fst em) (snd em))))])"
proof -
  let ?f = "conn_frame msgTypeError (marshal em)"
  have v: "inb v = concat (map (conn_frame msgTypeData) ds) @ ?f"
    using assms(2,4,8) conn_send_all_out [OF assms(1), of ds] by (simp add: conn_CloseWithError_def send_def up_Write_def)
  have "conn_Receive unmarshal (v\<lparr>inb := ?f\<rparr>) = (v\<lparr>inb := []\<rparr>, [], Some (SessionError (NewError (fst em) (snd em))))"
    using conn_Receive_frame [of "marshal em" "v\<lparr>inb := ?f\<rparr>" msgTypeError "[]" unmarshal] assms(5-7) by (simp add: case_prod_unfold)
  then show ?thesis unfolding conn_receive_n_frames [OF assms(3) v] by (simp add: One_nat_def)
qed

text \<open>A codec for the demonstration: the code in four bytes, then the text.\<close>

definition demo_marshal :: "string \<times> int \<Rightarrow> bytes" where
  "demo_marshal em = put_be32 (of_int (snd em)) @ map (\<lambda>c. of_nat (of_char c)) (fst em)"

definition demo_unmarshal :: "bytes \<Rightarrow> (string \<times> int) option" where
  "demo_unmarshal bs = Some (map (\<lambda>b. char_of (unat b)) (drop 4 bs), uint (get_be32 bs))"

theorem control_stream_roundtrip_witness:
  "\<exists>v. conn_receive_n demo_unmarshal 3 v = (v\<lparr>inb := []\<rparr>, [([1, 2, 3], None), ([4], None), ([], Some (SessionError (NewError ''unauthorized'' 401)))])"
proof -
  let ?u = "\<lparr> inb = [], rfault = EOF, outb = [], wfault = None, up_closed = False \<rparr>"
  let ?e = "SessionError (WithCause (NewError ''unauthorized'' 401) ''no such device'')"
  let ?out = "outb (conn_CloseWithError (\<lambda>_. []) demo_marshal (Some ?e) (conn_send_all [[1, 2, 3], [4]] ?u))"
  have m: "err_message (\<lambda>_. []) ?e = (''unauthorized'', 401)"
    by (simp add: err_message_def WithCause_def Error_Clone_def NewError_def Code_def)
  have j: "demo_unmarshal (demo_marshal (''unauthorized'', 401)) = Some (''unauthorized'', 401)" by code_simp
  have "conn_receive_n demo_unmarshal (length [[1, 2, 3], [4 :: byte]] + 1) (?u\<lparr>inb := ?out\<rparr>) =
     ((?u\<lparr>inb := ?out\<rparr>)\<lparr>inb := []\<rparr>, map (\<lambda>d. (d, None)) [[1, 2, 3], [4]] @
       [([], Some (SessionError (NewError (fst (''unauthorized'', 401 :: int)) (snd (''unauthorized'', 401)))))])"
    by (rule control_stream_roundtrip [where marshal = demo_marshal and plain_text = "\<lambda>_. []" and err = ?e and u = ?u])
      (simp_all add: m j, simp_all add: demo_marshal_def)
  moreover have "length [[1, 2, 3], [4 :: byte]] + 1 = 3" by simp
  ultimately show ?thesis by (intro exI [of _ "?u\<lparr>inb := ?out\<rparr>"]) (simp only: list.map fst_conv snd_conv append.simps)
qed

text \<open>An empty message, of any type, is received as no data and no error.\<close>

lemma conn_Receive_empty:
  "inb u = conn_frame typ [] @ rest \<Longrightarrow> conn_Receive unmarshal u = (u\<lparr>inb := rest\<rparr>, [], None)"
  using conn_Receive_frame [of "[]" u "typ" rest unmarshal] by simp

end
