(* ===== verification/Server_Net.thy ===== *)
theory Server_Net
  imports Quota Metrics "HOL-Library.AList"
begin

text \<open>
  Networks, sessions and their life cycle in the server: \<^verbatim>\<open>vnet/server/network.go\<close>,
  \<^verbatim>\<open>network_mgr.go\<close>, \<^verbatim>\<open>session.go\<close>, the session part of \<^verbatim>\<open>server.go\<close>, and the dispatch of a device
  in \<^verbatim>\<open>manager/server/internal/logic/network/device.go\<close>. Sessions and networks are shared through
  pointers, so the state has a store for each, and a reference is a natural number. A \<^verbatim>\<open>sync.Map\<close> is an
  association list. What the manager's database answers is an argument. \<open>None\<close> is a run-time panic.
\<close>

section \<open>State\<close>

record device =
  dev_Id :: string
  dev_Name :: string
  dev_CIDR :: string
  dev_MTU :: int
  dev_Key :: string
  dev_traffic :: quota_row
  dev_bandwidth :: quota_row

text \<open>What \<^verbatim>\<open>storage\<close> of a session holds: peer information, a time, a connection.\<close>

datatype stored = Peer string | At int | RxConn nat

record srv_session =
  ss_IP :: string
  ss_SessionId :: string
  ss_NetworkId :: string
  ss_device :: "device option"
  ss_network :: "nat option"
  ss_quota :: "quota option"
  ss_bandwidth :: int
  ss_limiter :: "int option"
  ss_sig :: bool
  ss_conn_closed :: bool
  ss_storage :: "(string \<times> stored) list"
  ss_created :: int
  ss_metrics :: transport_metrics

record net =
  net_ID :: string
  net_CIDR :: string
  net_MTU :: int
  net_metrics :: transport_metrics
  net_sessions :: "(string \<times> nat) list"
  net_router :: "nat router"
  net_pool :: ip_allocator
  net_key :: string
  net_started :: int

record server =
  sessions :: "(string \<times> nat) list"
  sess :: "nat \<rightharpoonup> srv_session"
  nets :: "nat \<rightharpoonup> net"
  networks :: "(string \<times> nat) list"
  peerMappingVersion :: uint64
  submissions :: "(nat \<times> int) list"

section \<open>Networks\<close>

definition NewNetwork :: "string \<Rightarrow> string \<Rightarrow> int \<Rightarrow> string \<Rightarrow> int \<Rightarrow> goerr + net" where
  "NewNetwork nid cidr mtu key now =
     (case NewIPAllocator cidr of
        Inl e \<Rightarrow> Inl e
      | Inr allocator \<Rightarrow>
          Inr \<lparr> net_ID = nid, net_CIDR = cidr, net_MTU = mtu, net_metrics = NewTransportMetrics, net_sessions = [],
                net_router = NewRouter, net_pool = allocator, net_key = key, net_started = now \<rparr>)"

definition ReleaseDevice :: "string \<Rightarrow> net \<Rightarrow> net \<times> goerr option" where
  "ReleaseDevice cidr n =
     (case ReleaseIP (net_pool n) cidr of (p, err) \<Rightarrow>
        (n\<lparr>net_sessions := AList.delete cidr (net_sessions n), net_pool := p\<rparr>, err))"

definition RegisterSession :: "string \<Rightarrow> nat \<Rightarrow> net \<Rightarrow> net" where
  "RegisterSession cidr ref n = n\<lparr>net_sessions := AList.update cidr ref (net_sessions n)\<rparr>"

definition SessionById :: "server \<Rightarrow> net \<Rightarrow> string \<Rightarrow> nat option" where
  "SessionById s n sid =
     map_option snd (find (\<lambda>(_, ref). case sess s ref of Some x \<Rightarrow> ss_SessionId x = sid | None \<Rightarrow> False) (net_sessions n))"

text \<open>\<open>ListSessions\<close>: by time of creation; sessions created in the same second keep the order of the map here, in Go any.\<close>

definition ListSessions :: "server \<Rightarrow> net \<Rightarrow> nat list" where
  "ListSessions s n = sort_key (\<lambda>ref. case sess s ref of Some x \<Rightarrow> ss_created x | None \<Rightarrow> 0) (map snd (net_sessions n))"

text \<open>The network manager.\<close>

definition RegisterNetwork :: "nat \<Rightarrow> server \<Rightarrow> server" where
  "RegisterNetwork ref s =
     (case nets s ref of
        None \<Rightarrow> s
      | Some n \<Rightarrow> if net_ID n \<noteq> [] then s\<lparr>networks := AList.update (net_ID n) ref (networks s)\<rparr> else s)"

definition RemoveNetwork :: "string \<Rightarrow> server \<Rightarrow> server" where
  "RemoveNetwork nid s = s\<lparr>networks := AList.delete nid (networks s)\<rparr>"

definition GetNetwork :: "string \<Rightarrow> server \<Rightarrow> nat option" where
  "GetNetwork nid s = map_of (networks s) nid"

definition GetAllNetworks :: "server \<Rightarrow> (string \<times> nat) list" where
  "GetAllNetworks s = networks s"

definition NetworkCount :: "server \<Rightarrow> nat" where
  "NetworkCount s = length (networks s)"

section \<open>Sessions\<close>

definition newServerSession :: "int \<Rightarrow> string \<Rightarrow> srv_session" where
  "newServerSession now sid =
     \<lparr> ss_IP = [], ss_SessionId = sid, ss_NetworkId = [], ss_device = None, ss_network = None, ss_quota = None,
       ss_bandwidth = 0, ss_limiter = None, ss_sig = False, ss_conn_closed = False, ss_storage = [],
       ss_created = now, ss_metrics = NewTransportMetrics \<rparr>"

definition upd_session :: "nat \<Rightarrow> (srv_session \<Rightarrow> srv_session) \<Rightarrow> server \<Rightarrow> server" where
  "upd_session ref f s = s\<lparr>sess := (sess s)(ref := map_option f (sess s ref))\<rparr>"

definition session_Stop :: "nat \<Rightarrow> server \<Rightarrow> server" where
  "session_Stop ref s = upd_session ref (\<lambda>x. x\<lparr>ss_sig := True\<rparr>) s"

definition network_Stop :: "net \<Rightarrow> server \<Rightarrow> server" where
  "network_Stop n s = fold (\<lambda>(_, ref) s. session_Stop ref s) (net_sessions n) s"

definition CloseWithError :: "nat \<Rightarrow> server \<Rightarrow> server" where
  "CloseWithError ref s = upd_session ref (\<lambda>x. x\<lparr>ss_conn_closed := True\<rparr>) s"

definition session_Release :: "nat \<Rightarrow> server \<Rightarrow> (server \<times> int) option" where
  "session_Release ref s =
     (case sess s ref of
        None \<Rightarrow> None
      | Some x \<Rightarrow>
          (case (ss_quota x, ss_network x) of
             (Some q, Some nref) \<Rightarrow>
               (case (nets s nref, ss_device x) of
                  (Some n, Some dev) \<Rightarrow>
                    let (q', u, submitted) = CommitUsage q;
                        (n', err) = ReleaseDevice (dev_CIDR dev) n
                    in (case UnRegister (net_router n') (ss_IP x @ ''/32'') of
                          None \<Rightarrow> None
                        | Some r \<Rightarrow>
                            Some (CloseWithError ref
                                    (s\<lparr>sess := (sess s)(ref \<mapsto> x\<lparr>ss_quota := Some q'\<rparr>),
                                       nets := (nets s)(nref \<mapsto> n'\<lparr>net_router := r\<rparr>),
                                       submissions := submissions s @ map (Pair ref) submitted\<rparr>), u))
                | _ \<Rightarrow> None)
           | _ \<Rightarrow> None))"

section \<open>Dispatching a device\<close>

record sub_device =
  sd_NetworkId :: string
  sd_DeviceId :: string
  sd_FixedIP :: int

text \<open>The answers of the manager's services for one login.\<close>

record login =
  lg_sub :: "goerr + sub_device"
  lg_last :: string
  lg_device :: "goerr + string"
  lg_bw :: "goerr + quota_row"
  lg_dt :: "goerr + quota_row"
  lg_draw :: "nat \<Rightarrow> nat"

definition stop_last :: "string \<Rightarrow> nat \<Rightarrow> server \<Rightarrow> server option" where
  "stop_last lastSessionId nref s =
     (if lastSessionId = [] then Some s
      else case nets s nref of
        None \<Rightarrow> None
      | Some n \<Rightarrow>
          (case SessionById s n lastSessionId of
             None \<Rightarrow> Some s
           | Some l \<Rightarrow> map_option fst (session_Release l (session_Stop l s))))"

definition assign :: "login \<Rightarrow> sub_device \<Rightarrow> ip_allocator \<Rightarrow> string pool_result" where
  "assign lg sd p = (if sd_FixedIP sd > 0 then AssignByOffset p (of_int (sd_FixedIP sd)) else AssignRandom p (lg_draw lg))"

definition AcquireDevice :: "login \<Rightarrow> nat \<Rightarrow> server \<Rightarrow> (server \<times> (goerr + device)) option" where
  "AcquireDevice lg ref s =
     (case lg_sub lg of
        Inl e \<Rightarrow> Some (s, Inl e)
      | Inr sd \<Rightarrow>
          (case GetNetwork (sd_NetworkId sd) s of
             None \<Rightarrow> Some (s, Inl (ErrorNew ''no network instance running''))
           | Some nref \<Rightarrow>
               (case stop_last (lg_last lg) nref (upd_session ref (\<lambda>x. x\<lparr>ss_network := Some nref\<rparr>) s) of
                  None \<Rightarrow> None
                | Some s2 \<Rightarrow>
                    (case lg_device lg of
                       Inl e \<Rightarrow> Some (s2, Inl e)
                     | Inr name \<Rightarrow>
                         (case nets s2 nref of
                            None \<Rightarrow> None
                          | Some n \<Rightarrow>
                              (case assign lg sd (net_pool n) of
                                 None \<Rightarrow> None
                               | Some (p, Inl e) \<Rightarrow> Some (s2\<lparr>nets := (nets s2)(nref \<mapsto> n\<lparr>net_pool := p\<rparr>)\<rparr>, Inl e)
                               | Some (p, Inr cidr) \<Rightarrow>
                                   let n' = n\<lparr>net_pool := p\<rparr>; s3 = s2\<lparr>nets := (nets s2)(nref \<mapsto> n')\<rparr> in
                                   (case lg_bw lg of
                                      Inl e \<Rightarrow> Some (s3, Inl (ErrorNew ''get bandwidth quota failed''))
                                    | Inr bw \<Rightarrow>
                                        (case lg_dt lg of
                                           Inl e \<Rightarrow> Some (s3, Inl (ErrorNew ''get bandwidth quota failed''))
                                         | Inr dt \<Rightarrow>
                                             Some (s3\<lparr>nets := (nets s3)(nref \<mapsto> RegisterSession cidr ref n')\<rparr>,
                                                   Inr \<lparr> dev_Id = sd_DeviceId sd, dev_Name = name, dev_CIDR = cidr,
                                                         dev_MTU = net_MTU n, dev_Key = [], dev_traffic = dt,
                                                         dev_bandwidth = bw \<rparr>)))))))))"

text \<open>\<^verbatim>\<open>ip, _, _ := net.ParseCIDR(dev.CIDR); ip.To4().String()\<close>; the text of a nil address is \<^verbatim>\<open><nil>\<close>.\<close>

definition cidr_ip :: "string \<Rightarrow> string" where
  "cidr_ip cidr =
     (case ParseCIDR cidr of
        None \<Rightarrow> ''<nil>''
      | Some (addr, _, _) \<Rightarrow> (case To4 addr of None \<Rightarrow> ''<nil>'' | Some ip4 \<Rightarrow> ip4_text ip4))"

text \<open>
  The handler that \<open>handshake\<close> runs: the device is acquired and recorded in the session. The second
  component is the error the handler returns.
\<close>

definition handshake_handler :: "login \<Rightarrow> nat \<Rightarrow> server \<Rightarrow> (server \<times> goerr option) option" where
  "handshake_handler lg ref s =
     (case AcquireDevice lg ref s of
        None \<Rightarrow> None
      | Some (s', Inl e) \<Rightarrow> Some (s', Some (ErrorNew ''resource error''))
      | Some (s', Inr dev) \<Rightarrow>
          (case sess s' ref of
             None \<Rightarrow> None
           | Some x \<Rightarrow>
               (case ss_network x of
                  None \<Rightarrow> Some (s', Some (ErrorNew ''resource error''))
                | Some nref \<Rightarrow>
                    (case nets s' nref of
                       None \<Rightarrow> None
                     | Some n \<Rightarrow>
                         Some (upd_session ref (\<lambda>x. x\<lparr>ss_IP := cidr_ip (dev_CIDR dev), ss_NetworkId := net_ID n,
                                                      ss_device := Some (dev\<lparr>dev_Key := net_key n\<rparr>)\<rparr>) s', None)))))"

section \<open>The life of a session\<close>

text \<open>
  \<open>handleSession\<close> after a successful handshake, up to its loop: the session becomes reachable by its
  address and its route, its quota and its limiter are set. \<open>qa\<close> is the answer of
  \<^verbatim>\<open>GetQuotaAdaptor\<close>: the maximum and the stored usage. The flag tells whether the loop is entered.
\<close>

definition session_start :: "nat \<Rightarrow> goerr + int \<times> (goerr + int) \<Rightarrow> server \<Rightarrow> (server \<times> bool) option" where
  "session_start ref qa s =
     (case sess s ref of
        None \<Rightarrow> None
      | Some x \<Rightarrow>
          (case (ss_network x, ss_device x) of
             (Some nref, Some dev) \<Rightarrow>
               (case nets s nref of
                  None \<Rightarrow> None
                | Some n \<Rightarrow>
                    (case Register (net_router n) (ss_IP x @ ''/32'') ref of
                       None \<Rightarrow> None
                     | Some r \<Rightarrow>
                         let s1 = s\<lparr>sessions := AList.update (ss_IP x) ref (sessions s),
                                    nets := (nets s)(nref \<mapsto> n\<lparr>net_router := r\<rparr>)\<rparr> in
                         (case qa of
                            Inl e \<Rightarrow> Some (s1, False)
                          | Inr (mx, load) \<Rightarrow>
                              (case New mx load of
                                 Inl e \<Rightarrow> Some (CloseWithError ref s1, False)
                               | Inr q \<Rightarrow>
                                   let bw = q_value (dev_bandwidth dev);
                                       maxSpeed = quot (wrap64 (bw * 1024 * 1024)) 8
                                   in Some (upd_session ref (\<lambda>x. x\<lparr>ss_quota := Some q, ss_bandwidth := bw,
                                        ss_limiter := (if maxSpeed > 0 then Some maxSpeed else None)\<rparr>) s1, True)))))
           | _ \<Rightarrow> None))"

text \<open>The deferred function of \<open>handleSession\<close>.\<close>

definition session_finish :: "nat \<Rightarrow> server \<Rightarrow> server option" where
  "session_finish ref s =
     (case session_Release ref s of
        None \<Rightarrow> None
      | Some (s', u) \<Rightarrow>
          (case sess s' ref of
             None \<Rightarrow> None
           | Some x \<Rightarrow> Some (s'\<lparr>peerMappingVersion := peerMappingVersion s' + 1,
                                 sessions := AList.delete (ss_IP x) (sessions s')\<rparr>)))"

end
