(* ===== verification/Server_Ops.thy ===== *)
theory Server_Ops
  imports Server_Net Session_Request
begin

text \<open>
  What the server does for a running session: the periodic loops of \<^verbatim>\<open>vnet/server/server.go\<close> and
  \<^verbatim>\<open>loop.go\<close>, the function calls of \<^verbatim>\<open>manager.go\<close> and \<^verbatim>\<open>manager_functions.go\<close>, the negotiation and the
  proxy of a transport, and the whole handshake. A tick of a loop visits the sessions in the order of the
  table; Go's \<^verbatim>\<open>Range\<close> may take another order. \<open>None\<close> is a run-time panic. Times are in nanoseconds.
\<close>

section \<open>The periodic loops\<close>

definition sessionStorageKeyLastPing :: string where
  "sessionStorageKeyLastPing = ''last_ping''"

definition sessionStorageKeyP2PPeer :: string where
  "sessionStorageKeyP2PPeer = ''p2p_peer''"

definition store :: "string \<Rightarrow> stored \<Rightarrow> nat \<Rightarrow> server \<Rightarrow> server" where
  "store k v ref s = upd_session ref (\<lambda>x. x\<lparr>ss_storage := AList.update k v (ss_storage x)\<rparr>) s"

text \<open>\<open>checkStatusLoop\<close> on one session, and one pass over the table.\<close>

definition check_session :: "int \<Rightarrow> string \<times> nat \<Rightarrow> server \<Rightarrow> server option" where
  "check_session now e s =
     (case e of (ip, ref) \<Rightarrow>
        case sess s ref of
          None \<Rightarrow> None
        | Some ss \<Rightarrow>
            (case map_of (ss_storage ss) sessionStorageKeyLastPing of
               None \<Rightarrow> Some (store ip (At now) ref s)
             | Some (At lst) \<Rightarrow>
                 if now - lst > 10 * 1000000000
                 then Some ((session_Stop ref s)\<lparr>sessions := AList.delete ip (sessions s)\<rparr>)
                 else Some s
             | Some _ \<Rightarrow> None))"

fun pass :: "(string \<times> nat \<Rightarrow> server \<Rightarrow> server option) \<Rightarrow> (string \<times> nat) list \<Rightarrow> server \<Rightarrow> server option" where
  "pass f [] s = Some s"
| "pass f (e # es) s = (case f e s of None \<Rightarrow> None | Some s' \<Rightarrow> pass f es s')"

definition checkStatus_tick :: "int \<Rightarrow> server \<Rightarrow> server option" where
  "checkStatus_tick now s = pass (check_session now) (sessions s) s"

definition updateUsage :: "string \<times> nat \<Rightarrow> server \<Rightarrow> server option" where
  "updateUsage e s =
     (case e of (_, ref) \<Rightarrow>
        case sess s ref of
          None \<Rightarrow> None
        | Some ss \<Rightarrow>
            (case ss_quota ss of
               None \<Rightarrow> Some s
             | Some q \<Rightarrow>
                 let (q', _, submitted) = CommitUsage q in
                 Some (s\<lparr>sess := (sess s)(ref \<mapsto> ss\<lparr>ss_quota := Some q'\<rparr>), submissions := submissions s @ map (Pair ref) submitted\<rparr>)))"

definition usage_tick :: "server \<Rightarrow> server option" where
  "usage_tick s = pass updateUsage (sessions s) s"

definition session_metrics :: "string \<times> nat \<Rightarrow> server \<Rightarrow> server option" where
  "session_metrics e s =
     (case e of (_, ref) \<Rightarrow>
        case sess s ref of
          None \<Rightarrow> None
        | Some ss \<Rightarrow>
            (case ss_network ss of
               None \<Rightarrow> None
             | Some nref \<Rightarrow>
                 (case nets s nref of
                    None \<Rightarrow> None
                  | Some n \<Rightarrow>
                      let (mx, nm) = updateSessionMetrics (ss_metrics ss) (net_metrics n) in
                      Some (s\<lparr>sess := (sess s)(ref \<mapsto> ss\<lparr>ss_metrics := mx\<rparr>),
                              nets := (nets s)(nref \<mapsto> n\<lparr>net_metrics := nm\<rparr>)\<rparr>))))"

definition network_metrics :: "server \<Rightarrow> server" where
  "network_metrics s =
     fold (\<lambda>(_, nref) s. s\<lparr>nets := (nets s)(nref := map_option (\<lambda>n. n\<lparr>net_metrics := UpdateAll (net_metrics n)\<rparr>) (nets s nref))\<rparr>)
       (GetAllNetworks s) s"

definition server_metrics_tick :: "server \<Rightarrow> server option" where
  "server_metrics_tick s = map_option network_metrics (pass session_metrics (sessions s) s)"

section \<open>Function calls\<close>

text \<open>The values that arguments and results carry.\<close>

datatype any_value = VNil | VString string

record FuncCallRequest =
  fr_RequestId :: string
  fr_FuncName :: string
  fr_Args :: "(string \<times> any_value) list"

record FuncCallResponse =
  fp_RequestId :: string
  fp_Code :: int
  fp_Data :: any_value
  fp_Message :: string

text \<open>
  Library code and clock as the handlers see them: the digest of the router's fingerprint, base64 of JSON, and the identity
  of the signaling server.
\<close>

record call_env =
  ce_now :: int
  ce_md5 :: "string \<Rightarrow> string"
  ce_keys :: "string list \<Rightarrow> string"
  ce_mapping :: "(string \<times> string) list \<Rightarrow> string"
  ce_info :: string

type_synonym call_result = "(server \<times> FuncCallResponse option \<times> goerr option) option"
type_synonym handler = "call_env \<Rightarrow> nat \<Rightarrow> FuncCallRequest \<Rightarrow> server \<Rightarrow> call_result"

definition ok_response :: "any_value \<Rightarrow> FuncCallResponse" where
  "ok_response d = \<lparr> fp_RequestId = [], fp_Code = 0, fp_Data = d, fp_Message = [] \<rparr>"

definition session_net :: "server \<Rightarrow> nat \<Rightarrow> net option" where
  "session_net s ref = (case sess s ref of None \<Rightarrow> None | Some ss \<Rightarrow> (case ss_network ss of None \<Rightarrow> None | Some nref \<Rightarrow> nets s nref))"

definition funcPing :: handler where
  "funcPing E ref req s =
     (let s' = store sessionStorageKeyLastPing (At (ce_now E)) ref s in
      case session_net s' ref of
        None \<Rightarrow> None
      | Some n \<Rightarrow>
          Some (s', Some (ok_response (VString (MD5 (ce_md5 E) (net_router n) @ '','' @ utoa (unat (peerMappingVersion s'))))), None))"

definition funcGetRouteData :: handler where
  "funcGetRouteData E ref req s =
     (case session_net s ref of
        None \<Rightarrow> None
      | Some n \<Rightarrow> Some (s, Some (ok_response (VString (ce_keys E (Keys (net_router n))))), None))"

definition funcGetP2PRelayInfo :: handler where
  "funcGetP2PRelayInfo E ref req s = Some (s, Some (ok_response (VString (ce_info E))), None)"

definition peer_of :: "srv_session \<Rightarrow> string option" where
  "peer_of ss = (case map_of (ss_storage ss) sessionStorageKeyP2PPeer of Some (Peer p) \<Rightarrow> if p = [] then None else Some p | _ \<Rightarrow> None)"

definition relay_mapping :: "server \<Rightarrow> (string \<times> string) list" where
  "relay_mapping s =
     fold (\<lambda>(_, ref) m. case sess s ref of
             None \<Rightarrow> m
           | Some ss \<Rightarrow> (case peer_of ss of None \<Rightarrow> m | Some p \<Rightarrow> AList.update (ss_IP ss) p m)) (sessions s) []"

definition funcGetP2PRelayMapping :: handler where
  "funcGetP2PRelayMapping E ref req s = Some (s, Some (ok_response (VString (ce_mapping E (relay_mapping s)))), None)"

definition funcRegisterP2PPeer :: handler where
  "funcRegisterP2PPeer E ref req s =
     (case map_of (fr_Args req) ''peer'' of
        None \<Rightarrow> Some (s, Some (ok_response VNil), None)
      | Some (VString peer) \<Rightarrow>
          if peer = [] then Some (s, Some (ok_response VNil), None)
          else (case sess s ref of
                  None \<Rightarrow> None
                | Some ss \<Rightarrow>
                    (case map_of (ss_storage ss) sessionStorageKeyP2PPeer of
                       Some _ \<Rightarrow> Some (s, Some (ok_response VNil), None)
                     | None \<Rightarrow>
                         Some ((store sessionStorageKeyP2PPeer (Peer peer) ref s)\<lparr>peerMappingVersion := peerMappingVersion s + 1\<rparr>,
                               Some (ok_response VNil), None)))
      | Some VNil \<Rightarrow> None)"

definition RegisterHandler :: "(string \<times> handler) list \<Rightarrow> (string \<times> handler) list \<Rightarrow> (string \<times> handler) list" where
  "RegisterHandler infos functions = fold (\<lambda>(name, fn) m. AList.update name fn m) infos functions"

text \<open>The handlers that \<open>NewServer\<close> registers.\<close>

definition server_functions :: "(string \<times> handler) list" where
  "server_functions = RegisterHandler
     [(''ping'', funcPing), (''get_router_data'', funcGetRouteData), (''get_p2p_peer_info'', funcGetP2PRelayInfo),
      (''get_p2p_relay_mapping'', funcGetP2PRelayMapping), (''register_p2p_peer'', funcRegisterP2PPeer)] []"

definition handleFuncCall :: "(string \<times> handler) list \<Rightarrow> call_env \<Rightarrow> nat \<Rightarrow> FuncCallRequest \<Rightarrow> server \<Rightarrow> call_result" where
  "handleFuncCall functions E ref req s =
     (case map_of functions (fr_FuncName req) of
        Some f \<Rightarrow> map_option (\<lambda>(s', resp, err). (s', map_option (\<lambda>r. r\<lparr>fp_RequestId := fr_RequestId req\<rparr>) resp, err)) (f E ref req s)
      | None \<Rightarrow> Some (s, Some \<lparr> fp_RequestId = fr_RequestId req, fp_Code = -1, fp_Data = VNil, fp_Message = ''unknown func name'' \<rparr>, None))"

definition MessageTypeFuncCall :: byte where
  "MessageTypeFuncCall = 1"

definition MessageTypeServerEvent :: byte where
  "MessageTypeServerEvent = 2"

text \<open>
  \<open>HandleFuncCallEvent\<close>: the state, the message sent to the client, if any, and the error. \<open>unjson\<close> decodes a request,
  \<open>json\<close> encodes a response.
\<close>

definition HandleFuncCallEvent ::
    "(bytes \<Rightarrow> goerr + FuncCallRequest) \<Rightarrow> (FuncCallResponse option \<Rightarrow> bytes) \<Rightarrow> (string \<times> handler) list \<Rightarrow> call_env \<Rightarrow> nat \<Rightarrow>
     bytes \<Rightarrow> server \<Rightarrow> (server \<times> bytes option \<times> goerr option) option" where
  "HandleFuncCallEvent unjson json functions E ref data s =
     (case unjson data of
        Inl e \<Rightarrow> Some (s, None, Some e)
      | Inr req \<Rightarrow>
          (case handleFuncCall functions E ref req s of
             None \<Rightarrow> None
           | Some (s', resp, Some e) \<Rightarrow> Some (s', None, Some e)
           | Some (s', resp, None) \<Rightarrow> Some (s', Some (MessageTypeFuncCall # json resp), None)))"

definition PushEvent :: "(string \<times> string \<times> any_value \<Rightarrow> bytes) \<Rightarrow> string \<Rightarrow> string \<Rightarrow> any_value \<Rightarrow> bytes" where
  "PushEvent json uuid event data = MessageTypeServerEvent # json (uuid, event, data)"

section \<open>Negotiation and proxy of a transport\<close>

text \<open>
  \<open>negotiation\<close>: \<open>first\<close> is what the first read of up to 15 bytes returned within the time limit. The result is the
  destination session, and the acknowledgement written to the client.
\<close>

definition negotiation :: "nat \<Rightarrow> string option \<Rightarrow> server \<Rightarrow> ((goerr + nat \<times> string) \<times> byte option) option" where
  "negotiation ref first s =
     (case first of
        None \<Rightarrow> Some (Inl (ErrorNew ''read first pkg timeout''), None)
      | Some first \<Rightarrow>
          let dst = take 15 first in
          (case session_net s ref of
             None \<Rightarrow> None
           | Some n \<Rightarrow>
               (case RouteString (net_router n) dst of
                  None \<Rightarrow> Some (Inl (ErrorNew ''route not found''), None)
                | Some v \<Rightarrow>
                    (case sess s ref of
                       None \<Rightarrow> None
                     | Some ss \<Rightarrow>
                         (case ss_quota ss of
                            None \<Rightarrow> None
                          | Some q \<Rightarrow> Some (Inr (v, dst), Some (if IsExceeded q then 2 else 1)))))))"

definition choose_limiter :: "srv_session \<Rightarrow> srv_session \<Rightarrow> int option" where
  "choose_limiter dstSess srcSess =
     (if ss_bandwidth dstSess > 0 \<and> ss_bandwidth srcSess > 0
      then if ss_bandwidth dstSess > ss_bandwidth srcSess then ss_limiter dstSess else ss_limiter srcSess
      else if ss_bandwidth dstSess > 0 then ss_limiter dstSess
      else if ss_bandwidth srcSess > 0 then ss_limiter srcSess
      else None)"

text \<open>One read of the source and the write of what was read to the destination.\<close>

record proxy_io =
  nr :: nat
  er :: "goerr option"
  nw :: nat
  ew :: "goerr option"

definition count_tx :: "nat \<Rightarrow> nat \<Rightarrow> server \<Rightarrow> server" where
  "count_tx ref n s = upd_session ref (\<lambda>x. x\<lparr>ss_metrics := (ss_metrics x)\<lparr>
     TxBytes := BytesCounter_Add (of_nat n) (TxBytes (ss_metrics x)), TxPackets := PacketCounter_Add 1 (TxPackets (ss_metrics x))\<rparr>\<rparr>) s"

definition count_rx :: "nat \<Rightarrow> nat \<Rightarrow> server \<Rightarrow> server" where
  "count_rx ref n s = upd_session ref (\<lambda>x. x\<lparr>ss_metrics := (ss_metrics x)\<lparr>
     RxBytes := BytesCounter_Add (of_nat n) (RxBytes (ss_metrics x)), RxPackets := PacketCounter_Add 1 (RxPackets (ss_metrics x))\<rparr>\<rparr>) s"

text \<open>\<open>AddUsage\<close> of a session's quota; without a quota the method call panics, except for a zero value.\<close>

definition add_usage :: "nat \<Rightarrow> int \<Rightarrow> server \<Rightarrow> (server \<times> goerr option) option" where
  "add_usage ref v s =
     (case sess s ref of
        None \<Rightarrow> None
      | Some ss \<Rightarrow>
          (case ss_quota ss of
             None \<Rightarrow> if v = 0 then Some (s, None) else None
           | Some q \<Rightarrow>
               let (q', err, submitted) = AddUsage v q in
               Some (s\<lparr>sess := (sess s)(ref \<mapsto> ss\<lparr>ss_quota := Some q'\<rparr>), submissions := submissions s @ map (Pair ref) submitted\<rparr>, err)))"

text \<open>
  A round of the loop of \<open>proxy\<close>: \<open>Inl\<close> the error with which the loop returns (\<open>None\<close> for success), \<open>Inr\<close> the
  bytes written so far. The wait of the limiter delays the round and has no other effect on it.
\<close>

definition proxy_round :: "nat \<Rightarrow> nat \<Rightarrow> proxy_io \<Rightarrow> int \<Rightarrow> server \<Rightarrow> (server \<times> int \<times> (goerr option + unit)) option" where
  "proxy_round src dst io written s =
     (let finish = (\<lambda>(s, written). Some (s, written, case er io of
                      None \<Rightarrow> Inr () | Some e \<Rightarrow> Inl (if e = EOF then None else Some e)))
      in if nr io > 0
         then (case add_usage src (int (nr io)) (count_tx src (nr io) s) of
                 None \<Rightarrow> None
               | Some (s1, Some e) \<Rightarrow> Some (s1, written, Inl (Some e))
               | Some (s1, None) \<Rightarrow>
                   (case add_usage dst (int (nw io)) s1 of
                      None \<Rightarrow> None
                    | Some (s2, Some e) \<Rightarrow> Some (s2, written, Inl (Some e))
                    | Some (s2, None) \<Rightarrow>
                        let s3 = count_rx dst (nw io) s2 in
                        (case ew io of
                           Some e \<Rightarrow> Some (s3, written, Inl (Some e))
                         | None \<Rightarrow> finish (s3, written + int (nw io)))))
         else finish (s, written))"

fun proxy_loop :: "nat \<Rightarrow> nat \<Rightarrow> proxy_io list \<Rightarrow> int \<Rightarrow> server \<Rightarrow> (server \<times> int \<times> (goerr option + unit)) option" where
  "proxy_loop src dst [] written s = Some (s, written, Inr ())"
| "proxy_loop src dst (io # ios) written s =
     (case proxy_round src dst io written s of
        None \<Rightarrow> None
      | Some (s', written', Inl e) \<Rightarrow> Some (s', written', Inl e)
      | Some (s', written', Inr _) \<Rightarrow> proxy_loop src dst ios written' s')"

text \<open>
  \<open>handleTransport\<close>: \<open>writer\<close> is the outcome of \<^verbatim>\<open>GetDstTransportWriter\<close>. The result: the state, the acknowledgement, and the
  outcome of the proxy, if it was started.
\<close>

definition handleTransport ::
    "nat \<Rightarrow> string option \<Rightarrow> goerr option \<Rightarrow> proxy_io list \<Rightarrow> server \<Rightarrow>
     (server \<times> byte option \<times> (int \<times> (goerr option + unit)) option) option" where
  "handleTransport ref first writer ios s =
     (case negotiation ref first s of
        None \<Rightarrow> None
      | Some (Inl e, ack) \<Rightarrow> Some (s, ack, None)
      | Some (Inr (dstSession, dst), ack) \<Rightarrow>
          (case writer of
             Some e \<Rightarrow> Some (s, ack, None)
           | None \<Rightarrow> map_option (\<lambda>(s', res). (s', ack, Some res)) (proxy_loop ref dstSession ios 0 s)))"

section \<open>The handshake\<close>

datatype hs_response = HsSession srv_session | HsError goerr

text \<open>
  \<open>recv\<close> is the outcome of the receive with its time limit, \<open>keyfor\<close> the answer of the manager to the request for the
  private key: the codecs with that key. \<open>mk\<close> gives the answers of the manager's services for the request.
\<close>

definition handshake ::
    "bool \<Rightarrow> goerr + string \<Rightarrow> ('q, hs_response) codecs \<Rightarrow> (uint64 \<Rightarrow> string \<Rightarrow> goerr + ('q, hs_response) codecs) \<Rightarrow>
     (uint64 \<Rightarrow> 'q \<Rightarrow> login) \<Rightarrow> int \<Rightarrow> nat \<Rightarrow> server \<Rightarrow> (server \<times> string option \<times> goerr option) option" where
  "handshake ms recv C keyfor mk now ref s =
     (if \<not> ms then Some (s, None, Some (ErrorNew ''unauthorized''))
      else case recv of
        Inl e \<Rightarrow> Some (s, None, Some e)
      | Inr datagram \<Rightarrow>
          (case ParseRequest C datagram of
             Inl e \<Rightarrow> Some (s, None, Some (ErrorNew ''invalid handshake packet''))
           | Inr (header, payload) \<Rightarrow>
               (case keyfor (SubDeviceId header) (Key header) of
                  Inl e \<Rightarrow> Some (s, None, Some (ErrorNew ''management server error: fetch private key''))
                | Inr K \<Rightarrow>
                    (case HandleRequest K now header payload
                            (\<lambda>req s. case handshake_handler (mk (SubDeviceId header) req) ref s of
                                       None \<Rightarrow> None
                                     | Some (s', Some e) \<Rightarrow> Some (s', HsError e, Some e)
                                     | Some (s', None) \<Rightarrow> map_option (\<lambda>ss. (s', HsSession ss, None)) (sess s' ref)) s of
                       None \<Rightarrow> None
                     | Some (s', data, err) \<Rightarrow> Some (s', Some data, err)))))"

end
