(* ===== verification/Server_Props.thy ===== *)
theory Server_Props
  imports Server_Net IpPool_Props
begin

text \<open>
  The life of sessions: logins, starts, stops and ends of sessions in any order keep leases, session tables and routes of
  a network in step; and what the reconnect of a client does to them.
\<close>

section \<open>Host routes\<close>

lemma intToString_32: "intToString (int 32) = ''32''"
  by code_simp

lemma host_cidr:
  assumes "length b = 4"
  shows "cidr_route (ip4_text b @ ''/32'') = Some (True, bits b)" "\<not> mapped_cidr (ip4_text b @ ''/32'')"
proof -
  have t: "ip4_text b @ ''/32'' = ip4ToString b @ ''/'' @ intToString (int 32)"
    using intToString_32 by (simp add: ip4_text_eq)
  have p: "ParseCIDR (ip4_text b @ ''/32'') = Some (As16 b, map2 (AND) b (CIDRMask 32 4), CIDRMask 32 4)"
    unfolding t using ParseCIDR_text [OF ParseAddr_ip4 [OF assms] no_slash_ip4, of 32] assms by simp
  have "length (map2 (AND) b (CIDRMask 32 4)) = 4" using assms by simp
  moreover have "take 32 (bits (map2 (AND) b (CIDRMask 32 4))) = take 32 (bits b)"
    using take_masked [of "bits b" b] assms by simp
  ultimately show "cidr_route (ip4_text b @ ''/32'') = Some (True, bits b)" "\<not> mapped_cidr (ip4_text b @ ''/32'')"
    using assms by (simp_all add: cidr_route_def mapped_cidr_def p)
qed

lemma Register_host:
  "length b = 4 \<Longrightarrow> \<exists>r'. Register r (ip4_text b @ ''/32'') v = Some r' \<and> routes r' = (routes r)((True, bits b) \<mapsto> v)"
  using Register_routes [OF host_cidr(2), of b r v] by (simp add: host_cidr)

lemma UnRegister_host:
  "length b = 4 \<Longrightarrow> \<exists>r'. UnRegister r (ip4_text b @ ''/32'') = Some r' \<and> routes r' = (routes r)((True, bits b) := None)"
  using UnRegister_routes [OF host_cidr(2), of b r] by (simp add: host_cidr)

lemma host_route_wins: "length b = 4 \<Longrightarrow> routes r (True, bits b) = Some v \<Longrightarrow> lookupIPv4 r b = Some v"
  unfolding lookup_routes(1) lpm_Some by (rule exI [of _ "length (bits b)"]) simp

lemma cidr_ip_cidr_text:
  assumes "length b = 4" "subnetMaskBits p \<le> 32"
  shows "cidr_ip (cidr_text p (ip4_text b)) = ip4_text b"
proof -
  have "cidr_text p (ip4_text b) = ip4ToString b @ ''/'' @ intToString (int (subnetMaskBits p))"
    using assms(2) by (simp add: cidr_text_def ip4_text_eq utoa_decimal)
  moreover have "To4 (As16 b) = Some b" using assms(1) by (simp add: To4_def As16_def v4InV6Prefix_def)
  ultimately show ?thesis
    using ParseCIDR_text [OF ParseAddr_ip4 [OF assms(1)] no_slash_ip4, of "subnetMaskBits p"] assms
    by (simp add: cidr_ip_def)
qed

section \<open>The invariant\<close>

definition pool_ok :: "net \<Rightarrow> bool" where
  "pool_ok n \<longleftrightarrow> pool_of (net_CIDR n) (net_pool n) \<and> subnetMaskBits (net_pool n) \<le> 32"

text \<open>Session \<open>ref\<close> has the lease of its address \<open>b\<close> in its network, and its route once it is active.\<close>

definition holds :: "server \<Rightarrow> nat \<Rightarrow> bool \<Rightarrow> nat \<Rightarrow> bytes \<Rightarrow> bool" where
  "holds s ref active nref b \<longleftrightarrow> length b = 4 \<and> (\<exists>x n dev. sess s ref = Some x \<and> ss_network x = Some nref \<and>
     nets s nref = Some n \<and> ss_device x = Some dev \<and> ss_IP x = ip4_text b \<and>
     dev_CIDR dev = cidr_text (net_pool n) (ip4_text b) \<and> ip4_text b \<in> allocated (net_pool n) \<and>
     map_of (net_sessions n) (dev_CIDR dev) = Some ref \<and>
     (active \<longrightarrow> routes (net_router n) (True, bits b) = Some ref \<and> ss_quota x \<noteq> None))"

definition srv_inv :: "server \<times> nat set \<times> nat set \<Rightarrow> bool" where
  "srv_inv st \<longleftrightarrow> (case st of (s, L, A) \<Rightarrow>
     A \<subseteq> L \<and> (\<forall>nref n. nets s nref = Some n \<longrightarrow> pool_ok n) \<and> (\<forall>ref \<in> L. \<exists>nref b. holds s ref (ref \<in> A) nref b))"

section \<open>Steps\<close>

text \<open>
  The state with the sessions that were dispatched a device (\<open>L\<close>) and those in their loop (\<open>A\<close>). A login
  carries no previous session id.
\<close>

inductive srv_step :: "server \<times> nat set \<times> nat set \<Rightarrow> server \<times> nat set \<times> nat set \<Rightarrow> bool" where
  accept: "sess s ref = None \<Longrightarrow> srv_step (s, L, A) (s\<lparr>sess := (sess s)(ref \<mapsto> newServerSession now sid)\<rparr>, L, A)"
| login: "ref \<notin> L \<Longrightarrow> lg_last lg = [] \<Longrightarrow> handshake_handler lg ref s = Some (s', None) \<Longrightarrow> srv_step (s, L, A) (s', insert ref L, A)"
| refused: "ref \<notin> L \<Longrightarrow> lg_last lg = [] \<Longrightarrow> handshake_handler lg ref s = Some (s', Some e) \<Longrightarrow> srv_step (s, L, A) (s', L, A)"
| start: "ref \<in> L \<Longrightarrow> ref \<notin> A \<Longrightarrow> session_start ref qa s = Some (s', ok) \<Longrightarrow> srv_step (s, L, A) (s', L, if ok then insert ref A else A)"
| stop: "srv_step (s, L, A) (session_Stop ref s, L, A)"
| finish: "ref \<in> A \<Longrightarrow> session_finish ref s = Some s' \<Longrightarrow> srv_step (s, L, A) (s', L - {ref}, A - {ref})"

lemma ip4_text_bits: "length b = 4 \<Longrightarrow> length b' = 4 \<Longrightarrow> ip4_text b = ip4_text b' \<Longrightarrow> b = b'"
  using ip4_text_inject by blast

text \<open>A change that leaves the holder's record, network data, lease, table entry and route alone keeps its hold.\<close>

lemma holds_frame:
  assumes "holds s ref act nref b" "sess s ref = Some x" "nets s nref = Some n"
    and "sess s' ref = Some x'" "ss_network x' = ss_network x" "ss_device x' = ss_device x" "ss_IP x' = ss_IP x"
    and "act' \<longrightarrow> ss_quota x' \<noteq> None"
    and "nets s' nref = Some n'" "subnetMaskBits (net_pool n') = subnetMaskBits (net_pool n)"
    and "ip4_text b \<in> allocated (net_pool n) \<Longrightarrow> ip4_text b \<in> allocated (net_pool n')"
    and "map_of (net_sessions n') (cidr_text (net_pool n) (ip4_text b)) = map_of (net_sessions n) (cidr_text (net_pool n) (ip4_text b))"
    and "act' \<longrightarrow> routes (net_router n') (True, bits b) = Some ref"
  shows "holds s' ref act' nref b"
  using assms by (auto simp: holds_def cidr_text_def)

section \<open>Leases\<close>

lemma cidr_text_inject [simp]: "cidr_text p x = cidr_text p y \<longleftrightarrow> x = y"
  by (simp add: cidr_text_def)

lemma cidr_text_mark [simp]: "cidr_text (mark i p) = cidr_text p"
  by (simp add: cidr_text_def mark_def fun_eq_iff)

lemma subnetMaskBits_mark [simp]: "subnetMaskBits (mark i p) = subnetMaskBits p"
  by (simp add: mark_def)

lemma assign_cases:
  assumes "pool_of c p" "assign lg sd p = Some (p', res)"
  obtains e where "res = Inl e" "p' = p"
    | b where "length b = 4" "ip4_text b \<notin> allocated p" "p' = mark (ip4_text b) p" "res = Inr (cidr_text p (ip4_text b))"
proof -
  have "(\<exists>e. res = Inl e \<and> p' = p) \<or> (\<exists>v. let ip = ip4_text (put_be32 v) in
     ip \<notin> allocated p \<and> p' = mark ip p \<and> res = Inr (cidr_text p ip))"
  proof (cases "sd_FixedIP sd > 0")
    case True
    then have "AssignByOffset p (of_int (sd_FixedIP sd)) = Some (p', res)" using assms(2) by (simp add: assign_def)
    then show ?thesis using AssignByOffset_cases [OF assms(1) refl, of "of_int (sd_FixedIP sd)"] by (auto simp: Let_def)
  next
    case False
    then have "AssignRandom p (lg_draw lg) = Some (p', res)" using assms(2) by (simp add: assign_def)
    then have "(\<exists>e. res = Inl e \<and> p' = p) \<or> random_loop p (get_be32 (startIP p)) (lg_draw lg) 0 maxAttempts = (p', res)"
      using pool_of_facts(1,2) [OF assms(1)] by (auto simp: AssignRandom_def ipToUint32_4 split: if_splits)
    then show ?thesis using random_loop_cases [of p "get_be32 (startIP p)" "lg_draw lg" 0 maxAttempts p' res] by metis
  qed
  then show thesis using that(1) that(2) [of "put_be32 v" for v] by (auto simp: Let_def)
qed

text \<open>What \<open>AcquireDevice\<close> does to the server on a first login: nothing, a lease, or a lease with a table entry.\<close>

definition leased :: "nat \<Rightarrow> nat \<Rightarrow> net \<Rightarrow> bytes \<Rightarrow> server \<Rightarrow> server \<Rightarrow> bool" where
  "leased ref nref n b s s' \<longleftrightarrow> length b = 4 \<and> nets s nref = Some n \<and> ip4_text b \<notin> allocated (net_pool n) \<and>
     sess s' = (sess s)(ref := map_option (\<lambda>x. x\<lparr>ss_network := Some nref\<rparr>) (sess s ref)) \<and>
     nets s' = (nets s)(nref \<mapsto> n\<lparr>net_pool := mark (ip4_text b) (net_pool n)\<rparr>)"

lemma AcquireDevice_cases:
  assumes "lg_last lg = []" "AcquireDevice lg ref s = Some (s', res)" "\<forall>nref n. nets s nref = Some n \<longrightarrow> pool_ok n"
  obtains e where "res = Inl e" "nets s' = nets s" "\<And>k. k \<noteq> ref \<Longrightarrow> sess s' k = sess s k"
    | e nref n b where "res = Inl e" "leased ref nref n b s s'"
    | dev nref n b s1 where "res = Inr dev" "leased ref nref n b s s1" "dev_CIDR dev = cidr_text (net_pool n) (ip4_text b)"
        "sess s' = sess s1" "nets s' = (nets s1)(nref \<mapsto> RegisterSession (dev_CIDR dev) ref (n\<lparr>net_pool := mark (ip4_text b) (net_pool n)\<rparr>))"
proof (cases "lg_sub lg")
  case (Inl e)
  then show ?thesis using assms(2) that(1) [of e] by (simp add: AcquireDevice_def)
next
  case sd: (Inr sd)
  show ?thesis
  proof (cases "GetNetwork (sd_NetworkId sd) s")
    case None
    then show ?thesis using assms(2) sd that(1) by (auto simp: AcquireDevice_def)
  next
    case nw: (Some nref)
    let ?s2 = "upd_session ref (\<lambda>x. x\<lparr>ss_network := Some nref\<rparr>) s"
    have s2: "nets ?s2 = nets s" "\<And>k. k \<noteq> ref \<Longrightarrow> sess ?s2 k = sess s k" by (simp_all add: upd_session_def)
    show ?thesis
    proof (cases "lg_device lg")
      case (Inl e)
      then show ?thesis using assms(1,2) sd nw s2 that(1) by (auto simp: AcquireDevice_def stop_last_def)
    next
      case name: (Inr name)
      obtain n p r where a: "nets s nref = Some n" "assign lg sd (net_pool n) = Some (p, r)"
        using assms(1,2) sd nw name s2(1) by (auto simp: AcquireDevice_def stop_last_def split: option.splits prod.splits)
      note facts = assms(1,2) sd nw name a s2(1)
      have ok: "pool_of (net_CIDR n) (net_pool n)" using assms(3) a(1) by (simp add: pool_ok_def)
      show ?thesis
      proof (cases rule: assign_cases [OF ok a(2)])
        case (1 e)
        then have "res = Inl e" "nets s' = nets s" "\<And>k. k \<noteq> ref \<Longrightarrow> sess s' k = sess s k"
          using facts s2(2) by (auto simp: AcquireDevice_def stop_last_def map_upd_triv)
        then show ?thesis by (rule that(1))
      next
        case (2 b)
        let ?s1 = "?s2\<lparr>nets := (nets s)(nref \<mapsto> n\<lparr>net_pool := p\<rparr>)\<rparr>"
        have l: "leased ref nref n b s ?s1" using 2 a(1) by (simp add: leased_def upd_session_def)
        consider e where "res = Inl e" "s' = ?s1" | dev where "res = Inr dev" "dev_CIDR dev = cidr_text (net_pool n) (ip4_text b)"
          "s' = ?s1\<lparr>nets := (nets ?s1)(nref \<mapsto> RegisterSession (dev_CIDR dev) ref (n\<lparr>net_pool := p\<rparr>))\<rparr>"
          using facts 2 by (cases "lg_bw lg"; cases "lg_dt lg") (auto simp: AcquireDevice_def stop_last_def Let_def)
        then show ?thesis
        proof cases
          case 1
          then show ?thesis using l that(2) by blast
        next
          case dev: 2
          show ?thesis by (rule that(3) [OF dev(1) l dev(2)]) (simp_all add: dev(3) 2)
        qed
      qed
    qed
  qed
qed

section \<open>Every step keeps the invariant\<close>

lemma pool_ok_lease: "pool_ok n \<Longrightarrow> pool_ok (n\<lparr>net_pool := mark i (net_pool n)\<rparr>)"
  by (simp add: pool_ok_def)

lemma holdsE:
  assumes "holds s ref act nref b"
  obtains x n dev where "length b = 4" "sess s ref = Some x" "ss_network x = Some nref" "nets s nref = Some n"
    "ss_device x = Some dev" "ss_IP x = ip4_text b" "dev_CIDR dev = cidr_text (net_pool n) (ip4_text b)"
    "ip4_text b \<in> allocated (net_pool n)" "map_of (net_sessions n) (dev_CIDR dev) = Some ref"
    "act \<longrightarrow> routes (net_router n) (True, bits b) = Some ref \<and> ss_quota x \<noteq> None"
  using assms by (auto simp: holds_def)

lemma holds_cong: "sess s' r = sess s r \<Longrightarrow> nets s' nr = nets s nr \<Longrightarrow> holds s' r act nr b = holds s r act nr b"
  by (simp add: holds_def)

text \<open>A lease for another session does not touch a hold.\<close>

lemma holds_leased:
  assumes "holds s r act nr b'" "leased ref nref n b s s'" "r \<noteq> ref"
  shows "holds s' r act nr b'"
  using assms(1)
proof (rule holdsE)
  fix x m dev assume h: "length b' = 4" "sess s r = Some x" "ss_network x = Some nr" "nets s nr = Some m"
    "ss_device x = Some dev" "ss_IP x = ip4_text b'" "dev_CIDR dev = cidr_text (net_pool m) (ip4_text b')"
    "ip4_text b' \<in> allocated (net_pool m)" "map_of (net_sessions m) (dev_CIDR dev) = Some r"
    "act \<longrightarrow> routes (net_router m) (True, bits b') = Some r \<and> ss_quota x \<noteq> None"
  show ?thesis using h assms(2,3) by (cases "nr = nref") (auto simp: leased_def holds_def)
qed

lemma holds_registered:
  assumes "holds s r act nr b'" "leased ref nref n b s s1" "r \<noteq> ref"
    and "sess s' = sess s1" "c = cidr_text (net_pool n) (ip4_text b)"
    and "nets s' = (nets s1)(nref \<mapsto> RegisterSession c ref (n\<lparr>net_pool := mark (ip4_text b) (net_pool n)\<rparr>))"
  shows "holds s' r act nr b'"
  using holds_leased [OF assms(1,2,3)]
proof (rule holdsE)
  fix x m dev assume h: "length b' = 4" "sess s1 r = Some x" "ss_network x = Some nr" "nets s1 nr = Some m"
    "ss_device x = Some dev" "ss_IP x = ip4_text b'" "dev_CIDR dev = cidr_text (net_pool m) (ip4_text b')"
    "ip4_text b' \<in> allocated (net_pool m)" "map_of (net_sessions m) (dev_CIDR dev) = Some r"
    "act \<longrightarrow> routes (net_router m) (True, bits b') = Some r \<and> ss_quota x \<noteq> None"
  have "ip4_text b' \<in> allocated (net_pool n)" if "nr = nref"
    using assms(1,2) that by (auto simp: holds_def leased_def)
  then have "ip4_text b' \<noteq> ip4_text b" if "nr = nref" using assms(2) that by (auto simp: leased_def)
  then show ?thesis using h assms(2,4-6)
    by (cases "nr = nref") (auto simp: leased_def holds_def RegisterSession_def update_conv')
qed

lemma holds_upd_other: "r \<noteq> ref \<Longrightarrow> holds (upd_session ref f s) r act nr b = holds s r act nr b"
  by (rule holds_cong) (simp_all add: upd_session_def)

text \<open>A successful login gives the session its hold.\<close>

lemma login_holds:
  assumes "lg_last lg = []" "handshake_handler lg ref s = Some (s', None)" "\<forall>nref n. nets s nref = Some n \<longrightarrow> pool_ok n"
  shows "\<exists>nref b. holds s' ref False nref b"
    and "r \<noteq> ref \<Longrightarrow> holds s r act nr b' \<Longrightarrow> holds s' r act nr b'"
    and "nets s' nr = Some n' \<Longrightarrow> pool_ok n'"
proof -
  obtain s1 dev x nref n where h: "AcquireDevice lg ref s = Some (s1, Inr dev)" "sess s1 ref = Some x"
    "ss_network x = Some nref" "nets s1 nref = Some n"
    "s' = upd_session ref (\<lambda>x. x\<lparr>ss_IP := cidr_ip (dev_CIDR dev), ss_NetworkId := net_ID n, ss_device := Some (dev\<lparr>dev_Key := net_key n\<rparr>)\<rparr>) s1"
    using assms(2) by (auto simp: handshake_handler_def split: option.splits prod.splits sum.splits)
  obtain nref' n0 b s0 where l: "leased ref nref' n0 b s s0" "dev_CIDR dev = cidr_text (net_pool n0) (ip4_text b)"
    "sess s1 = sess s0" "nets s1 = (nets s0)(nref' \<mapsto> RegisterSession (dev_CIDR dev) ref (n0\<lparr>net_pool := mark (ip4_text b) (net_pool n0)\<rparr>))"
    by (rule AcquireDevice_cases [OF assms(1) h(1) assms(3)]) auto
  have eq: "nref' = nref" using l h by (auto simp: leased_def)
  have ok: "pool_ok n0" "length b = 4" using assms(3) l(1) by (auto simp: leased_def)
  have ip: "cidr_ip (cidr_text (net_pool n0) (ip4_text b)) = ip4_text b"
    using ok by (simp add: cidr_ip_cidr_text pool_ok_def)
  show "\<exists>nref b. holds s' ref False nref b"
    using l h eq ok ip by (intro exI [of _ nref] exI [of _ b]) (auto simp: holds_def leased_def upd_session_def RegisterSession_def update_conv')
  show "holds s' r act nr b'" if "r \<noteq> ref" "holds s r act nr b'"
    using holds_registered [OF that(2) l(1) that(1) l(3) l(2)] l(4) h(5) that by (simp add: holds_upd_other)
  show "pool_ok n'" if "nets s' nr = Some n'"
    using that l h ok(1) assms(3) eq by (auto simp: upd_session_def leased_def RegisterSession_def pool_ok_def split: if_splits)
qed

lemma refused_holds:
  assumes "lg_last lg = []" "handshake_handler lg ref s = Some (s', Some e)" "\<forall>nref n. nets s nref = Some n \<longrightarrow> pool_ok n"
  shows "r \<noteq> ref \<Longrightarrow> holds s r act nr b' \<Longrightarrow> holds s' r act nr b'"
    and "nets s' nr = Some n' \<Longrightarrow> pool_ok n'"
proof -
  obtain res where a: "AcquireDevice lg ref s = Some (s', res)" 
    using assms(2) by (auto simp: handshake_handler_def split: option.splits prod.splits sum.splits)
  show "holds s' r act nr b'" if "r \<noteq> ref" "holds s r act nr b'"
    using AcquireDevice_cases [OF assms(1) a assms(3)]
  proof cases
    case (1 e)
    then show ?thesis using that holds_cong [of s' r s nr] by simp
  next
    case (2 e nref n b)
    then show ?thesis using holds_leased that by blast
  next
    case (3 dev nref n b s1)
    then show ?thesis using holds_registered [OF that(2) 3(2) that(1)] by simp
  qed
  show "pool_ok n'" if "nets s' nr = Some n'"
    using AcquireDevice_cases [OF assms(1) a assms(3)]
  proof cases
    case (1 e)
    then show ?thesis using that assms(3) by simp
  next
    case (2 e nref n b)
    then show ?thesis using that assms(3) by (auto simp: leased_def pool_ok_lease split: if_splits)
  next
    case (3 dev nref n b s1)
    then show ?thesis using that assms(3) by (auto simp: leased_def RegisterSession_def pool_ok_def split: if_splits)
  qed
qed

lemma holds_distinct: "holds s r act nref b \<Longrightarrow> holds s r' act' nref b \<Longrightarrow> r = r'"
  by (auto simp: holds_def)

lemma holds_bits: "holds s r act nref b \<Longrightarrow> holds s r' act' nref b' \<Longrightarrow> r \<noteq> r' \<Longrightarrow> bits b \<noteq> bits b'"
proof
  assume h: "holds s r act nref b" "holds s r' act' nref b'" "r \<noteq> r'" and "bits b = bits b'"
  moreover have "length b = 4" "length b' = 4" using h(1,2) unfolding holds_def by simp_all
  ultimately have "b = b'" using bits_inject by simp
  then show False using holds_distinct h by blast
qed

lemma session_start_shape:
  assumes "session_start ref qa s = Some (s', ok)" "sess s ref = Some x" "ss_network x = Some nref" "nets s nref = Some n"
    "ss_device x = Some dev" "ss_IP x = ip4_text b" "Register (net_router n) (ip4_text b @ ''/32'') ref = Some rt"
  obtains x' where "nets s' = (nets s)(nref \<mapsto> n\<lparr>net_router := rt\<rparr>)" "sess s' = (sess s)(ref \<mapsto> x')"
    "ss_network x' = Some nref" "ss_device x' = Some dev" "ss_IP x' = ip4_text b" "ok \<longrightarrow> ss_quota x' \<noteq> None"
proof -
  have "\<exists>x'. nets s' = (nets s)(nref \<mapsto> n\<lparr>net_router := rt\<rparr>) \<and> sess s' = (sess s)(ref \<mapsto> x') \<and>
     ss_network x' = Some nref \<and> ss_device x' = Some dev \<and> ss_IP x' = ip4_text b \<and> (ok \<longrightarrow> ss_quota x' \<noteq> None)"
  proof (cases qa)
    case (Inl e)
    then show ?thesis using assms by (intro exI [of _ x]) (auto simp: session_start_def map_upd_triv)
  next
    case (Inr m)
    obtain mx load where m: "m = (mx, load)" by force
    show ?thesis
    proof (cases "New mx load")
      case (Inl e)
      then show ?thesis using assms Inr m
        by (intro exI [of _ "x\<lparr>ss_conn_closed := True\<rparr>"]) (auto simp: session_start_def CloseWithError_def upd_session_def)
    next
      case q: (Inr q)
      then show ?thesis using assms Inr m
        by (auto simp: session_start_def upd_session_def Let_def)
    qed
  qed
  then show thesis using that by blast
qed

text \<open>Entering the loop gives the session its route and its quota.\<close>

lemma start_holds:
  assumes "holds s ref act nref b" "session_start ref qa s = Some (s', ok)"
  shows "holds s' ref ok nref b"
    and "r \<noteq> ref \<Longrightarrow> holds s r act' nr b' \<Longrightarrow> holds s' r act' nr b'"
    and "\<forall>nref n. nets s nref = Some n \<longrightarrow> pool_ok n \<Longrightarrow> nets s' nr = Some n' \<Longrightarrow> pool_ok n'"
proof -
  from assms(1) obtain x n dev where h: "length b = 4" "sess s ref = Some x" "ss_network x = Some nref" "nets s nref = Some n"
    "ss_device x = Some dev" "ss_IP x = ip4_text b" "dev_CIDR dev = cidr_text (net_pool n) (ip4_text b)"
    "ip4_text b \<in> allocated (net_pool n)" "map_of (net_sessions n) (dev_CIDR dev) = Some ref"
    by (rule holdsE)
  from Register_host [OF h(1), of "net_router n" ref]
  obtain rt where r: "Register (net_router n) (ip4_text b @ ''/32'') ref = Some rt"
    "routes rt = (routes (net_router n))((True, bits b) \<mapsto> ref)" by (elim exE conjE)
  obtain x' where s': "nets s' = (nets s)(nref \<mapsto> n\<lparr>net_router := rt\<rparr>)" "sess s' = (sess s)(ref \<mapsto> x')"
    "ss_network x' = Some nref" "ss_device x' = Some dev" "ss_IP x' = ip4_text b" "ok \<longrightarrow> ss_quota x' \<noteq> None"
    using session_start_shape [OF assms(2) h(2-6) r(1)] by metis
  show "holds s' ref ok nref b" unfolding holds_def
    using h s' r(2) by (intro conjI exI [of _ x'] exI [of _ "n\<lparr>net_router := rt\<rparr>"] exI [of _ dev]) simp_all
  show "holds s' r act' nr b'" if "r \<noteq> ref" "holds s r act' nr b'"
  proof (cases "nr = nref")
    case True
    then have "bits b' \<noteq> bits b" using holds_bits [OF that(2)] assms(1) that(1) by blast
    then show ?thesis using that True h(4) s'(1,2) r(2) unfolding holds_def by auto
  next
    case False
    then show ?thesis using that s'(1,2) holds_cong [of s' r s nr] by simp
  qed
  show "pool_ok n'" if "\<forall>nref n. nets s nref = Some n \<longrightarrow> pool_ok n" "nets s' nr = Some n'"
    using that s'(1) h(4) by (auto simp: pool_ok_def split: if_splits)
qed

text \<open>The deferred release of an active session succeeds and touches no other hold.\<close>

lemma finish_holds:
  assumes "holds s ref True nref b"
  obtains s' where "session_finish ref s = Some s'"
    and "\<And>r act nr b'. r \<noteq> ref \<Longrightarrow> holds s r act nr b' \<Longrightarrow> holds s' r act nr b'"
    and "\<And>nr n'. \<forall>nref n. nets s nref = Some n \<longrightarrow> pool_ok n \<Longrightarrow> nets s' nr = Some n' \<Longrightarrow> pool_ok n'"
proof -
  from assms obtain x n dev where h: "length b = 4" "sess s ref = Some x" "ss_network x = Some nref" "nets s nref = Some n"
    "ss_device x = Some dev" "ss_IP x = ip4_text b" "dev_CIDR dev = cidr_text (net_pool n) (ip4_text b)"
    "ip4_text b \<in> allocated (net_pool n)" "ss_quota x \<noteq> None"
    by (rule holdsE) blast
  obtain q q' u sub where q: "ss_quota x = Some q" "CommitUsage q = (q', u, sub)" using h(9) by (metis not_Some_eq prod_cases3)
  from UnRegister_host [OF h(1), of "net_router n"]
  obtain rt where r: "UnRegister (net_router n) (ip4_text b @ ''/32'') = Some rt"
    "routes rt = (routes (net_router n))((True, bits b) := None)" by (elim exE conjE)
  let ?n' = "n\<lparr>net_sessions := AList.delete (dev_CIDR dev) (net_sessions n),
       net_pool := (net_pool n)\<lparr>allocated := allocated (net_pool n) - {ip4_text b}\<rparr>, net_router := rt\<rparr>"
  obtain x' s' where s': "session_finish ref s = Some s'" "nets s' = (nets s)(nref \<mapsto> ?n')" "sess s' = (sess s)(ref \<mapsto> x')"
    using h q r(1) by (simp add: session_finish_def session_Release_def ReleaseDevice_def ReleaseIP_def CloseWithError_def upd_session_def Let_def)
  have "holds s' r act nr b'" if hold: "r \<noteq> ref" "holds s r act nr b'" for r act nr b'
  proof (cases "nr = nref")
    case True
    have bb: "bits b' \<noteq> bits b" using holds_bits [OF that(2)] assms that(1) True by blast
    have "length b' = 4" using that(2) unfolding holds_def by simp
    then have ne: "ip4_text b' \<noteq> ip4_text b" using bb ip4_text_bits h(1) by blast
    obtain y where y: "sess s r = Some y" "act \<longrightarrow> ss_quota y \<noteq> None" "act \<longrightarrow> routes (net_router n) (True, bits b') = Some r"
      using hold(2) h(4) True unfolding holds_def by auto
    show ?thesis using hold True h(4,7) s'(2,3) r(2) y bb ne
      by (intro holds_frame [OF hold(2) y(1), of n s' y act ?n']) (simp_all add: delete_conv')
  next
    case False
    then show ?thesis using that s'(2,3) holds_cong [of s' r s nr] by simp
  qed
  moreover have "pool_ok n'" if "\<forall>nref n. nets s nref = Some n \<longrightarrow> pool_ok n" "nets s' nr = Some n'" for nr n'
    using that s'(2) h(4) by (auto simp: pool_ok_def split: if_splits)
  ultimately show thesis using that s'(1) by blast
qed

lemma srv_inv_step:
  assumes "srv_step st st'" "srv_inv st"
  shows "srv_inv st'"
  using assms
proof cases
  case (accept s ref L A now sid)
  have "r \<noteq> ref" if "holds s r act nr b" for r act nr b using that accept(3) by (auto simp: holds_def)
  then have "holds (s\<lparr>sess := (sess s)(ref \<mapsto> newServerSession now sid)\<rparr>) r act nr b" if "holds s r act nr b" for r act nr b
    using that by (subst holds_cong [of _ r s]) auto
  then show ?thesis using assms(2) unfolding accept srv_inv_def by fastforce
next
  case (login ref L lg s s' A)
  have inv: "A \<subseteq> L" "\<forall>nref n. nets s nref = Some n \<longrightarrow> pool_ok n" "\<forall>r \<in> L. \<exists>nref b. holds s r (r \<in> A) nref b"
    using assms(2) by (simp_all add: login srv_inv_def)
  note keep = login_holds [OF login(4,5) inv(2)]
  have "\<exists>nref b. holds s' r (r \<in> A) nref b" if "r \<in> insert ref L" for r
  proof (cases "r = ref")
    case True
    then have "(r \<in> A) = False" using inv(1) login(3) by blast
    then show ?thesis using keep(1) True by simp
  next
    case False
    then show ?thesis using that inv(3) keep(2) [of r "r \<in> A"] by blast
  qed
  then show ?thesis using inv(1) keep(3) by (auto simp: login srv_inv_def)
next
  case (refused ref L lg s s' e A)
  have inv: "A \<subseteq> L" "\<forall>nref n. nets s nref = Some n \<longrightarrow> pool_ok n" "\<forall>r \<in> L. \<exists>nref b. holds s r (r \<in> A) nref b"
    using assms(2) by (simp_all add: refused srv_inv_def)
  note keep = refused_holds [OF refused(4,5) inv(2)]
  have "\<exists>nref b. holds s' r (r \<in> A) nref b" if "r \<in> L" for r
    using that inv(3) refused(3) keep(1) [of r "r \<in> A"] by blast
  then show ?thesis using inv(1) keep(2) by (auto simp: refused srv_inv_def)
next
  case (start ref L A qa s s' ok)
  have inv: "A \<subseteq> L" "\<forall>nref n. nets s nref = Some n \<longrightarrow> pool_ok n" "\<forall>r \<in> L. \<exists>nref b. holds s r (r \<in> A) nref b"
    using assms(2) by (simp_all add: start srv_inv_def)
  obtain nref b where h: "holds s ref (ref \<in> A) nref b" using inv(3) start(3) by blast
  note keep = start_holds [OF h start(5)]
  have "\<exists>nref b. holds s' r (r \<in> (if ok then insert ref A else A)) nref b" if "r \<in> L" for r
  proof (cases "r = ref")
    case True
    have "(ref \<in> (if ok then insert ref A else A)) = ok" using start(4) by simp
    then show ?thesis using keep(1) True by auto
  next
    case False
    then show ?thesis using that inv(3) keep(2) [of r "r \<in> A"] by fastforce
  qed
  then show ?thesis using inv keep(3) start(3) by (auto simp: start srv_inv_def)
next
  case (stop s L A ref)
  have "holds (session_Stop ref s) r act nr b" if "holds s r act nr b" for r act nr b
    using that by (auto simp: holds_def session_Stop_def upd_session_def)
  then show ?thesis using assms(2) by (fastforce simp: stop srv_inv_def session_Stop_def upd_session_def)
next
  case (finish ref A s s' L)
  have inv: "A \<subseteq> L" "\<forall>nref n. nets s nref = Some n \<longrightarrow> pool_ok n" "\<forall>r \<in> L. \<exists>nref b. holds s r (r \<in> A) nref b"
    using assms(2) by (simp_all add: finish srv_inv_def)
  obtain nref b where "holds s ref (ref \<in> A) nref b" using inv(1,3) finish(3) by blast
  then have h: "holds s ref True nref b" using finish(3) by simp
  obtain s1 where s1: "session_finish ref s = Some s1" "\<And>r act nr b'. r \<noteq> ref \<Longrightarrow> holds s r act nr b' \<Longrightarrow> holds s1 r act nr b'"
    "\<And>nr n'. \<forall>nref n. nets s nref = Some n \<longrightarrow> pool_ok n \<Longrightarrow> nets s1 nr = Some n' \<Longrightarrow> pool_ok n'"
    using finish_holds [OF h] by metis
  have "\<exists>nref b. holds s1 r (r \<in> A - {ref}) nref b" if "r \<in> L - {ref}" for r
    using that inv(3) s1(2) [of r "r \<in> A"] by fastforce
  then show ?thesis using inv(1,2) s1(1,3) finish(4) by (auto simp: finish srv_inv_def)
qed

lemma srv_inv_reachable: "srv_step\<^sup>*\<^sup>* st st' \<Longrightarrow> srv_inv st \<Longrightarrow> srv_inv st'"
  by (induction rule: rtranclp_induct) (auto intro: srv_inv_step)

section \<open>Properties\<close>

text \<open>A server before its first session, with networks as \<open>NewNetwork\<close> makes them, of at most 32 mask bits.\<close>

definition boot :: "server \<Rightarrow> bool" where
  "boot s \<longleftrightarrow> sess s = Map.empty \<and> (\<forall>nref n. nets s nref = Some n \<longrightarrow>
     NewNetwork (net_ID n) (net_CIDR n) (net_MTU n) (net_key n) (net_started n) = Inr n \<and> subnetMaskBits (net_pool n) \<le> 32)"

lemma NewNetwork_pool: "NewNetwork i c m k t = Inr n \<Longrightarrow> pool_of c (net_pool n)"
  by (auto simp: NewNetwork_def intro: pool_of_new split: sum.splits)

lemma boot_inv: "boot s \<Longrightarrow> srv_inv (s, {}, {})"
  unfolding boot_def srv_inv_def pool_ok_def using NewNetwork_pool by fastforce

text \<open>What the invariant says of a session in its loop.\<close>

lemma srv_inv_active:
  assumes "srv_inv (s, L, A)" "ref \<in> A"
  shows "\<exists>x nref n b. sess s ref = Some x \<and> ss_network x = Some nref \<and> nets s nref = Some n \<and> length b = 4 \<and>
     ss_IP x = ip4_text b \<and> ip4_text b \<in> allocated (net_pool n) \<and> lookupIPv4 (net_router n) b = Some ref \<and>
     (\<forall>ref' \<in> L. \<forall>x'. sess s ref' = Some x' \<and> ss_network x' = Some nref \<and> ss_IP x' = ss_IP x \<longrightarrow> ref' = ref) \<and>
     session_finish ref s \<noteq> None"
proof -
  have inv: "A \<subseteq> L" "\<forall>r \<in> L. \<exists>nref b. holds s r (r \<in> A) nref b"
    using assms(1) by (simp_all add: srv_inv_def)
  then obtain nref b where "holds s ref (ref \<in> A) nref b" using assms(2) by blast
  then have h: "holds s ref True nref b" using assms(2) by simp
  then obtain x n dev where x: "length b = 4" "sess s ref = Some x" "ss_network x = Some nref" "nets s nref = Some n"
    "ss_device x = Some dev" "ss_IP x = ip4_text b" "ip4_text b \<in> allocated (net_pool n)" "routes (net_router n) (True, bits b) = Some ref"
    by (rule holdsE) blast
  have "ref' = ref" if r: "ref' \<in> L" "sess s ref' = Some x'" "ss_network x' = Some nref" "ss_IP x' = ss_IP x" for ref' x'
  proof -
    obtain nref' b' where h': "holds s ref' (ref' \<in> A) nref' b'" using inv(2) r(1) by blast
    then have "nref' = nref" "ip4_text b' = ip4_text b" "length b' = 4" using r x by (auto simp: holds_def)
    then show ?thesis using h h' holds_distinct ip4_text_bits x(1) by metis
  qed
  moreover have "session_finish ref s \<noteq> None" by (rule finish_holds [OF h]) simp
  ultimately show ?thesis using x host_route_wins [OF x(1,8)] by (intro exI [of _ x] exI [of _ nref] exI [of _ n] exI [of _ b]) blast
qed

text \<open>A server with one network, and logins with a fixed address.\<close>

definition demo_net :: net where
  "demo_net = \<lparr> net_ID = ''n'', net_CIDR = ''10.0.0.0/24'', net_MTU = 1400, net_metrics = NewTransportMetrics, net_sessions = [],
     net_router = NewRouter, net_pool = \<lparr>network = ''10.0.0.0/24'', startIP = [10, 0, 0, 1], endIP = [10, 0, 0, 254],
       allocated = {}, subnetMask = ''255.255.255.0'', subnetMaskBits = 24, totalIPs = 254\<rparr>, net_key = ''k'', net_started = 0 \<rparr>"

definition demo_server :: server where
  "demo_server = \<lparr> sessions = [], sess = Map.empty, nets = [0 \<mapsto> demo_net], networks = [(''n'', 0)], peerMappingVersion = 0, submissions = [] \<rparr>"

definition demo_login :: "string \<Rightarrow> login" where
  "demo_login prev = (let q = \<lparr> q_id = 1, q_name = ''q'', q_type = ''t'', q_unit = ''MB'', q_value = 100, q_period = ''m'' \<rparr> in
     \<lparr> lg_sub = Inr \<lparr> sd_NetworkId = ''n'', sd_DeviceId = ''d'', sd_FixedIP = 4 \<rparr>, lg_last = prev, lg_device = Inr ''pc'',
       lg_bw = Inr q, lg_dt = Inr q, lg_draw = (\<lambda>_. 0) \<rparr>)"

definition enter :: "string \<Rightarrow> string \<Rightarrow> nat \<Rightarrow> server \<Rightarrow> (server \<times> bool) option" where
  "enter prev sid ref s =
     (case handshake_handler (demo_login prev) ref (s\<lparr>sess := (sess s)(ref \<mapsto> newServerSession 0 sid)\<rparr>) of
        Some (s', None) \<Rightarrow> session_start ref (Inr (1000, Inr 0)) s' | _ \<Rightarrow> None)"

lemma demo_boot: "boot demo_server"
  by (simp add: boot_def demo_server_def demo_net_def NewNetwork_def demo_pool)

lemma enter_steps:
  assumes "enter [] sid ref s = Some (s', True)" "sess s ref = None" "ref \<notin> L" "ref \<notin> A"
  shows "srv_step\<^sup>*\<^sup>* (s, L, A) (s', insert ref L, insert ref A)"
proof -
  let ?s0 = "s\<lparr>sess := (sess s)(ref \<mapsto> newServerSession 0 sid)\<rparr>"
  obtain s1 where s1: "handshake_handler (demo_login []) ref ?s0 = Some (s1, None)" "session_start ref (Inr (1000, Inr 0)) s1 = Some (s', True)"
    using assms(1) by (auto simp: enter_def split: option.splits prod.splits)
  have "srv_step (s, L, A) (?s0, L, A)" by (rule accept [OF assms(2)])
  moreover have "srv_step (?s0, L, A) (s1, insert ref L, A)"
    by (rule login [OF assms(3) _ s1(1)]) (simp add: demo_login_def Let_def)
  moreover have "srv_step (s1, insert ref L, A) (s', insert ref L, insert ref A)"
    using start [OF _ assms(4) s1(2), of "insert ref L"] by simp
  ultimately show ?thesis by (meson converse_rtranclp_into_rtranclp rtranclp.rtrancl_refl)
qed

lemma demo_enter: "\<exists>s. enter [] ''a'' 0 demo_server = Some (s, True)"
proof -
  have "map_option snd (enter [] ''a'' 0 demo_server) = Some True" by code_simp
  then show ?thesis by auto
qed

text \<open>
  C28. A reconnect can lose its address. When a client logs in again and names its previous session, that session is
  released at once, and its own deferred release runs later, when its loop ends. If the new session was given the same
  address (a fixed one), that second release is carried out on what now belongs to the new session: the lease, the entry in the
  network's table, the route and the entry in the server's table of the running session are removed.
\<close>
theorem reconnect_loses_address:
  assumes "sess s old = Some x" "ss_network x = Some nref" "ss_device x = Some dev" "ss_quota x \<noteq> None" "ss_IP x = ip4_text b"
    and "nets s nref = Some n" "dev_CIDR dev = cidr_text (net_pool n) (ip4_text b)"
    and "old \<noteq> ref" "holds s ref True nref b"
  shows "\<exists>s' n'. session_finish old s = Some s' \<and> nets s' nref = Some n' \<and> sess s' ref = sess s ref \<and>
     ip4_text b \<notin> allocated (net_pool n') \<and> map_of (net_sessions n') (dev_CIDR dev) = None \<and>
     routes (net_router n') (True, bits b) = None \<and> map_of (sessions s') (ip4_text b) = None"
proof -
  have b: "length b = 4" "ip4_text b \<in> allocated (net_pool n)" using assms(6,9) by (auto simp: holds_def)
  obtain q q' u sub where q: "ss_quota x = Some q" "CommitUsage q = (q', u, sub)" using assms(4) by (metis not_Some_eq prod_cases3)
  from UnRegister_host [OF b(1), of "net_router n"]
  obtain rt where "UnRegister (net_router n) (ip4_text b @ ''/32'') = Some rt"
    "routes rt = (routes (net_router n))((True, bits b) := None)" by (elim exE conjE)
  then show ?thesis using assms b q
    by (simp add: session_finish_def session_Release_def ReleaseDevice_def ReleaseIP_def CloseWithError_def upd_session_def delete_conv' Let_def)
qed

definition reconnect :: "(server \<times> bool) option" where
  "reconnect = (case enter [] ''a'' 0 demo_server of None \<Rightarrow> None | Some (s, _) \<Rightarrow> enter ''a'' ''b'' 1 s)"

definition hold_facts :: "server \<Rightarrow> nat \<Rightarrow> (nat option \<times> string \<times> string option \<times> bool) option" where
  "hold_facts s ref = map_option (\<lambda>x. (ss_network x, ss_IP x, map_option dev_CIDR (ss_device x), ss_quota x \<noteq> None)) (sess s ref)"

definition net_facts :: "server \<Rightarrow> (bool \<times> nat option \<times> nat option \<times> nat) option" where
  "net_facts s = map_option (\<lambda>n. (ip4_text [10, 0, 0, 5] \<in> allocated (net_pool n), map_of (net_sessions n) ''10.0.0.5/24'',
     routes (net_router n) (True, bits [10, 0, 0, 5]), subnetMaskBits (net_pool n))) (nets s 0)"

lemma reconnect_facts:
  "map_option (\<lambda>(s, ok). (hold_facts s 0, hold_facts s 1, net_facts s, ok)) reconnect =
     Some (Some (Some 0, ''10.0.0.5'', Some ''10.0.0.5/24'', True), Some (Some 0, ''10.0.0.5'', Some ''10.0.0.5/24'', True),
       Some (True, Some 1, Some 1, 24), True)"
  by code_simp

theorem reconnect_loses_address_witness:
  "\<exists>s s' n'. reconnect = Some (s, True) \<and> session_finish 0 s = Some s' \<and> nets s' 0 = Some n' \<and>
     ip4_text [10, 0, 0, 5] \<notin> allocated (net_pool n') \<and> routes (net_router n') (True, bits [10, 0, 0, 5]) = None"
proof -
  have t: "ip4_text [10, 0, 0, 5] = ''10.0.0.5''" "utoa 24 = ''24''" by code_simp+
  obtain s where r: "reconnect = Some (s, True)" and f: "hold_facts s 0 = Some (Some 0, ''10.0.0.5'', Some ''10.0.0.5/24'', True)"
    "hold_facts s 1 = Some (Some 0, ''10.0.0.5'', Some ''10.0.0.5/24'', True)" "net_facts s = Some (True, Some 1, Some 1, 24)"
    using reconnect_facts by (auto split: prod.splits)
  obtain n where n: "nets s 0 = Some n" "ip4_text [10, 0, 0, 5] \<in> allocated (net_pool n)" "map_of (net_sessions n) ''10.0.0.5/24'' = Some 1"
    "routes (net_router n) (True, bits [10, 0, 0, 5]) = Some 1" "subnetMaskBits (net_pool n) = 24"
    using f(3) by (auto simp: net_facts_def)
  obtain x dev where x: "sess s 0 = Some x" "ss_network x = Some 0" "ss_device x = Some dev" "ss_quota x \<noteq> None" "ss_IP x = ''10.0.0.5''"
    "dev_CIDR dev = ''10.0.0.5/24''" using f(1) by (auto simp: hold_facts_def)
  have h: "holds s 1 True 0 [10, 0, 0, 5]" using f(2) n t by (auto simp: hold_facts_def holds_def cidr_text_def)
  show ?thesis
    using reconnect_loses_address [OF x(1-4) _ n(1) _ _ h] r x(5,6) n(5) t by (auto simp: cidr_text_def)
qed

end
