(* ===== verification/Server_Ops_Props.thy ===== *)
theory Server_Ops_Props
  imports Server_Ops Server_Props
begin

text \<open>
  Properties of the running server: which sessions the status loop removes, what the proxy accounts for, and what a login
  that failed half-way leaves behind.
\<close>

section \<open>The status loop\<close>

lemma delete_filter: "AList.delete k al = filter (\<lambda>e. fst e \<noteq> k) al"
  by (induction al) (auto simp: AList.delete_eq)

definition last_ping :: "srv_session \<Rightarrow> stored option" where
  "last_ping x = map_of (ss_storage x) sessionStorageKeyLastPing"

definition stale :: "int \<Rightarrow> server \<Rightarrow> nat \<Rightarrow> bool" where
  "stale now s ref = (case sess s ref of
     Some x \<Rightarrow> (case last_ping x of Some (At t) \<Rightarrow> now - t > 10 * 1000000000 | _ \<Rightarrow> False) | None \<Rightarrow> False)"

text \<open>Every entry of the table is a session, under a key that is an address, and its last ping is a time.\<close>

definition table_ok :: "server \<Rightarrow> (string \<times> nat) list \<Rightarrow> bool" where
  "table_ok s es \<longleftrightarrow> (\<forall>(ip, ref) \<in> set es. ip \<noteq> sessionStorageKeyLastPing \<and>
     (\<exists>x. sess s ref = Some x \<and> (last_ping x = None \<or> (\<exists>t. last_ping x = Some (At t)))))"

text \<open>How a tick changes a session: it may be stopped, and its last ping stays.\<close>

definition checked :: "server \<Rightarrow> server \<Rightarrow> nat \<Rightarrow> bool \<Rightarrow> bool" where
  "checked s s' ref stop \<longleftrightarrow> rel_option (\<lambda>x x'. ss_sig x' = (ss_sig x \<or> stop) \<and> last_ping x' = last_ping x) (sess s ref) (sess s' ref)"

lemma checked_refl: "checked s s ref False"
  by (cases "sess s ref") (simp_all add: checked_def)

lemma checked_trans: "checked s s' ref b \<Longrightarrow> checked s' s'' ref c \<Longrightarrow> checked s s'' ref (b \<or> c)"
  by (cases "sess s ref"; cases "sess s' ref"; cases "sess s'' ref") (auto simp: checked_def)

lemma checked_stale: "checked s s' ref b \<Longrightarrow> stale now s' ref = stale now s ref"
  by (cases "sess s ref"; cases "sess s' ref") (auto simp: checked_def stale_def)

lemma check_session_step:
  assumes "table_ok s [(ip, ref)]"
  obtains s' where "check_session now (ip, ref) s = Some s'"
    "sessions s' = (if stale now s ref then AList.delete ip (sessions s) else sessions s)"
    "\<And>r. checked s s' r (r = ref \<and> stale now s ref)"
proof -
  obtain x where x: "sess s ref = Some x" "ip \<noteq> sessionStorageKeyLastPing" "last_ping x = None \<or> (\<exists>t. last_ping x = Some (At t))"
    using assms by (auto simp: table_ok_def)
  consider "last_ping x = None" | t where "last_ping x = Some (At t)" using x(3) by (elim disjE exE)
  then show thesis
  proof cases
    case 1
    then have ns: "\<not> stale now s ref" using x by (simp add: stale_def)
    have k: "checked s (store ip (At now) ref s) r False" for r
      using x by (cases "r = ref"; cases "sess s r") (auto simp: checked_def store_def upd_session_def last_ping_def update_conv')
    have "check_session now (ip, ref) s = Some (store ip (At now) ref s)" using 1 x by (simp add: check_session_def last_ping_def)
    then show thesis by (rule that) (use ns k in \<open>auto simp: store_def upd_session_def\<close>)
  next
    case (2 t)
    show thesis
    proof (cases "now - t > 10 * 1000000000")
      case True
      let ?s = "(session_Stop ref s)\<lparr>sessions := AList.delete ip (sessions s)\<rparr>"
      have k: "checked s ?s r (r = ref)" for r
        using x by (cases "r = ref"; cases "sess s r") (auto simp: checked_def session_Stop_def upd_session_def last_ping_def)
      have "check_session now (ip, ref) s = Some ?s" "stale now s ref" using 2 x True by (simp_all add: check_session_def last_ping_def stale_def)
      then show thesis by (intro that) (use k in auto)
    next
      case False
      then have "check_session now (ip, ref) s = Some s" "\<not> stale now s ref" using 2 x by (simp_all add: check_session_def last_ping_def stale_def)
      then show thesis by (intro that) (use checked_refl in auto)
    qed
  qed
qed

lemma table_ok_checked:
  assumes "table_ok s es" "\<And>r. checked s s' r (f r)"
  shows "table_ok s' es"
proof -
  have "\<exists>x'. sess s' ref = Some x' \<and> last_ping x' = last_ping x" if "sess s ref = Some x" for ref x
    using assms(2) [of ref] that by (auto simp: checked_def rel_option_iff split: option.splits)
  then show ?thesis using assms(1) unfolding table_ok_def by (fastforce split: prod.splits)
qed

lemma pass_check:
  assumes "table_ok s es" "distinct (map snd es)"
  shows "\<exists>s'. pass (check_session now) es s = Some s' \<and>
     sessions s' = filter (\<lambda>(ip, _). \<not> (\<exists>ref. (ip, ref) \<in> set es \<and> stale now s ref)) (sessions s) \<and>
     (\<forall>r. checked s s' r (r \<in> snd ` set es \<and> stale now s r))"
  using assms
proof (induction es arbitrary: s)
  case Nil
  then show ?case using checked_refl by simp
next
  case (Cons e es)
  obtain ip ref where e: "e = (ip, ref)" by force
  obtain s1 where s1: "check_session now (ip, ref) s = Some s1"
    "sessions s1 = (if stale now s ref then AList.delete ip (sessions s) else sessions s)"
    "\<And>r. checked s s1 r (r = ref \<and> stale now s ref)"
    using check_session_step [of s ip ref now] Cons.prems(1) e by (auto simp: table_ok_def)
  have t: "table_ok s1 es" using table_ok_checked [OF _ s1(3), of es] Cons.prems(1) by (simp add: table_ok_def)
  obtain s' where s': "pass (check_session now) es s1 = Some s'"
    "sessions s' = filter (\<lambda>(ip, _). \<not> (\<exists>ref. (ip, ref) \<in> set es \<and> stale now s1 ref)) (sessions s1)"
    "\<forall>r. checked s1 s' r (r \<in> snd ` set es \<and> stale now s1 r)"
    using Cons.IH [OF t] Cons.prems(2) by auto
  have st: "stale now s1 r = stale now s r" for r using checked_stale [OF s1(3)] .
  have "sessions s' = filter (\<lambda>(ip, _). \<not> (\<exists>ref. (ip, ref) \<in> set (e # es) \<and> stale now s ref)) (sessions s)"
    using s'(2) s1(2) e by (auto simp: st delete_filter intro!: filter_cong)
  moreover have "checked s s' r (r \<in> snd ` set (e # es) \<and> stale now s r)" for r
  proof -
    have "checked s s' r ((r = ref \<and> stale now s ref) \<or> (r \<in> snd ` set es \<and> stale now s r))"
      using checked_trans [OF s1(3) [of r]] s'(3) st by simp
    moreover have "((r = ref \<and> stale now s ref) \<or> (r \<in> snd ` set es \<and> stale now s r)) = (r \<in> snd ` set (e # es) \<and> stale now s r)"
      using e by auto
    ultimately show ?thesis by simp
  qed
  ultimately show ?case using s1(1) s'(1) e by simp
qed

text \<open>
  A tick of the status loop removes from the table, and stops, exactly the sessions whose last ping is more than ten seconds old; it does not
  panic and keeps the times of the last pings. A session that has never sent a ping is not removed, although the loop
  means to start its clock: it stores the time under the address of the session instead of the key it reads.
\<close>
theorem checkStatus_removes_stale:
  assumes "table_ok s (sessions s)" "distinct (map fst (sessions s))" "distinct (map snd (sessions s))"
  shows "\<exists>s'. checkStatus_tick now s = Some s' \<and>
     sessions s' = filter (\<lambda>(_, ref). \<not> stale now s ref) (sessions s) \<and>
     (\<forall>ref x. sess s ref = Some x \<longrightarrow> (\<exists>x'. sess s' ref = Some x' \<and> last_ping x' = last_ping x \<and>
        ss_sig x' = (ss_sig x \<or> (ref \<in> snd ` set (sessions s) \<and> stale now s ref))))"
proof -
  obtain s' where s': "pass (check_session now) (sessions s) s = Some s'"
    "sessions s' = filter (\<lambda>(ip, _). \<not> (\<exists>ref. (ip, ref) \<in> set (sessions s) \<and> stale now s ref)) (sessions s)"
    "\<forall>r. checked s s' r (r \<in> snd ` set (sessions s) \<and> stale now s r)"
    using pass_check [OF assms(1,3)] by blast
  have "sessions s' = filter (\<lambda>(_, ref). \<not> stale now s ref) (sessions s)"
    unfolding s'(2) by (rule filter_cong [OF refl]) (use eq_key_imp_eq_value [OF assms(2)] in \<open>fastforce\<close>)
  moreover have "\<exists>x'. sess s' ref = Some x' \<and> last_ping x' = last_ping x \<and> ss_sig x' = (ss_sig x \<or> (ref \<in> snd ` set (sessions s) \<and> stale now s ref))"
    if "sess s ref = Some x" for ref x
    using spec [OF s'(3), of ref] that by (cases "sess s' ref") (auto simp: checked_def)
  ultimately show ?thesis using s'(1) by (auto simp: checkStatus_tick_def)
qed

definition pinged :: "string \<Rightarrow> int option \<Rightarrow> srv_session" where
  "pinged sid t = (newServerSession 0 sid)\<lparr>ss_storage := (case t of None \<Rightarrow> [] | Some t \<Rightarrow> [(''last_ping'', At t)])\<rparr>"

theorem checkStatus_removes_stale_witness:
  "\<exists>s s'. map fst (sessions s) = [''10.0.0.2'', ''10.0.0.3'', ''10.0.0.4''] \<and> checkStatus_tick 50000000000 s = Some s' \<and>
     map fst (sessions s') = [''10.0.0.3'', ''10.0.0.4'']"
proof -
  let ?s = "demo_server\<lparr>sessions := [(''10.0.0.2'', 2), (''10.0.0.3'', 3), (''10.0.0.4'', 4)],
     sess := [2 \<mapsto> pinged ''a'' (Some 5), 3 \<mapsto> pinged ''b'' (Some 45000000000), 4 \<mapsto> pinged ''c'' None]\<rparr>"
  have "table_ok ?s (sessions ?s)" by (simp add: table_ok_def last_ping_def pinged_def sessionStorageKeyLastPing_def)
  from checkStatus_removes_stale [OF this, of 50000000000] obtain s' where
    "checkStatus_tick 50000000000 ?s = Some s'" "sessions s' = filter (\<lambda>(_, ref). \<not> stale 50000000000 ?s ref) (sessions ?s)"
    by auto
  moreover have "filter (\<lambda>(_, ref). \<not> stale 50000000000 ?s ref) (sessions ?s) = [(''10.0.0.3'', 3), (''10.0.0.4'', 4)]"
    by (simp add: stale_def last_ping_def pinged_def sessionStorageKeyLastPing_def)
  ultimately show ?thesis by (intro exI [of _ ?s] exI [of _ s']) simp
qed

section \<open>The proxy\<close>




















text \<open>With two different positive limits the proxy paces with the larger one.\<close>

lemma proxy_takes_larger_limit:
  "0 < ss_bandwidth a \<Longrightarrow> 0 < ss_bandwidth b \<Longrightarrow>
   choose_limiter a b = ss_limiter (if ss_bandwidth a > ss_bandwidth b then a else b)"
  by (simp add: choose_limiter_def)

section \<open>A login that fails half-way\<close>

lemma length_utoa_byte: "length (utoa (unat (b :: byte))) \<le> 3"
proof -
  have "unat b < 256" using unsigned_less [of b] by simp
  moreover have "length (utoa n) \<le> 3" if "n < 1000" for n
    using that by (subst utoa.simps, subst utoa.simps, subst utoa.simps) (auto simp: div_less_iff_less_mult)
  ultimately show ?thesis by simp
qed

lemma length_ip4_text: "length (ip4_text b) \<le> 15"
  using length_utoa_byte [of "b ! 0"] length_utoa_byte [of "b ! 1"] length_utoa_byte [of "b ! 2"] length_utoa_byte [of "b ! 3"]
  by (simp add: ip4_text_def)

lemma RouteString_host:
  "length b = 4 \<Longrightarrow> routes r (True, bits b) = Some v \<Longrightarrow> RouteString r (ip4_text b) = Some v"
  using host_route_wins [of b r v] by (simp add: RouteString_def ParseIP_def ip4_text_eq ParseAddr_ip4 To4_def As16_def v4InV6Prefix_def)

text \<open>
  A login whose quota cannot be loaded leaves a trap: \<^verbatim>\<open>handleSession\<close> registers the route of the new session before it asks for its
  quota and returns without any clean-up when that fails, so the address stays routed to a session without quota. The first bytes
  that any other session of the network sends to this address are a nil dereference in the proxy, which ends the server.
\<close>
theorem unfinished_login_panics:
  assumes "holds s ref False nref b" "sess s ref = Some x" "ss_quota x = None" "session_start ref (Inl e) s = Some (s', ok)"
    and "sess s src = Some y" "ss_network y = Some nref" "ss_quota y = Some q" "src \<noteq> ref"
    and "\<not> isExceeded q" "0 < nr io" "0 < nw io"
  shows "handleTransport src (Some (ip4_text b)) None (io # ios) s' = None"
proof -
  have h: "length b = 4" "ss_network x = Some nref" "ss_IP x = ip4_text b" using assms(1,2) by (auto simp: holds_def)
  obtain n dev where n: "nets s nref = Some n" "ss_device x = Some dev" using assms(1,2) by (auto simp: holds_def)
  from Register_host [OF h(1), of "net_router n" ref]
  obtain rt where r: "Register (net_router n) (ip4_text b @ ''/32'') ref = Some rt"
    "routes rt = (routes (net_router n))((True, bits b) \<mapsto> ref)" by (elim exE conjE)
  have s': "sess s' = sess s" "nets s' = (nets s)(nref \<mapsto> n\<lparr>net_router := rt\<rparr>)"
    using assms(2,4) h n r(1) by (auto simp: session_start_def)
  have rs: "RouteString rt (take 15 (ip4_text b)) = Some ref"
    using RouteString_host [OF h(1), of rt ref] r(2) length_ip4_text [of b] by simp
  have neg: "negotiation src (Some (ip4_text b)) s' = Some (Inr (ref, take 15 (ip4_text b)), Some 1)"
    using assms(9) IsExceeded_def [of q] assms(5-7) s' rs by (simp add: negotiation_def session_net_def Let_def)
  obtain q' err sub where au: "AddUsage (int (nr io)) q = (q', err, sub)" by (cases "AddUsage (int (nr io)) q") auto
  have "err = None" using au assms(9,10) by (auto simp: AddUsage_def split: if_splits prod.splits)
  then obtain s1 where s1: "add_usage src (int (nr io)) (count_tx src (nr io) s') = Some (s1, None)" "sess s1 ref = Some x"
    using assms(2,5,7,8) s' au by (auto simp: add_usage_def count_tx_def upd_session_def)
  have "add_usage ref (int (nw io)) s1 = None" using s1(2) assms(3,11) by (simp add: add_usage_def)
  then have "proxy_round src ref io 0 s' = None" using s1 assms(10) by (simp add: proxy_round_def)
  then show ?thesis using neg by (simp add: handleTransport_def)
qed

text \<open>Session 1 runs with a random address; then session 0 is given the fixed address and its quota cannot be loaded.\<close>

definition half_login :: "server option" where
  "half_login =
     (case handshake_handler ((demo_login [])\<lparr>lg_sub := Inr \<lparr> sd_NetworkId = ''n'', sd_DeviceId = ''e'', sd_FixedIP = 0 \<rparr>\<rparr>) 1
             (demo_server\<lparr>sess := [1 \<mapsto> newServerSession 0 ''b'', 0 \<mapsto> newServerSession 0 ''a'']\<rparr>) of
        Some (s, None) \<Rightarrow>
          (case session_start 1 (Inr (1000, Inr 0)) s of
             Some (s, True) \<Rightarrow> (case handshake_handler (demo_login []) 0 s of Some (s, None) \<Rightarrow> Some s | _ \<Rightarrow> None)
           | _ \<Rightarrow> None)
      | _ \<Rightarrow> None)"

lemma half_login_facts:
  "map_option (\<lambda>s. (hold_facts s 0, net_facts s, map_option (\<lambda>y. (ss_network y, map_option isExceeded (ss_quota y))) (sess s 1),
       map_option snd (session_start 0 (Inl EOF) s))) half_login =
     Some (Some (Some 0, ''10.0.0.5'', Some ''10.0.0.5/24'', False), Some (True, Some 0, None, 24), Some (Some 0, Some False), Some False)"
  by code_simp

theorem unfinished_login_panics_witness:
  "\<exists>s s'. half_login = Some s \<and> session_start 0 (Inl EOF) s = Some (s', False) \<and>
     handleTransport 1 (Some ''10.0.0.5'') None [\<lparr> nr = 9, er = None, nw = 9, ew = None \<rparr>] s' = None"
proof -
  have t: "ip4_text [10, 0, 0, 5] = ''10.0.0.5''" "utoa 24 = ''24''" by code_simp+
  obtain s s' where s: "half_login = Some s" "session_start 0 (Inl EOF) s = Some (s', False)"
    and f: "hold_facts s 0 = Some (Some 0, ''10.0.0.5'', Some ''10.0.0.5/24'', False)" "net_facts s = Some (True, Some 0, None, 24)"
    "map_option (\<lambda>y. (ss_network y, map_option isExceeded (ss_quota y))) (sess s 1) = Some (Some 0, Some False)"
    using half_login_facts by auto
  obtain x where x: "sess s 0 = Some x" "ss_quota x = None" using f(1) by (auto simp: hold_facts_def)
  obtain y q where y: "sess s 1 = Some y" "ss_network y = Some 0" "ss_quota y = Some q" "\<not> isExceeded q" using f(3) by auto
  have h: "holds s 0 False 0 [10, 0, 0, 5]" using f(1,2) t by (auto simp: hold_facts_def net_facts_def holds_def cidr_text_def)
  show ?thesis
    using unfinished_login_panics [OF h x s(2) y(1-3) _ y(4), of "\<lparr> nr = 9, er = None, nw = 9, ew = None \<rparr>" "[]"] s t by auto
qed

end
