(* ===== verification/Tx_Adaptor.thy ===== *)
theory Tx_Adaptor
  imports Destination "HOL-Library.AList"
begin

text \<open>
  The interface through which the hub opens and closes transports: \<^verbatim>\<open>hub.TxAdaptor\<close> with \<^verbatim>\<open>Dial\<close>, \<^verbatim>\<open>CloseDst\<close> and \<^verbatim>\<open>OnError\<close>, and \<^verbatim>\<open>Close\<close> of the client
  behind it. \<open>opened\<close> is the table of the transports in use by destination, \<open>shut\<close> are the handles closed so far. A dial looks into the table first and, if it
  finds nothing, connects and stores the transport (\<open>connect\<close>); other operations may come in between. \<open>None\<close> is a run-time panic.
\<close>

text \<open>
  The operations of the hub in any order. A state has the destinations whose dial is between its look into the table and its connection, and the transports
  handed out so far. A destination is dialled by one goroutine, so that no two dials of one destination overlap.
\<close>

inductive adaptor_step ::
    "('c \<Rightarrow> (string \<times> rw) list) \<Rightarrow> ('e \<Rightarrow> string \<Rightarrow> 'c \<Rightarrow> ('c \<times> (goerr + rw option)) option) \<Rightarrow> (string \<Rightarrow> 'c \<Rightarrow> 'c) \<Rightarrow>
     'c \<times> string set \<times> rw list \<Rightarrow> 'c \<times> string set \<times> rw list \<Rightarrow> bool" for tb cn cl where
  dial_found: "map_of (tb c) dst = Some w \<Longrightarrow> dst \<notin> P \<Longrightarrow> adaptor_step tb cn cl (c, P, ws) (c, P, ws @ [w])"
| dial_missing: "map_of (tb c) dst = None \<Longrightarrow> dst \<notin> P \<Longrightarrow> adaptor_step tb cn cl (c, P, ws) (c, insert dst P, ws)"
| dial_connect: "dst \<in> P \<Longrightarrow> cn e dst c = Some (c', r) \<Longrightarrow>
    adaptor_step tb cn cl (c, P, ws) (c', P - {dst}, ws @ (case r of Inr (Some w) \<Rightarrow> [w] | _ \<Rightarrow> []))"
| dst_closed: "adaptor_step tb cn cl (c, P, ws) (cl dst c, P, ws)"

lemma update_fresh: "k \<notin> fst ` set m \<Longrightarrow> AList.update k v m = m @ [(k, v)]"
  by (induction m) auto

locale tx_adaptor =
  fixes opened :: "'c \<Rightarrow> (string \<times> rw) list"
    and shut :: "'c \<Rightarrow> nat list"
    and connect :: "'e \<Rightarrow> string \<Rightarrow> 'c \<Rightarrow> ('c \<times> (goerr + rw option)) option"
    and close_dst :: "string \<Rightarrow> 'c \<Rightarrow> 'c"
    and close_all :: "'c \<Rightarrow> 'c"
  assumes connect_new: "connect e dst c = Some (c', Inr (Some w)) \<Longrightarrow> opened c' = AList.update dst w (opened c) \<and> shut c' = shut c"
    and connect_other: "connect e dst c = Some (c', r) \<Longrightarrow> (\<And>w. r \<noteq> Inr (Some w)) \<Longrightarrow> opened c' = opened c \<and> set (shut c) \<subseteq> set (shut c')"
    and close_dst_table: "opened (close_dst dst c) = AList.delete dst (opened c)"
    and close_dst_shut: "map_of (opened c) dst = Some w \<Longrightarrow> handle w \<in> set (shut (close_dst dst c))"
    and close_dst_keeps: "set (shut c) \<subseteq> set (shut (close_dst dst c))"
    and close_all_table: "opened (close_all c) = []"
    and close_all_shut: "handle ` snd ` set (opened c) \<union> set (shut c) \<subseteq> set (shut (close_all c))"
begin

definition tracked :: "rw list \<Rightarrow> 'c \<Rightarrow> bool" where
  "tracked ws c \<longleftrightarrow> distinct (map fst (opened c)) \<and> (\<forall>w \<in> set ws. w \<in> snd ` set (opened c) \<or> handle w \<in> set (shut c))"

lemma tracked_connect:
  assumes "tracked ws c" "map_of (opened c) dst = None" "connect e dst c = Some (c', r)"
  shows "tracked (ws @ (case r of Inr (Some w) \<Rightarrow> [w] | _ \<Rightarrow> [])) c'"
proof (cases "\<exists>w. r = Inr (Some w)")
  case False
  then have "opened c' = opened c" "set (shut c) \<subseteq> set (shut c')" using connect_other [OF assms(3)] by auto
  then show ?thesis using assms(1) False by (auto simp: tracked_def split: sum.split option.split)
next
  case True
  then obtain w where w: "r = Inr (Some w)" by blast
  have n: "opened c' = AList.update dst w (opened c)" "shut c' = shut c" using connect_new [of e dst c c' w] assms(3) w by simp_all
  have f: "dst \<notin> fst ` set (opened c)" using assms(2) by (simp add: map_of_eq_None_iff)
  then have "opened c' = opened c @ [(dst, w)]" unfolding n(1) by (rule update_fresh)
  then show ?thesis using assms(1) n(2) w f unfolding tracked_def by auto
qed

lemma connect_table:
  assumes "connect e dst c = Some (c', r)" "dst' \<noteq> dst"
  shows "map_of (opened c') dst' = map_of (opened c) dst'"
proof (cases "\<exists>w. r = Inr (Some w)")
  case True
  then show ?thesis using connect_new [of e dst c c'] assms by (auto simp: update_conv')
qed (use connect_other [OF assms(1)] in auto)

lemma tracked_close:
  assumes "tracked ws c"
  shows "tracked ws (close_dst dst c)"
proof -
  have d: "distinct (map fst (opened c))" using assms by (simp add: tracked_def)
  have "w \<in> snd ` set (AList.delete dst (opened c)) \<or> handle w \<in> set (shut (close_dst dst c))" if w: "w \<in> set ws" for w
  proof -
    consider k where "(k, w) \<in> set (opened c)" | "handle w \<in> set (shut c)" using assms w by (fastforce simp: tracked_def)
    then show ?thesis
    proof cases
      case (1 k)
      then have "map_of (opened c) k = Some w" using d by simp
      then show ?thesis using close_dst_shut [of c dst w] 1 by (cases "k = dst") (force simp: AList.delete_eq)+
    next
      case 2
      then show ?thesis using close_dst_keeps by blast
    qed
  qed
  then show ?thesis using d by (simp add: tracked_def close_dst_table distinct_delete)
qed

text \<open>While a dial is between its two halves, the table has no transport for its destination.\<close>

definition adaptor_inv :: "'c \<times> string set \<times> rw list \<Rightarrow> bool" where
  "adaptor_inv st = (case st of (c, P, ws) \<Rightarrow> tracked ws c \<and> (\<forall>dst \<in> P. map_of (opened c) dst = None))"

lemma adaptor_inv_step: "adaptor_step opened connect close_dst st st' \<Longrightarrow> adaptor_inv st \<Longrightarrow> adaptor_inv st'"
proof (induction rule: adaptor_step.induct)
  case (dial_found c dst w P ws)
  then have "w \<in> snd ` set (opened c)" by (force dest: map_of_SomeD)
  then show ?case using dial_found.prems by (simp add: adaptor_inv_def tracked_def)
next
  case (dial_connect dst P e c c' r ws)
  have "tracked ws c" "map_of (opened c) dst = None" using dial_connect.prems dial_connect.hyps(1) by (auto simp: adaptor_inv_def)
  from tracked_connect [OF this dial_connect.hyps(2)] show ?case
    using dial_connect.prems connect_table [OF dial_connect.hyps(2)] by (auto simp: adaptor_inv_def)
next
  case (dst_closed c P ws dst)
  then show ?case using tracked_close [of ws c dst] by (auto simp: adaptor_inv_def close_dst_table delete_conv')
qed (auto simp: adaptor_inv_def)

lemma closes_all:
  assumes "opened c = []" "(adaptor_step opened connect close_dst)\<^sup>*\<^sup>* (c, {}, []) (c', P, ws)"
  shows "handle ` set ws \<subseteq> set (shut (close_all c')) \<and> opened (close_all c') = []"
proof -
  have "adaptor_inv (c, {}, [])" using assms(1) by (simp add: adaptor_inv_def tracked_def)
  with assms(2) have "adaptor_inv (c', P, ws)" by (induction rule: rtranclp_induct) (auto intro: adaptor_inv_step)
  then have "handle w \<in> handle ` snd ` set (opened c') \<union> set (shut c')" if "w \<in> set ws" for w
    using that unfolding adaptor_inv_def tracked_def prod.case by (metis Un_iff image_eqI)
  then show ?thesis using close_all_shut [of c'] close_all_table by blast
qed

end

end
