(* ===== verification/Tcp.thy ===== *)
theory Tcp
  imports Server_Ops_Props Tx_Adaptor
begin

text \<open>
  The TCP transport on both sides: \<^verbatim>\<open>vnet/server/server_tcp.go\<close> and \<^verbatim>\<open>vnet/client/client_tcp.go\<close>. Every
  connection starts with a dispatch packet that tells the server whose connection it is. A connection is known by a
  handle; a channel of connections is the queue of the senders waiting on it. \<open>None\<close> is a run-time panic.
\<close>

section \<open>The server\<close>

record tcp_server =
  acceptCh :: "nat list"
  txChs :: "(string \<times> nat list) list"
  transportConn :: "(string \<times> nat) list"

definition newTcpServer :: tcp_server where
  "newTcpServer = \<lparr> acceptCh = [], txChs = [], transportConn = [] \<rparr>"

text \<open>\<^verbatim>\<open>LoadOrStore\<close> of a channel, followed by a send.\<close>

definition tx_push :: "string \<Rightarrow> nat \<Rightarrow> tcp_server \<Rightarrow> tcp_server" where
  "tx_push k conn t = t\<lparr>txChs := AList.update k ((case map_of (txChs t) k of Some q \<Rightarrow> q | None \<Rightarrow> []) @ [conn]) (txChs t)\<rparr>"

text \<open>
  \<open>tcp_dispatch\<close>: \<open>first\<close> is what the first read of up to 33 bytes returned within the time limit. The result: the states, and the error
  before the deferred function, which closes the connection if there is one and then writes the acknowledgement in any case
  (except after a timeout, which returns before the function is deferred).
\<close>

definition tcp_dispatch :: "nat \<Rightarrow> bytes option \<Rightarrow> tcp_server \<times> server \<Rightarrow> ((tcp_server \<times> server) \<times> goerr option) option" where
  "tcp_dispatch conn first st =
     (case st of (t, s) \<Rightarrow>
        case first of
          None \<Rightarrow> Some (st, Some (ErrorNew ''read first pkg timeout''))
        | Some first \<Rightarrow>
            if first = [] then None
            else if first ! 0 = 1 then Some ((t\<lparr>acceptCh := acceptCh t @ [conn]\<rparr>, s), None)
            else if first ! 0 = 4
            then (if length first < 9 then None
                  else let src = ip4_text (sub 1 4 first); dst = ip4_text (sub 5 4 first) in
                    (case map_of (sessions s) dst of
                       None \<Rightarrow> Some (st, Some (ErrorNew ''refer session not found''))
                     | Some ref \<Rightarrow>
                         let t' = t\<lparr>transportConn := AList.update dst conn (transportConn t)\<rparr> in
                         if src = dst then Some ((t', store ''rx'' (RxConn conn) ref s), None)
                         else Some ((tx_push src conn t', s), None)))
            else Some (st, Some (ErrorNew ''unsupported dispatch packet type'')))"

text \<open>\<open>Accept\<close> when a connection is waiting: a new session under reference \<open>ref\<close>.\<close>

definition tcp_Accept :: "int \<Rightarrow> string \<Rightarrow> nat \<Rightarrow> tcp_server \<times> server \<Rightarrow> ((tcp_server \<times> server) \<times> nat) option" where
  "tcp_Accept now sid ref st =
     (case st of (t, s) \<Rightarrow>
        case acceptCh t of
          [] \<Rightarrow> None
        | conn # rest \<Rightarrow> Some ((t\<lparr>acceptCh := rest\<rparr>, s\<lparr>sess := (sess s)(ref \<mapsto> newServerSession now sid)\<rparr>), conn))"

text \<open>\<open>AcceptTransport\<close> of a session: the next connection of its channel, an error when it was stopped, or it waits (\<open>None\<close>).\<close>

definition tcp_AcceptTransport :: "srv_session \<Rightarrow> tcp_server \<Rightarrow> (tcp_server \<times> (goerr + nat)) option" where
  "tcp_AcceptTransport ss t =
     (case map_of (txChs t) (ss_IP ss) of
        Some (conn # rest) \<Rightarrow> Some (t\<lparr>txChs := AList.update (ss_IP ss) rest (txChs t)\<rparr>, Inr conn)
      | _ \<Rightarrow> if ss_sig ss then Some (t, Inl (ErrorNew ''session closed'')) else None)"

definition tcp_GetDstTransportWriter :: "srv_session \<Rightarrow> goerr + nat" where
  "tcp_GetDstTransportWriter dst =
     (case map_of (ss_storage dst) ''rx'' of
        None \<Rightarrow> Inl (ErrorNew ''transport connection not found'')
      | Some (RxConn conn) \<Rightarrow> Inr conn
      | Some _ \<Rightarrow> Inl (ErrorNew ''internal error: invalid transport connection''))"

section \<open>The client\<close>

definition dispatchTypeControl :: byte where
  "dispatchTypeControl = 1"

definition dispatchTypeIPv4 :: byte where
  "dispatchTypeIPv4 = 4"

definition dispatchTypeIPv6 :: byte where
  "dispatchTypeIPv6 = 6"

text \<open>The packet that \<open>dispatch\<close> of the client writes, always 33 bytes; \<^verbatim>\<open>[:4]\<close> of a nil address panics.\<close>

definition dispatch_packet :: "byte \<Rightarrow> string \<Rightarrow> string \<Rightarrow> (goerr + bytes) option" where
  "dispatch_packet ty from to =
     (let buf = ty # replicate 32 0;
          v4 = (\<lambda>a. Option.bind (ParseIP a) To4); v6 = (\<lambda>a. Option.bind (ParseIP a) To16)
      in if ty = dispatchTypeControl then Some (Inr buf)
         else if ty = dispatchTypeIPv4
         then (case (v4 from, v4 to) of
                 (Some f, Some t) \<Rightarrow> Some (Inr (copy_to 5 (take 4 t) (copy_to 1 (take 4 f) buf))) | _ \<Rightarrow> None)
         else if ty = dispatchTypeIPv6
         then (case (v6 from, v6 to) of
                 (Some f, Some t) \<Rightarrow> Some (Inr (copy_to 17 (take 16 t) (copy_to 1 (take 16 f) buf))) | _ \<Rightarrow> None)
         else Some (Inl (ErrorNew ''invalid dispatch type'')))"

text \<open>\<open>dispatch\<close> of the client with the outcome of the write and of the read of the acknowledgement.\<close>

definition client_dispatch :: "byte \<Rightarrow> string \<Rightarrow> string \<Rightarrow> goerr option \<Rightarrow> goerr + byte \<Rightarrow> (goerr option) option" where
  "client_dispatch ty from to wr ack =
     (case dispatch_packet ty from to of
        None \<Rightarrow> None
      | Some (Inl e) \<Rightarrow> Some (Some e)
      | Some (Inr _) \<Rightarrow>
          Some (case wr of Some e \<Rightarrow> Some e
                | None \<Rightarrow> (case ack of Inl e \<Rightarrow> Some e | Inr a \<Rightarrow> if a \<noteq> 1 then Some (ErrorNew ''invalid ack'') else None)))"

record tcp_client =
  control :: "nat option"
  rx :: "nat option"
  conns :: "(string \<times> rw) list"
  closed :: "nat list"

text \<open>
  \<open>Dial\<close> looks for a connection in the table, before it takes the mutex; if there is none, it opens one under the mutex and stores it. For the client's own address
  the receive connection is set up and no transport is returned.
\<close>

definition tcp_connect ::
    "string \<Rightarrow> goerr + nat \<Rightarrow> goerr option \<Rightarrow> goerr + byte \<Rightarrow> string \<Rightarrow> tcp_client \<Rightarrow> (tcp_client \<times> (goerr + rw option)) option" where
  "tcp_connect self dialled wr ack dst c =
     (case dialled of
        Inl e \<Rightarrow> Some (c, Inl (ErrorNew ''dial data connection error''))
      | Inr conn \<Rightarrow>
          (case client_dispatch dispatchTypeIPv4 self dst wr ack of
             None \<Rightarrow> None
           | Some (Some e) \<Rightarrow> Some (c\<lparr>closed := closed c @ [conn]\<rparr>, Inl e)
           | Some None \<Rightarrow>
               if dst = self then Some (c\<lparr>rx := Some conn\<rparr>, Inr None)
               else let w = Rw conn ''tcp'' in Some (c\<lparr>conns := AList.update dst w (conns c)\<rparr>, Inr (Some w))))"

definition tcp_Dial ::
    "string \<Rightarrow> goerr + nat \<Rightarrow> goerr option \<Rightarrow> goerr + byte \<Rightarrow> string \<Rightarrow> tcp_client \<Rightarrow> (tcp_client \<times> (goerr + rw option)) option" where
  "tcp_Dial self dialled wr ack dst c =
     (case map_of (conns c) dst of
        Some w \<Rightarrow> Some (c, Inr (Some w))
      | None \<Rightarrow> tcp_connect self dialled wr ack dst c)"

definition tcp_CloseDst :: "string \<Rightarrow> tcp_client \<Rightarrow> tcp_client" where
  "tcp_CloseDst dst c =
     (case map_of (conns c) dst of
        None \<Rightarrow> c
      | Some w \<Rightarrow> c\<lparr>conns := AList.delete dst (conns c), closed := closed c @ [handle w]\<rparr>)"

definition tcp_OnError :: "destination \<Rightarrow> tcp_client \<Rightarrow> tcp_client" where
  "tcp_OnError d c = tcp_CloseDst (ip d) c"

definition tcp_Close :: "tcp_client \<Rightarrow> tcp_client" where
  "tcp_Close c =
     c\<lparr>control := None, rx := None, conns := [],
       closed := closed c @ (case control c of Some k \<Rightarrow> [k] | None \<Rightarrow> []) @ (case rx c of Some k \<Rightarrow> [k] | None \<Rightarrow> []) @
                 map (\<lambda>(_, w). handle w) (conns c)\<rparr>"

text \<open>
  \<open>Setup\<close>: the control connection with its dispatch. When that fails the connection is closed but still returned, beside the error. \<open>AfterHandshake\<close> dials the
  receive connection and drops the error.
\<close>

definition newTcpClient :: tcp_client where
  "newTcpClient = \<lparr> control = None, rx = None, conns = [], closed = [] \<rparr>"

definition tcp_Setup :: "goerr + nat \<Rightarrow> goerr option \<Rightarrow> goerr + byte \<Rightarrow> tcp_client \<Rightarrow> (tcp_client \<times> nat option \<times> goerr option) option" where
  "tcp_Setup dialled wr ack c =
     (case dialled of
        Inl e \<Rightarrow> Some (c\<lparr>control := None\<rparr>, None, Some (ErrorNew ''dial control connection error''))
      | Inr conn \<Rightarrow>
          (case client_dispatch dispatchTypeControl [] [] wr ack of
             None \<Rightarrow> None
           | Some (Some e) \<Rightarrow> Some (c\<lparr>control := Some conn, closed := closed c @ [conn]\<rparr>, Some conn, Some e)
           | Some None \<Rightarrow> Some (c\<lparr>control := Some conn\<rparr>, Some conn, None)))"

definition tcp_dialRx :: "string \<Rightarrow> goerr + nat \<Rightarrow> goerr option \<Rightarrow> goerr + byte \<Rightarrow> tcp_client \<Rightarrow> tcp_client option" where
  "tcp_dialRx self dialled wr ack c = map_option fst (tcp_Dial self dialled wr ack self c)"

definition tcp_AfterHandshake :: "string \<Rightarrow> goerr + nat \<Rightarrow> goerr option \<Rightarrow> goerr + byte \<Rightarrow> tcp_client \<Rightarrow> tcp_client option" where
  "tcp_AfterHandshake self dialled wr ack c = tcp_dialRx self dialled wr ack c"

section \<open>Both sides\<close>

lemma ParseIP_To4: "length b = 4 \<Longrightarrow> Option.bind (ParseIP (ip4_text b)) To4 = Some b"
  by (simp add: ParseIP_def ip4_text_eq ParseAddr_ip4 To4_def As16_def v4InV6Prefix_def)

lemma dispatch_packet_v4:
  assumes "length a = 4" "length b = 4"
  shows "dispatch_packet 4 (ip4_text a) (ip4_text b) = Some (Inr (4 # a @ b @ replicate 24 0))"
proof -
  have "copy_to 5 b (copy_to 1 a (4 # replicate 32 0)) = 4 # a @ b @ replicate 24 (0 :: byte)"
    using assms by (simp add: copy_to_def blit_def)
  then show ?thesis using assms by (simp add: dispatch_packet_def dispatchTypeControl_def dispatchTypeIPv4_def ParseIP_To4)
qed

lemma dispatch_v4:
  assumes "length a = 4" "length b = 4" "map_of (sessions s) (ip4_text b) = Some ref"
  shows "tcp_dispatch conn (Some (4 # a @ b @ z)) (t, s) =
     (let t' = t\<lparr>transportConn := AList.update (ip4_text b) conn (transportConn t)\<rparr> in
      Some (if a = b then (t', store ''rx'' (RxConn conn) ref s) else (tx_push (ip4_text a) conn t', s), None))"
proof -
  have "sub 1 4 (4 # a @ b @ z) = a" "sub 5 4 (4 # a @ b @ z) = b" using assms(1,2) by (simp_all add: sub_def)
  then show ?thesis using assms ip4_text_bits [OF assms(1,2)] by (auto simp: tcp_dispatch_def Let_def)
qed

text \<open>
  A data connection reaches the session it is meant for: when the client with address \<open>a\<close> dials, the server's \<^verbatim>\<open>dispatch\<close> of the
  packet that the client writes makes the connection the writer of the client's own session if it dialled itself, and otherwise
  puts it at the end of the queue from which only sessions with address \<open>a\<close> accept; it is handed out once, after the connections
  that were waiting there before.
\<close>
theorem tcp_dispatch_delivers:
  assumes "length a = 4" "length b = 4" "map_of (sessions s) (ip4_text b) = Some ref" "sess s ref = Some x"
    and "dispatch_packet dispatchTypeIPv4 (ip4_text a) (ip4_text b) = Some (Inr packet)"
  shows "\<exists>t' s'. tcp_dispatch conn (Some packet) (t, s) = Some ((t', s'), None) \<and>
     (if a = b then (\<exists>x'. sess s' ref = Some x' \<and> tcp_GetDstTransportWriter x' = Inr conn) \<and> txChs t' = txChs t
      else s' = s \<and> (\<forall>k. map_of (txChs t') k =
             (if k = ip4_text a then Some ((case map_of (txChs t) k of Some q \<Rightarrow> q | None \<Rightarrow> []) @ [conn]) else map_of (txChs t) k)) \<and>
           (\<forall>y. ss_IP y = ip4_text a \<and> (case map_of (txChs t) (ip4_text a) of Some q \<Rightarrow> q = [] | None \<Rightarrow> True) \<longrightarrow>
              (\<exists>t''. tcp_AcceptTransport y t' = Some (t'', Inr conn) \<and> map_of (txChs t'') (ip4_text a) = Some [])))"
proof -
  have p: "packet = 4 # a @ b @ replicate 24 0" using dispatch_packet_v4 [OF assms(1,2)] assms(5) by (simp add: dispatchTypeIPv4_def)
  show ?thesis
  proof (cases "a = b")
    case True
    then show ?thesis unfolding p using dispatch_v4 [OF assms(1-3), of conn "replicate 24 0" t] assms(4)
      by (simp add: Let_def store_def upd_session_def tcp_GetDstTransportWriter_def update_conv')
  next
    case False
    then show ?thesis unfolding p using dispatch_v4 [OF assms(1-3), of conn "replicate 24 0" t]
      by (auto simp: Let_def tx_push_def update_conv' tcp_AcceptTransport_def split: option.splits)
  qed
qed

theorem tcp_dispatch_delivers_witness:
  "\<exists>packet t' s'. dispatch_packet 4 ''10.0.0.2'' ''10.0.0.3'' = Some (Inr packet) \<and>
     tcp_dispatch 7 (Some packet) (newTcpServer, demo_server\<lparr>sessions := [(''10.0.0.3'', 3)], sess := [3 \<mapsto> newServerSession 0 ''c'']\<rparr>) = Some ((t', s'), None) \<and>
     map_of (txChs t') ''10.0.0.2'' = Some [7]"
proof -
  have t: "ip4_text [10, 0, 0, 2] = ''10.0.0.2''" "ip4_text [10, 0, 0, 3] = ''10.0.0.3''" by code_simp+
  let ?s = "demo_server\<lparr>sessions := [(''10.0.0.3'', 3)], sess := [3 \<mapsto> newServerSession 0 ''c'']\<rparr>"
  have p: "dispatch_packet dispatchTypeIPv4 (ip4_text [10, 0, 0, 2]) (ip4_text [10, 0, 0, 3]) = Some (Inr (4 # [10, 0, 0, 2] @ [10, 0, 0, 3] @ replicate 24 0))"
    unfolding dispatchTypeIPv4_def by (rule dispatch_packet_v4) simp_all
  show ?thesis
    using tcp_dispatch_delivers [OF _ _ _ _ p, of ?s 3 "newServerSession 0 ''c''" 7 newTcpServer] p t
    by (fastforce simp: dispatchTypeIPv4_def newTcpServer_def)
qed

text \<open>
  The queue is chosen by the address alone, so a session of another network with the same address takes the connection as well.
\<close>

lemma AcceptTransport_any_network:
  "ss_IP x = ss_IP y \<Longrightarrow> ss_sig x = ss_sig y \<Longrightarrow> tcp_AcceptTransport x t = tcp_AcceptTransport y t"
  by (auto simp: tcp_AcceptTransport_def split: option.splits list.splits)

text \<open>A short dispatch packet is a panic.\<close>

lemma dispatch_short_packet: "first \<noteq> [] \<Longrightarrow> first ! 0 = 4 \<Longrightarrow> length first < 9 \<Longrightarrow> tcp_dispatch conn (Some first) (t, s) = None"
  by (cases first) (simp_all add: tcp_dispatch_def)

section \<open>The client as the adaptor of the hub\<close>

interpretation tcpa: tx_adaptor conns closed "\<lambda>(d, wr, ack). tcp_connect self d wr ack" tcp_CloseDst tcp_Close for self
proof unfold_locales
  fix c c' :: tcp_client and dst w and e :: "(goerr + nat) \<times> goerr option \<times> (goerr + byte)" and r
  show "conns c' = AList.update dst w (conns c) \<and> closed c' = closed c"
    if "(case e of (d, wr, ack) \<Rightarrow> tcp_connect self d wr ack) dst c = Some (c', Inr (Some w))"
    using that by (auto simp: tcp_connect_def Let_def split: prod.splits sum.splits option.splits if_splits)
  show "conns c' = conns c \<and> set (closed c) \<subseteq> set (closed c')"
    if "(case e of (d, wr, ack) \<Rightarrow> tcp_connect self d wr ack) dst c = Some (c', r)" "\<And>w. r \<noteq> Inr (Some w)"
    using that by (auto simp: tcp_connect_def Let_def split: prod.splits sum.splits option.splits if_splits)
  show "conns (tcp_CloseDst dst c) = AList.delete dst (conns c)"
    by (auto simp: tcp_CloseDst_def map_of_eq_None_iff delete_idem split: option.split)
qed (auto simp: tcp_CloseDst_def tcp_Close_def split: option.split)

text \<open>
  Two dials of one destination that overlap, both past their look into the table, open two connections; the first is forgotten and never closed.
\<close>

lemma overlapping_dials_leak:
  assumes "client_dispatch dispatchTypeIPv4 self dst None (Inr 1) = Some None" "dst \<noteq> self" "i \<noteq> j"
    and "i \<notin> set (closed c)" "control c \<noteq> Some i" "rx c \<noteq> Some i" "i \<notin> handle ` snd ` set (conns c)"
  shows "\<exists>c1 c2. tcp_connect self (Inr i) None (Inr 1) dst c = Some (c1, Inr (Some (Rw i ''tcp''))) \<and>
     tcp_connect self (Inr j) None (Inr 1) dst c1 = Some (c2, Inr (Some (Rw j ''tcp''))) \<and> i \<notin> set (closed (tcp_Close c2))"
proof -
  have "snd ` set (AList.update dst (Rw j ''tcp'') (AList.update dst (Rw i ''tcp'') xs)) \<subseteq> insert (Rw j ''tcp'') (snd ` set xs)" for xs :: "(string \<times> rw) list"
    by (induction xs) auto
  from image_mono [OF this, of handle "conns c"]
  have "handle ` snd ` set (AList.update dst (Rw j ''tcp'') (AList.update dst (Rw i ''tcp'') (conns c))) \<subseteq> insert j (handle ` snd ` set (conns c))" by simp
  then have "i \<notin> handle ` snd ` set (AList.update dst (Rw j ''tcp'') (AList.update dst (Rw i ''tcp'') (conns c)))"
    using assms(3,7) by blast
  then have "i \<notin> (\<lambda>(_, w). handle w) ` set (AList.update dst (Rw j ''tcp'') (AList.update dst (Rw i ''tcp'') (conns c)))" by (force simp: case_prod_beta)
  then have "i \<notin> set (closed (tcp_Close (c\<lparr>conns := AList.update dst (Rw j ''tcp'') (AList.update dst (Rw i ''tcp'') (conns c))\<rparr>)))"
    using assms(4-6) by (cases "control c"; cases "rx c") (simp_all add: tcp_Close_def)
  then show ?thesis using assms(1,2) by (simp add: tcp_connect_def Let_def)
qed

section \<open>The start of a client\<close>

text \<open>
  The control connection is acknowledged or the set-up fails; the packet of its dispatch never panics. Every connection that a new client opens on its start,
  whatever goes wrong, is closed by \<open>Close\<close>.
\<close>

lemma tcp_Setup_ok:
  "\<exists>c' k err. tcp_Setup dialled wr ack c = Some (c', k, err) \<and>
     (err = None \<longleftrightarrow> k \<noteq> None \<and> k = control c' \<and> wr = None \<and> ack = Inr 1 \<and> (\<exists>conn. dialled = Inr conn))"
  by (auto simp: tcp_Setup_def client_dispatch_def dispatch_packet_def Let_def split: sum.splits option.splits)

lemma tcp_start_closed:
  assumes "tcp_Setup (Inr k) wr ack newTcpClient = Some (c, ctl, err)" "tcp_AfterHandshake self (Inr n) wr' ack' c = Some c'"
  shows "{k, n} \<subseteq> set (closed (tcp_Close c'))"
  using assms
  by (auto simp: tcp_Setup_def tcp_AfterHandshake_def tcp_dialRx_def tcp_Dial_def tcp_connect_def newTcpClient_def tcp_Close_def split: option.splits)

text \<open>When the receive connection cannot be had, the client goes on without one: the start reports nothing, and no packet will ever reach its device.\<close>

lemma lost_rx_unnoticed:
  assumes "map_of (conns c) self = None" "rx c = None" "Option.bind (ParseIP self) To4 \<noteq> None" "dialled = Inl e \<or> wr = Some e \<or> ack \<noteq> Inr 1"
  shows "\<exists>c'. tcp_AfterHandshake self dialled wr ack c = Some c' \<and> rx c' = None"
  using assms
  by (auto simp: tcp_AfterHandshake_def tcp_dialRx_def tcp_Dial_def tcp_connect_def client_dispatch_def dispatch_packet_def dispatchTypeControl_def
      dispatchTypeIPv4_def Let_def split: sum.splits option.splits)

text \<open>\<open>Dial\<close> always writes the dispatch packet of IPv4, which is all that the address pools hand out; a client with another address would panic.\<close>

lemma IPv6_client_panics:
  assumes "map_of (conns c) self = None" "Option.bind (ParseIP self) To4 = None"
  shows "tcp_AfterHandshake self (Inr conn) wr ack c = None"
  using assms by (simp add: tcp_AfterHandshake_def tcp_dialRx_def tcp_Dial_def tcp_connect_def client_dispatch_def dispatch_packet_def dispatchTypeControl_def dispatchTypeIPv4_def)

end
