(* ===== verification/Tcp_Accept.thy ===== *)
theory Tcp_Accept
  imports Tcp "HOL-Library.Sublist"
begin

text \<open>
  The accept loop of the TCP server (\<open>acceptLoop\<close> in \<^verbatim>\<open>vnet/server/server_tcp.go\<close>) with its pool of workers, and the
  loop of a session that waits for transports (\<open>handleSession\<close> in \<^verbatim>\<open>vnet/server/server.go\<close>). Two properties show
  what connections of strangers can do to it: an invalid one ends a session, and some that nobody takes block all workers. \<open>None\<close> is a
  run-time panic.
\<close>

section \<open>The accept loop\<close>

text \<open>
  The receivers waiting on the channel \<^verbatim>\<open>acceptErr\<close>: the accept of new sessions, and the accept of transports by a
  session. A send that does not wait is taken by one of them, \<open>pick\<close> of Go's choosing, or dropped when nobody waits.
\<close>

datatype waiter = WAccept | WTransport nat

definition report_error :: "waiter list \<Rightarrow> nat \<Rightarrow> waiter option" where
  "report_error ws pick = (if ws = [] then None else Some (ws ! (pick mod length ws)))"

text \<open>
  The error \<open>dispatch\<close> returns after its deferred function: a timeout as it is, otherwise the error of the write of the
  acknowledgement, which fails on a connection just closed.
\<close>

definition ErrClosedConn :: goerr where
  "ErrClosedConn = ErrorNew ''use of closed network connection''"

definition dispatch_result :: "bytes option \<Rightarrow> goerr option \<Rightarrow> goerr option \<Rightarrow> goerr option" where
  "dispatch_result first err ack =
     (if first = None then err else case err of Some _ \<Rightarrow> Some ErrClosedConn | None \<Rightarrow> ack)"

text \<open>
  A round of \<open>acceptLoop\<close> with the work of the worker it submits: the outcome of the accept, of the first read, and of the write
  of the acknowledgement are arguments. The receiver of the error, if any, is part of the result.
\<close>

definition acceptLoop_round ::
    "goerr + nat \<Rightarrow> bytes option \<Rightarrow> goerr option \<Rightarrow> waiter list \<Rightarrow> nat \<Rightarrow> tcp_server \<times> server \<Rightarrow>
     ((tcp_server \<times> server) \<times> (waiter \<times> goerr) option) option" where
  "acceptLoop_round accepted first ack ws pick st =
     (case accepted of
        Inl e \<Rightarrow> Some (st, None)
      | Inr conn \<Rightarrow>
          (case tcp_dispatch conn first st of
             None \<Rightarrow> None
           | Some (st', err) \<Rightarrow>
               Some (st', case dispatch_result first err ack of
                            None \<Rightarrow> None | Some e \<Rightarrow> map_option (\<lambda>w. (w, e)) (report_error ws pick))))"

section \<open>The loop of a session\<close>

text \<open>
  A round of the loop of \<open>handleSession\<close>: \<open>sig\<close> and \<open>over\<close> tell whether the server was stopped or the context cancelled,
  \<open>accepted\<close> is the outcome of \<^verbatim>\<open>AcceptTransport\<close>. The result is the state after the deferred function when the loop ends, and otherwise
  the connection to handle.
\<close>

definition session_round :: "bool \<Rightarrow> bool \<Rightarrow> goerr + nat \<Rightarrow> nat \<Rightarrow> server \<Rightarrow> (server \<times> nat option) option" where
  "session_round sig over accepted ref s =
     (case sess s ref of
        None \<Rightarrow> None
      | Some ss \<Rightarrow>
          if sig \<or> ss_sig ss \<or> over then map_option (\<lambda>s'. (s', None)) (session_finish ref s)
          else case accepted of
            Inl e \<Rightarrow> map_option (\<lambda>s'. (s', None)) (session_finish ref s)
          | Inr conn \<Rightarrow> Some (s, Some conn))"

section \<open>A stranger ends a session\<close>

lemma dispatch_invalid:
  "first \<noteq> [] \<Longrightarrow> first ! 0 \<noteq> 1 \<Longrightarrow> first ! 0 \<noteq> 4 \<Longrightarrow>
   tcp_dispatch conn (Some first) (t, s) = Some ((t, s), Some (ErrorNew ''unsupported dispatch packet type''))"
  by (simp add: tcp_dispatch_def)

lemma finish_unroutes:
  assumes "holds s ref True nref b"
  shows "\<exists>s' n'. session_finish ref s = Some s' \<and> nets s' nref = Some n' \<and> routes (net_router n') (True, bits b) = None \<and>
     ip4_text b \<notin> allocated (net_pool n') \<and> map_of (sessions s') (ip4_text b) = None \<and> (\<exists>x'. sess s' ref = Some x' \<and> ss_conn_closed x')"
proof -
  from assms obtain x n dev where h: "length b = 4" "sess s ref = Some x" "ss_network x = Some nref" "nets s nref = Some n"
    "ss_device x = Some dev" "ss_IP x = ip4_text b" "dev_CIDR dev = cidr_text (net_pool n) (ip4_text b)"
    "ip4_text b \<in> allocated (net_pool n)" "ss_quota x \<noteq> None"
    by (rule holdsE) blast
  obtain q q' u sub where q: "ss_quota x = Some q" "CommitUsage q = (q', u, sub)" using h(9) by (metis not_Some_eq prod_cases3)
  from UnRegister_host [OF h(1), of "net_router n"]
  obtain rt where "UnRegister (net_router n) (ip4_text b @ ''/32'') = Some rt"
    "routes rt = (routes (net_router n))((True, bits b) := None)" by (elim exE conjE)
  then show ?thesis using h q
    by (simp add: session_finish_def session_Release_def ReleaseDevice_def ReleaseIP_def CloseWithError_def upd_session_def delete_conv' Let_def)
qed

text \<open>
  A connection that has not logged in can end the session of somebody else. Its first byte is no known type, so
  \<^verbatim>\<open>dispatch\<close> fails, and the error goes to one of the receivers that wait on the channel the whole server shares. If that is a session waiting for
  a transport, the session's loop ends: its connection is closed, and its lease, its route and its entry in the table are gone.
\<close>
theorem invalid_connection_ends_session:
  assumes "first \<noteq> []" "first ! 0 \<notin> {1, 4}" "pick mod length ws = i" "i < length ws" "ws ! i = WTransport ref"
    and "holds s ref True nref b"
  shows "\<exists>e s' n'. acceptLoop_round (Inr conn) (Some first) ack ws pick (t, s) = Some ((t, s), Some (WTransport ref, e)) \<and>
     session_round False False (Inl e) ref s = Some (s', None) \<and> nets s' nref = Some n' \<and>
     routes (net_router n') (True, bits b) = None \<and> ip4_text b \<notin> allocated (net_pool n') \<and> map_of (sessions s') (ip4_text b) = None \<and>
     (\<exists>x'. sess s' ref = Some x' \<and> ss_conn_closed x')"
proof -
  have "acceptLoop_round (Inr conn) (Some first) ack ws pick (t, s) = Some ((t, s), Some (WTransport ref, ErrClosedConn))"
    using dispatch_invalid [of first conn t s] assms(1-5) by (auto simp: acceptLoop_round_def dispatch_result_def report_error_def)
  moreover obtain s' n' where f: "session_finish ref s = Some s'" "nets s' nref = Some n'" "routes (net_router n') (True, bits b) = None"
    "ip4_text b \<notin> allocated (net_pool n')" "map_of (sessions s') (ip4_text b) = None" "\<exists>x'. sess s' ref = Some x' \<and> ss_conn_closed x'"
    using finish_unroutes [OF assms(6)] by blast
  moreover obtain x where "sess s ref = Some x" using assms(6) by (auto simp: holds_def)
  then have "session_round False False (Inl ErrClosedConn) ref s = Some (s', None)" using f(1) by (simp add: session_round_def)
  ultimately show ?thesis by blast
qed

theorem invalid_connection_ends_session_witness:
  "\<exists>s s' n'. enter [] ''a'' 0 demo_server = Some (s, True) \<and> session_round False False (Inl ErrClosedConn) 0 s = Some (s', None) \<and>
     nets s' 0 = Some n' \<and> routes (net_router n') (True, bits [10, 0, 0, 5]) = None"
proof -
  have t: "ip4_text [10, 0, 0, 5] = ''10.0.0.5''" "utoa 24 = ''24''" by code_simp+
  have "map_option (\<lambda>(s, ok). (hold_facts s 0, net_facts s, ok)) (enter [] ''a'' 0 demo_server) =
      Some (Some (Some 0, ''10.0.0.5'', Some ''10.0.0.5/24'', True), Some (True, Some 0, Some 0, 24), True)" by code_simp
  then obtain s where s: "enter [] ''a'' 0 demo_server = Some (s, True)"
    and f: "hold_facts s 0 = Some (Some 0, ''10.0.0.5'', Some ''10.0.0.5/24'', True)" "net_facts s = Some (True, Some 0, Some 0, 24)"
    by (auto split: prod.splits)
  have h: "holds s 0 True 0 [10, 0, 0, 5]" using f t by (auto simp: hold_facts_def net_facts_def holds_def cidr_text_def)
  have "acceptLoop_round (Inr 3) (Some [9]) None [WAccept, WTransport 0] 1 (newTcpServer, s) =
     Some ((newTcpServer, s), Some (WTransport 0, ErrClosedConn))"
    by (simp add: acceptLoop_round_def tcp_dispatch_def dispatch_result_def report_error_def)
  then show ?thesis
    using invalid_connection_ends_session [of "[9]" 1 "[WAccept, WTransport 0]" 1 0 s 0 "[10, 0, 0, 5]" 3 None newTcpServer] h s by auto
qed

section \<open>Strangers block the workers\<close>

text \<open>
  A worker of the pool stays busy until the connection it sends into a channel is taken: the number of busy workers is at
  least the number of waiting connections, and a full pool dispatches nothing more. The pool has one worker for each processor.
\<close>

definition busy :: "tcp_server \<Rightarrow> nat" where
  "busy t = length (acceptCh t) + sum_list (map (\<lambda>(_, q). length q) (txChs t))"

definition waiting :: "tcp_server \<Rightarrow> string \<Rightarrow> nat list" where
  "waiting t k = (case map_of (txChs t) k of Some q \<Rightarrow> q | None \<Rightarrow> [])"

text \<open>Steps of the server in which no session with the address \<open>a\<close> takes part; everything else may happen to the rest of the server.\<close>

inductive tcp_step :: "nat \<Rightarrow> string \<Rightarrow> tcp_server \<times> server \<Rightarrow> tcp_server \<times> server \<Rightarrow> bool" for cap a where
  worker: "busy t < cap \<Longrightarrow> tcp_dispatch conn first (t, s) = Some ((t', s'), err) \<Longrightarrow> tcp_step cap a (t, s) (t', s')"
| control: "tcp_Accept now sid ref (t, s) = Some (st', conn) \<Longrightarrow> tcp_step cap a (t, s) st'"
| transport: "ss_IP x \<noteq> a \<Longrightarrow> tcp_AcceptTransport x t = Some (t', r) \<Longrightarrow> tcp_step cap a (t, s) (t', s)"
| other: "tcp_step cap a (t, s) (t, s')"

inductive_cases tcp_stepE: "tcp_step cap a (t, s) (t', s')"

lemma waiting_le_busy: "length (waiting t k) \<le> busy t"
proof (cases "map_of (txChs t) k")
  case (Some q)
  then have "length q \<in> set (map (\<lambda>(_, q). length q) (txChs t))" by (force dest: map_of_SomeD)
  then have "length q \<le> sum_list (map (\<lambda>(_, q). length q) (txChs t))" by (rule member_le_sum_list) simp
  then show ?thesis using Some by (simp add: waiting_def busy_def)
qed (simp add: waiting_def)

lemma sum_update:
  "sum_list (map (\<lambda>(_, q). length q) (AList.update k ((case map_of al k of Some q \<Rightarrow> q | None \<Rightarrow> []) @ [c]) al)) =
   Suc (sum_list (map (\<lambda>(_, q). length q) al))"
  by (induction al) auto

lemma busy_tx_push: "busy (tx_push k c t) = Suc (busy t)"
  by (simp add: busy_def tx_push_def sum_update)

lemma waiting_tx_push: "waiting (tx_push k c t) k' = (if k' = k then waiting t k @ [c] else waiting t k')"
  by (simp add: waiting_def tx_push_def update_conv')

lemma stuck_step:
  assumes "tcp_step cap a (t, s) (t', s')" "cap \<le> length (waiting t a)"
  shows "waiting t' a = waiting t a \<and> suffix (acceptCh t') (acceptCh t)"
  using assms(1)
proof (rule tcp_stepE)
  fix conn first err assume "busy t < cap" "tcp_dispatch conn first (t, s) = Some ((t', s'), err)"
  then show ?thesis using waiting_le_busy [of t a] assms(2) by simp
next
  fix now sid ref conn assume "tcp_Accept now sid ref (t, s) = Some ((t', s'), conn)"
  then show ?thesis by (auto simp: tcp_Accept_def waiting_def suffix_Cons split: list.splits)
next
  fix x r assume "ss_IP x \<noteq> a" "tcp_AcceptTransport x t = Some (t', r)"
  then show ?thesis by (auto simp: tcp_AcceptTransport_def waiting_def update_conv' split: option.splits list.splits if_splits)
qed simp

text \<open>
  Connections that nobody takes stop the server for good. A data connection names its sender \<open>a\<close> itself and only has to name a connected client
  \<open>b\<close> as its destination. If no session has the address \<open>a\<close>, then as many such connections as there are workers fill the pool; from
  then on, whatever else happens as long as no session with that address accepts, they stay there, no worker is free to dispatch another
  connection, and no new control connection arrives.
\<close>
theorem strangers_block_workers:
  assumes "length a = 4" "length b = 4" "a \<noteq> b" "map_of (sessions s) (ip4_text b) = Some ref" "busy t = 0"
    and "dispatch_packet dispatchTypeIPv4 (ip4_text a) (ip4_text b) = Some (Inr packet)" "length ks = cap"
  shows "\<exists>t1. (tcp_step cap (ip4_text a))\<^sup>*\<^sup>* (t, s) (t1, s) \<and> waiting t1 (ip4_text a) = ks \<and>
     (\<forall>t' s'. (tcp_step cap (ip4_text a))\<^sup>*\<^sup>* (t1, s) (t', s') \<longrightarrow>
        waiting t' (ip4_text a) = ks \<and> cap \<le> busy t' \<and> suffix (acceptCh t') (acceptCh t1))"
proof -
  have p: "packet = 4 # a @ b @ replicate 24 0" using dispatch_packet_v4 [OF assms(1,2)] assms(6) by (simp add: dispatchTypeIPv4_def)
  have "waiting t (ip4_text a) = []" using waiting_le_busy [of t "ip4_text a"] assms(5) by simp
  have "\<exists>t1. (tcp_step cap (ip4_text a))\<^sup>*\<^sup>* (t, s) (t1, s) \<and> waiting t1 (ip4_text a) = ks' \<and> busy t1 = length ks'"
    if "length ks' \<le> cap" for ks'
    using that
  proof (induction ks' rule: rev_induct)
    case Nil
    show ?case using \<open>waiting t (ip4_text a) = []\<close> assms(5) by (intro exI [of _ t]) simp
  next
    case (snoc c cs)
    then obtain t1 where t1: "(tcp_step cap (ip4_text a))\<^sup>*\<^sup>* (t, s) (t1, s)" "waiting t1 (ip4_text a) = cs" "busy t1 = length cs" by auto
    let ?t = "t1\<lparr>transportConn := AList.update (ip4_text b) c (transportConn t1)\<rparr>"
    have "tcp_dispatch c (Some packet) (t1, s) = Some ((tx_push (ip4_text a) c ?t, s), None)"
      using dispatch_v4 [OF assms(1,2,4), of c "replicate 24 0" t1] assms(3) by (simp add: p Let_def)
    then have "tcp_step cap (ip4_text a) (t1, s) (tx_push (ip4_text a) c ?t, s)" using t1(3) snoc.prems by (intro tcp_step.worker) auto
    moreover have "waiting ?t = waiting t1" "busy ?t = busy t1" by (simp_all add: waiting_def busy_def fun_eq_iff)
    ultimately show ?case using t1 busy_tx_push [of "ip4_text a" c ?t] waiting_tx_push [of "ip4_text a" c ?t]
      by (intro exI [of _ "tx_push (ip4_text a) c ?t"]) (auto intro: rtranclp.rtrancl_into_rtrancl)
  qed
  then obtain t1 where t1: "(tcp_step cap (ip4_text a))\<^sup>*\<^sup>* (t, s) (t1, s)" "waiting t1 (ip4_text a) = ks"
    using assms(7) by blast
  have "waiting t' (ip4_text a) = ks \<and> suffix (acceptCh t') (acceptCh t1)"
    if "(tcp_step cap (ip4_text a))\<^sup>*\<^sup>* (t1, s) (t', s')" for t' s'
    using that
  proof (induction rule: rtranclp_induct2)
    case (step t2 s2 t3 s3)
    then show ?case using stuck_step [OF step.hyps(2)] assms(7) by (metis order_refl suffix_order.trans)
  qed (use t1(2) in simp)
  then show ?thesis using t1 waiting_le_busy assms(7) by metis
qed

theorem strangers_block_workers_witness:
  "\<exists>t1. waiting t1 ''10.0.0.9'' = [7, 8] \<and>
     \<not> (\<exists>t' s'. (tcp_step 2 ''10.0.0.9'')\<^sup>*\<^sup>* (t1, demo_server\<lparr>sessions := [(''10.0.0.3'', 3)]\<rparr>) (t', s') \<and> busy t' < 2)"
proof -
  have t: "ip4_text [10, 0, 0, 9] = ''10.0.0.9''" "ip4_text [10, 0, 0, 3] = ''10.0.0.3''" by code_simp+
  have p: "dispatch_packet dispatchTypeIPv4 (ip4_text [10, 0, 0, 9]) (ip4_text [10, 0, 0, 3]) = Some (Inr (4 # [10, 0, 0, 9] @ [10, 0, 0, 3] @ replicate 24 0))"
    unfolding dispatchTypeIPv4_def by (rule dispatch_packet_v4) simp_all
  have s: "map_of (sessions (demo_server\<lparr>sessions := [(''10.0.0.3'', 3)]\<rparr>)) (ip4_text [10, 0, 0, 3]) = Some 3" using t by simp
  have b: "busy newTcpServer = 0" by (simp add: busy_def newTcpServer_def)
  obtain t1 where w: "waiting t1 ''10.0.0.9'' = [7, 8]"
    "\<And>t' s'. (tcp_step 2 ''10.0.0.9'')\<^sup>*\<^sup>* (t1, demo_server\<lparr>sessions := [(''10.0.0.3'', 3)]\<rparr>) (t', s') \<Longrightarrow> 2 \<le> busy t'"
    using strangers_block_workers [OF _ _ _ s b p, of "[7, 8]" 2] t by auto
  then show ?thesis by (meson leD)
qed

end
