(* ===== verification/Client_Sync.thy ===== *)
theory Client_Sync
  imports Server_Ops_Props Destination "HOL-Library.Sublist"
begin

text \<open>
  How a client follows its network: \<^verbatim>\<open>vnet/client/sync_router.go\<close>. The routing table of the client maps host routes to
  destinations, with nil (\<open>None\<close>) for its own address. What the server answers is an argument; the order in which Go
  visits a map is an argument too (\<open>cord\<close>, \<open>mord\<close>, \<open>pord\<close>). \<open>None\<close> is a run-time panic.
\<close>

section \<open>State\<close>

record client =
  cl_IP :: string
  cl_router :: "destination option router"
  cl_p2p :: p2p_state
  cl_version :: uint64
  cl_made :: nat
  cl_closed :: "destination list"
  cl_closedDst :: "string list"

section \<open>The routing table\<close>

definition slash_head :: "string \<Rightarrow> string" where
  "slash_head s = hd (split_at CHR ''/'' s)"

text \<open>The routes that the server does not list any more.\<close>

fun remove_stale :: "string list \<Rightarrow> string list \<Rightarrow> client \<Rightarrow> client option" where
  "remove_stale mip [] c = Some c"
| "remove_stale mip (cidr # cs) c =
     (if cidr \<in> set mip then remove_stale mip cs c
      else let addr = slash_head cidr; v = RouteString (cl_router c) addr in
        case (case v of Some _ \<Rightarrow> UnRegister (cl_router c) cidr | None \<Rightarrow> Some (cl_router c)) of
          None \<Rightarrow> None
        | Some r \<Rightarrow>
            remove_stale mip cs
              (c\<lparr>cl_router := r, cl_closed := cl_closed c @ (case v of Some (Some d) \<Rightarrow> [d] | _ \<Rightarrow> []),
                 cl_closedDst := cl_closedDst c @ [addr]\<rparr>))"

text \<open>The routes that the client does not have yet; \<^verbatim>\<open>strings.HasPrefix(ip, c.session.IP)\<close>.\<close>

fun add_missing :: "string list \<Rightarrow> string list \<Rightarrow> client \<Rightarrow> client option" where
  "add_missing cip [] c = Some c"
| "add_missing cip (cidr # ms) c =
     (if cidr \<in> set cip then add_missing cip ms c
      else let (target, c) = (if prefix (cl_IP c) cidr then (None, c)
                              else (Some (NewDestination (cl_made c) (slash_head cidr)), c\<lparr>cl_made := Suc (cl_made c)\<rparr>)) in
        case Register (cl_router c) cidr target of
          None \<Rightarrow> None
        | Some r \<Rightarrow> add_missing cip ms (c\<lparr>cl_router := r\<rparr>))"

text \<open>
  \<open>updateRouter\<close>: \<open>resp\<close> is the answer to the call, decoded from base64 and JSON; an empty answer is ignored.
\<close>

definition updateRouter :: "goerr + (goerr + string list) option \<Rightarrow> string list \<Rightarrow> string list \<Rightarrow> client \<Rightarrow> (client \<times> goerr option) option" where
  "updateRouter resp cord mord c =
     (case resp of
        Inl e \<Rightarrow> Some (c, Some e)
      | Inr None \<Rightarrow> Some (c, None)
      | Inr (Some (Inl e)) \<Rightarrow> Some (c, Some e)
      | Inr (Some (Inr ips)) \<Rightarrow>
          (case remove_stale ips cord c of
             None \<Rightarrow> None
           | Some c1 \<Rightarrow> map_option (\<lambda>c2. (c2, None)) (add_missing (Keys (cl_router c)) mord c1)))"

section \<open>The peer mapping\<close>

text \<open>\<open>parse\<close> decodes the information on a peer to its id; \<open>self\<close> is the id of the own host.\<close>

definition sync_peer :: "(string \<Rightarrow> string option) \<Rightarrow> string \<Rightarrow> string \<Rightarrow> string \<times> string \<Rightarrow> p2p_state \<Rightarrow> p2p_state" where
  "sync_peer parse self ownIP kv p =
     (case kv of (k, v) \<Rightarrow>
        if k = ownIP then p
        else case parse v of
          None \<Rightarrow> p
        | Some pi \<Rightarrow>
            (case peerMapping p k of
               Some curr_id \<Rightarrow> if curr_id = self \<or> curr_id = pi then p else p\<lparr>peerMapping := (peerMapping p)(k \<mapsto> pi)\<rparr>
             | None \<Rightarrow> p\<lparr>peerMapping := (peerMapping p)(k \<mapsto> pi)\<rparr>))"

definition drop_peer :: "(string \<times> string) list \<Rightarrow> string \<Rightarrow> p2p_state \<Rightarrow> p2p_state" where
  "drop_peer mapping k p =
     (if map_of mapping k = None
      then p\<lparr>peerMapping := (peerMapping p)(k := None),
             cancelled := cancelled p @ (case connections p (KeyIp k) of Some conn \<Rightarrow> [conn] | None \<Rightarrow> [])\<rparr>
      else p)"

definition syncP2PPeerMapping ::
    "goerr + (goerr + (string \<times> string) list) option \<Rightarrow> (string \<Rightarrow> string option) \<Rightarrow> string \<Rightarrow> string list \<Rightarrow> client \<Rightarrow> client \<times> goerr option" where
  "syncP2PPeerMapping resp parse self pord c =
     (case resp of
        Inl e \<Rightarrow> (c, Some e)
      | Inr None \<Rightarrow> (c, None)
      | Inr (Some (Inl e)) \<Rightarrow> (c, Some e)
      | Inr (Some (Inr mapping)) \<Rightarrow>
          (c\<lparr>cl_p2p := fold (drop_peer mapping) pord (fold (sync_peer parse self (cl_IP c)) mapping (cl_p2p c))\<rparr>, None))"

section \<open>A synchronisation\<close>

text \<open>\<^verbatim>\<open>strconv.Atoi\<close> with its error dropped: zero for text that is no number, the bound for one out of range.\<close>

definition digits :: "string \<Rightarrow> nat option" where
  "digits s = (if s \<noteq> [] \<and> list_all (\<lambda>c. 48 \<le> (of_char c :: nat) \<and> (of_char c :: nat) \<le> 57) s
               then Some (fold (\<lambda>c n. 10 * n + (of_char c - 48)) s 0) else None)"

definition Atoi :: "string \<Rightarrow> int" where
  "Atoi s =
     (case s of
        [] \<Rightarrow> 0
      | c # r \<Rightarrow>
          if c = CHR ''-'' then (case digits r of None \<Rightarrow> 0 | Some n \<Rightarrow> max (- (2 ^ 63)) (- int n))
          else (case digits (if c = CHR ''+'' then r else s) of None \<Rightarrow> 0 | Some n \<Rightarrow> min (2 ^ 63 - 1) (int n)))"

text \<open>
  \<open>syncRouter\<close>: \<open>ping\<close> is the answer to the ping, \<open>upd\<close> and \<open>peers\<close> are the two updates with the answers they get. An answer without
  a comma is an index out of range.
\<close>

definition syncRouter ::
    "(string \<Rightarrow> string) \<Rightarrow> goerr + string \<Rightarrow> (client \<Rightarrow> (client \<times> goerr option) option) \<Rightarrow> (client \<Rightarrow> client \<times> goerr option) \<Rightarrow>
     client \<Rightarrow> (client \<times> goerr option) option" where
  "syncRouter md5hex ping upd peers c =
     (case ping of
        Inl e \<Rightarrow> Some (c, Some e)
      | Inr data \<Rightarrow>
          (case split_at CHR '','' data of
             remote # ver # _ \<Rightarrow>
               let latestVer = (of_int (Atoi ver) :: uint64) in
               (case (if remote \<noteq> MD5 md5hex (cl_router c) then map_option fst (upd c) else Some c) of
                  None \<Rightarrow> None
                | Some c1 \<Rightarrow>
                    Some (if cl_version c1 \<noteq> latestVer \<and> enabled (cl_p2p c1)
                          then (fst (peers c1))\<lparr>cl_version := latestVer\<rparr> else c1, None))
           | _ \<Rightarrow> None))"

section \<open>The loops\<close>

definition MaxErrorToReconnect :: nat where
  "MaxErrorToReconnect = 3"

definition MaxReconnectInterval :: int where
  "MaxReconnectInterval = 30"

text \<open>A tick of \<open>syncRouterLoop\<close>: \<open>None\<close> when the loop ends to reconnect.\<close>

definition sync_tick :: "nat \<Rightarrow> bool \<Rightarrow> nat option" where
  "sync_tick errCount ok = (if ok then Some 0 else if errCount + 1 \<ge> MaxErrorToReconnect then None else Some (errCount + 1))"

text \<open>\<open>fib\<close> in \<^verbatim>\<open>int\<close>, and the waiting time before try number \<open>tries\<close> + 1.\<close>

fun fib_loop :: "nat \<Rightarrow> int \<Rightarrow> int \<Rightarrow> int" where
  "fib_loop 0 a b = b"
| "fib_loop (Suc k) a b = fib_loop k b (wrap64 (a + b))"

definition fib :: "nat \<Rightarrow> int" where
  "fib n = (if n = 0 then 1 else fib_loop (n - 1) 1 1)"

definition reconnect_interval :: "nat \<Rightarrow> int" where
  "reconnect_interval tries =
     (if tries = 0 then 1
      else let interval = fib (tries + 1) in if interval > MaxReconnectInterval then MaxReconnectInterval else interval)"

text \<open>\<^verbatim>\<open>time.Duration(interval) * time.Second\<close>, in nanoseconds.\<close>

definition reconnect_delay :: "nat \<Rightarrow> int" where
  "reconnect_delay tries = wrap64 (reconnect_interval tries * 1000000000)"

end
