(* ===== verification/Client_Sync_Props.thy ===== *)
theory Client_Sync_Props
  imports Client_Sync
begin

text \<open>
  Properties of the client's synchronisation: one exchange makes its table and fingerprint agree with the server's, which addresses it
  takes for its own, and how long it waits between attempts to reconnect.
\<close>

section \<open>Tables of host routes\<close>

definition host_table :: "(bool \<times> bool list \<Rightarrow> 'v option) \<Rightarrow> bool" where
  "host_table tb \<longleftrightarrow> (\<forall>fp. tb fp \<noteq> None \<longrightarrow> (\<exists>b. length b = 4 \<and> fp = (True, bits b)))"

definition host_text :: "bytes \<Rightarrow> string" where
  "host_text b = ip4_text b @ ''/32''"

lemma host_text_inject: "length a = 4 \<Longrightarrow> length b = 4 \<Longrightarrow> host_text a = host_text b \<longleftrightarrow> a = b"
  using ip4_text_bits by (auto simp: host_text_def)

lemma slash_head_host [simp]: "slash_head (host_text b) = ip4_text b"
proof -
  have "CHR ''/'' \<notin> set (ip4_text b)" by (simp add: ip4_text_eq no_slash_ip4)
  then show ?thesis by (simp add: slash_head_def host_text_def split_at_append)
qed

lemma host_text_image: "length b = 4 \<Longrightarrow> \<forall>x \<in> B. length x = 4 \<Longrightarrow> host_text b \<in> host_text ` B \<longleftrightarrow> b \<in> B"
  using host_text_inject by blast

lemma show_route_host:
  assumes "length b = 4"
  shows "show_route (True, bits b) = host_text b"
proof -
  let ?ip = "clear_host_bits 4 32 (set_prefix_bits 32 (bstr (bits b)) (replicate 4 0))"
  have "length ?ip = 4" "\<And>i. i < 32 \<Longrightarrow> bits ?ip ! i \<longleftrightarrow> bits b ! i"
    using printed_bits [of "bits b" 4] assms by auto
  then have "?ip = b" using assms by (intro bits_inject nth_equalityI) auto
  moreover have l: "length (bits b) = 32" using assms by simp
  moreover have "bits b \<noteq> []" using l by (metis list.size(3) zero_neq_numeral)
  ultimately show ?thesis using intToString_32
    by (simp add: show_route_def prefixToCIDR_def host_text_def ip4_text_eq)
qed

lemma host_table_width:
  assumes "host_table tb"
  shows "width_ok tb"
  unfolding width_ok_def
proof (intro allI impI)
  fix fam p assume "tb (fam, p) \<noteq> None"
  then obtain b where b: "length b = 4" "fam" "p = bits b" using assms unfolding host_table_def by blast
  have "length (bits b) = 32" using b(1) by simp
  then show "length p \<le> (if fam then 32 else 128) \<and> (\<exists>s. cidr_route s = Some (fam, p) \<and> \<not> mapped_cidr s)"
    using host_cidr [OF b(1)] b(2,3) by auto
qed

lemma Keys_host:
  assumes "host_table (routes r)"
  shows "set (Keys r) = host_text ` {b. length b = 4 \<and> routes r (True, bits b) \<noteq> None}"
proof -
  have "set (Keys r) = {s. \<exists>v. (s, v) \<in> set (Range r)}" by (force simp: Keys_def)
  also have "\<dots> = {show_route fp | fp. routes r fp \<noteq> None \<and> length (snd fp) < 128}"
    unfolding Range_lists_routes [OF host_table_width [OF assms]]
    using show_route_ok(1) [OF host_table_width [OF assms]] by auto
  also have "\<dots> = {host_text b | b. length b = 4 \<and> routes r (True, bits b) \<noteq> None}"
  proof (intro set_eqI iffI; clarsimp)
    fix fam p y assume v: "routes r (fam, p) = Some y"
    then obtain b where "length b = 4" "(fam, p) = (True, bits b)" using assms by (auto simp: host_table_def)
    then show "\<exists>b. show_route (fam, p) = host_text b \<and> length b = 4 \<and> (\<exists>y. routes r (True, bits b) = Some y)"
      using v show_route_host by auto
  next
    fix b y assume "length b = 4" "routes r (True, bits b) = Some y"
    then show "\<exists>fam p. host_text b = show_route (fam, p) \<and> (\<exists>y. routes r (fam, p) = Some y) \<and> length p < 128"
      using show_route_host by (intro exI [of _ True] exI [of _ "bits b"]) auto
  qed
  finally show ?thesis by blast
qed

lemma md5_input_dom: "(\<And>p. (tb p = None) = (tb' p = None)) \<Longrightarrow> md5_input k q tb = md5_input k q tb'"
  by (induction k arbitrary: q tb tb') (simp, simp only: md5_input.simps)

lemma MD5_dom:
  assumes "\<And>fp. (routes r fp = None) = (routes r' fp = None)"
  shows "MD5 h r = MD5 h r'"
proof -
  have "(entry (v4 r) p = None) = (entry (v4 r') p = None)" "(entry (v6 r) p = None) = (entry (v6 r') p = None)" for p
    using assms [of "(True, p)"] assms [of "(False, p)"] by (simp_all add: routes_def)
  then show ?thesis by (simp add: MD5_def collectMD5_input md5_input_dom [of "entry (v4 r)" "entry (v4 r')"] md5_input_dom [of "entry (v6 r)" "entry (v6 r')"])
qed

section \<open>The two passes\<close>

lemma remove_stale_routes:
  assumes "\<forall>b \<in> set bs. length b = 4"
  shows "\<exists>c'. remove_stale mip (map host_text bs) c = Some c' \<and> cl_IP c' = cl_IP c \<and>
     routes (cl_router c') = (\<lambda>fp. if \<exists>b \<in> set bs. fp = (True, bits b) \<and> host_text b \<notin> set mip then None else routes (cl_router c) fp)"
  using assms
proof (induction bs arbitrary: c)
  case (Cons b bs)
  have b: "length b = 4" "\<forall>b \<in> set bs. length b = 4" using Cons.prems by auto
  show ?case
  proof (cases "host_text b \<in> set mip")
    case True
    then show ?thesis using Cons.IH [OF b(2), of c] by (auto simp: fun_eq_iff)
  next
    case False
    let ?v = "RouteString (cl_router c) (ip4_text b)"
    obtain r where r: "(case ?v of Some _ \<Rightarrow> UnRegister (cl_router c) (host_text b) | None \<Rightarrow> Some (cl_router c)) = Some r"
      "routes r = (routes (cl_router c))((True, bits b) := None)"
    proof (cases ?v)
      case None
      then have "routes (cl_router c) (True, bits b) = None" using RouteString_host [OF b(1), of "cl_router c"] by (cases "routes (cl_router c) (True, bits b)") fastforce+
      then show ?thesis using None that [of "cl_router c"] by (auto simp: fun_eq_iff)
    next
      case (Some v)
      obtain r where "UnRegister (cl_router c) (host_text b) = Some r" "routes r = (routes (cl_router c))((True, bits b) := None)"
        using UnRegister_host [OF b(1), of "cl_router c"] unfolding host_text_def by (elim exE conjE)
      then show ?thesis using Some that [of r] by simp
    qed
    let ?c = "c\<lparr>cl_router := r, cl_closed := cl_closed c @ (case ?v of Some (Some d) \<Rightarrow> [d] | _ \<Rightarrow> []), cl_closedDst := cl_closedDst c @ [ip4_text b]\<rparr>"
    obtain c' where "remove_stale mip (map host_text bs) ?c = Some c'" "cl_IP c' = cl_IP ?c"
      "routes (cl_router c') = (\<lambda>fp. if \<exists>b \<in> set bs. fp = (True, bits b) \<and> host_text b \<notin> set mip then None else routes (cl_router ?c) fp)"
      using Cons.IH [OF b(2), of ?c] by blast
    then show ?thesis using False r by (intro exI [of _ c']) (auto simp: Let_def fun_eq_iff)
  qed
qed auto

text \<open>
  The target that an added route gets from the code, by its test of a prefix of the text; the target it should get: nil for the own address and a
  destination of its own for every other; and the addresses that the code mistakes for the own one, as 10.0.0.10 for a client with the address 10.0.0.1.
\<close>

definition code_target :: "string \<Rightarrow> bytes \<Rightarrow> destination option \<Rightarrow> bool" where
  "code_target self b v \<longleftrightarrow> (case v of None \<Rightarrow> prefix self (host_text b) | Some d \<Rightarrow> \<not> prefix self (host_text b) \<and> ip d = ip4_text b)"

definition right_target :: "string \<Rightarrow> bytes \<Rightarrow> destination option \<Rightarrow> bool" where
  "right_target self b v \<longleftrightarrow> (case v of None \<Rightarrow> ip4_text b = self | Some d \<Rightarrow> ip4_text b \<noteq> self \<and> ip d = ip4_text b)"

definition mistaken :: "string \<Rightarrow> bytes \<Rightarrow> bool" where
  "mistaken self b \<longleftrightarrow> prefix self (host_text b) \<and> ip4_text b \<noteq> self"

lemma code_target_right: "code_target self b v \<Longrightarrow> if mistaken self b then v = None else right_target self b v"
  by (auto simp: code_target_def right_target_def mistaken_def host_text_def split: option.splits)

lemma add_missing_routes:
  assumes "\<forall>b \<in> set bs. length b = 4"
  shows "\<exists>c'. add_missing cip (map host_text bs) c = Some c' \<and> cl_IP c' = cl_IP c \<and>
     (\<forall>b \<in> set bs. host_text b \<notin> set cip \<longrightarrow> (\<exists>v. routes (cl_router c') (True, bits b) = Some v \<and> code_target (cl_IP c) b v)) \<and>
     (\<forall>fp. (\<forall>b \<in> set bs. host_text b \<notin> set cip \<longrightarrow> fp \<noteq> (True, bits b)) \<longrightarrow> routes (cl_router c') fp = routes (cl_router c) fp)"
  using assms
proof (induction bs arbitrary: c)
  case (Cons b bs)
  have b: "length b = 4" "\<forall>b \<in> set bs. length b = 4" using Cons.prems by auto
  show ?case
  proof (cases "host_text b \<in> set cip")
    case True
    then show ?thesis using Cons.IH [OF b(2), of c] by auto
  next
    case False
    define tc where "tc = (if prefix (cl_IP c) (host_text b) then (None, c)
       else (Some (NewDestination (cl_made c) (ip4_text b)), c\<lparr>cl_made := Suc (cl_made c)\<rparr>))"
    have tc: "code_target (cl_IP c) b (fst tc)" "cl_IP (snd tc) = cl_IP c" "cl_router (snd tc) = cl_router c"
      by (auto simp: tc_def code_target_def NewDestination_def)
    obtain r where r: "Register (cl_router c) (host_text b) (fst tc) = Some r" "routes r = (routes (cl_router c))((True, bits b) \<mapsto> fst tc)"
      using Register_host [OF b(1), of "cl_router c" "fst tc"] unfolding host_text_def by (elim exE conjE)
    let ?c = "(snd tc)\<lparr>cl_router := r\<rparr>"
    obtain c' where c': "add_missing cip (map host_text bs) ?c = Some c'" "cl_IP c' = cl_IP ?c"
      "\<forall>b \<in> set bs. host_text b \<notin> set cip \<longrightarrow> (\<exists>v. routes (cl_router c') (True, bits b) = Some v \<and> code_target (cl_IP ?c) b v)"
      "\<forall>fp. (\<forall>b \<in> set bs. host_text b \<notin> set cip \<longrightarrow> fp \<noteq> (True, bits b)) \<longrightarrow> routes (cl_router c') fp = routes (cl_router ?c) fp"
      using Cons.IH [OF b(2), of ?c] by blast
    have eq: "add_missing cip (map host_text (b # bs)) c = Some c'"
      using False r(1) c'(1) unfolding tc_def by (cases "prefix (cl_IP c) (host_text b)") simp_all
    have "\<exists>v. routes (cl_router c') (True, bits b) = Some v \<and> code_target (cl_IP c) b v"
    proof (cases "b \<in> set bs")
      case True
      then show ?thesis using c'(3) False tc(2) by simp
    next
      case out: False
      then have "\<forall>b' \<in> set bs. (True, bits b) \<noteq> (True, bits b')" using b bits_inject by (metis Pair_inject)
      then have "routes (cl_router c') (True, bits b) = routes r (True, bits b)" using c'(4) by simp
      then show ?thesis using r(2) tc(1) by simp
    qed
    then show ?thesis using eq c' tc(2) r(2) False by (intro exI [of _ c']) auto
  qed
qed auto

section \<open>Convergence\<close>

lemma texts_of: "set xs \<subseteq> host_text ` B \<Longrightarrow> \<exists>bs. xs = map host_text bs \<and> set bs \<subseteq> B"
proof (induction xs)
  case (Cons x xs)
  then obtain bs b where "xs = map host_text bs" "set bs \<subseteq> B" "x = host_text b" "b \<in> B" by auto
  then show ?case by (intro exI [of _ "b # bs"]) simp
qed simp


text \<open>
  The order in which the two maps are visited does not matter: after one exchange the client has a route for exactly the addresses the
  server lists, and the fingerprints agree.
\<close>

lemma updateRouter_routes:
  assumes tb: "host_table (routes rs)" "host_table (routes (cl_router c))"
    and ord: "set cord = set (Keys (cl_router c))" "set mord = set (Keys rs)"
  obtains c' where "updateRouter (Inr (Some (Inr (Keys rs)))) cord mord c = Some (c', None)" "cl_IP c' = cl_IP c"
    "\<And>fp. (routes (cl_router c') fp = None) = (routes rs fp = None)"
    "\<And>b. length b = 4 \<Longrightarrow> routes rs (True, bits b) \<noteq> None \<Longrightarrow> routes (cl_router c) (True, bits b) = None \<Longrightarrow>
       \<exists>v. routes (cl_router c') (True, bits b) = Some v \<and> code_target (cl_IP c) b v"
    "\<And>b. length b = 4 \<Longrightarrow> routes rs (True, bits b) \<noteq> None \<Longrightarrow> routes (cl_router c) (True, bits b) \<noteq> None \<Longrightarrow>
       routes (cl_router c') (True, bits b) = routes (cl_router c) (True, bits b)"
proof -
  let ?R = "routes (cl_router c)"
  let ?B = "{b. length b = 4 \<and> ?R (True, bits b) \<noteq> None}" and ?M = "{b. length b = 4 \<and> routes rs (True, bits b) \<noteq> None}"
  obtain bs where bs: "cord = map host_text bs" "set bs \<subseteq> ?B" using texts_of [of cord ?B] unfolding ord(1) Keys_host [OF tb(2)] by blast
  obtain ms where ms: "mord = map host_text ms" "set ms \<subseteq> ?M" using texts_of [of mord ?M] unfolding ord(2) Keys_host [OF tb(1)] by blast
  have inC: "host_text b \<in> set (Keys (cl_router c)) \<longleftrightarrow> ?R (True, bits b) \<noteq> None" if "length b = 4" for b
    using that Keys_host [OF tb(2)] host_text_inject by auto
  have inM: "host_text b \<in> set (Keys rs) \<longleftrightarrow> routes rs (True, bits b) \<noteq> None" if "length b = 4" for b
    using that Keys_host [OF tb(1)] host_text_inject by auto
  have lens: "\<forall>b \<in> set bs. length b = 4" "\<forall>b \<in> set ms. length b = 4" using bs(2) ms(2) by auto
  have sets: "host_text ` set bs = set (Keys (cl_router c))" "host_text ` set ms = set (Keys rs)" using bs(1) ms(1) ord by simp_all
  have inbs: "b \<in> set bs \<longleftrightarrow> ?R (True, bits b) \<noteq> None" if "length b = 4" for b
    using host_text_image [OF that lens(1)] inC [OF that] unfolding sets by simp
  have inms: "b \<in> set ms \<longleftrightarrow> routes rs (True, bits b) \<noteq> None" if "length b = 4" for b
    using host_text_image [OF that lens(2)] inM [OF that] unfolding sets by simp
  obtain c1 where c1: "remove_stale (Keys rs) cord c = Some c1" "cl_IP c1 = cl_IP c"
    "routes (cl_router c1) = (\<lambda>fp. if \<exists>b \<in> set bs. fp = (True, bits b) \<and> host_text b \<notin> set (Keys rs) then None else ?R fp)"
    using remove_stale_routes [OF lens(1), of "Keys rs" c] unfolding bs(1) by (elim exE conjE)
  obtain c' where c': "add_missing (Keys (cl_router c)) mord c1 = Some c'" "cl_IP c' = cl_IP c1"
    "\<forall>b \<in> set ms. host_text b \<notin> set (Keys (cl_router c)) \<longrightarrow> (\<exists>v. routes (cl_router c') (True, bits b) = Some v \<and> code_target (cl_IP c1) b v)"
    "\<forall>fp. (\<forall>b \<in> set ms. host_text b \<notin> set (Keys (cl_router c)) \<longrightarrow> fp \<noteq> (True, bits b)) \<longrightarrow> routes (cl_router c') fp = routes (cl_router c1) fp"
    using add_missing_routes [OF lens(2), of "Keys (cl_router c)" c1] unfolding ms(1) by (elim exE conjE)
  have upd: "updateRouter (Inr (Some (Inr (Keys rs)))) cord mord c = Some (c', None)"
    using c1(1) c'(1) by (simp add: updateRouter_def)
  have new: "\<exists>v. routes (cl_router c') (True, bits b) = Some v \<and> code_target (cl_IP c) b v"
    if "length b = 4" "routes rs (True, bits b) \<noteq> None" "?R (True, bits b) = None" for b
    using that c'(3) inms [OF that(1)] inC [OF that(1)] c1(2) by auto
  have old: "routes (cl_router c') (True, bits b) = routes (cl_router c1) (True, bits b)"
    if l: "length b = 4" and h: "?R (True, bits b) \<noteq> None \<or> routes rs (True, bits b) = None" for b
  proof -
    have "\<forall>b' \<in> set ms. host_text b' \<notin> set (Keys (cl_router c)) \<longrightarrow> (True, bits b) \<noteq> (True, bits b')"
      using l h lens(2) inms [OF l] inC [OF l] bits_inject by (metis Pair_inject)
    then show ?thesis by (rule c'(4) [THEN spec, THEN mp])
  qed
  have kept: "routes (cl_router c1) (True, bits b) = (if routes rs (True, bits b) = None then None else ?R (True, bits b))"
    if l: "length b = 4" for b
  proof -
    have "(\<exists>b' \<in> set bs. (True, bits b) = (True, bits b') \<and> host_text b' \<notin> set (Keys rs)) \<longleftrightarrow> b \<in> set bs \<and> host_text b \<notin> set (Keys rs)"
      using l lens(1) bits_inject by (metis Pair_inject)
    then show ?thesis using inbs [OF l] inM [OF l] c1(3) by auto
  qed
  have dom_eq: "(routes (cl_router c') fp = None) = (routes rs fp = None)" for fp
  proof (cases "\<exists>b. length b = 4 \<and> fp = (True, bits b)")
    case True
    then obtain b where b: "length b = 4" "fp = (True, bits b)" by blast
    consider "routes rs fp = None" | "routes rs fp \<noteq> None" "?R fp = None" | "routes rs fp \<noteq> None" "?R fp \<noteq> None" by blast
    then show ?thesis
    proof cases
      case 2
      obtain v where "routes (cl_router c') fp = Some v" using new [OF b(1)] 2 unfolding b(2) by blast
      then show ?thesis using 2(1) by simp
    qed (use old [OF b(1)] kept [OF b(1)] b(2) in \<open>simp_all del: not_None_eq\<close>)
  next
    case False
    then have "routes rs fp = None" "?R fp = None" using tb [unfolded host_table_def, rule_format, of fp] by blast+
    moreover have "routes (cl_router c') fp = routes (cl_router c1) fp" using c'(4) [rule_format, of fp] False lens(2) by blast
    moreover have "routes (cl_router c1) fp = None" using c1(3) \<open>?R fp = None\<close> by simp
    ultimately show ?thesis by simp
  qed
  have keep: "routes (cl_router c') (True, bits b) = ?R (True, bits b)"
    if "length b = 4" "routes rs (True, bits b) \<noteq> None" "?R (True, bits b) \<noteq> None" for b
    using that old [OF that(1)] kept [OF that(1)] by (simp del: not_None_eq)
  have "cl_IP c' = cl_IP c" using c1(2) c'(2) by simp
  show ?thesis by (rule that) (fact upd, fact, fact dom_eq, fact new, fact keep)
qed

text \<open>
  C13. Whatever the order in which the two maps are visited, one answered exchange with the server makes a client of host routes route exactly the
  addresses the server routes, so that the fingerprints agree. A route that was there keeps its target. An added route for the client's own address
  gets the target nil, and one for another address a new destination for that address, except that an address whose text merely begins with the text of the
  own address gets nil too, as if it were the own one.
\<close>
theorem sync_converges:
  assumes "host_table (routes rs)" "host_table (routes (cl_router c))"
    and "set cord = set (Keys (cl_router c))" "set mord = set (Keys rs)"
  shows "\<exists>c'. updateRouter (Inr (Some (Inr (Keys rs)))) cord mord c = Some (c', None) \<and> cl_IP c' = cl_IP c \<and>
     MD5 md5hex (cl_router c') = MD5 md5hex rs \<and>
     (\<forall>b. length b = 4 \<longrightarrow>
        (case routes rs (True, bits b) of
           None \<Rightarrow> routes (cl_router c') (True, bits b) = None
         | Some _ \<Rightarrow>
             (case routes (cl_router c) (True, bits b) of
                Some v \<Rightarrow> routes (cl_router c') (True, bits b) = Some v
              | None \<Rightarrow> \<exists>v. routes (cl_router c') (True, bits b) = Some v \<and>
                  (if mistaken (cl_IP c) b then v = None else right_target (cl_IP c) b v))))"
proof -
  obtain c' where c': "updateRouter (Inr (Some (Inr (Keys rs)))) cord mord c = Some (c', None)" "cl_IP c' = cl_IP c"
    "\<And>fp. (routes (cl_router c') fp = None) = (routes rs fp = None)"
    "\<And>b. length b = 4 \<Longrightarrow> routes rs (True, bits b) \<noteq> None \<Longrightarrow> routes (cl_router c) (True, bits b) = None \<Longrightarrow>
       \<exists>v. routes (cl_router c') (True, bits b) = Some v \<and> code_target (cl_IP c) b v"
    "\<And>b. length b = 4 \<Longrightarrow> routes rs (True, bits b) \<noteq> None \<Longrightarrow> routes (cl_router c) (True, bits b) \<noteq> None \<Longrightarrow>
       routes (cl_router c') (True, bits b) = routes (cl_router c) (True, bits b)"
    using updateRouter_routes [OF assms] by blast
  have new: "\<exists>v. routes (cl_router c') (True, bits b) = Some v \<and> (if mistaken (cl_IP c) b then v = None else right_target (cl_IP c) b v)"
    if "length b = 4" "routes rs (True, bits b) \<noteq> None" "routes (cl_router c) (True, bits b) = None" for b
    using c'(4) [OF that] code_target_right by blast
  show ?thesis
  proof (intro exI [of _ c'] conjI allI impI)
    fix b :: bytes assume b: "length b = 4"
    show "case routes rs (True, bits b) of
           None \<Rightarrow> routes (cl_router c') (True, bits b) = None
         | Some _ \<Rightarrow>
             (case routes (cl_router c) (True, bits b) of
                Some v \<Rightarrow> routes (cl_router c') (True, bits b) = Some v
              | None \<Rightarrow> \<exists>v. routes (cl_router c') (True, bits b) = Some v \<and>
                  (if mistaken (cl_IP c) b then v = None else right_target (cl_IP c) b v))"
      using c'(3) [of "(True, bits b)"] c'(5) [OF b] new [OF b]
      by (cases "routes rs (True, bits b)"; cases "routes (cl_router c) (True, bits b)") (simp_all only: option.case option.distinct simp_thms)
  qed (use c'(1,2) MD5_dom [OF c'(3)] in simp_all)
qed

text \<open>
  The client with the address 10.0.0.1 takes 10.0.0.10 for its own address and drops packets to it; 10.0.0.2 gets a destination.
\<close>

definition demo_client :: client where
  "demo_client = \<lparr>cl_IP = ''10.0.0.1'', cl_router = NewRouter, cl_p2p = \<lparr>enabled = False, peerMapping = Map.empty, connections = Map.empty, cancelled = []\<rparr>,
     cl_version = 0, cl_made = 0, cl_closed = [], cl_closedDst = []\<rparr>"

definition demo_table :: "string router" where
  "demo_table = the (Register (the (Register NewRouter (host_text [10, 0, 0, 10]) ''b'')) (host_text [10, 0, 0, 2]) ''a'')"

lemma demo_table_routes: "routes demo_table = (\<lambda>_. None)((True, bits [10, 0, 0, 10]) \<mapsto> ''b'', (True, bits [10, 0, 0, 2]) \<mapsto> ''a'')"
proof -
  obtain r where r: "Register NewRouter (host_text [10, 0, 0, 10]) ''b'' = Some r" "routes r = (\<lambda>_. None)((True, bits [10, 0, 0, 10]) \<mapsto> ''b'')"
    using Register_host [of "[10, 0, 0, 10]" NewRouter "''b''"] by (auto simp: host_text_def)
  obtain r' where "Register r (host_text [10, 0, 0, 2]) ''a'' = Some r'" "routes r' = (routes r)((True, bits [10, 0, 0, 2]) \<mapsto> ''a'')"
    using Register_host [of "[10, 0, 0, 2]" r "''a''"] by (auto simp: host_text_def)
  then show ?thesis using r by (simp add: demo_table_def)
qed

theorem sync_converges_witness:
  "\<exists>c'. updateRouter (Inr (Some (Inr (Keys demo_table)))) [] (rev (Keys demo_table)) demo_client = Some (c', None) \<and>
     MD5 id (cl_router c') = MD5 id demo_table \<and>
     routes (cl_router c') (True, bits [10, 0, 0, 10]) = Some None \<and>
     (\<exists>d. routes (cl_router c') (True, bits [10, 0, 0, 2]) = Some (Some d) \<and> ip d = ''10.0.0.2'')"
proof -
  have t: "host_table (routes demo_table)" unfolding demo_table_routes host_table_def
    by (auto intro: exI [of _ "[10, 0, 0, 10]"] exI [of _ "[10, 0, 0, 2]"])
  have e: "host_table (routes (cl_router demo_client))" by (simp add: demo_client_def host_table_def)
  have k: "set [] = set (Keys (cl_router demo_client))" using Keys_host [OF e] by (simp add: demo_client_def)
  have ne: "bits [10, 0, 0, 10] \<noteq> bits [10, 0, 0, 2]" by code_simp
  have p: "mistaken ''10.0.0.1'' [10, 0, 0, 10]" "\<not> mistaken ''10.0.0.1'' [10, 0, 0, 2]" "ip4_text [10, 0, 0, 2] = ''10.0.0.2''"
    by code_simp+
  obtain c' where c': "updateRouter (Inr (Some (Inr (Keys demo_table)))) [] (rev (Keys demo_table)) demo_client = Some (c', None)"
    "MD5 id (cl_router c') = MD5 id demo_table"
    "\<forall>b. length b = 4 \<longrightarrow> routes demo_table (True, bits b) \<noteq> None \<longrightarrow>
       (\<exists>v. routes (cl_router c') (True, bits b) = Some v \<and> (if mistaken ''10.0.0.1'' b then v = None else right_target ''10.0.0.1'' b v))"
    using sync_converges [OF t e k, of "rev (Keys demo_table)" id] by (fastforce simp: demo_client_def split: option.splits)
  obtain v w where "routes (cl_router c') (True, bits [10, 0, 0, 10]) = Some v" "mistaken ''10.0.0.1'' [10, 0, 0, 10] \<Longrightarrow> v = None"
    "routes (cl_router c') (True, bits [10, 0, 0, 2]) = Some w" "\<not> mistaken ''10.0.0.1'' [10, 0, 0, 2] \<Longrightarrow> right_target ''10.0.0.1'' [10, 0, 0, 2] w"
    using c'(3) [rule_format, of "[10, 0, 0, 10]"] c'(3) [rule_format, of "[10, 0, 0, 2]"] ne by (auto simp: demo_table_routes split: if_splits)
  then show ?thesis using c'(1,2) p by (auto simp: right_target_def split: option.splits)
qed

section \<open>The loops\<close>

text \<open>
  The version of the peer mapping counts as synchronised whatever the outcome of the synchronisation, so a failed one is not repeated
  until the server announces another version.
\<close>

lemma syncRouter_marks_version:
  assumes "split_at CHR '','' data = remote # ver # rest" "remote = MD5 md5hex (cl_router c)" "enabled (cl_p2p c)"
    and "peers c = (c, Some e)" "cl_version c \<noteq> of_int (Atoi ver)"
  shows "syncRouter md5hex (Inr data) upd peers c = Some (c\<lparr>cl_version := of_int (Atoi ver)\<rparr>, None)"
  using assms by (simp add: syncRouter_def Let_def)

primrec fibs :: "nat \<Rightarrow> int \<times> int" where
  "fibs 0 = (1, 1)"
| "fibs (Suc n) = (case fibs n of (a, b) \<Rightarrow> (b, a + b))"

lemma fibs_pos: "1 \<le> fst (fibs n) \<and> 1 \<le> snd (fibs n)"
  by (induction n) (auto split: prod.splits)

lemma fibs_mono: "n \<le> m \<Longrightarrow> snd (fibs n) \<le> snd (fibs m)"
proof (rule lift_Suc_mono_le [of "\<lambda>n. snd (fibs n)"])
  show "snd (fibs n) \<le> snd (fibs (Suc n))" for n using fibs_pos [of n] by (cases "fibs n") simp
qed

lemma fib_loop_exact: "snd (fibs (n + k)) < 2 ^ 63 \<Longrightarrow> fib_loop k (fst (fibs n)) (snd (fibs n)) = snd (fibs (n + k))"
proof (induction k arbitrary: n)
  case (Suc k)
  obtain a b where ab: "fibs n = (a, b)" by (cases "fibs n")
  have "snd (fibs (Suc n)) < 2 ^ 63" using fibs_mono [of "Suc n" "n + Suc k"] Suc.prems by simp
  then have "wrap64 (a + b) = a + b" using fibs_pos [of "Suc n"] ab by (intro wrap64_id) (simp add: in64_def)
  then show ?case using Suc.IH [of "Suc n"] Suc.prems ab by simp
qed simp

lemma fib_loop_last: "fib_loop (Suc (Suc k)) a b = wrap64 (fib_loop k a b + fib_loop (Suc k) a b)"
  by (induction k arbitrary: a b) simp_all

lemma reconnect_delay_91: "reconnect_delay 91 = 6222817618722264064"
proof -
  have f: "snd (fibs 89) = 4660046610375530309" "snd (fibs 90) = 7540113804746346429" by code_simp+
  have "fib_loop 89 1 1 = snd (fibs 89)" "fib_loop 90 1 1 = snd (fibs 90)"
    using fib_loop_exact [of 0 89] fib_loop_exact [of 0 90] f by simp_all
  moreover have "fib_loop (Suc (Suc 89)) 1 1 = wrap64 (fib_loop 89 1 1 + fib_loop (Suc 89) 1 1)" by (rule fib_loop_last)
  moreover have "Suc 89 = (90 :: nat)" "Suc 90 = (91 :: nat)" by simp_all
  ultimately have "fib_loop 91 1 1 = -6246583658587674878" using f by (simp only: wrap64_def) simp
  then have "fib 92 = -6246583658587674878" by (simp add: fib_def)
  then show ?thesis by (simp add: reconnect_delay_def reconnect_interval_def MaxReconnectInterval_def wrap64_def)
qed

text \<open>
  C34. Up to the ninety-first failed attempt the client waits between one and thirty seconds before it tries to reconnect. Then the
  Fibonacci number and its product with a second overflow 64 bits, and the next wait takes 197 years.
\<close>
theorem reconnect_delay_bounds:
  assumes "tries < 91"
  shows "1000000000 \<le> reconnect_delay tries \<and> reconnect_delay tries \<le> 30000000000 \<and> reconnect_delay 91 = 6222817618722264064"
proof -
  have "snd (fibs 90) < 2 ^ 63" by code_simp
  then have "snd (fibs tries) < 2 ^ 63" using fibs_mono [of tries 90] assms by simp
  then have "fib (tries + 1) = snd (fibs tries)" using fib_loop_exact [of 0 tries] by (simp add: fib_def)
  then have "1 \<le> reconnect_interval tries" "reconnect_interval tries \<le> 30"
    using fibs_pos [of tries] by (auto simp: reconnect_interval_def MaxReconnectInterval_def Let_def)
  then have "reconnect_delay tries = reconnect_interval tries * 1000000000" "1000000000 \<le> reconnect_interval tries * 1000000000"
    "reconnect_interval tries * 1000000000 \<le> 30000000000"
    by (simp_all add: reconnect_delay_def in64_def)
  then show ?thesis using reconnect_delay_91 by simp
qed

theorem reconnect_delay_bounds_witness:
  "1000000000 \<le> reconnect_delay 90 \<and> reconnect_delay 90 \<le> 30000000000 \<and> reconnect_delay 91 = 6222817618722264064"
  using reconnect_delay_bounds [of 90] by simp

section \<open>Numbers in text\<close>

lemma digit_char:
  assumes "k < 10"
  shows "48 \<le> (of_char (''0123456789'' ! k) :: nat) \<and> (of_char (''0123456789'' ! k) :: nat) \<le> 57 \<and> of_char (''0123456789'' ! k) - 48 = k"
proof -
  have "list_all (\<lambda>k. 48 \<le> (of_char (''0123456789'' ! k) :: nat) \<and> (of_char (''0123456789'' ! k) :: nat) \<le> 57 \<and>
     of_char (''0123456789'' ! k) - 48 = k) [0..<10]" by code_simp
  then show ?thesis using assms by (simp only: list_all_iff) simp
qed

lemma digits_utoa: "digits (utoa n) = Some n"
proof -
  have "utoa n \<noteq> [] \<and> list_all (\<lambda>c. 48 \<le> (of_char c :: nat) \<and> (of_char c :: nat) \<le> 57) (utoa n) \<and>
    fold (\<lambda>c n. 10 * n + (of_char c - 48)) (utoa n) 0 = n"
  proof (induction n rule: utoa.induct)
    case (1 n)
    note d = digit_char
    show ?case
    proof (cases "n < 10")
      case True
      then show ?thesis using d [of n] by (subst (1 2 3) utoa.simps) simp
    next
      case False
      then show ?thesis using 1 d [of "n mod 10"] by (subst (1 2 3) utoa.simps) simp
    qed
  qed
  then show ?thesis by (simp add: digits_def)
qed

lemma utoa_chars: "c \<in> set (utoa n) \<Longrightarrow> 48 \<le> (of_char c :: nat) \<and> (of_char c :: nat) \<le> 57"
  using digits_utoa [of n] by (auto simp: digits_def list_all_iff split: if_splits)

lemma utoa_Cons: "utoa n = c # r \<Longrightarrow> c \<noteq> CHR ''-'' \<and> c \<noteq> CHR ''+''"
  using utoa_chars [of c n] by auto

lemma Atoi_utoa:
  assumes "n < 2 ^ 63"
  shows "Atoi (utoa n) = int n"
proof (cases "utoa n")
  case Nil
  then show ?thesis using digits_utoa [of n] by (simp add: digits_def)
next
  case (Cons c r)
  have "Atoi (utoa n) = (case digits (utoa n) of None \<Rightarrow> 0 | Some n \<Rightarrow> min (2 ^ 63 - 1) (int n))"
    using utoa_Cons [OF Cons] Cons by (simp add: Atoi_def)
  then show ?thesis using digits_utoa [of n] assms by simp
qed

section \<open>What a synchronisation leaves alone\<close>

lemma remove_stale_p2p: "remove_stale mip cs c = Some c' \<Longrightarrow> cl_p2p c' = cl_p2p c"
proof (induction cs arbitrary: c)
  case (Cons a cs)
  then show ?case by (fastforce simp: Let_def split: if_splits option.splits)
qed simp

lemma add_missing_p2p: "add_missing cip ms c = Some c' \<Longrightarrow> cl_p2p c' = cl_p2p c"
proof (induction ms arbitrary: c)
  case (Cons a ms)
  then show ?case by (fastforce simp: Let_def split: if_splits option.splits)
qed simp

lemma updateRouter_p2p: "updateRouter resp cord mord c = Some (c', e) \<Longrightarrow> cl_p2p c' = cl_p2p c"
  by (auto simp: updateRouter_def dest!: remove_stale_p2p add_missing_p2p split: sum.splits option.splits)

lemma syncP2PPeerMapping_router [simp]: "cl_router (fst (syncP2PPeerMapping resp parse self pord c)) = cl_router c"
  by (simp add: syncP2PPeerMapping_def split: sum.splits option.splits)

end
