(* ===== verification/Client_Calls.thy ===== *)
theory Client_Calls
  imports Server_Ops
begin

text \<open>
  Function calls on the client's side, \<^verbatim>\<open>vnet/client/manager.go\<close>: \<open>CallFunc\<close> sends a request and waits for the response that
  the receive loop puts into the channel stored under the id of the request. The mutex admits one call at a time; what it does
  between its lock and its unlock is a sequence of steps, and the receive loop runs between them. \<open>None\<close> is a run-time panic.
\<close>

section \<open>State\<close>

record ServersideEvent =
  se_EventId :: string
  se_Event :: string
  se_Data :: any_value

text \<open>
  \<open>funcCallRespChan\<close> maps ids to channels with room for one response; \<open>handled\<close> are the events given to the handler.
\<close>

record call_manager =
  funcCallRespChan :: "(string \<times> FuncCallResponse list) list"
  eh :: bool
  handled :: "ServersideEvent list"

definition client_NewManager :: call_manager where
  "client_NewManager = \<lparr> funcCallRespChan = [], eh = False, handled = [] \<rparr>"

definition SetEventHandler :: "call_manager \<Rightarrow> call_manager" where
  "SetEventHandler m = m\<lparr>eh := True\<rparr>"

section \<open>The receive loop\<close>

text \<open>
  What a round does with the message it received: it goes on, or the send into a full channel blocks it. The two decoders are
  \<^verbatim>\<open>json.Unmarshal\<close> into a pointer: an error, nil for the text \<^verbatim>\<open>null\<close>, or a value. An empty message and a nil pointer are panics.
\<close>

record decoders =
  un_resp :: "bytes \<Rightarrow> goerr + FuncCallResponse option"
  un_event :: "bytes \<Rightarrow> goerr + ServersideEvent option"

datatype receive_outcome = Delivered | Dropped | Blocked

definition receive_round :: "decoders \<Rightarrow> bytes \<Rightarrow> call_manager \<Rightarrow> (call_manager \<times> receive_outcome) option" where
  "receive_round D receive m =
     (case receive of
        [] \<Rightarrow> None
      | ty # body \<Rightarrow>
          if ty = MessageTypeFuncCall
          then (case un_resp D body of
                  Inl e \<Rightarrow> Some (m, Dropped)
                | Inr None \<Rightarrow> None
                | Inr (Some resp) \<Rightarrow>
                    (case map_of (funcCallRespChan m) (fp_RequestId resp) of
                       Some [] \<Rightarrow> Some (m\<lparr>funcCallRespChan := AList.update (fp_RequestId resp) [resp] (funcCallRespChan m)\<rparr>, Delivered)
                     | Some _ \<Rightarrow> Some (m, Blocked)
                     | None \<Rightarrow> Some (m, Dropped)))
          else if ty = MessageTypeServerEvent
          then (case un_event D body of
                  Inl e \<Rightarrow> Some (m, Dropped)
                | Inr None \<Rightarrow> None
                | Inr (Some ev) \<Rightarrow> Some (if eh m then (m\<lparr>handled := handled m @ [ev]\<rparr>, Delivered) else (m, Dropped)))
          else Some (m, Dropped))"

section \<open>A call\<close>

text \<open>The steps of \<open>CallFunc\<close>: build and send the request, store the channel, wait for a response or for the timeout, and delete the channel.\<close>

datatype call_phase = Idle | Sent string | Waiting string | Returned string "goerr + FuncCallResponse"

definition build_request :: "string \<Rightarrow> string \<Rightarrow> (string \<times> any_value) list option \<Rightarrow> FuncCallRequest" where
  "build_request uuid name args =
     \<lparr> fr_RequestId = uuid, fr_FuncName = name, fr_Args = (case args of Some a \<Rightarrow> a | None \<Rightarrow> []) \<rparr>"

definition call_send :: "goerr option \<Rightarrow> string \<Rightarrow> call_phase" where
  "call_send sent uuid = (case sent of Some e \<Rightarrow> Returned uuid (Inl e) | None \<Rightarrow> Sent uuid)"

definition call_store :: "string \<Rightarrow> call_manager \<Rightarrow> call_manager" where
  "call_store uuid m = m\<lparr>funcCallRespChan := AList.update uuid [] (funcCallRespChan m)\<rparr>"

definition call_delete :: "string \<Rightarrow> call_manager \<Rightarrow> call_manager" where
  "call_delete uuid m = m\<lparr>funcCallRespChan := AList.delete uuid (funcCallRespChan m)\<rparr>"

definition DeadlineExceeded :: goerr where
  "DeadlineExceeded = ErrorNew ''context deadline exceeded''"

text \<open>The call and the receive loop together; the last component lists the messages the loop has received so far.\<close>

inductive call_step ::
    "decoders \<Rightarrow> call_phase \<times> call_manager \<times> bytes list \<Rightarrow> call_phase \<times> call_manager \<times> bytes list \<Rightarrow> bool" for D where
  send: "call_step D (Idle, m, seen) (call_send sent uuid, m, seen)"
| store: "call_step D (Sent uuid, m, seen) (Waiting uuid, call_store uuid m, seen)"
| response: "map_of (funcCallRespChan m) uuid = Some [resp] \<Longrightarrow>
    call_step D (Waiting uuid, m, seen) (Returned uuid (Inr resp), call_delete uuid m, seen)"
| timeout: "call_step D (Waiting uuid, m, seen) (Returned uuid (Inl DeadlineExceeded), call_delete uuid m, seen)"
| receive: "receive_round D msg m = Some (m', out) \<Longrightarrow> out \<noteq> Blocked \<Longrightarrow> call_step D (ph, m, seen) (ph, m', seen @ [msg])"

inductive_cases call_stepE: "call_step D (ph, m, seen) (ph', m', seen')"

text \<open>The responses among the messages received.\<close>

definition responses :: "decoders \<Rightarrow> bytes list \<Rightarrow> FuncCallResponse set" where
  "responses D seen = {r. \<exists>body. MessageTypeFuncCall # body \<in> set seen \<and> un_resp D body = Inr (Some r)}"

section \<open>Responses reach the call they belong to\<close>

definition chans_ok :: "FuncCallResponse set \<Rightarrow> (string \<times> FuncCallResponse list) list \<Rightarrow> bool" where
  "chans_ok R cs \<longleftrightarrow> (\<forall>k q. map_of cs k = Some q \<longrightarrow> (\<forall>r \<in> set q. fp_RequestId r = k \<and> r \<in> R))"

definition call_inv :: "decoders \<Rightarrow> call_phase \<times> call_manager \<times> bytes list \<Rightarrow> bool" where
  "call_inv D st \<longleftrightarrow> (case st of (ph, m, seen) \<Rightarrow> chans_ok (responses D seen) (funcCallRespChan m) \<and>
     (case ph of Returned i (Inr r) \<Rightarrow> fp_RequestId r = i \<and> r \<in> responses D seen | _ \<Rightarrow> True))"

lemma responses_append: "responses D (xs @ ys) = responses D xs \<union> responses D ys"
  by (auto simp: responses_def)

lemma chans_okD: "chans_ok R cs \<Longrightarrow> map_of cs k = Some q \<Longrightarrow> r \<in> set q \<Longrightarrow> fp_RequestId r = k \<and> r \<in> R"
  unfolding chans_ok_def by blast

lemma chans_ok_update: "chans_ok R cs \<Longrightarrow> \<forall>r \<in> set q. fp_RequestId r = k \<and> r \<in> R \<Longrightarrow> chans_ok R (AList.update k q cs)"
  unfolding chans_ok_def update_conv' fun_upd_apply by (metis option.inject)

lemma chans_ok_delete: "chans_ok R cs \<Longrightarrow> chans_ok R (AList.delete k cs)"
  unfolding chans_ok_def delete_conv' fun_upd_apply by (metis option.distinct(1))

lemma chans_ok_mono: "chans_ok R cs \<Longrightarrow> R \<subseteq> R' \<Longrightarrow> chans_ok R' cs"
  unfolding chans_ok_def by blast

text \<open>What a round may change: the channel of the id of the response it received.\<close>

lemma receive_round_chan:
  assumes "receive_round D msg m = Some (m', out)"
  shows "funcCallRespChan m' = funcCallRespChan m \<or>
    (\<exists>resp \<in> responses D [msg]. map_of (funcCallRespChan m) (fp_RequestId resp) = Some [] \<and>
       funcCallRespChan m' = AList.update (fp_RequestId resp) [resp] (funcCallRespChan m))"
  using assms by (auto simp: receive_round_def responses_def split: list.splits if_splits sum.splits option.splits)

lemma call_inv_step:
  assumes "call_step D (ph, m, seen) (ph', m', seen')" "call_inv D (ph, m, seen)"
  shows "call_inv D (ph', m', seen')"
proof -
  have ok: "chans_ok (responses D seen) (funcCallRespChan m)" using assms(2) by (simp add: call_inv_def)
  from assms(1) show ?thesis
  proof (rule call_stepE)
    fix msg out assume r: "ph' = ph" "seen' = seen @ [msg]" "receive_round D msg m = Some (m', out)"
    have "chans_ok (responses D seen') (funcCallRespChan m)" by (rule chans_ok_mono [OF ok]) (simp add: r(2) responses_append)
    then have "chans_ok (responses D seen') (funcCallRespChan m')"
      using receive_round_chan [OF r(3)] r(2) by (auto simp: responses_append intro!: chans_ok_update)
    then show ?thesis using r(1,2) assms(2) by (auto simp: call_inv_def responses_append split: call_phase.splits sum.splits)
  next
    fix sent uuid assume "ph' = call_send sent uuid" "m' = m" "seen' = seen"
    then show ?thesis using ok by (cases sent) (simp_all add: call_inv_def call_send_def)
  next
    fix uuid assume "ph' = Waiting uuid" "m' = call_store uuid m" "seen' = seen"
    then show ?thesis using ok by (simp add: call_inv_def call_store_def chans_ok_update)
  next
    fix uuid resp assume s: "map_of (funcCallRespChan m) uuid = Some [resp]" "ph' = Returned uuid (Inr resp)" "m' = call_delete uuid m" "seen' = seen"
    then show ?thesis using ok chans_okD [OF ok s(1), of resp] by (simp add: call_inv_def call_delete_def chans_ok_delete)
  next
    fix uuid assume "ph' = Returned uuid (Inl DeadlineExceeded)" "m' = call_delete uuid m" "seen' = seen"
    then show ?thesis using ok by (simp add: call_inv_def call_delete_def chans_ok_delete)
  qed
qed

lemma call_inv_reachable: "(call_step D)\<^sup>*\<^sup>* st st' \<Longrightarrow> call_inv D st \<Longrightarrow> call_inv D st'"
proof (induction rule: rtranclp_induct)
  case (step st' st'')
  then show ?case using call_inv_step by (cases st'; cases st'') auto
qed

text \<open>
  C19. A call never returns somebody else's answer: whatever messages arrive and however the receive loop runs between the steps of the call,
  a response that \<^verbatim>\<open>CallFunc\<close> returns carries the id of its own request and was among the messages received.
\<close>
theorem response_matches:
  assumes "(call_step D)\<^sup>*\<^sup>* (Idle, client_NewManager, []) (Returned i (Inr r), m, seen)"
  shows "fp_RequestId r = i \<and> r \<in> responses D seen"
proof -
  have "call_inv D (Idle, client_NewManager, [])" by (simp add: call_inv_def chans_ok_def client_NewManager_def)
  then have "call_inv D (Returned i (Inr r), m, seen)" using call_inv_reachable [OF assms] by blast
  then show ?thesis by (simp add: call_inv_def)
qed

text \<open>Decoders for the demonstration: the body is the id of the request.\<close>

definition demo_decoders :: decoders where
  "demo_decoders = \<lparr> un_resp = (\<lambda>b. Inr (Some ((ok_response VNil)\<lparr>fp_RequestId := map (\<lambda>x. char_of (unat x)) b\<rparr>))), un_event = (\<lambda>b. Inr None) \<rparr>"

theorem response_matches_witness:
  "\<exists>m. (call_step demo_decoders)\<^sup>*\<^sup>* (Idle, client_NewManager, []) (Returned ''a'' (Inr ((ok_response VNil)\<lparr>fp_RequestId := ''a''\<rparr>)), m, [[1, 97]]) \<and>
     (ok_response VNil)\<lparr>fp_RequestId := ''a''\<rparr> \<in> responses demo_decoders [[1, 97]]"
proof -
  let ?r = "(ok_response VNil)\<lparr>fp_RequestId := ''a''\<rparr>" and ?m = "call_store ''a'' client_NewManager"
  let ?m' = "?m\<lparr>funcCallRespChan := [(''a'', [?r])]\<rparr>"
  have "call_step demo_decoders (Idle, client_NewManager, []) (Sent ''a'', client_NewManager, [])"
    using send [of demo_decoders client_NewManager "[]" None "''a''"] by (simp add: call_send_def)
  moreover have "call_step demo_decoders (Sent ''a'', client_NewManager, []) (Waiting ''a'', ?m, [])" by (rule store)
  moreover have "receive_round demo_decoders [1, 97] ?m = Some (?m', Delivered)" by code_simp
  then have "call_step demo_decoders (Waiting ''a'', ?m, []) (Waiting ''a'', ?m', [[1, 97]])"
    using receive [of demo_decoders "[1, 97]" ?m ?m' Delivered "Waiting ''a''" "[]"] by simp
  moreover have "call_step demo_decoders (Waiting ''a'', ?m', [[1, 97]]) (Returned ''a'' (Inr ?r), call_delete ''a'' ?m', [[1, 97]])"
    by (rule response) simp
  ultimately have "(call_step demo_decoders)\<^sup>*\<^sup>* (Idle, client_NewManager, []) (Returned ''a'' (Inr ?r), call_delete ''a'' ?m', [[1, 97]])"
    by (meson converse_rtranclp_into_rtranclp rtranclp.rtrancl_refl)
  then show ?thesis using response_matches by blast
qed

section \<open>A response may come too early\<close>

definition lost_inv :: "decoders \<Rightarrow> string \<Rightarrow> bytes list \<Rightarrow> call_phase \<times> call_manager \<times> bytes list \<Rightarrow> bool" where
  "lost_inv D i base st \<longleftrightarrow> (case st of (ph, m, seen) \<Rightarrow> \<exists>later. seen = base @ later \<and>
     ((\<forall>r \<in> responses D later. fp_RequestId r \<noteq> i) \<longrightarrow>
        ph = Sent i \<and> map_of (funcCallRespChan m) i = None \<or> ph = Waiting i \<and> map_of (funcCallRespChan m) i = Some [] \<or>
        ph = Returned i (Inl DeadlineExceeded)))"

lemma receive_round_other:
  assumes "receive_round D msg m = Some (m', out)" "\<forall>r \<in> responses D [msg]. fp_RequestId r \<noteq> i"
  shows "map_of (funcCallRespChan m') i = map_of (funcCallRespChan m) i"
  using receive_round_chan [OF assms(1)] assms(2) by (auto simp: update_conv')

lemma lost_inv_step:
  assumes "call_step D (ph, m, seen) (ph', m', seen')" "lost_inv D i base (ph, m, seen)"
  shows "lost_inv D i base (ph', m', seen')"
proof -
  obtain later where l: "seen = base @ later" "(\<forall>r \<in> responses D later. fp_RequestId r \<noteq> i) \<longrightarrow>
        ph = Sent i \<and> map_of (funcCallRespChan m) i = None \<or> ph = Waiting i \<and> map_of (funcCallRespChan m) i = Some [] \<or>
        ph = Returned i (Inl DeadlineExceeded)" using assms(2) by (auto simp: lost_inv_def)
  from assms(1) show ?thesis
  proof (rule call_stepE)
    fix msg out assume r: "ph' = ph" "seen' = seen @ [msg]" "receive_round D msg m = Some (m', out)"
    then show ?thesis using l receive_round_other [OF r(3), of i]
      by (auto simp: lost_inv_def responses_append intro!: exI [of _ "later @ [msg]"])
  qed (use l in \<open>auto simp: lost_inv_def call_store_def call_delete_def update_conv' intro!: exI [of _ later]\<close>)
qed

text \<open>
  An answer that arrives too early is lost. \<^verbatim>\<open>CallFunc\<close> sends its request before it stores the channel for the response. If the receive
  loop handles the response in between, it drops it, and the call cannot return anything but the timeout, unless the
  server answers the same request a second time.
\<close>
theorem early_response_lost:
  assumes "un_resp D body = Inr (Some r)" "fp_RequestId r = i" "map_of (funcCallRespChan m) i = None"
  shows "call_step D (Sent i, m, seen) (Sent i, m, seen @ [MessageTypeFuncCall # body]) \<and>
     (\<forall>ph m' later. (call_step D)\<^sup>*\<^sup>* (Sent i, m, seen @ [MessageTypeFuncCall # body]) (ph, m', seen @ [MessageTypeFuncCall # body] @ later) \<and>
        (\<forall>r' \<in> responses D later. fp_RequestId r' \<noteq> i) \<longrightarrow> ph \<in> {Sent i, Waiting i, Returned i (Inl DeadlineExceeded)})"
proof -
  let ?base = "seen @ [MessageTypeFuncCall # body]"
  have "receive_round D (MessageTypeFuncCall # body) m = Some (m, Dropped)" using assms by (simp add: receive_round_def)
  then have "call_step D (Sent i, m, seen) (Sent i, m, ?base)" by (rule receive) simp
  moreover have "lost_inv D i ?base st" if "(call_step D)\<^sup>*\<^sup>* (Sent i, m, ?base) st" for st
    using that
  proof (induction rule: rtranclp_induct)
    case base
    then show ?case using assms(3) by (simp add: lost_inv_def)
  next
    case (step st st')
    then show ?case using lost_inv_step by (cases st; cases st') auto
  qed
  ultimately show ?thesis by (fastforce simp: lost_inv_def)
qed

theorem early_response_lost_witness:
  "call_step demo_decoders (Sent ''a'', client_NewManager, []) (Sent ''a'', client_NewManager, [[1, 97]]) \<and>
   \<not> (\<exists>r m'. (call_step demo_decoders)\<^sup>*\<^sup>* (Sent ''a'', client_NewManager, [[1, 97]]) (Returned ''a'' (Inr r), m', [[1, 97]]))"
proof -
  have u: "un_resp demo_decoders [97] = Inr (Some ((ok_response VNil)\<lparr>fp_RequestId := ''a''\<rparr>))" by code_simp
  show ?thesis using early_response_lost [OF u, of "''a''" client_NewManager "[]"]
    by (fastforce simp: client_NewManager_def MessageTypeFuncCall_def responses_def)
qed

end
