(* ===== verification/Client_Life.thy ===== *)
theory Client_Life
  imports Client_Sync_Props Session_Request Hub_Rx "HOL-Library.Multiset"
begin

text \<open>
  The life of a client, \<^verbatim>\<open>vnet/client/client.go\<close>: its construction, the handshake, \<open>run\<close>, and the release of everything before it
  tries again. What a client holds while it runs is a set of resources, each known by a number; the log lists those opened and
  those closed. The outcomes of dialling, of setting up the device and of the peer-to-peer host are arguments. \<open>None\<close> is a
  run-time panic.
\<close>

section \<open>Configuration and options\<close>

datatype client_type = TypeQuic | TypeTCP | TypeOther string

record client_config =
  cfg_Type :: client_type
  cfg_Encrypt :: bool
  cfg_Compress :: bool
  cfg_P2P :: bool

text \<open>The transport options that \<open>NewClient\<close> makes.\<close>

definition NewClient_opts :: "zstd \<Rightarrow> client_config \<Rightarrow> transport_opt list option" where
  "NewClient_opts z cfg =
     (let opts = [EnableEncrypt (cfg_Encrypt cfg), EnableCompress (cfg_Compress cfg)] in
      if cfg_Compress cfg
      then (case NewZstdCompressor z FastestCompressionLevel of Inl e \<Rightarrow> None | Inr c \<Rightarrow> Some (opts @ [WithCompressor c]))
      else Some opts)"

section \<open>The handshake\<close>

record link =
  lk_SubDeviceId :: uint64
  lk_Key :: string

text \<open>
  \<open>handshakeResponse\<close>: the session, which is nil when the answer has none, and the error. \<open>lnk\<close> is the decoded link of the
  configuration, \<open>request\<close> the payload with the id of the last session.
\<close>

record 'se handshakeResponse =
  hr_Session :: "'se option"
  hr_Error :: string

definition client_handshake ::
    "('q, 'se handshakeResponse) codecs \<Rightarrow> goerr + link \<Rightarrow> int \<Rightarrow> string \<Rightarrow> string \<Rightarrow> (string \<Rightarrow> goerr + string) \<Rightarrow> 'q \<Rightarrow> (goerr + 'se) option" where
  "client_handshake C lnk now nonce secret transmit request =
     (case lnk of
        Inl e \<Rightarrow> Some (Inl e)
      | Inr l \<Rightarrow>
          (case Do C secret transmit (NewHeader now nonce (lk_SubDeviceId l) (lk_Key l)) request of
             None \<Rightarrow> None
           | Some (Inl e) \<Rightarrow> Some (Inl e)
           | Some (Inr resp) \<Rightarrow>
               if hr_Error resp \<noteq> [] then Some (Inl (ErrorNew (hr_Error resp)))
               else (case hr_Session resp of None \<Rightarrow> None | Some s \<Rightarrow> Some (Inr s))))"

section \<open>Running and releasing\<close>

datatype resource = RInternal nat | RControl nat | RDevice nat | RManager nat | RHub nat | RHost nat

datatype client_state = StateRunning | StateReconnecting

text \<open>\<open>session\<close> is what the client keeps of the session: its id and the key of the network.\<close>

record session_info =
  si_SessionId :: string
  si_IP :: string
  si_Key :: bytes

record life =
  lf_id :: string
  lf_internal :: "nat option"
  lf_control :: "nat option"
  lf_dev :: "nat option"
  lf_manager :: "nat option"
  lf_hub :: "(nat \<times> destination option router) option"
  lf_host :: "nat option"
  lf_session :: "session_info option"
  lf_opts :: "transport_opt list"
  lf_p2p :: p2p_state
  lf_version :: uint64
  lf_next :: nat
  lf_opened :: "resource list"
  lf_closed :: "resource list"
  lf_closedDst :: "destination list"

text \<open>
  The outcomes of one run: setup (whether a connection to the server was made, and the error), handshake, device (which may exist although its setup failed), cipher, and peer-to-peer host.
\<close>

record run_env =
  re_setup :: "bool \<times> goerr option"
  re_handshake :: "goerr + session_info"
  re_device :: "bool \<times> goerr option"
  re_newX :: "bytes \<Rightarrow> goerr + aead"
  re_host :: bool

definition open_res :: "(nat \<Rightarrow> resource) \<Rightarrow> life \<Rightarrow> nat \<times> life" where
  "open_res kind c = (lf_next c, c\<lparr>lf_next := Suc (lf_next c), lf_opened := lf_opened c @ [kind (lf_next c)]\<rparr>)"

definition open_internal :: "life \<Rightarrow> life" where
  "open_internal c = (let (i, c) = open_res RInternal c in c\<lparr>lf_internal := Some i\<rparr>)"

text \<open>The control connection, which the internal client keeps; a TCP client closes it at once when its dispatch fails, and keeps it still.\<close>

definition open_control :: "bool \<Rightarrow> life \<Rightarrow> life" where
  "open_control dispatched c =
     (let (k, c) = open_res RControl c in c\<lparr>lf_control := Some k, lf_closed := lf_closed c @ (if dispatched then [] else [RControl k])\<rparr>)"

definition failed_setup :: "client_type \<Rightarrow> bool \<Rightarrow> life \<Rightarrow> life" where
  "failed_setup ty conn c = (if ty = TypeTCP \<and> conn then open_control False c else c)"

definition open_device :: "bool \<Rightarrow> life \<Rightarrow> life" where
  "open_device ok c = (if ok then let (d, c) = open_res RDevice c in c\<lparr>lf_dev := Some d\<rparr> else c\<lparr>lf_dev := None\<rparr>)"

text \<open>The manager, the hub with its new router, and the peer-to-peer host.\<close>

definition open_services :: "bool \<Rightarrow> life \<Rightarrow> life" where
  "open_services host c =
     (let (m, c) = open_res RManager c; c = c\<lparr>lf_manager := Some m\<rparr>;
          (h, c) = open_res RHub c; c = c\<lparr>lf_hub := Some (h, NewRouter)\<rparr>
      in if host then let (p, c) = open_res RHost c in c\<lparr>lf_host := Some p\<rparr> else c)"

definition run :: "client_config \<Rightarrow> run_env \<Rightarrow> life \<Rightarrow> (life \<times> goerr option) option" where
  "run cfg env c =
     (case cfg_Type cfg of
        TypeOther _ \<Rightarrow> Some (c, Some (ErrorNew ''unsupported client type''))
      | _ \<Rightarrow>
          (case snd (re_setup env) of
             Some e \<Rightarrow> Some (failed_setup (cfg_Type cfg) (fst (re_setup env)) (open_internal c), Some e)
           | None \<Rightarrow>
               (case re_handshake env of
                  Inl e \<Rightarrow> Some (open_control True (open_internal c), Some e)
                | Inr info \<Rightarrow>
                    let c = open_device (fst (re_device env)) ((open_control True (open_internal c))\<lparr>lf_id := si_SessionId info, lf_session := Some info\<rparr>) in
                    (case snd (re_device env) of
                       Some e \<Rightarrow> Some (c, Some e)
                     | None \<Rightarrow>
                         if length (si_Key info) < 32 then None
                         else (case NewChacha20Poly1305Encryptor (re_newX env) (take 32 (si_Key info)) of
                                 Inl e \<Rightarrow> Some (c, Some e)
                               | Inr enc \<Rightarrow>
                                   Some (open_services (cfg_P2P cfg \<and> re_host env) (c\<lparr>lf_opts := lf_opts c @ [WithEncryptor enc]\<rparr>), None))))))"

definition close_res :: "('a \<Rightarrow> resource) \<Rightarrow> 'a option \<Rightarrow> resource list" where
  "close_res kind r = (case r of Some x \<Rightarrow> [kind x] | None \<Rightarrow> [])"

text \<open>
  \<open>ReleaseAll\<close>: the destinations closed are those that \<^verbatim>\<open>Range\<close> of the router reports; \<open>order\<close> is the order in which
  the table of peer-to-peer connections is visited.
\<close>

definition ReleaseAll :: "p2p_key list \<Rightarrow> life \<Rightarrow> life" where
  "ReleaseAll order c =
     c\<lparr>lf_closed := lf_closed c @ close_res (RHub \<circ> fst) (lf_hub c) @ close_res RInternal (lf_internal c) @
         (if lf_internal c = None then [] else close_res RControl (lf_control c)) @ close_res RDevice (lf_dev c) @
         close_res RHost (lf_host c) @ close_res RManager (lf_manager c),
       lf_closedDst := lf_closedDst c @ (case lf_hub c of None \<Rightarrow> [] | Some (_, r) \<Rightarrow> concat (map (\<lambda>(_, v). case v of Some d \<Rightarrow> [d] | None \<Rightarrow> []) (Range r))),
       lf_hub := None, lf_internal := None, lf_control := None, lf_dev := None, lf_host := None, lf_manager := None, lf_session := None, lf_version := 0,
       lf_p2p := (lf_p2p c)\<lparr>connections := Map.empty, peerMapping := Map.empty,
         cancelled := cancelled (lf_p2p c) @ concat (map (\<lambda>k. case connections (lf_p2p c) k of Some conn \<Rightarrow> [conn] | None \<Rightarrow> []) order)\<rparr>\<rparr>"

definition Reconnect :: "client_config \<Rightarrow> p2p_key list \<Rightarrow> run_env \<Rightarrow> life \<Rightarrow> (life \<times> goerr option) option" where
  "Reconnect cfg order env c = run cfg env (ReleaseAll order c)"


text \<open>Attempts to connect, one after the other, each after a release: the reconnect loop, and its first run.\<close>

fun attempts :: "client_config \<Rightarrow> (p2p_key list \<times> run_env) list \<Rightarrow> life \<Rightarrow> life option" where
  "attempts cfg [] c = Some c"
| "attempts cfg ((order, env) # es) c = (case Reconnect cfg order env c of None \<Rightarrow> None | Some (c', _) \<Rightarrow> attempts cfg es c')"

definition new_life :: "zstd \<Rightarrow> client_config \<Rightarrow> life option" where
  "new_life z cfg = map_option (\<lambda>opts.
     \<lparr> lf_id = [], lf_internal = None, lf_control = None, lf_dev = None, lf_manager = None, lf_hub = None, lf_host = None, lf_session = None,
       lf_opts = opts, lf_p2p = \<lparr> enabled = cfg_P2P cfg, peerMapping = Map.empty, connections = Map.empty, cancelled = [] \<rparr>,
       lf_version = 0, lf_next = 0, lf_opened = [], lf_closed = [], lf_closedDst = [] \<rparr>) (NewClient_opts z cfg)"

section \<open>Nothing is left open\<close>

definition held :: "life \<Rightarrow> resource list" where
  "held c = close_res (RHub \<circ> fst) (lf_hub c) @ close_res RInternal (lf_internal c) @ close_res RDevice (lf_dev c) @
     close_res RHost (lf_host c) @ close_res RManager (lf_manager c)"

definition number :: "resource \<Rightarrow> nat" where
  "number r = (case r of RInternal n \<Rightarrow> n | RControl n \<Rightarrow> n | RDevice n \<Rightarrow> n | RManager n \<Rightarrow> n | RHub n \<Rightarrow> n | RHost n \<Rightarrow> n)"

definition owned :: "resource \<Rightarrow> bool" where
  "owned r = (case r of RControl _ \<Rightarrow> False | _ \<Rightarrow> True)"

definition life_ok :: "life \<Rightarrow> bool" where
  "life_ok c \<longleftrightarrow> mset (filter owned (lf_opened c)) = mset (filter owned (lf_closed c)) + mset (held c) \<and> map number (lf_opened c) = [0..<lf_next c] \<and>
     (\<forall>k. RControl k \<in> set (lf_opened c) \<longrightarrow> RControl k \<in> set (lf_closed c) \<or> lf_control c = Some k \<and> lf_internal c \<noteq> None)"

definition released :: "life \<Rightarrow> bool" where
  "released c \<longleftrightarrow> held c = [] \<and> lf_control c = None"

lemma owned_held [simp]: "filter owned (close_res RInternal i) = close_res RInternal i" "filter owned (close_res RDevice d) = close_res RDevice d"
  "filter owned (close_res RManager m) = close_res RManager m" "filter owned (close_res (RHub \<circ> fst) h) = close_res (RHub \<circ> fst) h"
  "filter owned (close_res RHost p) = close_res RHost p" "filter owned (close_res RControl k) = []"
  by (simp_all add: close_res_def owned_def split: option.split)

lemma ReleaseAll_ok: "life_ok c \<Longrightarrow> life_ok (ReleaseAll order c) \<and> released (ReleaseAll order c)"
proof -
  assume ok: "life_ok c"
  let ?c = "ReleaseAll order c"
  have r: "released ?c" by (simp add: released_def held_def ReleaseAll_def close_res_def)
  have o: "filter owned (lf_closed ?c) = filter owned (lf_closed c) @ held c" by (simp add: ReleaseAll_def held_def)
  have k: "RControl n \<in> set (lf_closed ?c)" if "RControl n \<in> set (lf_closed c) \<or> lf_control c = Some n \<and> lf_internal c \<noteq> None" for n
    using that by (auto simp: ReleaseAll_def close_res_def)
  have "lf_opened ?c = lf_opened c" "lf_next ?c = lf_next c" by (simp_all add: ReleaseAll_def)
  then show ?thesis using ok o r k unfolding life_ok_def released_def by auto
qed

lemmas life_simps = open_res_def life_ok_def held_def close_res_def number_def owned_def

lemma open_internal_ok: "life_ok c \<Longrightarrow> lf_internal c = None \<Longrightarrow> life_ok (open_internal c)"
  by (auto simp: open_internal_def life_simps)

lemma open_control_ok: "life_ok c \<Longrightarrow> lf_control c = None \<Longrightarrow> lf_internal c \<noteq> None \<Longrightarrow> life_ok (open_control b c)"
  by (auto simp: open_control_def life_simps)

lemma open_device_ok: "life_ok c \<Longrightarrow> lf_dev c = None \<Longrightarrow> life_ok (open_device ok c)"
  by (auto simp: open_device_def life_simps)

lemma open_services_ok:
  "life_ok c \<Longrightarrow> lf_manager c = None \<Longrightarrow> lf_hub c = None \<Longrightarrow> lf_host c = None \<Longrightarrow> life_ok (open_services host c)"
  by (auto simp: open_services_def life_simps Let_def)

lemma open_keeps [simp]:
  "lf_dev (open_internal c) = lf_dev c" "lf_manager (open_internal c) = lf_manager c" "lf_hub (open_internal c) = lf_hub c"
  "lf_host (open_internal c) = lf_host c" "lf_opts (open_internal c) = lf_opts c" "lf_control (open_internal c) = lf_control c"
  "lf_internal (open_internal c) \<noteq> None"
  "lf_dev (open_control b c) = lf_dev c" "lf_manager (open_control b c) = lf_manager c" "lf_hub (open_control b c) = lf_hub c"
  "lf_host (open_control b c) = lf_host c" "lf_opts (open_control b c) = lf_opts c"
  "lf_manager (open_device b c) = lf_manager c" "lf_hub (open_device b c) = lf_hub c" "lf_host (open_device b c) = lf_host c"
  "lf_opts (open_device b c) = lf_opts c" "lf_opts (open_services b c) = lf_opts c"
  by (simp_all add: open_internal_def open_control_def open_device_def open_services_def open_res_def Let_def)

lemma life_ok_upd [simp]:
  "life_ok (c\<lparr>lf_id := i, lf_session := v\<rparr>) = life_ok c" "life_ok (c\<lparr>lf_opts := w\<rparr>) = life_ok c"
  by (simp_all add: life_ok_def held_def)

lemma run_ok:
  assumes "life_ok c" "released c" "run cfg env c = Some (c', e)"
  shows "life_ok c'"
proof -
  have n: "lf_hub c = None" "lf_internal c = None" "lf_dev c = None" "lf_host c = None" "lf_manager c = None" "lf_control c = None"
    using assms(2) by (auto simp: released_def held_def close_res_def split: option.splits)
  have i: "life_ok (open_internal c)" by (rule open_internal_ok [OF assms(1) n(2)])
  have k: "life_ok (open_control b (open_internal c))" for b by (rule open_control_ok [OF i]) (use n in simp_all)
  show ?thesis using assms(1,3) n i k
    by (auto simp: run_def failed_setup_def Let_def split: client_type.splits option.splits sum.splits if_splits
        intro!: open_device_ok open_services_ok)
qed

lemma attempts_ok: "attempts cfg es c = Some c' \<Longrightarrow> life_ok c \<Longrightarrow> life_ok c'"
proof (induction es arbitrary: c)
  case (Cons oe es)
  obtain order env where oe: "oe = (order, env)" by (cases oe)
  then obtain c1 e where r: "run cfg env (ReleaseAll order c) = Some (c1, e)" "attempts cfg es c1 = Some c'"
    using Cons.prems(1) by (auto simp: Reconnect_def split: option.splits)
  then show ?case using Cons.IH run_ok [OF _ _ r(1)] ReleaseAll_ok [OF Cons.prems(2), of order] by blast
qed simp

text \<open>
  C21. Nothing that the client keeps is left open: after any number of attempts to connect, wherever each of them failed, a release has called the close operation of
  every internal client, device, manager, hub and peer-to-peer host that was opened, each exactly once, and the client holds none. Every control connection that was
  made has been closed at least once; one whose dispatch failed is closed a second time. (The transports of destinations and the peer-to-peer streams are not
  counted here.)
\<close>
theorem release_closes_everything:
  assumes "new_life z cfg = Some c0" "attempts cfg es c0 = Some c"
  shows "mset (filter owned (lf_closed (ReleaseAll order c))) = mset (filter owned (lf_opened c)) \<and>
    distinct (filter owned (lf_closed (ReleaseAll order c))) \<and>
    (\<forall>k. RControl k \<in> set (lf_opened c) \<longrightarrow> RControl k \<in> set (lf_closed (ReleaseAll order c))) \<and> held (ReleaseAll order c) = []"
proof -
  have "life_ok c0" using assms(1) by (auto simp: new_life_def life_ok_def held_def close_res_def)
  then have ok: "life_ok (ReleaseAll order c)" "released (ReleaseAll order c)" using attempts_ok [OF assms(2)] ReleaseAll_ok by blast+
  have o: "lf_opened (ReleaseAll order c) = lf_opened c" by (simp add: ReleaseAll_def)
  have m: "mset (filter owned (lf_closed (ReleaseAll order c))) = mset (filter owned (lf_opened c))" using ok o by (simp add: life_ok_def released_def)
  have "distinct (map number (lf_opened c))" using ok(1) o by (simp add: life_ok_def)
  then have "distinct (filter owned (lf_opened c))" by (simp add: distinct_map)
  then have "distinct (filter owned (lf_closed (ReleaseAll order c)))" using m by (metis mset_eq_imp_distinct_iff)
  moreover have "RControl k \<in> set (lf_closed (ReleaseAll order c))" if "RControl k \<in> set (lf_opened c)" for k
    using ok that o unfolding life_ok_def released_def by (metis option.distinct(1))
  ultimately show ?thesis using m ok(2) by (simp add: released_def)
qed

definition demo_run :: "goerr option \<Rightarrow> run_env" where
  "demo_run e = \<lparr> re_setup = (True, e), re_handshake = Inr \<lparr> si_SessionId = ''tcp-1'', si_IP = ''10.0.0.5'', si_Key = replicate 32 1 \<rparr>,
     re_device = (True, None), re_newX = (\<lambda>_. Inr tag_aead), re_host = False \<rparr>"

theorem release_closes_everything_witness:
  "\<exists>c0 c. new_life rle_zstd \<lparr> cfg_Type = TypeTCP, cfg_Encrypt = True, cfg_Compress = False, cfg_P2P = False \<rparr> = Some c0 \<and>
     attempts \<lparr> cfg_Type = TypeTCP, cfg_Encrypt = True, cfg_Compress = False, cfg_P2P = False \<rparr> [([], demo_run (Some EOF)), ([], demo_run None)] c0 = Some c \<and>
     mset (filter owned (lf_closed (ReleaseAll [] c))) = mset [RInternal 0, RInternal 2, RDevice 4, RManager 5, RHub 6] \<and>
     {RControl 1, RControl 3} \<subseteq> set (lf_closed (ReleaseAll [] c))"
proof -
  let ?cfg = "\<lparr> cfg_Type = TypeTCP, cfg_Encrypt = True, cfg_Compress = False, cfg_P2P = False \<rparr>"
  let ?es = "[([], demo_run (Some EOF)), ([], demo_run None)]"
  obtain c0 where c0: "new_life rle_zstd ?cfg = Some c0" "lf_opened c0 = []" "lf_next c0 = 0" by (simp add: new_life_def NewClient_opts_def)
  obtain c where c: "attempts ?cfg ?es c0 = Some c" "lf_opened c = [RInternal 0, RControl 1, RInternal 2, RControl 3, RDevice 4, RManager 5, RHub 6]"
    using c0(2,3) by (simp add: Reconnect_def run_def demo_run_def open_internal_def open_control_def failed_setup_def open_device_def open_services_def open_res_def
        ReleaseAll_def NewChacha20Poly1305Encryptor_def Chacha20Poly1305KeySize_def Let_def)
  show ?thesis using release_closes_everything [OF c0(1) c(1), of "[]"] c0(1) c by (auto simp: owned_def)
qed

section \<open>Clients must agree on compression\<close>

lemma client_transport:
  assumes "NewClient_opts z cfg = Some os" "t = NewTransport u (os @ [WithEncryptor e, WithType ty])"
  shows "wf_transport t" "upstream t = u" "magic t = transportMagicBytes" "encryptor t = Some e" "encrypt t = cfg_Encrypt cfg"
    "compress t = cfg_Compress cfg" "compressThreshold t = DefaultCompressThreshold"
    "compressor t = (if cfg_Compress cfg then Some (ZstdCompressor z FastestCompressionLevel) else None)"
proof -
  have os: "os = [EnableEncrypt (cfg_Encrypt cfg), EnableCompress (cfg_Compress cfg)] @
      (if cfg_Compress cfg then [WithCompressor (ZstdCompressor z FastestCompressionLevel)] else [])"
    using assms(1) by (auto simp: NewClient_opts_def NewZstdCompressor_def FastestCompressionLevel_def BestCompressionLevel_def Let_def split: if_splits)
  show "wf_transport t" unfolding assms(2) os
    by (rule NewTransport_wf) (simp add: transport_opt_defs defaultTransportOptions_def transportMagicBytes_def)
  show "upstream t = u" "magic t = transportMagicBytes" "encryptor t = Some e" "encrypt t = cfg_Encrypt cfg"
    "compress t = cfg_Compress cfg" "compressThreshold t = DefaultCompressThreshold"
    "compressor t = (if cfg_Compress cfg then Some (ZstdCompressor z FastestCompressionLevel) else None)"
    unfolding assms(2) os by (simp_all add: NewTransport_def transport_options.extend_def transport_opt_defs defaultTransportOptions_def)
qed

lemma compressed_unreadable:
  assumes "pack batch_room t TypeBatchTransport d = Inr (TypeCompress, d')" "spec_batch t r d = Inr f" "codecs_ok t" "length r = 24" "length d \<le> 65528"
    and "peers (t\<lparr>compressor := None\<rparr>) rt" "inb (upstream rt) = f @ rest"
  shows "\<exists>rt'. ReadMessage rt data = Some (rt', data, 0, 0, Some ErrMissingCompressor)"
proof -
  let ?t = "t\<lparr>compressor := None\<rparr>"
  have "seal ?t r TypeCompress d' = seal t r TypeCompress d'" by (cases "encryptor t") (simp_all add: seal_def split: sum.split prod.split)
  moreover have "encrypting ?t = encrypting t" by (simp add: encrypting_def)
  ultimately have s: "seal ?t r TypeCompress d' = Inr f" "length d' \<le> max_payload ?t"
    using assms(1,2,5) pack_length [OF assms(1)] by (auto simp: spec_batch_def max_payload_def split: if_splits)
  have "codecs_ok ?t" using assms(3) by (simp add: codecs_ok_def)
  from unseal_ok [OF s(1) this assms(4) _ s(2) assms(6,7)] obtain rt3 ty3 n rt4 where
    r4: "read_frame rt = Some (rt3, Inr (ty3, n))" "decrypt_layer rt3 ty3 n = Some (rt4, Inr (TypeCompress, of_nat (length d')))" "received rt rest rt4"
    by (auto simp: type_defs)
  have "compressor rt4 = None" using received_opts [OF r4(3)] assms(6) by (simp add: peers_def)
  then have "decompress_layer rt4 TypeCompress (of_nat (length d')) = Some (rt4, Inl ErrMissingCompressor)" by (simp add: decompress_layer_def)
  then show ?thesis using r4 by (simp add: ReadMessage_def)
qed

text \<open>
  Compression is a choice of each client, but both have to make the same one: the first batch that a client with compression sends
  compressed ends the receive loop of a client without it, with the error \<^verbatim>\<open>compressor not configured\<close>; nothing of it reaches
  the device.
\<close>
theorem compression_mismatch_stops_receiver:
  assumes "NewClient_opts z cfg = Some os" "NewClient_opts z cfg' = Some os'" "cfg_Compress cfg" "\<not> cfg_Compress cfg'"
    and "t = NewTransport u (os @ [WithEncryptor e, WithType ty])" "rt = NewTransport v (os' @ [WithEncryptor e, WithType ty'])"
    and "zstd_ok z" "encryptor_ok e" "wfault u = None" "length r = 24"
    and "valid_batch buf sizes h" "2 + 2 * length sizes + sum_list sizes \<le> 65528"
    and "pack batch_room t TypeBatchTransport (batch_payload (packets buf sizes h)) = Inr (TypeCompress, d')"
    and "batchWrite t (Some r) buf sizes h = Some (t', n, None)" "inb v = newly_sent t t' @ rest"
  shows "\<exists>rt' ev'. rx_round hcfg ev rt = Some (rt', Stop ErrMissingCompressor ev')"
proof -
  let ?d = "batch_payload (packets buf sizes h)"
  note T = client_transport [OF assms(1,5)]
  note R = client_transport [OF assms(2,6)]
  have ok: "codecs_ok t" using T assms(7,8) zstd_compressor_ok by (auto simp: codecs_ok_def)
  have w: "writes t (batchWrite t (Some r) buf sizes h) (spec_batch t r ?d)"
    by (rule batchWrite_writes) (use T ok assms(9-12) in auto)
  then obtain f where f: "spec_batch t r ?d = Inr f" "newly_sent t t' = f" using assms(14) by (auto simp: writes_def split: sum.splits)
  have p: "peers (t\<lparr>compressor := None\<rparr>) rt" using T R assms(4) by (simp add: peers_def)
  have l: "length ?d \<le> 65528" using assms(11,12) by (simp add: length_batch_payload packets_lengths)
  obtain rt' where "ReadMessage rt (rx_packet ev) = Some (rt', rx_packet ev, 0, 0, Some ErrMissingCompressor)"
    using compressed_unreadable [OF assms(13) f(1) ok assms(10) l p] R(2) assms(15) f(2) by blast
  then show ?thesis by (simp add: rx_round_def Let_def ErrMissingCompressor_def ErrInvalidMagic_def)
qed


text \<open>A compressor that knows one message.\<close>

definition known_zstd :: "bytes \<Rightarrow> zstd" where
  "known_zstd m = \<lparr> EncodeAll = (\<lambda>level d. if d = m then [1] else 0 # d),
     DecodeAll = (\<lambda>c. case c of [] \<Rightarrow> None | x # y \<Rightarrow> if x = 0 then Some y else Some m) \<rparr>"

lemma known_zstd_ok: "m \<noteq> [] \<Longrightarrow> zstd_ok (known_zstd m)"
  by (simp add: zstd_ok_def known_zstd_def)

theorem compression_mismatch_stops_receiver_witness:
  "\<forall>hcfg ev. \<exists>z os os' t' n rt'. NewClient_opts z \<lparr> cfg_Type = TypeTCP, cfg_Encrypt = False, cfg_Compress = True, cfg_P2P = False \<rparr> = Some os \<and>
     NewClient_opts z \<lparr> cfg_Type = TypeTCP, cfg_Encrypt = False, cfg_Compress = False, cfg_P2P = False \<rparr> = Some os' \<and>
     batchWrite (NewTransport plain_up (os @ [WithEncryptor (Chacha20Poly1305Encryptor tag_aead), WithType ''tcp'']))
       (Some (replicate 24 7)) [replicate 12000 5] [12000] 0 = Some (t', n, None) \<and>
     (\<exists>ev'. rx_round hcfg ev (NewTransport (plain_up\<lparr>inb := outb (upstream t')\<rparr>) (os' @ [WithEncryptor (Chacha20Poly1305Encryptor tag_aead), WithType ''tcp''])) =
        Some (rt', Stop ErrMissingCompressor ev'))"
  (is "\<forall>hcfg ev. ?P hcfg ev")
proof (intro allI)
  fix hcfg :: hub_config and ev
  let ?cfg = "\<lambda>b. \<lparr> cfg_Type = TypeTCP, cfg_Encrypt = False, cfg_Compress = b, cfg_P2P = False \<rparr>"
  let ?d = "batch_payload (packets [replicate 12000 5] [12000] 0)"
  let ?z = "known_zstd (inner_msg TypeBatchTransport ?d)" and ?e = "Chacha20Poly1305Encryptor tag_aead"
  have v: "valid_batch [replicate 12000 (5 :: byte)] [12000] 0" by (simp add: valid_batch_def)
  have l: "length ?d = 12004" by (simp add: length_batch_payload packets_lengths [OF v] packets_def)
  obtain os where os: "NewClient_opts ?z (?cfg True) = Some os"
    by (simp add: NewClient_opts_def NewZstdCompressor_def FastestCompressionLevel_def BestCompressionLevel_def)
  obtain os' where os': "NewClient_opts ?z (?cfg False) = Some os'" by (simp add: NewClient_opts_def)
  let ?t = "NewTransport plain_up (os @ [WithEncryptor ?e, WithType ''tcp''])"
  note T = client_transport [OF os refl, where u = plain_up and e = ?e and ty = "''tcp''"]
  have zok: "zstd_ok ?z" by (rule known_zstd_ok) (simp add: inner_msg_def)
  have ok: "codecs_ok ?t" using T zok zstd_compressor_ok chacha_encryptor_ok [OF tag_aead_ok] by (auto simp: codecs_ok_def)
  have "length (inner_msg TypeBatchTransport ?d) = 12007" using l by (simp add: inner_msg_def)
  then have p: "pack batch_room ?t TypeBatchTransport ?d = Inr (TypeCompress, [1])"
    using T l by (simp add: pack_def ZstdCompressor_def zstd_Compress_def known_zstd_def batch_room_def fits_twice_def ZstdOverhead_def Let_def)
  have w: "writes ?t (batchWrite ?t (Some (replicate 24 7)) [replicate 12000 5] [12000] 0) (spec_batch ?t (replicate 24 7) ?d)"
    by (rule batchWrite_writes) (use T ok v in \<open>simp_all add: plain_up_def\<close>)
  have "spec_batch ?t (replicate 24 7) ?d = Inr (frame (magic ?t) TypeCompress [1])"
    using T l p by (simp add: spec_batch_def encrypting_def seal_def)
  then obtain t' n where bw: "batchWrite ?t (Some (replicate 24 7)) [replicate 12000 5] [12000] 0 = Some (t', n, None)"
    using w by (auto simp: writes_def)
  have "inb (plain_up\<lparr>inb := outb (upstream t')\<rparr>) = newly_sent ?t t' @ []" using T(2) by (simp add: newly_sent_def plain_up_def)
  then have "\<exists>rt' ev'. rx_round hcfg ev (NewTransport (plain_up\<lparr>inb := outb (upstream t')\<rparr>) (os' @ [WithEncryptor ?e, WithType ''tcp''])) =
      Some (rt', Stop ErrMissingCompressor ev')"
    by (intro compression_mismatch_stops_receiver [OF os os' _ _ refl refl zok chacha_encryptor_ok [OF tag_aead_ok] _ _ v _ p bw])
      (simp_all add: plain_up_def)
  then show "?P hcfg ev" using os os' bw by blast
qed

end
