(* ===== verification/P2P.thy ===== *)
theory P2P
  imports Tcp Client_Sync_Props Client_Calls
begin

text \<open>
  The peer-to-peer side of a client as a whole: \<^verbatim>\<open>vnet/client/client_p2p.go\<close>. Destinations are shared through pointers between
  the routing table of the hub and the loops, so the client has a store of them; the table holds references, with nil (\<open>None\<close>) for the own
  address. A stream is known by a number. What libp2p and the peer answer is an argument. \<open>None\<close> is a run-time panic.
\<close>

section \<open>State\<close>

record p2p_client =
  pc_IP :: string
  pc_router :: "nat option router"
  pc_dsts :: "nat \<rightharpoonup> destination"
  pc_p2p :: p2p_state
  pc_closed :: "nat list"

definition evaluateFail :: byte where
  "evaluateFail = 1"

definition evaluatePass :: byte where
  "evaluatePass = 2"

section \<open>The end that dials\<close>

text \<open>
  \<open>evaluateAndReplaceP2PTx\<close> with the bytes it writes to the stream: the last four bytes of the own address, then the verdict. The
  result has the client, the writes and the error. An address that does not parse is a nil slice, whose first index panics.
\<close>

definition evaluateTx :: "p2p_env \<Rightarrow> nat \<Rightarrow> nat \<Rightarrow> p2p_client \<Rightarrow> (p2p_client \<times> bytes list \<times> goerr option) option" where
  "evaluateTx env ref stream c =
     (case (pc_dsts c ref, ParseIP (pc_IP c)) of
        (Some d, Some addr) \<Rightarrow>
          let pkg = sub 12 4 addr;
              pass = ping_cost env < acceptableLatency;
              ((p, d'), err) = evaluateAndReplaceP2PTx env stream (pc_p2p c, d);
              answered = ping_write env = None \<and> ping_read env = None
          in Some (c\<lparr>pc_p2p := p, pc_dsts := (pc_dsts c)(ref \<mapsto> d'),
                     pc_closed := pc_closed c @ (if answered \<and> \<not> pass then [stream] else [])\<rparr>,
                   (if ping_write env = None then [pkg] else []) @
                   (if answered then [[if pass then evaluatePass else evaluateFail]] else []), err)
      | _ \<Rightarrow> None)"

text \<open>\<open>dialDstRelay\<close>: connecting to the peer, then opening the stream.\<close>

definition dialDstRelay :: "goerr option \<Rightarrow> goerr + nat \<Rightarrow> goerr + nat" where
  "dialDstRelay connect newStream = (case connect of Some e \<Rightarrow> Inl (ErrorNew ''failed to connect to peer'') | None \<Rightarrow> newStream)"

text \<open>\<open>tryP2P\<close> on a destination of the client; the stream is what \<open>dial_stream\<close> of the environment gives.\<close>

definition client_tryP2P :: "p2p_env \<Rightarrow> nat \<Rightarrow> p2p_client \<Rightarrow> (p2p_client \<times> goerr option) option" where
  "client_tryP2P env ref c =
     (case pc_dsts c ref of
        None \<Rightarrow> None
      | Some d \<Rightarrow>
          if \<not> enabled (pc_p2p c) then Some (c, None)
          else if dst_Type d = TransportTypeP2P then Some (c, None)
          else case peerMapping (pc_p2p c) (ip d) of
            None \<Rightarrow> Some (c, None)
          | Some _ \<Rightarrow>
              (case dial_stream env of
                 Inl e \<Rightarrow> Some (c, Some e)
               | Inr stream \<Rightarrow> map_option (\<lambda>(c', _, err). (c', err)) (evaluateTx env ref stream c)))"

text \<open>A pass of \<open>backgroundTryDialP2P\<close> over the routing table; \<open>env\<close> gives the answers for every destination.\<close>

fun dial_pass :: "(nat \<Rightarrow> p2p_env) \<Rightarrow> nat option list \<Rightarrow> p2p_client \<Rightarrow> p2p_client option" where
  "dial_pass env [] c = Some c"
| "dial_pass env (None # vs) c = dial_pass env vs c"
| "dial_pass env (Some ref # vs) c = (case client_tryP2P (env ref) ref c of None \<Rightarrow> None | Some (c', _) \<Rightarrow> dial_pass env vs c')"

definition backgroundTryDialP2P :: "bool \<Rightarrow> (nat \<Rightarrow> p2p_env) \<Rightarrow> p2p_client \<Rightarrow> p2p_client option" where
  "backgroundTryDialP2P active env c =
     (if \<not> enabled (pc_p2p c) \<or> \<not> active then Some c else dial_pass env (map snd (Range (pc_router c))) c)"

section \<open>The end that accepts\<close>

text \<open>What the accepting end gets: the bytes of the first read (at most four), the error of its write, the byte of the second read.\<close>

record rx_env =
  rx_hello :: "goerr + bytes"
  rx_write :: "goerr option"
  rx_verdict :: "goerr + byte"

text \<open>\<^verbatim>\<open>ipBuf\<close> has four bytes whatever was read.\<close>

definition ipBuf :: "bytes \<Rightarrow> bytes" where
  "ipBuf got = take 4 (got @ replicate 4 0)"

definition evaluateAndReplaceP2PRx :: "rx_env \<Rightarrow> nat \<Rightarrow> p2p_client \<Rightarrow> p2p_client \<times> goerr option" where
  "evaluateAndReplaceP2PRx env stream c =
     (case rx_hello env of
        Inl e \<Rightarrow> (c, Some e)
      | Inr got \<Rightarrow>
          let dst = ip4_text (ipBuf got) in
          (case rx_write env of
             Some e \<Rightarrow> (c, Some e)
           | None \<Rightarrow>
               (case rx_verdict env of
                  Inl e \<Rightarrow> (c, Some e)
                | Inr b \<Rightarrow>
                    if b = evaluateFail then (c\<lparr>pc_closed := pc_closed c @ [stream]\<rparr>, Some (ErrorNew ''stream closed by peer''))
                    else if b \<noteq> evaluatePass then (c, Some (ErrorNew ''internal error: invalid ack packet''))
                    else (case RouteString (pc_router c) dst of
                            Some (Some ref) \<Rightarrow>
                              (case pc_dsts c ref of
                                 Some d \<Rightarrow>
                                   let (p, d') = replaceP2P stream (pc_p2p c, d)
                                   in (c\<lparr>pc_p2p := p, pc_dsts := (pc_dsts c)(ref \<mapsto> d')\<rparr>, None)
                               | None \<Rightarrow> (c, None))
                          | _ \<Rightarrow> (c, None)))))"

text \<open>\<open>handleP2PStreamRx\<close>: \<open>pord\<close> are the keys of the peer mapping as they are visited.\<close>

definition handleP2PStreamRx :: "string list \<Rightarrow> string \<Rightarrow> rx_env \<Rightarrow> nat \<Rightarrow> p2p_client \<Rightarrow> p2p_client \<times> goerr option" where
  "handleP2PStreamRx pord remote env stream c =
     (if \<exists>k \<in> set pord. peerMapping (pc_p2p c) k = Some remote then evaluateAndReplaceP2PRx env stream c
      else (c\<lparr>pc_closed := pc_closed c @ [stream]\<rparr>, None))"

section \<open>The signaling server\<close>

record AddressInfo =
  ai_Id :: string
  ai_Addresses :: "string list"

text \<open>
  \<open>getPeerInfo\<close>: the answer of the function call, decoded by \<open>unpack\<close> (base64 and JSON), which leaves the pointer nil when the text is \<^verbatim>\<open>null\<close>. Data that is
  no string fails the type assertion.
\<close>

definition getPeerInfo :: "goerr + FuncCallResponse \<Rightarrow> (string \<Rightarrow> AddressInfo option \<times> goerr option) \<Rightarrow> (AddressInfo option \<times> goerr option) option" where
  "getPeerInfo call unpack =
     (case call of
        Inl e \<Rightarrow> Some (None, Some e)
      | Inr resp \<Rightarrow> (case fp_Data resp of VString d \<Rightarrow> Some (unpack d) | VNil \<Rightarrow> None))"

text \<open>What libp2p does for the client: a host on the listen addresses, the connection to the server, the registration.\<close>

record host_env =
  multiaddr :: "string \<Rightarrow> bool"
  new_host :: "string list \<Rightarrow> goerr + string"
  host_connect :: "string list \<Rightarrow> goerr option"
  host_info :: string
  register_peer :: "string \<Rightarrow> goerr option"

record signaling =
  sg_address :: "AddressInfo option"
  sg_host :: bool
  sg_hostId :: string
  sg_dialling :: bool

definition connectP2PSignalingServer ::
    "goerr + FuncCallResponse \<Rightarrow> (string \<Rightarrow> AddressInfo option \<times> goerr option) \<Rightarrow> string list \<Rightarrow> bool \<Rightarrow> host_env \<Rightarrow> signaling \<Rightarrow>
     (signaling \<times> goerr option) option" where
  "connectP2PSignalingServer call unpack listenAddr active env g =
     (case getPeerInfo call unpack of
        None \<Rightarrow> None
      | Some (i, Some e) \<Rightarrow> Some (g\<lparr>sg_address := i\<rparr>, Some e)
      | Some (None, None) \<Rightarrow> None
      | Some (Some info, None) \<Rightarrow>
          let g = g\<lparr>sg_address := Some info\<rparr> in
          if ai_Addresses info = [] then Some (g, None)
          else if ai_Id info = [] then Some (g, None)
          else let local = (if listenAddr = [] then [''/ip4/0.0.0.0/tcp/0''] else listenAddr) in
            (case new_host env (filter (multiaddr env) local) of
               Inl e \<Rightarrow> Some (g, Some e)
             | Inr hid \<Rightarrow>
                 let g = g\<lparr>sg_host := True\<rparr>;
                     addrs = filter (multiaddr env) (map (\<lambda>s. s @ ''/p2p/'' @ ai_Id info) (ai_Addresses info))
                 in (case host_connect env addrs of
                       Some e \<Rightarrow> Some (g, Some (ErrorNew ''failed to connect to server''))
                     | None \<Rightarrow>
                         let g = g\<lparr>sg_hostId := hid\<rparr> in
                         (case register_peer env (host_info env) of
                            Some e \<Rightarrow> Some (g, Some (ErrorNew ''failed to register p2p peer''))
                          | None \<Rightarrow> Some (g\<lparr>sg_dialling := active\<rparr>, None)))))"

section \<open>Both ends\<close>

definition upgradable :: "destination \<Rightarrow> bool" where
  "upgradable d \<longleftrightarrow> fallback d = None \<and> dst_Type d \<noteq> TransportTypeP2P"

text \<open>
  A stream that client \<open>a\<close>, known to libp2p as \<open>peer\<close>, opens to client \<open>b\<close>, when nothing fails on the way: \<open>b\<close> reads what \<open>a\<close> writes, and \<open>a\<close> reads the
  acknowledgement, or sees the end of the stream when \<open>b\<close> does not know the peer. \<open>cost\<close> is what \<open>a\<close> measures.
\<close>

definition p2p_dialogue :: "string list \<Rightarrow> string \<Rightarrow> int \<Rightarrow> nat \<Rightarrow> nat \<Rightarrow> p2p_client \<Rightarrow> p2p_client \<Rightarrow> (p2p_client \<times> p2p_client) option" where
  "p2p_dialogue pord peer cost ref stream a b =
     (let known = (\<exists>k \<in> set pord. peerMapping (pc_p2p b) k = Some peer);
          env = \<lparr> dial_stream = Inr stream, ping_write = None, ping_read = (if known then None else Some EOF), ping_cost = cost \<rparr>
      in case evaluateTx env ref stream a of
           None \<Rightarrow> None
         | Some (a', writes, _) \<Rightarrow>
             let got = (\<lambda>i. if i < length writes then Inr (writes ! i) else Inl EOF) in
             Some (a', fst (handleP2PStreamRx pord peer
               \<lparr> rx_hello = got 0, rx_write = None, rx_verdict = (case got 1 of Inl e \<Rightarrow> Inl e | Inr v \<Rightarrow> Inr (hd v)) \<rparr> stream b)))"

lemma replaceP2P_tx:
  "tx (snd (replaceP2P stream (p, d))) = (if upgradable d then Some (Rw stream TransportTypeP2P) else tx d)"
  by (auto simp: replaceP2P_def ReplaceTx_def upgradable_def dst_Type_def TransportTypeP2P_def Let_def split: option.split)

lemma ipBuf_4 [simp]: "length a = 4 \<Longrightarrow> ipBuf a = a"
  by (simp add: ipBuf_def)

lemma hello_v4: "length a = 4 \<Longrightarrow> \<exists>addr. ParseIP (ip4_text a) = Some addr \<and> sub 12 4 addr = a"
  by (simp add: ParseIP_def ip4_text_eq ParseAddr_ip4 As16_def v4InV6Prefix_def sub_def)

lemma evaluateTx_ok:
  assumes "length addr = 4" "pc_IP a = ip4_text addr" "pc_dsts a ref = Some d"
    and "env = \<lparr> dial_stream = Inr stream, ping_write = None, ping_read = None, ping_cost = cost \<rparr>"
  shows "\<exists>a' err d'. evaluateTx env ref stream a = Some (a', [addr, [if cost < acceptableLatency then evaluatePass else evaluateFail]], err) \<and>
     pc_dsts a' ref = Some d' \<and> pc_dsts a' = (pc_dsts a)(ref \<mapsto> d') \<and>
     tx d' = (if cost < acceptableLatency \<and> upgradable d then Some (Rw stream TransportTypeP2P) else tx d) \<and>
     (\<not> cost < acceptableLatency \<longrightarrow> d' = d) \<and>
     pc_closed a' = pc_closed a @ (if cost < acceptableLatency then [] else [stream])"
proof -
  obtain x where "ParseIP (pc_IP a) = Some x" "sub 12 4 x = addr" using hello_v4 [OF assms(1)] assms(2) by auto
  then show ?thesis using assms(3,4) replaceP2P_tx [of stream "pc_p2p a" d]
    by (auto simp: evaluateTx_def evaluateAndReplaceP2PTx_def Let_def split: prod.split)
qed

lemma evaluateTx_refused:
  assumes "length addr = 4" "pc_IP a = ip4_text addr" "pc_dsts a ref = Some d"
    and "env = \<lparr> dial_stream = Inr stream, ping_write = None, ping_read = Some e, ping_cost = cost \<rparr>"
  shows "evaluateTx env ref stream a = Some (a\<lparr>pc_dsts := (pc_dsts a)(ref \<mapsto> d)\<rparr>, [addr], Some e)"
proof -
  obtain x where "ParseIP (pc_IP a) = Some x" "sub 12 4 x = addr" using hello_v4 [OF assms(1)] assms(2) by auto
  then show ?thesis using assms(3,4) by (simp add: evaluateTx_def evaluateAndReplaceP2PTx_def)
qed

lemma upd_dst_same: "pc_dsts a ref = Some d \<Longrightarrow> a\<lparr>pc_dsts := (pc_dsts a)(ref \<mapsto> d)\<rparr> = a"
  by (simp add: fun_upd_idem)

text \<open>
  C18. How the two ends of a peer-to-peer stream decide, when no read or write on it fails but for the end of a stream that was closed. If the accepting end does
  not know the peer, or the measured latency is too high, neither end changes the transport of a destination, and the stream is closed. If the
  evaluation passes, the dialling end sends to the stream from then on, unless its destination was upgraded before; and so does the accepting end, if it has a
  destination for the address of the dialling end. If it has none, it does nothing at all, and the upgrade is one-sided.
\<close>
theorem p2p_agreement:
  assumes "length addr = 4" "pc_IP a = ip4_text addr" "pc_dsts a ref = Some d"
  shows "\<exists>a' b' d'. p2p_dialogue pord peer cost ref stream a b = Some (a', b') \<and> pc_dsts a' ref = Some d' \<and>
     (if \<exists>k \<in> set pord. peerMapping (pc_p2p b) k = Some peer
      then (if cost < acceptableLatency
            then tx d' = (if upgradable d then Some (Rw stream TransportTypeP2P) else tx d) \<and>
                 (case RouteString (pc_router b) (ip4_text addr) of
                    Some (Some rb) \<Rightarrow>
                      (case pc_dsts b rb of
                         Some db \<Rightarrow> \<exists>db'. pc_dsts b' = (pc_dsts b)(rb \<mapsto> db') \<and>
                           tx db' = (if upgradable db then Some (Rw stream TransportTypeP2P) else tx db)
                       | None \<Rightarrow> b' = b)
                  | _ \<Rightarrow> b' = b)
            else d' = d \<and> b' = b\<lparr>pc_closed := pc_closed b @ [stream]\<rparr> \<and> stream \<in> set (pc_closed a'))
      else a' = a \<and> b' = b\<lparr>pc_closed := pc_closed b @ [stream]\<rparr>)"
proof (cases "\<exists>k \<in> set pord. peerMapping (pc_p2p b) k = Some peer")
  case False
  show ?thesis using False evaluateTx_refused [OF assms refl, of stream EOF cost] upd_dst_same [OF assms(3)] assms(3)
    by (simp add: p2p_dialogue_def handleP2PStreamRx_def Let_def)
next
  case True
  obtain a' err d' where t: "evaluateTx \<lparr> dial_stream = Inr stream, ping_write = None, ping_read = None, ping_cost = cost \<rparr> ref stream a =
      Some (a', [addr, [if cost < acceptableLatency then evaluatePass else evaluateFail]], err)"
    "pc_dsts a' ref = Some d'" "tx d' = (if cost < acceptableLatency \<and> upgradable d then Some (Rw stream TransportTypeP2P) else tx d)"
    "\<not> cost < acceptableLatency \<longrightarrow> d' = d" "pc_closed a' = pc_closed a @ (if cost < acceptableLatency then [] else [stream])"
    using evaluateTx_ok [OF assms refl] by blast
  obtain b' where b: "p2p_dialogue pord peer cost ref stream a b = Some (a', b')"
    "b' = fst (evaluateAndReplaceP2PRx \<lparr> rx_hello = Inr addr, rx_write = None,
       rx_verdict = Inr (if cost < acceptableLatency then evaluatePass else evaluateFail) \<rparr> stream b)"
    using True t(1) by (simp add: p2p_dialogue_def handleP2PStreamRx_def Let_def)
  show ?thesis
  proof (cases "cost < acceptableLatency")
    case False
    then show ?thesis using True b t by (simp add: evaluateAndReplaceP2PRx_def Let_def)
  next
    case lat: True
    have "case RouteString (pc_router b) (ip4_text addr) of
            Some (Some rb) \<Rightarrow>
              (case pc_dsts b rb of
                 Some db \<Rightarrow> \<exists>db'. pc_dsts b' = (pc_dsts b)(rb \<mapsto> db') \<and> tx db' = (if upgradable db then Some (Rw stream TransportTypeP2P) else tx db)
               | None \<Rightarrow> b' = b)
          | _ \<Rightarrow> b' = b"
      using lat b(2) assms(1) replaceP2P_tx [of stream "pc_p2p b"]
      by (auto simp: evaluateAndReplaceP2PRx_def evaluateFail_def evaluatePass_def Let_def case_prod_beta split: option.splits)
    then show ?thesis using lat True b(1) t by simp
  qed
qed

definition demo_peer :: "string \<Rightarrow> string \<Rightarrow> nat option router \<Rightarrow> p2p_client" where
  "demo_peer addr other r =
     \<lparr> pc_IP = addr, pc_router = r, pc_dsts = [1 \<mapsto> (NewDestination 1 other)\<lparr>tx := Some (Rw 7 ''tcp'')\<rparr>],
       pc_p2p = demo_p2p\<lparr>peerMapping := [other \<mapsto> ''peer'']\<rparr>, pc_closed = [] \<rparr>"

theorem p2p_agreement_witness:
  "\<exists>r a' b' d' db'. Register NewRouter ''10.0.0.2/32'' (Some 1) = Some r \<and>
     p2p_dialogue [''10.0.0.2''] ''peer'' 20 1 9 (demo_peer ''10.0.0.2'' ''10.0.0.3'' NewRouter) (demo_peer ''10.0.0.3'' ''10.0.0.2'' r) = Some (a', b') \<and>
     pc_dsts a' 1 = Some d' \<and> pc_dsts b' 1 = Some db' \<and> tx d' = Some (Rw 9 ''p2p'') \<and> tx db' = Some (Rw 9 ''p2p'')"
proof -
  let ?b = "[10, 0, 0, 2] :: bytes"
  have t: "ip4_text ?b = ''10.0.0.2''" by code_simp
  obtain r where r: "Register NewRouter (ip4_text ?b @ ''/32'') (Some (1 :: nat)) = Some r" "routes r = (routes NewRouter)((True, bits ?b) \<mapsto> Some 1)"
    using Register_host [of ?b NewRouter "Some (1 :: nat)"] by fastforce
  have rs: "RouteString r (ip4_text ?b) = Some (Some 1)" by (rule RouteString_host) (use r in simp_all)
  let ?A = "demo_peer ''10.0.0.2'' ''10.0.0.3'' NewRouter" and ?B = "demo_peer ''10.0.0.3'' ''10.0.0.2'' r"
  have f: "pc_IP ?A = ip4_text ?b" "pc_dsts ?A 1 = Some ((NewDestination 1 ''10.0.0.3'')\<lparr>tx := Some (Rw 7 ''tcp'')\<rparr>)"
    "RouteString (pc_router ?B) (ip4_text ?b) = Some (Some 1)" "pc_dsts ?B 1 = Some ((NewDestination 1 ''10.0.0.2'')\<lparr>tx := Some (Rw 7 ''tcp'')\<rparr>)"
    using t rs by (simp_all add: demo_peer_def)
  have u: "upgradable ((NewDestination 1 x)\<lparr>tx := Some (Rw 7 ''tcp'')\<rparr>)" for x
    by (simp add: upgradable_def NewDestination_def dst_Type_def TransportTypeP2P_def)
  have "\<exists>k \<in> set [''10.0.0.2'']. peerMapping (pc_p2p ?B) k = Some ''peer''" by (simp add: demo_peer_def demo_p2p_def)
  then show ?thesis using p2p_agreement [OF _ f(1,2), where b = ?B and pord = "[''10.0.0.2'']" and peer = "''peer''" and cost = 20 and stream = 9] f(3,4) r(1) t u by (auto simp: acceptableLatency_def TransportTypeP2P_def)
qed

text \<open>
  One end alone may be upgraded: the acknowledgement is written before the accepting end looks for a route to the dialling end. Without one it
  neither sends to the stream, nor reads it, nor closes it, while the dialling end sends to it from then on.
\<close>
theorem one_sided_upgrade:
  assumes "length addr = 4" "pc_IP a = ip4_text addr" "pc_dsts a ref = Some d" "upgradable d" "cost < acceptableLatency"
    and "RouteString (pc_router b) (ip4_text addr) = None" "k \<in> set pord" "peerMapping (pc_p2p b) k = Some peer"
  shows "\<exists>a' d'. p2p_dialogue pord peer cost ref stream a b = Some (a', b) \<and> pc_dsts a' ref = Some d' \<and> tx d' = Some (Rw stream TransportTypeP2P)"
proof -
  obtain a' err d' where t: "evaluateTx \<lparr> dial_stream = Inr stream, ping_write = None, ping_read = None, ping_cost = cost \<rparr> ref stream a =
      Some (a', [addr, [evaluatePass]], err)" "pc_dsts a' ref = Some d'" "tx d' = Some (Rw stream TransportTypeP2P)"
    using evaluateTx_ok [OF assms(1-3) refl, of stream cost] assms(4,5) by auto
  have "\<exists>k \<in> set pord. peerMapping (pc_p2p b) k = Some peer" using assms(7,8) by blast
  then have "p2p_dialogue pord peer cost ref stream a b = Some (a', b)" using t(1) assms(1,6)
    by (simp add: p2p_dialogue_def handleP2PStreamRx_def evaluateAndReplaceP2PRx_def evaluateFail_def evaluatePass_def Let_def)
  then show ?thesis using t by blast
qed

theorem one_sided_upgrade_witness:
  "\<exists>a' d'. p2p_dialogue [''10.0.0.2''] ''peer'' 20 1 9 (demo_peer ''10.0.0.2'' ''10.0.0.3'' NewRouter) (demo_peer ''10.0.0.3'' ''10.0.0.2'' NewRouter) =
     Some (a', demo_peer ''10.0.0.3'' ''10.0.0.2'' NewRouter) \<and> pc_dsts a' 1 = Some d' \<and> tx d' = Some (Rw 9 ''p2p'')"
proof -
  let ?b = "[10, 0, 0, 2] :: bytes"
  have t: "ip4_text ?b = ''10.0.0.2''" by code_simp
  let ?A = "demo_peer ''10.0.0.2'' ''10.0.0.3'' NewRouter" and ?B = "demo_peer ''10.0.0.3'' ''10.0.0.2'' NewRouter"
  have rs: "RouteString (pc_router ?B) (ip4_text ?b) = None" unfolding t by code_simp
  have u: "upgradable ((NewDestination 1 ''10.0.0.3'')\<lparr>tx := Some (Rw 7 ''tcp'')\<rparr>)"
    by (simp add: upgradable_def NewDestination_def dst_Type_def TransportTypeP2P_def)
  show ?thesis
    using one_sided_upgrade [of ?b ?A 1 "(NewDestination 1 ''10.0.0.3'')\<lparr>tx := Some (Rw 7 ''tcp'')\<rparr>" 20 ?B "''10.0.0.2''" "[''10.0.0.2'']" "''peer''" 9] t rs u
    by (simp add: demo_peer_def demo_p2p_def acceptableLatency_def TransportTypeP2P_def)
qed

end
