(* ===== verification/Manager_Net.thy ===== *)
theory Manager_Net
  imports Server_Ops_Props
begin

text \<open>
  The networks of the web manager: \<^verbatim>\<open>manager/server/internal/logic/network\<close> and the start of all networks in
  \<^verbatim>\<open>manager/server/server.go\<close>. The database is a record of operations on a state \<^typ>\<open>'db\<close>; what the code relies on of it is
  \<open>network_dao_ok\<close>. The registry of running networks is the one of the server, which the manager shares. \<open>None\<close> is a run-time panic.
\<close>

section \<open>The table of networks\<close>

record network_row =
  nw_Id :: string
  nw_Name :: string
  nw_Cidr :: string
  nw_Mtu :: int
  nw_Description :: string
  nw_Extra :: string

record 'db network_dao =
  network_One :: "'db \<Rightarrow> string \<Rightarrow> goerr + network_row option"
  network_All :: "'db \<Rightarrow> goerr + network_row list"
  network_Insert :: "'db \<Rightarrow> network_row \<Rightarrow> 'db \<times> goerr option"
  network_Update :: "'db \<Rightarrow> string \<Rightarrow> (string \<times> any_value) list \<Rightarrow> 'db \<times> goerr option"
  network_Delete :: "'db \<Rightarrow> string \<Rightarrow> 'db \<times> goerr option"

definition GetNetworkById :: "'db network_dao \<Rightarrow> 'db \<Rightarrow> string \<Rightarrow> goerr + network_row" where
  "GetNetworkById dao db nid =
     (case network_One dao db nid of
        Inl e \<Rightarrow> Inl (ErrorNew ''database error'')
      | Inr None \<Rightarrow> Inl CodeNotFound
      | Inr (Some en) \<Rightarrow> Inr en)"

definition ListNetworkInfos :: "'db network_dao \<Rightarrow> 'db \<Rightarrow> goerr + network_row list" where
  "ListNetworkInfos dao db = (case network_All dao db of Inl e \<Rightarrow> Inl (ErrorNew ''internal server error'') | Inr rs \<Rightarrow> Inr rs)"

section \<open>Running networks\<close>

text \<open>\<open>server.NewNetwork\<close> of a row and its registration; \<open>ref\<close> is the new network, \<open>key\<close> its random key.\<close>

definition launch :: "string \<Rightarrow> int \<Rightarrow> nat \<Rightarrow> network_row \<Rightarrow> server \<Rightarrow> server \<times> goerr option" where
  "launch key now ref en s =
     (case NewNetwork (nw_Id en) (nw_Cidr en) (nw_Mtu en) key now of
        Inl e \<Rightarrow> (s, Some e)
      | Inr n \<Rightarrow> (RegisterNetwork ref (s\<lparr>nets := (nets s)(ref \<mapsto> n)\<rparr>), None))"

definition CreateNetwork ::
    "'db network_dao \<Rightarrow> string \<Rightarrow> string \<Rightarrow> int \<Rightarrow> nat \<Rightarrow> network_row \<Rightarrow> 'db \<times> server \<Rightarrow> ('db \<times> server) \<times> (goerr + string)" where
  "CreateNetwork dao uuid key now ref en st =
     (case st of (db, s) \<Rightarrow>
        let en = en\<lparr>nw_Id := uuid\<rparr> in
        case network_Insert dao db en of
          (db', Some e) \<Rightarrow> ((db', s), Inl e)
        | (db', None) \<Rightarrow>
            (case launch key now ref en s of
               (s', Some e) \<Rightarrow> ((db', s'), Inl e)
             | (s', None) \<Rightarrow> ((db', s'), Inr uuid)))"

text \<open>\<^verbatim>\<open>n.Stop(); mgr.RemoveNetwork(id)\<close> for a running network.\<close>

definition halt :: "string \<Rightarrow> nat \<Rightarrow> server \<Rightarrow> server option" where
  "halt nid ref s = (case nets s ref of None \<Rightarrow> None | Some n \<Rightarrow> Some (RemoveNetwork nid (network_Stop n s)))"

definition StopNetwork :: "string \<Rightarrow> server \<Rightarrow> (server \<times> goerr option) option" where
  "StopNetwork nid s =
     (case GetNetwork nid s of
        None \<Rightarrow> Some (s, Some (ErrorNew ''instance not exist or not running''))
      | Some ref \<Rightarrow> map_option (\<lambda>s'. (s', None)) (halt nid ref s))"

definition StartNetwork :: "'db network_dao \<Rightarrow> string \<Rightarrow> int \<Rightarrow> nat \<Rightarrow> string \<Rightarrow> 'db \<times> server \<Rightarrow> server \<times> goerr option" where
  "StartNetwork dao key now ref nid st =
     (case st of (db, s) \<Rightarrow>
        if GetNetwork nid s \<noteq> None then (s, Some (ErrorNew ''instance already started''))
        else case GetNetworkById dao db nid of
          Inl e \<Rightarrow> (s, Some e)
        | Inr en \<Rightarrow> launch key now ref en s)"

text \<open>The check that the network exists and the stop of a running one, as \<open>DeleteNetwork\<close> and \<open>UpdateNetwork\<close> begin.\<close>

definition halt_known :: "'db network_dao \<Rightarrow> string \<Rightarrow> 'db \<times> server \<Rightarrow> (server \<times> goerr option) option" where
  "halt_known dao nid st =
     (case st of (db, s) \<Rightarrow>
        case GetNetworkById dao db nid of
          Inl e \<Rightarrow> Some (s, Some e)
        | Inr _ \<Rightarrow>
            (case GetNetwork nid s of
               None \<Rightarrow> Some (s, None)
             | Some ref \<Rightarrow> map_option (\<lambda>s'. (s', None)) (halt nid ref s)))"

definition DeleteNetwork :: "'db network_dao \<Rightarrow> string \<Rightarrow> 'db \<times> server \<Rightarrow> (('db \<times> server) \<times> goerr option) option" where
  "DeleteNetwork dao nid st =
     (case halt_known dao nid st of
        None \<Rightarrow> None
      | Some (s', Some e) \<Rightarrow> Some ((fst st, s'), Some e)
      | Some (s', None) \<Rightarrow> (case network_Delete dao (fst st) nid of (db', err) \<Rightarrow> Some ((db', s'), err)))"

text \<open>The columns that an update may change: cidr and name unless empty, and the description.\<close>

definition update_map :: "(string \<times> any_value) list \<Rightarrow> (string \<times> any_value) list" where
  "update_map flds =
     concat (map (\<lambda>f. case map_of flds f of Some v \<Rightarrow> if v \<noteq> VString [] then [(f, v)] else [] | None \<Rightarrow> []) [''cidr'', ''name'']) @
     (case map_of flds ''description'' of Some v \<Rightarrow> [(''description'', v)] | None \<Rightarrow> [])"

definition UpdateNetwork ::
    "'db network_dao \<Rightarrow> string \<Rightarrow> (string \<times> any_value) list \<Rightarrow> 'db \<times> server \<Rightarrow> (('db \<times> server) \<times> goerr option) option" where
  "UpdateNetwork dao nid flds st =
     (case halt_known dao nid st of
        None \<Rightarrow> None
      | Some (s', Some e) \<Rightarrow> Some ((fst st, s'), Some e)
      | Some (s', None) \<Rightarrow> (case network_Update dao (fst st) nid (update_map flds) of (db', err) \<Rightarrow> Some ((db', s'), err)))"

text \<open>\<open>StartAllNetworks\<close>: \<open>keys\<close> and \<open>refs\<close> for the networks it makes; a network that cannot be made is skipped.\<close>

fun launch_all :: "(nat \<Rightarrow> string) \<Rightarrow> int \<Rightarrow> nat \<Rightarrow> network_row list \<Rightarrow> server \<Rightarrow> server" where
  "launch_all keys now ref [] s = s"
| "launch_all keys now ref (en # ens) s = launch_all keys now (Suc ref) ens (fst (launch (keys ref) now ref en s))"

definition StartAllNetworks :: "'db network_dao \<Rightarrow> (nat \<Rightarrow> string) \<Rightarrow> int \<Rightarrow> nat \<Rightarrow> 'db \<times> server \<Rightarrow> server" where
  "StartAllNetworks dao keys now ref st =
     (case ListNetworkInfos dao (fst st) of Inl e \<Rightarrow> snd st | Inr infos \<Rightarrow> launch_all keys now ref infos (snd st))"

section \<open>Details\<close>

record session_view =
  sv_SessionId :: string
  sv_Network :: string
  sv_IP :: string
  sv_device :: "device option"
  sv_created :: int

text \<open>\<open>listSession\<close>; a session without network is a nil pointer.\<close>

fun list_sessions :: "server \<Rightarrow> nat list \<Rightarrow> session_view list option" where
  "list_sessions s [] = Some []"
| "list_sessions s (ref # refs) =
     (case sess s ref of
        None \<Rightarrow> None
      | Some x \<Rightarrow>
          (case session_net s ref of
             None \<Rightarrow> None
           | Some n \<Rightarrow>
               map_option (\<lambda>vs. \<lparr> sv_SessionId = ss_SessionId x, sv_Network = net_CIDR n, sv_IP = ss_IP x, sv_device = ss_device x,
                                  sv_created = ss_created x \<rparr> # vs) (list_sessions s refs)))"

definition listSession :: "server \<Rightarrow> net \<Rightarrow> session_view list option" where
  "listSession s n = list_sessions s (ListSessions s n)"

definition ListSessionByNetwork :: "string \<Rightarrow> server \<Rightarrow> (goerr + session_view list) option" where
  "ListSessionByNetwork nid s =
     (case GetNetwork nid s of
        None \<Rightarrow> Some (Inl CodeNotFound)
      | Some ref \<Rightarrow> (case nets s ref of None \<Rightarrow> None | Some n \<Rightarrow> map_option Inr (listSession s n)))"

record network_details =
  nd_info :: network_row
  nd_running :: bool
  nd_sessions :: "session_view list"
  nd_started :: int

definition hide_key :: "session_view \<Rightarrow> session_view" where
  "hide_key v = v\<lparr>sv_device := map_option (\<lambda>d. d\<lparr>dev_Key := []\<rparr>) (sv_device v)\<rparr>"

definition GetNetworkDetails :: "'db network_dao \<Rightarrow> string \<Rightarrow> 'db \<times> server \<Rightarrow> (goerr + network_details) option" where
  "GetNetworkDetails dao nid st =
     (case st of (db, s) \<Rightarrow>
        case GetNetworkById dao db nid of
          Inl e \<Rightarrow> Some (Inl e)
        | Inr info \<Rightarrow>
            (case GetNetwork nid s of
               None \<Rightarrow> Some (Inr \<lparr> nd_info = info, nd_running = False, nd_sessions = [], nd_started = 0 \<rparr>)
             | Some ref \<Rightarrow>
                 (case nets s ref of
                    None \<Rightarrow> None
                  | Some n \<Rightarrow>
                      map_option (\<lambda>vs. Inr \<lparr> nd_info = info, nd_running = True, nd_sessions = map hide_key vs, nd_started = net_started n \<rparr>)
                        (listSession s n))))"

end
