(* ===== verification/Manager_Net_Props.thy ===== *)
theory Manager_Net_Props
  imports Manager_Net
begin

text \<open>
  What the code relies on of the table of networks (\<open>network_dao_ok\<close>), and the invariant that connects the running networks with the
  table through any sequence of requests to the manager and any activity of the server.
\<close>

text \<open>
  \<open>rows\<close> is the content of the table. Ids are a key; a query returns stored rows; an insertion adds the row, a deletion removes the rows with the
  id, an update changes no other row and no id; after an error the table is as before.
\<close>

definition network_dao_ok :: "'db network_dao \<Rightarrow> ('db \<Rightarrow> network_row list) \<Rightarrow> bool" where
  "network_dao_ok dao rows \<longleftrightarrow>
     (\<forall>db. distinct (map nw_Id (rows db))) \<and>
     (\<forall>db i r. network_One dao db i = Inr (Some r) \<longrightarrow> r \<in> set (rows db) \<and> nw_Id r = i) \<and>
     (\<forall>db rs. network_All dao db = Inr rs \<longrightarrow> set rs \<subseteq> set (rows db)) \<and>
     (\<forall>db r db'. network_Insert dao db r = (db', None) \<longrightarrow> set (rows db') = insert r (set (rows db))) \<and>
     (\<forall>db r db' e. network_Insert dao db r = (db', Some e) \<longrightarrow> rows db' = rows db) \<and>
     (\<forall>db i u db' err. network_Update dao db i u = (db', err) \<longrightarrow> {r \<in> set (rows db'). nw_Id r \<noteq> i} = {r \<in> set (rows db). nw_Id r \<noteq> i}) \<and>
     (\<forall>db i db' err. network_Delete dao db i = (db', err) \<longrightarrow> {r \<in> set (rows db'). nw_Id r \<noteq> i} = {r \<in> set (rows db). nw_Id r \<noteq> i})"

lemma network_dao_okD:
  assumes "network_dao_ok dao rows"
  shows "network_One dao db i = Inr (Some r) \<Longrightarrow> r \<in> set (rows db) \<and> nw_Id r = i"
    and "network_All dao db = Inr rs \<Longrightarrow> set rs \<subseteq> set (rows db)"
    and "network_Insert dao db r = (db', None) \<Longrightarrow> set (rows db') = insert r (set (rows db))"
    and "network_Insert dao db r = (db', Some e) \<Longrightarrow> rows db' = rows db"
    and "network_Update dao db i u = (db', err) \<Longrightarrow> {r \<in> set (rows db'). nw_Id r \<noteq> i} = {r \<in> set (rows db). nw_Id r \<noteq> i}"
    and "network_Delete dao db i = (db', err) \<Longrightarrow> {r \<in> set (rows db'). nw_Id r \<noteq> i} = {r \<in> set (rows db). nw_Id r \<noteq> i}"
  using assms unfolding network_dao_ok_def by meson+

section \<open>The invariant\<close>

text \<open>The network \<open>n\<close> runs with the configuration of the row \<open>en\<close>.\<close>

definition runs_row :: "network_row \<Rightarrow> net \<Rightarrow> bool" where
  "runs_row en n \<longleftrightarrow> net_ID n = nw_Id en \<and> net_CIDR n = nw_Cidr en \<and> net_MTU n = nw_Mtu en"

definition running_ok :: "network_row set \<Rightarrow> server \<Rightarrow> bool" where
  "running_ok R s \<longleftrightarrow> distinct (map fst (networks s)) \<and>
     (\<forall>(nid, ref) \<in> set (networks s). \<exists>n en. nets s ref = Some n \<and> en \<in> R \<and> nw_Id en = nid \<and> runs_row en n)"

lemma running_okD:
  "running_ok R s \<Longrightarrow> (nid, ref) \<in> set (networks s) \<Longrightarrow> \<exists>n en. nets s ref = Some n \<and> en \<in> R \<and> nw_Id en = nid \<and> runs_row en n"
  unfolding running_ok_def by blast

lemma running_okI:
  assumes "distinct (map fst (networks s))"
    and "\<And>nid ref. (nid, ref) \<in> set (networks s) \<Longrightarrow> \<exists>n en. nets s ref = Some n \<and> en \<in> R \<and> nw_Id en = nid \<and> runs_row en n"
  shows "running_ok R s"
  using assms unfolding running_ok_def by auto

lemma running_ok_mono: "running_ok R s \<Longrightarrow> R \<subseteq> R' \<Longrightarrow> running_ok R' s"
  unfolding running_ok_def by fast

text \<open>Rows that differ only in the network that was halted.\<close>

lemma running_ok_other:
  assumes "running_ok R s" "GetNetwork nid s = None" "{r \<in> R'. nw_Id r \<noteq> nid} = {r \<in> R. nw_Id r \<noteq> nid}"
  shows "running_ok R' s"
proof (rule running_okI)
  show "distinct (map fst (networks s))" using assms(1) by (simp add: running_ok_def)
  fix k ref assume k: "(k, ref) \<in> set (networks s)"
  then obtain n en where n: "nets s ref = Some n" "en \<in> R" "nw_Id en = k" "runs_row en n" using running_okD [OF assms(1)] by blast
  have "k \<noteq> nid" using k assms(2) by (auto simp: GetNetwork_def map_of_eq_None_iff image_iff)
  then have "en \<in> R'" using n(2,3) assms(3) by blast
  then show "\<exists>n en. nets s ref = Some n \<and> en \<in> R' \<and> nw_Id en = k \<and> runs_row en n" using n by blast
qed

definition same_networks :: "server \<Rightarrow> server \<Rightarrow> bool" where
  "same_networks s s' \<longleftrightarrow> networks s' = networks s \<and>
     (\<forall>ref n. nets s ref = Some n \<longrightarrow> (\<exists>n'. nets s' ref = Some n' \<and> net_ID n' = net_ID n \<and> net_CIDR n' = net_CIDR n \<and> net_MTU n' = net_MTU n))"

lemma running_ok_same:
  assumes "running_ok R s" "same_networks s s'"
  shows "running_ok R s'"
proof (rule running_okI)
  show "distinct (map fst (networks s'))" using assms by (simp add: running_ok_def same_networks_def)
  fix k ref assume "(k, ref) \<in> set (networks s')"
  then obtain n en where "nets s ref = Some n" "en \<in> R" "nw_Id en = k" "runs_row en n"
    using running_okD [OF assms(1)] assms(2) by (force simp: same_networks_def)
  then show "\<exists>n en. nets s' ref = Some n \<and> en \<in> R \<and> nw_Id en = k \<and> runs_row en n"
    using assms(2) unfolding same_networks_def runs_row_def by metis
qed

lemma launch_ok:
  assumes "running_ok R s" "nets s ref = None" "en \<in> R" "launch key now ref en s = (s', err)"
  shows "running_ok R s' \<and> (\<forall>r. r \<noteq> ref \<longrightarrow> nets s' r = nets s r)"
proof (cases "NewNetwork (nw_Id en) (nw_Cidr en) (nw_Mtu en) key now")
  case (Inr n)
  have n: "runs_row en n" using Inr by (auto simp: NewNetwork_def runs_row_def split: sum.splits)
  have u: "running_ok R (s\<lparr>nets := (nets s)(ref \<mapsto> n)\<rparr>)"
    by (rule running_ok_same [OF assms(1)]) (use assms(2) in \<open>auto simp: same_networks_def\<close>)
  have s': "s' = RegisterNetwork ref (s\<lparr>nets := (nets s)(ref \<mapsto> n)\<rparr>)" using assms(4) Inr by (simp add: launch_def)
  show ?thesis
  proof (cases "net_ID n = []")
    case False
    then have eq: "networks s' = AList.update (nw_Id en) ref (networks s)" "nets s' = (nets s)(ref \<mapsto> n)"
      using s' n by (simp_all add: RegisterNetwork_def runs_row_def)
    have "running_ok R s'"
    proof (rule running_okI)
      show d: "distinct (map fst (networks s'))" using assms(1) by (simp add: eq running_ok_def distinct_update)
      fix k r assume "(k, r) \<in> set (networks s')"
      then have "map_of (AList.update (nw_Id en) ref (networks s)) k = Some r" using d eq(1) by (metis map_of_is_SomeI)
      then consider "k = nw_Id en" "r = ref" | "map_of (networks s) k = Some r" by (cases "k = nw_Id en") (simp_all add: update_conv')
      then show "\<exists>n en. nets s' r = Some n \<and> en \<in> R \<and> nw_Id en = k \<and> runs_row en n"
      proof cases
        case 1
        then show ?thesis using assms(3) n eq by auto
      next
        case 2
        then show ?thesis using running_okD [OF u, of k r] eq by (auto dest: map_of_SomeD)
      qed
    qed
    then show ?thesis using eq by simp
  qed (use s' u in \<open>auto simp: RegisterNetwork_def\<close>)
qed (use assms in \<open>simp add: launch_def\<close>)

lemma network_Stop_keeps: "networks (network_Stop n s) = networks s \<and> nets (network_Stop n s) = nets s"
proof -
  have "networks (fold (\<lambda>(_, ref) s. session_Stop ref s) xs s) = networks s \<and> nets (fold (\<lambda>(_, ref) s. session_Stop ref s) xs s) = nets s" for xs
    by (induction xs arbitrary: s) (auto simp: session_Stop_def upd_session_def)
  then show ?thesis by (simp add: network_Stop_def)
qed

lemma halt_ok:
  assumes "running_ok R s" "halt nid ref s = Some s'"
  shows "running_ok R s' \<and> GetNetwork nid s' = None"
proof -
  have eq: "networks s' = AList.delete nid (networks s)" "nets s' = nets s"
    using assms(2) network_Stop_keeps by (auto simp: halt_def RemoveNetwork_def split: option.splits)
  have "running_ok R s'"
  proof (rule running_okI)
    show "distinct (map fst (networks s'))" using assms(1) by (simp add: eq running_ok_def distinct_delete)
    show "\<exists>n en. nets s' r = Some n \<and> en \<in> R \<and> nw_Id en = k \<and> runs_row en n" if "(k, r) \<in> set (networks s')" for k r
    proof -
      have "(k, r) \<in> set (networks s)" using that eq(1) by (simp add: delete_filter)
      then show ?thesis using running_okD [OF assms(1)] eq(2) by metis
    qed
  qed
  then show ?thesis by (simp add: GetNetwork_def eq delete_conv')
qed

lemma halt_known_ok:
  assumes "running_ok R s" "halt_known dao nid (db, s) = Some (s', err)"
  shows "running_ok R s' \<and> (err = None \<longrightarrow> GetNetwork nid s' = None)"
  using assms halt_ok by (fastforce simp: halt_known_def split: sum.splits option.splits)

section \<open>Requests and activity\<close>

text \<open>
  What the server does on its own: it accepts sessions, logs them in, reconnects included, starts, stops and ends them, runs the status, usage and metrics
  loops, answers function calls and passes packets on.
\<close>

inductive srv_activity :: "server \<Rightarrow> server \<Rightarrow> bool" where
  accepting: "srv_activity s (s\<lparr>sess := (sess s)(ref \<mapsto> newServerSession now sid)\<rparr>)"
| handshaking: "handshake_handler lg ref s = Some (s', err) \<Longrightarrow> srv_activity s s'"
| starting: "session_start ref qa s = Some (s', ok) \<Longrightarrow> srv_activity s s'"
| stopping: "srv_activity s (session_Stop ref s)"
| finishing: "session_finish ref s = Some s' \<Longrightarrow> srv_activity s s'"
| status_loop: "checkStatus_tick now s = Some s' \<Longrightarrow> srv_activity s s'"
| usage_loop: "usage_tick s = Some s' \<Longrightarrow> srv_activity s s'"
| metrics_loop: "server_metrics_tick s = Some s' \<Longrightarrow> srv_activity s s'"
| calling: "HandleFuncCallEvent unjson json server_functions E ref data s = Some (s', msg, err) \<Longrightarrow> srv_activity s s'"
| passing: "proxy_round src dst io w s = Some (s', w', res) \<Longrightarrow> srv_activity s s'"

text \<open>A request to the manager, which handles one at a time here, or a step of the server.\<close>

inductive mgr_step :: "'db network_dao \<Rightarrow> 'db \<times> server \<Rightarrow> 'db \<times> server \<Rightarrow> bool" for dao where
  create: "nets s ref = None \<Longrightarrow> CreateNetwork dao uuid key now ref en (db, s) = (st', res) \<Longrightarrow> mgr_step dao (db, s) st'"
| start: "nets s ref = None \<Longrightarrow> StartNetwork dao key now ref nid (db, s) = (s', err) \<Longrightarrow> mgr_step dao (db, s) (db, s')"
| stop: "StopNetwork nid s = Some (s', err) \<Longrightarrow> mgr_step dao (db, s) (db, s')"
| delete: "DeleteNetwork dao nid (db, s) = Some (st', err) \<Longrightarrow> mgr_step dao (db, s) st'"
| update: "UpdateNetwork dao nid flds (db, s) = Some (st', err) \<Longrightarrow> mgr_step dao (db, s) st'"
| serve: "srv_activity s s' \<Longrightarrow> mgr_step dao (db, s) (db, s')"

inductive_cases mgr_stepE: "mgr_step dao (db, s) (db', s')"

text \<open>None of the server's activity changes which networks run, or their configuration.\<close>

lemma same_networks_refl [simp]: "same_networks s s"
  by (simp add: same_networks_def)

lemma same_networks_trans: "same_networks s s' \<Longrightarrow> same_networks s' s'' \<Longrightarrow> same_networks s s''"
  unfolding same_networks_def by metis

lemma same_networks_parts: "nets s' = nets s \<Longrightarrow> networks s' = networks s \<Longrightarrow> same_networks s s'"
  by (simp add: same_networks_def)

lemma same_networks_upd: "same_networks s (upd_session ref f s)"
  by (simp add: same_networks_parts upd_session_def)

lemma same_networks_pass:
  assumes "\<And>e s s'. f e s = Some s' \<Longrightarrow> same_networks s s'" "pass f es s = Some s'"
  shows "same_networks s s'"
  using assms(2) by (induction es arbitrary: s) (auto split: option.splits intro: same_networks_trans assms(1))

lemma session_life_same:
  "session_start ref qa s = Some (s', ok) \<Longrightarrow> same_networks s s'"
  "session_Release ref s = Some (s', u) \<Longrightarrow> same_networks s s'"
  "session_finish ref s = Some s' \<Longrightarrow> same_networks s s'"
  subgoal start_same
    by (auto simp: session_start_def Let_def CloseWithError_def upd_session_def same_networks_def split: option.splits sum.splits prod.splits)
  subgoal release_same
    by (auto simp: session_Release_def Let_def CloseWithError_def upd_session_def same_networks_def ReleaseDevice_def split: option.splits prod.splits)
  subgoal finish_same
    by (auto simp: session_finish_def session_Release_def Let_def CloseWithError_def upd_session_def same_networks_def ReleaseDevice_def
        split: option.splits prod.splits)
  done

lemma stop_last_same: "stop_last sid nref s = Some s' \<Longrightarrow> same_networks s s'"
  using session_life_same(2) same_networks_trans [OF same_networks_upd]
  by (fastforce simp: stop_last_def session_Stop_def split: if_splits option.splits)

lemma handshake_same:
  assumes "handshake_handler lg ref s = Some (s', err)"
  shows "same_networks s s'"
proof -
  obtain s1 res where a: "AcquireDevice lg ref s = Some (s1, res)" "same_networks s1 s'"
    using assms by (auto simp: handshake_handler_def same_networks_upd split: option.splits sum.splits)
  have "same_networks s s1"
  proof (cases "\<exists>sd nref. lg_sub lg = Inr sd \<and> GetNetwork (sd_NetworkId sd) s = Some nref")
    case True
    then obtain sd nref where n: "lg_sub lg = Inr sd" "GetNetwork (sd_NetworkId sd) s = Some nref" by blast
    obtain s2 where s2: "stop_last (lg_last lg) nref (upd_session ref (\<lambda>x. x\<lparr>ss_network := Some nref\<rparr>) s) = Some s2"
      using a(1) n by (auto simp: AcquireDevice_def split: option.splits)
    have "same_networks s s2" by (rule same_networks_trans [OF same_networks_upd stop_last_same [OF s2]])
    moreover have "same_networks s2 s1" using a(1) n s2
      by (auto simp: AcquireDevice_def Let_def RegisterSession_def same_networks_def split: option.splits sum.splits prod.splits)
    ultimately show ?thesis by (rule same_networks_trans)
  qed (use a(1) in \<open>auto simp: AcquireDevice_def split: sum.splits option.splits\<close>)
  then show ?thesis using a(2) by (rule same_networks_trans)
qed

lemma check_same: "check_session now e s = Some s' \<Longrightarrow> same_networks s s'"
  by (auto simp: check_session_def store_def session_Stop_def upd_session_def same_networks_def split: prod.splits option.splits stored.splits if_splits)

lemma usage_same: "updateUsage e s = Some s' \<Longrightarrow> same_networks s s'"
  by (auto simp: updateUsage_def same_networks_def Let_def split: prod.splits option.splits if_splits)

lemma metrics_same: "session_metrics e s = Some s' \<Longrightarrow> same_networks s s'"
  by (auto simp: session_metrics_def same_networks_def Let_def split: prod.splits option.splits)

lemma network_metrics_same: "same_networks s (network_metrics s)"
proof -
  let ?f = "\<lambda>(_, nref) s. s\<lparr>nets := (nets s)(nref := map_option (\<lambda>n. n\<lparr>net_metrics := UpdateAll (net_metrics n)\<rparr>) (nets s nref))\<rparr>"
  have "same_networks s (fold ?f xs s)" for xs :: "(string \<times> nat) list"
  proof (induction xs arbitrary: s)
    case (Cons e es)
    have "same_networks s (?f e s)" by (cases e) (auto simp: same_networks_def)
    then show ?case unfolding fold_Cons comp_apply using Cons.IH by (rule same_networks_trans)
  qed simp
  then show ?thesis by (simp add: network_metrics_def)
qed

lemma ticks_same:
  "checkStatus_tick now s = Some s' \<Longrightarrow> same_networks s s'" "usage_tick s = Some s' \<Longrightarrow> same_networks s s'"
  "server_metrics_tick s = Some s' \<Longrightarrow> same_networks s s'"
  using same_networks_pass [OF check_same] same_networks_pass [OF usage_same] same_networks_trans [OF same_networks_pass [OF metrics_same] network_metrics_same]
  by (auto simp: checkStatus_tick_def usage_tick_def server_metrics_tick_def)

lemma functions_same:
  "map_of server_functions name = Some f \<Longrightarrow> f E ref req s = Some (s', resp, err) \<Longrightarrow> same_networks s s'"
  by (auto simp: server_functions_def RegisterHandler_def funcPing_def funcGetRouteData_def funcGetP2PRelayInfo_def funcGetP2PRelayMapping_def
      funcRegisterP2PPeer_def store_def upd_session_def same_networks_def Let_def split: if_splits option.splits any_value.splits)

lemma call_same: "HandleFuncCallEvent unjson json server_functions E ref data s = Some (s', msg, err) \<Longrightarrow> same_networks s s'"
  using functions_same by (fastforce simp: HandleFuncCallEvent_def handleFuncCall_def split: sum.splits option.splits)

lemma add_usage_same: "add_usage r v s = Some (s', err) \<Longrightarrow> nets s' = nets s \<and> networks s' = networks s"
  by (auto simp: add_usage_def Let_def split: prod.splits option.splits if_splits)

lemma proxy_same: "proxy_round src dst io w s = Some (s', w', res) \<Longrightarrow> same_networks s s'"
  by (rule same_networks_parts)
    (auto simp: proxy_round_def count_tx_def count_rx_def upd_session_def Let_def dest!: add_usage_same split: option.splits prod.splits if_splits)

lemma activity_same: "srv_activity s s' \<Longrightarrow> same_networks s s'"
proof (induction rule: srv_activity.induct)
  case (stopping s ref)
  show ?case unfolding session_Stop_def by (rule same_networks_upd)
qed (auto intro: same_networks_parts handshake_same session_life_same ticks_same call_same proxy_same)

lemma create_ok:
  assumes "network_dao_ok dao rows" "running_ok (set (rows db)) s" "nets s ref = None"
    and "CreateNetwork dao uuid key now ref en (db, s) = ((db', s'), res)"
  shows "running_ok (set (rows db')) s'"
proof (cases "network_Insert dao db (en\<lparr>nw_Id := uuid\<rparr>)")
  case (Pair db1 err)
  show ?thesis
  proof (cases err)
    case None
    then have r: "set (rows db1) = insert (en\<lparr>nw_Id := uuid\<rparr>) (set (rows db))" using network_dao_okD(3) [OF assms(1)] Pair by blast
    obtain s1 e1 where l: "launch key now ref (en\<lparr>nw_Id := uuid\<rparr>) s = (s1, e1)" by fastforce
    have "running_ok (set (rows db1)) s1"
      using launch_ok [OF running_ok_mono [OF assms(2)] assms(3) _ l] r by blast
    then show ?thesis using assms(4) Pair None l by (auto simp: CreateNetwork_def split: option.splits)
  next
    case (Some e)
    then show ?thesis using assms(2,4) Pair network_dao_okD(4) [OF assms(1), of db] by (auto simp: CreateNetwork_def)
  qed
qed

lemma mgr_step_ok:
  assumes "network_dao_ok dao rows" "mgr_step dao (db, s) (db', s')" "running_ok (set (rows db)) s"
  shows "running_ok (set (rows db')) s'"
  using assms(2)
proof (rule mgr_stepE)
  fix ref uuid key now en res
  assume "nets s ref = None" "CreateNetwork dao uuid key now ref en (db, s) = ((db', s'), res)"
  then show ?thesis by (rule create_ok [OF assms(1,3)])
next
  fix ref key now nid err
  assume st: "db' = db" "nets s ref = None" "StartNetwork dao key now ref nid (db, s) = (s', err)"
  show ?thesis
  proof (cases "network_One dao db nid = Inr None \<or> (\<exists>e. network_One dao db nid = Inl e) \<or> GetNetwork nid s \<noteq> None")
    case False
    then obtain en where en: "network_One dao db nid = Inr (Some en)" by (metis not_None_eq sum.exhaust)
    then have "launch key now ref en s = (s', err)" using st(3) False by (simp add: StartNetwork_def GetNetworkById_def)
    then show ?thesis using launch_ok [OF assms(3) st(2)] network_dao_okD(1) [OF assms(1) en] st(1) by blast
  qed (use st assms(3) in \<open>auto simp: StartNetwork_def GetNetworkById_def split: if_splits\<close>)
next
  fix nid err
  assume "db' = db" "StopNetwork nid s = Some (s', err)"
  then show ?thesis using halt_ok [OF assms(3)] assms(3) by (auto simp: StopNetwork_def split: option.splits)
next
  fix nid err
  assume d: "DeleteNetwork dao nid (db, s) = Some ((db', s'), err)"
  then obtain e where h: "halt_known dao nid (db, s) = Some (s', e)" by (auto simp: DeleteNetwork_def split: option.splits prod.splits)
  show ?thesis
  proof (cases e)
    case None
    have "network_Delete dao db nid = (db', err)" using d h None by (auto simp: DeleteNetwork_def split: prod.splits)
    then show ?thesis using running_ok_other [OF _ _ network_dao_okD(6) [OF assms(1)]] halt_known_ok [OF assms(3) h] None by blast
  qed (use d h halt_known_ok [OF assms(3) h] in \<open>auto simp: DeleteNetwork_def\<close>)
next
  fix nid flds err
  assume d: "UpdateNetwork dao nid flds (db, s) = Some ((db', s'), err)"
  then obtain e where h: "halt_known dao nid (db, s) = Some (s', e)" by (auto simp: UpdateNetwork_def split: option.splits prod.splits)
  show ?thesis
  proof (cases e)
    case None
    have "network_Update dao db nid (update_map flds) = (db', err)" using d h None by (auto simp: UpdateNetwork_def split: prod.splits)
    then show ?thesis using running_ok_other [OF _ _ network_dao_okD(5) [OF assms(1)]] halt_known_ok [OF assms(3) h] None by blast
  qed (use d h halt_known_ok [OF assms(3) h] in \<open>auto simp: UpdateNetwork_def\<close>)
next
  assume "db' = db" "srv_activity s s'"
  then show ?thesis using running_ok_same [OF assms(3) activity_same] by simp
qed

lemma launch_all_ok:
  assumes "running_ok R s" "set ens \<subseteq> R" "\<And>r. ref \<le> r \<Longrightarrow> nets s r = None"
  shows "running_ok R (launch_all keys now ref ens s)"
  using assms
proof (induction ens arbitrary: ref s)
  case (Cons en ens)
  obtain s1 err where l: "launch (keys ref) now ref en s = (s1, err)" by fastforce
  have s1: "running_ok R s1 \<and> (\<forall>r. r \<noteq> ref \<longrightarrow> nets s1 r = nets s r)"
    by (rule launch_ok [OF Cons.prems(1) _ _ l]) (use Cons.prems in auto)
  have n1: "nets s1 r = None" if "Suc ref \<le> r" for r using s1 Cons.prems(3) [of r] that by simp
  have "running_ok R (launch_all keys now (Suc ref) ens s1)"
    by (rule Cons.IH [OF conjunct1 [OF s1] _ n1]) (use Cons.prems(2) in auto)
  then show ?case using l by simp
qed simp

text \<open>
  C17. Every running network is a stored one, as long as the manager handles one request at a time. After the start of all networks, whatever is
  created, started, stopped, updated and deleted by such requests and whatever the server does for its sessions in between, also when the database
  fails: a network that runs has a row in the database with its id, and it runs with the address range and the MTU of that row. (Requests take no lock;
  \<open>update_races_start\<close> shows what two that overlap can do.)
\<close>
theorem running_networks_stored:
  assumes "network_dao_ok dao rows" "networks s0 = []" "nets s0 = Map.empty"
    and "(mgr_step dao)\<^sup>*\<^sup>* (db0, StartAllNetworks dao keys now 0 (db0, s0)) (db, s)" "GetNetwork nid s = Some ref"
  shows "\<exists>n en. nets s ref = Some n \<and> en \<in> set (rows db) \<and> nw_Id en = nid \<and> net_ID n = nid \<and> net_CIDR n = nw_Cidr en \<and> net_MTU n = nw_Mtu en"
proof -
  have "running_ok (set (rows db0)) s0" using assms(2) by (simp add: running_ok_def)
  then have "running_ok (set (rows db0)) (StartAllNetworks dao keys now 0 (db0, s0))"
    using launch_all_ok [of "set (rows db0)" s0] network_dao_okD(2) [OF assms(1), of db0] assms(3)
    by (auto simp: StartAllNetworks_def ListNetworkInfos_def split: sum.split)
  from assms(4) this have "running_ok (set (rows db)) s"
    by (induction rule: rtranclp_induct2) (blast intro: mgr_step_ok [OF assms(1)])+
  then show ?thesis using running_okD [of "set (rows db)" s nid ref] assms(5) by (auto simp: GetNetwork_def runs_row_def dest: map_of_SomeD)
qed

section \<open>A table in memory\<close>

definition set_column :: "network_row \<Rightarrow> string \<times> any_value \<Rightarrow> network_row" where
  "set_column r u =
     (case u of (k, v) \<Rightarrow>
        let t = (case v of VString t \<Rightarrow> t | VNil \<Rightarrow> []) in
        if k = ''cidr'' then r\<lparr>nw_Cidr := t\<rparr> else if k = ''name'' then r\<lparr>nw_Name := t\<rparr> else r\<lparr>nw_Description := t\<rparr>)"

definition unique_rows :: "network_row list \<Rightarrow> network_row list" where
  "unique_rows rs = fold (\<lambda>r acc. if nw_Id r \<in> set (map nw_Id acc) then acc else acc @ [r]) rs []"

definition mem_network_dao :: "network_row list network_dao" where
  "mem_network_dao =
     \<lparr> network_One = (\<lambda>db i. Inr (find (\<lambda>r. nw_Id r = i) (unique_rows db))), network_All = (\<lambda>db. Inr (unique_rows db)),
       network_Insert = (\<lambda>db r. if nw_Id r \<in> set (map nw_Id (unique_rows db)) then (unique_rows db, Some (ErrorNew ''duplicate'')) else (unique_rows db @ [r], None)),
       network_Update = (\<lambda>db i u. (map (\<lambda>r. if nw_Id r = i then foldl set_column r u else r) (unique_rows db), None)),
       network_Delete = (\<lambda>db i. (filter (\<lambda>r. nw_Id r \<noteq> i) (unique_rows db), None)) \<rparr>"

lemma unique_rows_distinct: "distinct (map nw_Id (unique_rows rs))"
proof -
  have "distinct (map nw_Id acc) \<Longrightarrow> distinct (map nw_Id (fold (\<lambda>r acc. if nw_Id r \<in> set (map nw_Id acc) then acc else acc @ [r]) rs acc))" for acc
    by (induction rs arbitrary: acc) auto
  then show ?thesis by (simp add: unique_rows_def)
qed

lemma unique_rows_id: "distinct (map nw_Id rs) \<Longrightarrow> unique_rows rs = rs"
proof -
  have "distinct (map nw_Id (acc @ rs)) \<Longrightarrow> fold (\<lambda>r acc. if nw_Id r \<in> set (map nw_Id acc) then acc else acc @ [r]) rs acc = acc @ rs" for acc
    by (induction rs arbitrary: acc) auto
  from this [of "[]"] show "distinct (map nw_Id rs) \<Longrightarrow> unique_rows rs = rs" by (simp add: unique_rows_def)
qed

lemma set_column_id [simp]: "nw_Id (foldl set_column r u) = nw_Id r"
  by (induction u arbitrary: r) (auto simp: set_column_def Let_def)

lemma mem_network_dao_ok: "network_dao_ok mem_network_dao unique_rows"
  unfolding network_dao_ok_def
proof (intro conjI allI impI)
  fix db :: "network_row list" and i u db' and r and err :: "goerr option" and e rs
  show "distinct (map nw_Id (unique_rows db))" by (rule unique_rows_distinct)
  have d: "distinct (map nw_Id (unique_rows db))" by (rule unique_rows_distinct)
  show "r \<in> set (unique_rows db)" "nw_Id r = i" if "network_One mem_network_dao db i = Inr (Some r)"
    using that by (auto simp: mem_network_dao_def find_Some_iff)
  show "set rs \<subseteq> set (unique_rows db)" if "network_All mem_network_dao db = Inr rs" using that by (simp add: mem_network_dao_def)
  show "set (unique_rows db') = insert r (set (unique_rows db))" if "network_Insert mem_network_dao db r = (db', None)"
  proof -
    have "db' = unique_rows db @ [r]" "distinct (map nw_Id (unique_rows db @ [r]))" using that d by (auto simp: mem_network_dao_def split: if_splits)
    then show ?thesis by (simp add: unique_rows_id)
  qed
  show "unique_rows db' = unique_rows db" if "network_Insert mem_network_dao db r = (db', Some e)"
    using that unique_rows_id [OF d] by (auto simp: mem_network_dao_def split: if_splits)
  have m: "map nw_Id (map (\<lambda>r. if nw_Id r = i then foldl set_column r u else r) (unique_rows db)) = map nw_Id (unique_rows db)" by auto
  show "{r \<in> set (unique_rows db'). nw_Id r \<noteq> i} = {r \<in> set (unique_rows db). nw_Id r \<noteq> i}" if "network_Update mem_network_dao db i u = (db', err)"
    using that unique_rows_id [of "map (\<lambda>r. if nw_Id r = i then foldl set_column r u else r) (unique_rows db)"] d m
    by (auto simp: mem_network_dao_def)
  have f: "distinct (map nw_Id (filter (\<lambda>r. nw_Id r \<noteq> i) (unique_rows db)))" using d by (simp add: distinct_map_filter)
  show "{r \<in> set (unique_rows db'). nw_Id r \<noteq> i} = {r \<in> set (unique_rows db). nw_Id r \<noteq> i}" if "network_Delete mem_network_dao db i = (db', err)"
    using that unique_rows_id [OF f] by (auto simp: mem_network_dao_def)
qed

definition demo_row :: network_row where
  "demo_row = \<lparr> nw_Id = [], nw_Name = ''home'', nw_Cidr = ''10.0.0.0/24'', nw_Mtu = 1392, nw_Description = [], nw_Extra = ''{}'' \<rparr>"

definition empty_server :: server where
  "empty_server = \<lparr> sessions = [], sess = Map.empty, nets = Map.empty, networks = [], peerMappingVersion = 0, submissions = [] \<rparr>"

theorem running_networks_stored_witness:
  "\<exists>db s n en. CreateNetwork mem_network_dao ''u'' ''k'' 7 0 demo_row ([], empty_server) = ((db, s), Inr ''u'') \<and> GetNetwork ''u'' s = Some 0 \<and>
     nets s 0 = Some n \<and> en \<in> set (unique_rows db) \<and> net_CIDR n = nw_Cidr en \<and> net_MTU n = nw_Mtu en"
proof -
  obtain db s res where c: "CreateNetwork mem_network_dao ''u'' ''k'' 7 0 demo_row ([], empty_server) = ((db, s), res)" by (metis surj_pair)
  have "(case CreateNetwork mem_network_dao ''u'' ''k'' 7 0 demo_row ([], empty_server) of ((db, s), res) \<Rightarrow> res = Inr ''u'' \<and> GetNetwork ''u'' s = Some 0)"
    by code_simp
  then have g: "GetNetwork ''u'' s = Some 0" "res = Inr ''u''" using c by auto
  have "StartAllNetworks mem_network_dao (\<lambda>_. ''k'') 7 0 ([], empty_server) = empty_server"
    by (simp add: StartAllNetworks_def ListNetworkInfos_def mem_network_dao_def unique_rows_def)
  then have st: "(mgr_step mem_network_dao)\<^sup>*\<^sup>* ([], StartAllNetworks mem_network_dao (\<lambda>_. ''k'') 7 0 ([], empty_server)) (db, s)"
    using mgr_step.create [OF _ c] by (simp add: empty_server_def r_into_rtranclp)
  have "networks empty_server = []" "nets empty_server = Map.empty" by (simp_all add: empty_server_def)
  then show ?thesis using running_networks_stored [OF mem_network_dao_ok _ _ st g(1)] c g by blast
qed

text \<open>
  A request to start a network that comes between the two halves of an update, the halt of the network and the change of its row, leaves the network
  running with a range that is no longer stored.
\<close>

lemma update_races_start:
  "case CreateNetwork mem_network_dao ''u'' ''k'' 7 0 demo_row ([], empty_server) of ((db, s), _) \<Rightarrow>
   case halt_known mem_network_dao ''u'' (db, s) of
     Some (s1, None) \<Rightarrow>
       (case StartNetwork mem_network_dao ''k2'' 8 1 ''u'' (db, s1) of (s2, err) \<Rightarrow>
          err = None \<and>
          (case network_Update mem_network_dao db ''u'' (update_map [(''cidr'', VString ''10.9.0.0/24'')]) of (db', _) \<Rightarrow>
             map nw_Cidr (unique_rows db') = [''10.9.0.0/24''] \<and> Option.bind (GetNetwork ''u'' s2) (\<lambda>r. map_option net_CIDR (nets s2 r)) = Some ''10.0.0.0/24''))
   | _ \<Rightarrow> False"
  by code_simp

end
