(* ===== verification/Manager_Device.thy ===== *)
theory Manager_Device
  imports Manager_Net
begin

text \<open>
  Devices, their keys and their membership in networks (\<^verbatim>\<open>manager/server/internal/logic/device\<close>), and the administration of quotas
  (\<^verbatim>\<open>manager/server/internal/logic/quota/quota.go\<close>). The tables are records of operations on a database state \<^typ>\<open>'db\<close>; RSA, AES, PEM, base64 and
  JSON are parameters.
\<close>

section \<open>Tables\<close>

record device_row =
  dv_Id :: string
  dv_Name :: string
  dv_Enabled :: int
  dv_PublicKey :: string
  dv_PrivateKey :: string
  dv_CreatedAt :: int

text \<open>\<open>entity.NetworkDevice\<close>: a device in a network.\<close>

record sub_row =
  sb_Id :: int
  sb_DeviceId :: string
  sb_NetworkId :: string
  sb_Quota :: int
  sb_Bandwidth :: int
  sb_Settings :: string

record 'db device_dao =
  device_Exist :: "'db \<Rightarrow> string \<Rightarrow> goerr + bool"
  device_ById :: "'db \<Rightarrow> string \<Rightarrow> goerr + device_row option"
  device_ByName :: "'db \<Rightarrow> string \<Rightarrow> goerr + device_row option"
  device_Insert :: "'db \<Rightarrow> device_row \<Rightarrow> 'db \<times> goerr option"
  sub_ById :: "'db \<Rightarrow> int \<Rightarrow> goerr + sub_row"
  sub_Exist :: "'db \<Rightarrow> string \<Rightarrow> string \<Rightarrow> goerr + bool"
  sub_All :: "'db \<Rightarrow> string \<Rightarrow> int list option \<Rightarrow> goerr + sub_row list"
  sub_Insert :: "'db \<Rightarrow> sub_row \<Rightarrow> 'db \<times> goerr option"
  sub_SetQuota :: "'db \<Rightarrow> int \<Rightarrow> int \<Rightarrow> 'db \<times> goerr option"

section \<open>Keys\<close>

text \<open>The first sixteen bytes of the key, padded with zeros.\<close>

definition buildEncryptKey :: "bytes \<Rightarrow> bytes" where
  "buildEncryptKey key =
     (let res = (if length key < 16 then key @ replicate (16 - length key) 0 else key) in take 16 res)"

record 'k key_crypto =
  rsa_GenerateKey :: "goerr + 'k"
  MarshalPKCS1PrivateKey :: "'k \<Rightarrow> bytes"
  ParsePKCS1PrivateKey :: "bytes \<Rightarrow> goerr + 'k"
  MarshalPKIXPublicKey :: "'k \<Rightarrow> goerr + bytes"
  pem_Encode :: "string \<Rightarrow> bytes \<Rightarrow> bytes"
  pem_Decode :: "bytes \<Rightarrow> bytes option"
  aes_Encrypt :: "bytes \<Rightarrow> bytes \<Rightarrow> goerr + bytes"
  aes_Decrypt :: "bytes \<Rightarrow> bytes \<Rightarrow> goerr + bytes"
  base64_Encode :: "bytes \<Rightarrow> string"
  base64_Decode :: "string \<Rightarrow> goerr + bytes"

definition chars :: "bytes \<Rightarrow> string" where
  "chars b = map (\<lambda>x. char_of (unat x)) b"

definition CreateDevice ::
    "'k key_crypto \<Rightarrow> 'db device_dao \<Rightarrow> string \<Rightarrow> int \<Rightarrow> bytes \<Rightarrow> string \<Rightarrow> 'db \<Rightarrow> 'db \<times> (goerr + string)" where
  "CreateDevice C dao uuid now deviceKey name db =
     (case device_Exist dao db name of
        Inl e \<Rightarrow> (db, Inl e)
      | Inr True \<Rightarrow> (db, Inl (ErrorNew ''name already exists''))
      | Inr False \<Rightarrow>
          (case rsa_GenerateKey C of
             Inl e \<Rightarrow> (db, Inl e)
           | Inr k \<Rightarrow>
               (case aes_Encrypt C (pem_Encode C ''RSA PRIVATE KEY'' (MarshalPKCS1PrivateKey C k)) (buildEncryptKey deviceKey) of
                  Inl e \<Rightarrow> (db, Inl (ErrorNew ''failed to encrypt private key''))
                | Inr encrypted \<Rightarrow>
                    (case MarshalPKIXPublicKey C k of
                       Inl e \<Rightarrow> (db, Inl e)
                     | Inr pub \<Rightarrow>
                         (case device_Insert dao db
                                 \<lparr> dv_Id = uuid, dv_Name = name, dv_Enabled = 1, dv_PublicKey = chars (pem_Encode C ''RSA PUBLIC KEY'' pub),
                                   dv_PrivateKey = base64_Encode C encrypted, dv_CreatedAt = now \<rparr> of
                            (db', Some e) \<Rightarrow> (db', Inl e)
                          | (db', None) \<Rightarrow> (db', Inr uuid))))))"

definition parseDevice :: "device_row option \<Rightarrow> goerr + device_row" where
  "parseDevice r = (case r of None \<Rightarrow> Inl CodeNotFound | Some dev \<Rightarrow> Inr dev)"

definition GetDeviceById :: "'db device_dao \<Rightarrow> 'db \<Rightarrow> string \<Rightarrow> goerr + device_row" where
  "GetDeviceById dao db did = (case device_ById dao db did of Inl e \<Rightarrow> Inl e | Inr r \<Rightarrow> parseDevice r)"

definition GetDeviceByName :: "'db device_dao \<Rightarrow> 'db \<Rightarrow> string \<Rightarrow> goerr + device_row" where
  "GetDeviceByName dao db name = (case device_ByName dao db name of Inl e \<Rightarrow> Inl e | Inr r \<Rightarrow> parseDevice r)"

section \<open>Devices in networks\<close>

definition DeviceModeMixed :: int where
  "DeviceModeMixed = 4"

record SubDeviceSettings =
  st_FixedIP :: int
  st_DeviceMode :: int

definition DefaultSubDeviceSettings :: SubDeviceSettings where
  "DefaultSubDeviceSettings = \<lparr> st_FixedIP = 0, st_DeviceMode = DeviceModeMixed \<rparr>"

record SubDeviceBrief =
  br_Id :: int
  br_QuotaId :: int
  br_BandwidthId :: int
  br_DeviceId :: string
  br_NetworkId :: string
  br_Settings :: SubDeviceSettings

text \<open>\<open>buildSubDeviceBrief\<close>: settings that cannot be decoded are logged and left zero.\<close>

definition buildSubDeviceBrief :: "(string \<Rightarrow> SubDeviceSettings option) \<Rightarrow> sub_row \<Rightarrow> SubDeviceBrief" where
  "buildSubDeviceBrief unjson dev =
     \<lparr> br_Id = sb_Id dev, br_QuotaId = sb_Quota dev, br_BandwidthId = sb_Bandwidth dev, br_DeviceId = sb_DeviceId dev,
       br_NetworkId = sb_NetworkId dev,
       br_Settings = (case unjson (sb_Settings dev) of Some st \<Rightarrow> st | None \<Rightarrow> \<lparr> st_FixedIP = 0, st_DeviceMode = 0 \<rparr>) \<rparr>"

definition GetSubDeviceById :: "(string \<Rightarrow> SubDeviceSettings option) \<Rightarrow> 'db device_dao \<Rightarrow> 'db \<Rightarrow> int \<Rightarrow> goerr + SubDeviceBrief" where
  "GetSubDeviceById unjson dao db sid = (case sub_ById dao db sid of Inl e \<Rightarrow> Inl e | Inr dev \<Rightarrow> Inr (buildSubDeviceBrief unjson dev))"

definition CreateSubDevice ::
    "(SubDeviceSettings \<Rightarrow> string) \<Rightarrow> 'db network_dao \<Rightarrow> 'db device_dao \<Rightarrow> string \<Rightarrow> string \<Rightarrow> int \<Rightarrow> SubDeviceSettings option \<Rightarrow> 'db \<Rightarrow> 'db \<times> goerr option" where
  "CreateSubDevice json ndao ddao deviceId networkId quota settings db =
     (case GetNetworkById ndao db networkId of
        Inl e \<Rightarrow> (db, Some e)
      | Inr en \<Rightarrow>
          (case GetDeviceById ddao db deviceId of
             Inl e \<Rightarrow> (db, Some e)
           | Inr dev \<Rightarrow>
               (case sub_Exist ddao db (nw_Id en) (dv_Id dev) of
                  Inl e \<Rightarrow> (db, Some e)
                | Inr True \<Rightarrow> (db, Some (ErrorNew ''sub device already exists''))
                | Inr False \<Rightarrow>
                    sub_Insert ddao db
                      \<lparr> sb_Id = 0, sb_DeviceId = dv_Id dev, sb_NetworkId = nw_Id en, sb_Quota = quota, sb_Bandwidth = 0,
                        sb_Settings = json (case settings of None \<Rightarrow> DefaultSubDeviceSettings | Some st \<Rightarrow> st) \<rparr>)))"

definition SetSubDeviceQuota :: "(string \<Rightarrow> SubDeviceSettings option) \<Rightarrow> 'db device_dao \<Rightarrow> int \<Rightarrow> int \<Rightarrow> 'db \<Rightarrow> 'db \<times> goerr option" where
  "SetSubDeviceQuota unjson dao sid quota db =
     (case GetSubDeviceById unjson dao db sid of Inl e \<Rightarrow> (db, Some e) | Inr _ \<Rightarrow> sub_SetQuota dao db sid quota)"

text \<open>A sub device with the details of its two quotas; \<open>details\<close> is \<open>GetQuotaDetails\<close> of the quota service.\<close>

record 'q SubDevice =
  sub_brief :: SubDeviceBrief
  sub_Quota :: 'q
  sub_Bandwidth :: 'q

definition fillSubDeviceQuotaDetails :: "(int \<Rightarrow> string \<Rightarrow> string \<Rightarrow> bool \<Rightarrow> goerr + 'q) \<Rightarrow> SubDeviceBrief \<Rightarrow> goerr + 'q SubDevice" where
  "fillSubDeviceQuotaDetails details b =
     (case details (br_QuotaId b) (br_DeviceId b) ''device_traffic'' True of
        Inl e \<Rightarrow> Inl e
      | Inr q \<Rightarrow>
          (case details (br_BandwidthId b) (br_DeviceId b) ''device_bandwidth'' False of
             Inl e \<Rightarrow> Inl e
           | Inr bw \<Rightarrow> Inr \<lparr> sub_brief = b, sub_Quota = q, sub_Bandwidth = bw \<rparr>))"

definition GetSubDeviceWithUsageById ::
    "(string \<Rightarrow> SubDeviceSettings option) \<Rightarrow> (int \<Rightarrow> string \<Rightarrow> string \<Rightarrow> bool \<Rightarrow> goerr + 'q) \<Rightarrow> 'db device_dao \<Rightarrow> 'db \<Rightarrow> int \<Rightarrow> goerr + 'q SubDevice" where
  "GetSubDeviceWithUsageById unjson details dao db sid =
     (case sub_ById dao db sid of Inl e \<Rightarrow> Inl e | Inr dev \<Rightarrow> fillSubDeviceQuotaDetails details (buildSubDeviceBrief unjson dev))"

fun fill_all :: "(int \<Rightarrow> string \<Rightarrow> string \<Rightarrow> bool \<Rightarrow> goerr + 'q) \<Rightarrow> SubDeviceBrief list \<Rightarrow> goerr + 'q SubDevice list" where
  "fill_all details [] = Inr []"
| "fill_all details (b # bs) =
     (case fillSubDeviceQuotaDetails details b of
        Inl e \<Rightarrow> Inl e
      | Inr sd \<Rightarrow> (case fill_all details bs of Inl e \<Rightarrow> Inl e | Inr sds \<Rightarrow> Inr (sd # sds)))"

text \<open>\<open>GetDeviceInfo\<close>: the device and its sub devices, restricted to those with an id in \<open>sub\<close> unless that is empty.\<close>

definition GetDeviceInfo ::
    "(string \<Rightarrow> SubDeviceSettings option) \<Rightarrow> (int \<Rightarrow> string \<Rightarrow> string \<Rightarrow> bool \<Rightarrow> goerr + 'q) \<Rightarrow> 'db device_dao \<Rightarrow> 'db \<Rightarrow> string \<Rightarrow> int list \<Rightarrow>
     goerr + device_row \<times> 'q SubDevice list" where
  "GetDeviceInfo unjson details dao db deviceId ids =
     (case GetDeviceById dao db deviceId of
        Inl e \<Rightarrow> Inl e
      | Inr dev \<Rightarrow>
          (case sub_All dao db deviceId (if ids \<noteq> [] then Some ids else None) of
             Inl e \<Rightarrow> Inl e
           | Inr rs \<Rightarrow> (case fill_all details (map (buildSubDeviceBrief unjson) rs) of Inl e \<Rightarrow> Inl e | Inr sds \<Rightarrow> Inr (dev, sds))))"

text \<open>The request handler \<open>GetDevice\<close> passes its optional parameter on, which is zero when it is absent.\<close>

definition GetDevice ::
    "(string \<Rightarrow> SubDeviceSettings option) \<Rightarrow> (int \<Rightarrow> string \<Rightarrow> string \<Rightarrow> bool \<Rightarrow> goerr + 'q) \<Rightarrow> 'db device_dao \<Rightarrow> 'db \<Rightarrow> string \<Rightarrow> int option \<Rightarrow>
     goerr + device_row \<times> 'q SubDevice list" where
  "GetDevice unjson details dao db deviceId subDeviceId =
     GetDeviceInfo unjson details dao db deviceId [case subDeviceId of None \<Rightarrow> 0 | Some i \<Rightarrow> i]"

section \<open>The private key of a login\<close>

definition PrivateKeyBySubDeviceId ::
    "'k key_crypto \<Rightarrow> (string \<Rightarrow> SubDeviceSettings option) \<Rightarrow> 'db device_dao \<Rightarrow> 'db \<Rightarrow> int \<Rightarrow> bytes \<Rightarrow> goerr + 'k" where
  "PrivateKeyBySubDeviceId C unjson dao db sid key =
     (case GetSubDeviceById unjson dao db sid of
        Inl e \<Rightarrow> Inl e
      | Inr sd \<Rightarrow>
          (case GetDeviceById dao db (br_DeviceId sd) of
             Inl e \<Rightarrow> Inl e
           | Inr dev \<Rightarrow>
               (case base64_Decode C (dv_PrivateKey dev) of
                  Inl e \<Rightarrow> Inl (ErrorNew ''broken keypair'')
                | Inr encrypted \<Rightarrow>
                    (case aes_Decrypt C encrypted (buildEncryptKey key) of
                       Inl e \<Rightarrow> Inl (ErrorNew ''invalid key'')
                     | Inr decryptedKey \<Rightarrow>
                         (case pem_Decode C decryptedKey of
                            None \<Rightarrow> Inl (ErrorNew ''failed to decode PEM block'')
                          | Some block \<Rightarrow> ParsePKCS1PrivateKey C block)))))"

section \<open>Administration of quotas\<close>

text \<open>The tables that \<open>Delete\<close> looks at, and what it asks of them.\<close>

datatype quota_table = TNetworkDevice | TNetwork

record 'db quota_admin =
  quota_All :: "'db \<Rightarrow> goerr + quota_row list"
  quota_Insert :: "'db \<Rightarrow> quota_row \<Rightarrow> 'db \<times> goerr option"
  quota_Update :: "'db \<Rightarrow> int \<Rightarrow> (string \<times> any_value) list \<Rightarrow> 'db \<times> goerr option"
  quota_Delete :: "'db \<Rightarrow> int \<Rightarrow> 'db \<times> goerr option"
  where_quota :: "quota_table \<Rightarrow> 'db \<Rightarrow> int \<Rightarrow> goerr + string list"
  clear_quota :: "quota_table \<Rightarrow> 'db \<Rightarrow> int list \<Rightarrow> 'db \<times> goerr option"

definition Quota_List :: "'db quota_admin \<Rightarrow> 'db \<Rightarrow> goerr + quota_row list" where
  "Quota_List adm db = quota_All adm db"

definition Quota_Create :: "'db quota_admin \<Rightarrow> quota_row \<Rightarrow> 'db \<Rightarrow> 'db \<times> goerr option" where
  "Quota_Create adm q db = quota_Insert adm db q"

definition Quota_Update :: "'db quota_admin \<Rightarrow> int \<Rightarrow> (string \<times> any_value) list \<Rightarrow> 'db \<Rightarrow> 'db \<times> goerr option" where
  "Quota_Update adm qid flds db =
     (let u = concat (map (\<lambda>f. case map_of flds f of Some v \<Rightarrow> if v \<noteq> VNil then [(f, v)] else [] | None \<Rightarrow> []) [''name'', ''value'']) in
      if u = [] then (db, None) else quota_Update adm db qid u)"

text \<open>\<open>resetQuotaValueOfAssociatedObject\<close>: \<open>toInt\<close> is \<^verbatim>\<open>gconv.Int\<close> on the id of a row.\<close>

definition resetQuotaValueOfAssociatedObject :: "(string \<Rightarrow> int) \<Rightarrow> 'db quota_admin \<Rightarrow> quota_table \<Rightarrow> int \<Rightarrow> 'db \<Rightarrow> 'db \<times> goerr option" where
  "resetQuotaValueOfAssociatedObject toInt adm tbl qid db =
     (case where_quota adm tbl db qid of Inl e \<Rightarrow> (db, Some e) | Inr ids \<Rightarrow> clear_quota adm tbl db (map toInt ids))"

text \<open>\<open>Transaction\<close>: an error undoes the changes.\<close>

definition Transaction :: "('db \<Rightarrow> 'db \<times> goerr option) \<Rightarrow> 'db \<Rightarrow> 'db \<times> goerr option" where
  "Transaction f db = (case f db of (db', None) \<Rightarrow> (db', None) | (_, Some e) \<Rightarrow> (db, Some e))"

definition Quota_Delete :: "(string \<Rightarrow> int) \<Rightarrow> 'db quota_dao \<Rightarrow> 'db quota_admin \<Rightarrow> int \<Rightarrow> 'db \<Rightarrow> 'db \<times> goerr option" where
  "Quota_Delete toInt dao adm qid db =
     (case GetById dao db qid of
        Inl e \<Rightarrow> (db, Some e)
      | Inr q \<Rightarrow>
          if q_id q = IdNoLimit then (db, None)
          else Transaction (\<lambda>db.
            (case resetQuotaValueOfAssociatedObject toInt adm TNetworkDevice qid db of
               (db1, Some e) \<Rightarrow> (db1, Some e)
             | (db1, None) \<Rightarrow>
                 (case resetQuotaValueOfAssociatedObject toInt adm TNetwork qid db1 of
                    (db2, Some e) \<Rightarrow> (db2, Some e)
                  | (db2, None) \<Rightarrow> quota_Delete adm db2 qid))) db)"

end
