(* ===== verification/Manager_Device_Props.thy ===== *)
theory Manager_Device_Props
  imports Manager_Device
begin

text \<open>
  What the code relies on of the tables of devices and of cryptography, and what follows for a device that was created through the manager:
  its key opens its private key at every later login.
\<close>

definition key_crypto_ok :: "'k key_crypto \<Rightarrow> bool" where
  "key_crypto_ok C \<longleftrightarrow>
     (\<forall>k. ParsePKCS1PrivateKey C (MarshalPKCS1PrivateKey C k) = Inr k) \<and>
     (\<forall>ty b. pem_Decode C (pem_Encode C ty b) = Some b) \<and>
     (\<forall>p key c. aes_Encrypt C p key = Inr c \<longrightarrow> aes_Decrypt C c key = Inr p) \<and>
     (\<forall>b. base64_Decode C (base64_Encode C b) = Inr b)"

text \<open>
  \<open>devs\<close> and \<open>subs\<close> are the contents of the two tables of a database that answers: a query returns what is stored, an insertion adds the row, in the
  table of sub devices under a new id.
\<close>

definition device_dao_ok :: "'db device_dao \<Rightarrow> ('db \<Rightarrow> string \<rightharpoonup> device_row) \<Rightarrow> ('db \<Rightarrow> int \<rightharpoonup> sub_row) \<Rightarrow> bool" where
  "device_dao_ok dao devs subs \<longleftrightarrow>
     (\<forall>db i. device_ById dao db i = Inr (devs db i)) \<and> (\<forall>db i r. devs db i = Some r \<longrightarrow> dv_Id r = i) \<and>
     (\<forall>db i r. subs db i = Some r \<longrightarrow> sub_ById dao db i = Inr r) \<and>
     (\<forall>db r db'. device_Insert dao db r = (db', None) \<longrightarrow> devs db' = (devs db)(dv_Id r \<mapsto> r) \<and> subs db' = subs db) \<and>
     (\<forall>db r db'. sub_Insert dao db r = (db', None) \<longrightarrow>
        (\<exists>i. i > 0 \<and> subs db i = None \<and> subs db' = (subs db)(i \<mapsto> r\<lparr>sb_Id := i\<rparr>)) \<and> devs db' = devs db)"

lemma device_dao_okD:
  assumes "device_dao_ok dao devs subs"
  shows "device_ById dao db i = Inr (devs db i)"
    and "subs db j = Some r \<Longrightarrow> sub_ById dao db j = Inr r"
    and "devs db i = Some q \<Longrightarrow> dv_Id q = i"
    and "device_Insert dao db q = (db', None) \<Longrightarrow> devs db' = (devs db)(dv_Id q \<mapsto> q) \<and> subs db' = subs db"
    and "sub_Insert dao db r = (db', None) \<Longrightarrow> (\<exists>i. i > 0 \<and> subs db i = None \<and> subs db' = (subs db)(i \<mapsto> r\<lparr>sb_Id := i\<rparr>)) \<and> devs db' = devs db"
  using assms unfolding device_dao_ok_def by meson+

text \<open>What \<open>CreateDevice\<close> stores.\<close>

lemma CreateDevice_stored:
  assumes "device_dao_ok dao devs subs" "CreateDevice C dao uuid now key name db = (db', Inr did)"
  shows "\<exists>k enc r. rsa_GenerateKey C = Inr k \<and> did = uuid \<and>
     aes_Encrypt C (pem_Encode C ''RSA PRIVATE KEY'' (MarshalPKCS1PrivateKey C k)) (buildEncryptKey key) = Inr enc \<and>
     devs db' = (devs db)(did \<mapsto> r) \<and> dv_Id r = did \<and> dv_PrivateKey r = base64_Encode C enc \<and> subs db' = subs db"
  using assms(2) device_dao_okD(4) [OF assms(1)]
  by (auto simp: CreateDevice_def split: sum.splits bool.splits prod.splits option.splits)

lemma CreateSubDevice_stored:
  assumes "device_dao_ok ddao devs subs" "\<forall>db i r. network_One ndao db i = Inr (Some r) \<longrightarrow> nw_Id r = i"
    and "CreateSubDevice json ndao ddao did nid q settings db = (db', None)"
  shows "\<exists>i r. i > 0 \<and> subs db' i = Some r \<and> devs db' = devs db \<and> sb_DeviceId r = did \<and> sb_NetworkId r = nid \<and> sb_Quota r = q \<and> sb_Bandwidth r = 0 \<and>
     sb_Settings r = json (case settings of None \<Rightarrow> DefaultSubDeviceSettings | Some st \<Rightarrow> st)"
proof -
  obtain en where en: "GetNetworkById ndao db nid = Inr en" using assms(3) by (auto simp: CreateSubDevice_def split: sum.splits)
  obtain dev where dev: "GetDeviceById ddao db did = Inr dev" using assms(3) en by (auto simp: CreateSubDevice_def split: sum.splits)
  have ids: "nw_Id en = nid" "dv_Id dev = did"
    using en dev assms(2) device_dao_okD(1,3) [OF assms(1)] by (auto simp: GetNetworkById_def GetDeviceById_def parseDevice_def split: sum.splits option.splits)
  let ?r = "\<lparr> sb_Id = 0, sb_DeviceId = did, sb_NetworkId = nid, sb_Quota = q, sb_Bandwidth = 0,
              sb_Settings = json (case settings of None \<Rightarrow> DefaultSubDeviceSettings | Some st \<Rightarrow> st) \<rparr>"
  have "sub_Insert ddao db ?r = (db', None)"
    using assms(3) en dev ids by (auto simp: CreateSubDevice_def split: sum.splits bool.splits)
  then show ?thesis using device_dao_okD(5) [OF assms(1)] by fastforce
qed

text \<open>
  C20. The key of a device opens its private key. A device is created with a key and added to a network through the manager; then, as long as
  its two rows stay as they are, a login with its sub device id and the key yields the private key that was generated, and the sub device
  belongs to that network with the quota given and no bandwidth limit. Only the first sixteen bytes of the key count: every
  key with the same first sixteen bytes, shorter ones padded with zeros, opens it too.
\<close>
theorem device_key_opens:
  assumes "key_crypto_ok C" "device_dao_ok ddao devs subs"
    and "\<forall>db i r. network_One ndao db i = Inr (Some r) \<longrightarrow> nw_Id r = i"
    and "rsa_GenerateKey C = Inr k" "CreateDevice C ddao uuid now key name db = (db1, Inr did)"
    and "CreateSubDevice json ndao ddao did nid q settings db1 = (db2, None)"
  shows "\<exists>sid. \<forall>db3. devs db3 did = devs db2 did \<and> subs db3 sid = subs db2 sid \<longrightarrow>
     (\<forall>key'. buildEncryptKey key' = buildEncryptKey key \<longrightarrow> PrivateKeyBySubDeviceId C unjson ddao db3 sid key' = Inr k) \<and>
     (\<exists>b. GetSubDeviceById unjson ddao db3 sid = Inr b \<and> br_DeviceId b = did \<and> br_NetworkId b = nid \<and> br_QuotaId b = q \<and> br_BandwidthId b = IdNoLimit)"
proof -
  obtain enc r where d: "aes_Encrypt C (pem_Encode C ''RSA PRIVATE KEY'' (MarshalPKCS1PrivateKey C k)) (buildEncryptKey key) = Inr enc"
    "devs db1 did = Some r" "dv_PrivateKey r = base64_Encode C enc"
    using CreateDevice_stored [OF assms(2,5)] assms(4) by auto
  obtain sid row where s: "subs db2 sid = Some row" "devs db2 = devs db1" "sb_DeviceId row = did" "sb_NetworkId row = nid" "sb_Quota row = q" "sb_Bandwidth row = 0"
    using CreateSubDevice_stored [OF assms(2,3,6)] by blast
  show ?thesis
  proof (intro exI allI impI conjI)
    fix db3 assume "devs db3 did = devs db2 did \<and> subs db3 sid = subs db2 sid"
    then have sub: "GetSubDeviceById unjson ddao db3 sid = Inr (buildSubDeviceBrief unjson row)" and dev: "GetDeviceById ddao db3 did = Inr r"
      using s d(2) device_dao_okD(1,2) [OF assms(2), of db3] by (auto simp: GetSubDeviceById_def GetDeviceById_def parseDevice_def)
    show "PrivateKeyBySubDeviceId C unjson ddao db3 sid key' = Inr k" if "buildEncryptKey key' = buildEncryptKey key" for key'
      using that sub dev s(3) d assms(1) by (simp add: PrivateKeyBySubDeviceId_def buildSubDeviceBrief_def key_crypto_ok_def)
    show "GetSubDeviceById unjson ddao db3 sid = Inr (buildSubDeviceBrief unjson row)" by (rule sub)
    show "br_DeviceId (buildSubDeviceBrief unjson row) = did" "br_NetworkId (buildSubDeviceBrief unjson row) = nid"
      "br_QuotaId (buildSubDeviceBrief unjson row) = q" "br_BandwidthId (buildSubDeviceBrief unjson row) = IdNoLimit"
      using s by (simp_all add: buildSubDeviceBrief_def IdNoLimit_def)
  qed
qed

lemma buildEncryptKey_prefix: "16 \<le> length key \<Longrightarrow> buildEncryptKey (key @ more') = buildEncryptKey key"
  by (simp add: buildEncryptKey_def)

text \<open>A device asked for without the optional id of a sub device is shown without sub devices: their ids are positive, the parameter is zero.\<close>

lemma GetDevice_without_id:
  assumes "\<And>ids rs. sub_All dao db did (Some ids) = Inr rs \<Longrightarrow> set (map sb_Id rs) \<subseteq> set ids \<inter> {0<..}"
    and "GetDevice unjson details dao db did None = Inr (dev, sds)"
  shows "sds = []"
proof -
  obtain rs where rs: "sub_All dao db did (Some [0]) = Inr rs" "fill_all details (map (buildSubDeviceBrief unjson) rs) = Inr sds"
    using assms(2) by (auto simp: GetDevice_def GetDeviceInfo_def split: sum.splits)
  have "rs = []" using assms(1) [OF rs(1)] by (cases rs) auto
  then show ?thesis using rs(2) by simp
qed

text \<open>
  The table of networks has no column \<^verbatim>\<open>quota\<close>, so the query for the networks of a quota fails, and with it the deletion of the quota.
\<close>

lemma Quota_Delete_fails:
  assumes "\<And>db i. \<exists>e. where_quota adm TNetwork db i = Inl e" "qid \<noteq> IdNoLimit" "GetById dao db qid = Inr q" "q_id q = qid"
  shows "\<exists>e. Quota_Delete toInt dao adm qid db = (db, Some e)"
proof -
  obtain db1 e1 where r: "resetQuotaValueOfAssociatedObject toInt adm TNetworkDevice qid db = (db1, e1)" by fastforce
  obtain e where "where_quota adm TNetwork db1 qid = Inl e" using assms(1) by blast
  then show ?thesis using assms(2-4) r
    by (cases e1) (auto simp: Quota_Delete_def Transaction_def resetQuotaValueOfAssociatedObject_def)
qed

section \<open>Tables in memory\<close>

type_synonym mem_db = "device_row list \<times> sub_row list \<times> network_row list"

definition mem_devs :: "mem_db \<Rightarrow> string \<rightharpoonup> device_row" where
  "mem_devs db i = find (\<lambda>r. dv_Id r = i) (rev (fst db))"

definition mem_subs :: "mem_db \<Rightarrow> int \<rightharpoonup> sub_row" where
  "mem_subs db i = (let rs = fst (snd db) in if 0 < i \<and> nat i \<le> length rs then Some ((rs ! (nat i - 1))\<lparr>sb_Id := i\<rparr>) else None)"

definition mem_device_dao :: "mem_db device_dao" where
  "mem_device_dao =
     \<lparr> device_Exist = (\<lambda>db name. Inr (name \<in> set (map dv_Name (fst db)))), device_ById = (\<lambda>db i. Inr (mem_devs db i)),
       device_ByName = (\<lambda>db name. Inr (find (\<lambda>r. dv_Name r = name) (fst db))),
       device_Insert = (\<lambda>db r. ((fst db @ [r], snd db), None)),
       sub_ById = (\<lambda>db i. case mem_subs db i of Some r \<Rightarrow> Inr r | None \<Rightarrow> Inl (ErrorNew ''no rows'')),
       sub_Exist = (\<lambda>db n d. Inr (\<exists>r \<in> set (fst (snd db)). sb_NetworkId r = n \<and> sb_DeviceId r = d)),
       sub_All = (\<lambda>db d ids. Inr []),
       sub_Insert = (\<lambda>db r. ((fst db, fst (snd db) @ [r], snd (snd db)), None)),
       sub_SetQuota = (\<lambda>db i q. (db, None)) \<rparr>"

definition mem_networks :: "mem_db network_dao" where
  "mem_networks =
     \<lparr> network_One = (\<lambda>db i. Inr (find (\<lambda>r. nw_Id r = i) (snd (snd db)))), network_All = (\<lambda>db. Inr (snd (snd db))),
       network_Insert = (\<lambda>db r. (db, None)), network_Update = (\<lambda>db i u. (db, None)), network_Delete = (\<lambda>db i. (db, None)) \<rparr>"

lemma mem_device_dao_ok: "device_dao_ok mem_device_dao mem_devs mem_subs"
  unfolding device_dao_ok_def
proof (intro conjI allI impI)
  fix db :: mem_db and r :: sub_row and q :: device_row and db'
  show "mem_devs db' = (mem_devs db)(dv_Id q \<mapsto> q)" "mem_subs db' = mem_subs db" if "device_Insert mem_device_dao db q = (db', None)"
    using that by (auto simp: mem_device_dao_def mem_devs_def mem_subs_def)
  show "mem_devs db' = mem_devs db" if "sub_Insert mem_device_dao db r = (db', None)"
    using that by (auto simp: mem_device_dao_def mem_devs_def)
  let ?i = "int (length (fst (snd db))) + 1"
  show "\<exists>i > 0. mem_subs db i = None \<and> mem_subs db' = (mem_subs db)(i \<mapsto> r\<lparr>sb_Id := i\<rparr>)" if "sub_Insert mem_device_dao db r = (db', None)"
  proof (intro exI conjI)
    show "mem_subs db' = (mem_subs db)(?i \<mapsto> r\<lparr>sb_Id := ?i\<rparr>)"
      using that by (intro ext) (auto simp: mem_device_dao_def mem_subs_def Let_def nth_append nat_le_iff nat_less_iff le_nat_iff)
  qed (auto simp: mem_subs_def Let_def)
qed (auto simp: mem_device_dao_def mem_devs_def find_Some_iff)

definition plain_key_crypto :: "unit key_crypto" where
  "plain_key_crypto =
     \<lparr> rsa_GenerateKey = Inr (), MarshalPKCS1PrivateKey = (\<lambda>_. [1, 2]), ParsePKCS1PrivateKey = (\<lambda>_. Inr ()), MarshalPKIXPublicKey = (\<lambda>_. Inr [3]),
       pem_Encode = (\<lambda>_ b. b), pem_Decode = Some,
       aes_Encrypt = (\<lambda>p key. Inr (key @ p)), aes_Decrypt = (\<lambda>c key. if take (length key) c = key then Inr (drop (length key) c) else Inl (ErrorNew ''padding'')),
       base64_Encode = chars, base64_Decode = (\<lambda>s. Inr (map (\<lambda>c. of_nat (of_char c)) s)) \<rparr>"

lemma plain_key_crypto_ok: "key_crypto_ok plain_key_crypto"
proof -
  have "unat x mod 256 = unat x" for x :: byte using unsigned_less [where 'a = nat and w = x] by simp
  then show ?thesis by (simp add: key_crypto_ok_def plain_key_crypto_def chars_def comp_def)
qed

definition demo_tables :: mem_db where
  "demo_tables = ([], [], [\<lparr> nw_Id = ''n'', nw_Name = ''home'', nw_Cidr = ''10.0.0.0/24'', nw_Mtu = 1392, nw_Description = [], nw_Extra = [] \<rparr>])"

theorem device_key_opens_witness:
  "\<exists>db1 db2 sid. CreateDevice plain_key_crypto mem_device_dao ''d'' 0 [7] ''pc'' demo_tables = (db1, Inr ''d'') \<and>
     CreateSubDevice (\<lambda>_. []) mem_networks mem_device_dao ''d'' ''n'' 3 None db1 = (db2, None) \<and>
     PrivateKeyBySubDeviceId plain_key_crypto (\<lambda>_. None) mem_device_dao db2 sid [7, 0] = Inr ()"
proof -
  obtain db1 where c: "CreateDevice plain_key_crypto mem_device_dao ''d'' 0 [7] ''pc'' demo_tables = (db1, Inr ''d'')"
    by (simp add: CreateDevice_def plain_key_crypto_def mem_device_dao_def demo_tables_def)
  obtain db2 where s: "CreateSubDevice (\<lambda>_. []) mem_networks mem_device_dao ''d'' ''n'' 3 None db1 = (db2, None)"
    using c by (auto simp: CreateDevice_def plain_key_crypto_def mem_device_dao_def demo_tables_def CreateSubDevice_def GetNetworkById_def
        mem_networks_def GetDeviceById_def parseDevice_def mem_devs_def)
  have n: "\<forall>db i r. network_One mem_networks db i = Inr (Some r) \<longrightarrow> nw_Id r = i" by (auto simp: mem_networks_def find_Some_iff)
  have g: "rsa_GenerateKey plain_key_crypto = Inr ()" by (simp add: plain_key_crypto_def)
  have "buildEncryptKey [7, 0] = buildEncryptKey [7]" by (simp add: buildEncryptKey_def numeral_nat)
  then show ?thesis using device_key_opens [OF plain_key_crypto_ok mem_device_dao_ok n g c s, of "\<lambda>_. None"] c s by blast
qed

end
