(* ===== verification/Manager_Auth.thy ===== *)
theory Manager_Auth
  imports VNet_Prelude "HOL-Library.Sublist"
begin

text \<open>
  The check of signatures in front of the web manager: \<^verbatim>\<open>manager/server/internal/controller/middleware/auth.go\<close>. MD5, the conversion of
  text to numbers and the configuration are parameters.
\<close>

definition salt :: string where
  "salt = ''go_v_net_web_server''"

record auth_config =
  skip_verify_local :: bool
  allowed_timestamp_diff :: int
  apps :: "(string \<times> string) list"

record auth_request =
  RemoteAddr :: string
  X_Appid :: string
  X_Timestamp :: string
  X_Signature :: string

text \<open>\<open>Sign\<close>: the secret of the first app with the id.\<close>

definition Sign :: "(string \<Rightarrow> string) \<Rightarrow> auth_config \<Rightarrow> string \<Rightarrow> string \<Rightarrow> goerr + string" where
  "Sign md5 cfg appid timestamp =
     (let secret = (case map_of (apps cfg) appid of Some s \<Rightarrow> s | None \<Rightarrow> []) in
      if secret = [] then Inl (ErrorNew ''appid not found'') else Inr (md5 (salt @ appid @ timestamp @ secret)))"

text \<open>\<open>CheckSignature\<close>: \<open>None\<close> when the request is passed on, else the error of the response. \<open>now\<close> in seconds; the difference is an \<^verbatim>\<open>int64\<close>.\<close>

definition CheckSignature :: "(string \<Rightarrow> string) \<Rightarrow> (string \<Rightarrow> int) \<Rightarrow> int \<Rightarrow> auth_config \<Rightarrow> auth_request \<Rightarrow> string option" where
  "CheckSignature md5 toInt64 now cfg r =
     (if prefix ''127.0.0.1'' (RemoteAddr r) \<and> skip_verify_local cfg then None
      else if X_Appid r = [] \<or> X_Timestamp r = [] \<or> X_Signature r = [] then Some ''missing required header''
      else if allowed_timestamp_diff cfg > 0 \<and> wrap64 (now - toInt64 (X_Timestamp r)) > allowed_timestamp_diff cfg then Some ''invalid timestamp''
      else case Sign md5 cfg (X_Appid r) (X_Timestamp r) of
        Inl e \<Rightarrow> Some ''appid not found''
      | Inr sign \<Rightarrow> if sign \<noteq> X_Signature r then Some ''signature mismatch'' else None)"

section \<open>Properties\<close>

text \<open>
  C35. Who may pass, for clock and timestamp values that are not negative. A request from an address that begins with 127.0.0.1 passes without any check if the configuration
  exempts local requests. Every other request passes exactly when its three headers are there, the signature is that of a configured app with a
  secret over id and timestamp and, if a window is configured, the timestamp is not older than the window (one in the future passes). So, unless exempt, what has passed is
  refused as soon as its timestamp is older than the window.
\<close>
theorem signature_expires:
  assumes "0 \<le> toInt64 (X_Timestamp r)" "toInt64 (X_Timestamp r) < 2 ^ 63" "0 \<le> now" "now < 2 ^ 63"
  shows "(CheckSignature md5 toInt64 now cfg r = None \<longleftrightarrow>
      (prefix ''127.0.0.1'' (RemoteAddr r) \<and> skip_verify_local cfg) \<or>
      (X_Appid r \<noteq> [] \<and> X_Timestamp r \<noteq> [] \<and> X_Signature r \<noteq> [] \<and>
       (\<exists>secret. secret \<noteq> [] \<and> map_of (apps cfg) (X_Appid r) = Some secret \<and>
          X_Signature r = md5 (salt @ X_Appid r @ X_Timestamp r @ secret)) \<and>
       (allowed_timestamp_diff cfg > 0 \<longrightarrow> now \<le> toInt64 (X_Timestamp r) + allowed_timestamp_diff cfg))) \<and>
    (CheckSignature md5 toInt64 now cfg r = None \<and> \<not> (prefix ''127.0.0.1'' (RemoteAddr r) \<and> skip_verify_local cfg) \<and>
       allowed_timestamp_diff cfg > 0 \<longrightarrow>
     (\<forall>later. toInt64 (X_Timestamp r) + allowed_timestamp_diff cfg < later \<and> later < 2 ^ 63 \<longrightarrow>
        CheckSignature md5 toInt64 later cfg r = Some ''invalid timestamp''))"
proof -
  have w: "wrap64 (t - toInt64 (X_Timestamp r)) = t - toInt64 (X_Timestamp r)" if "0 \<le> t" "t < 2 ^ 63" for t
    by (rule wrap64_id) (use that assms(1,2) in \<open>auto simp: in64_def\<close>)
  have s: "(\<exists>sign. Sign md5 cfg (X_Appid r) (X_Timestamp r) = Inr sign \<and> sign = X_Signature r) \<longleftrightarrow>
    (\<exists>secret. secret \<noteq> [] \<and> map_of (apps cfg) (X_Appid r) = Some secret \<and> X_Signature r = md5 (salt @ X_Appid r @ X_Timestamp r @ secret))"
    by (cases "map_of (apps cfg) (X_Appid r)") (auto simp: Sign_def Let_def)
  have pass: "CheckSignature md5 toInt64 now cfg r = None \<longleftrightarrow>
      (prefix ''127.0.0.1'' (RemoteAddr r) \<and> skip_verify_local cfg) \<or>
      (X_Appid r \<noteq> [] \<and> X_Timestamp r \<noteq> [] \<and> X_Signature r \<noteq> [] \<and>
       (\<exists>sign. Sign md5 cfg (X_Appid r) (X_Timestamp r) = Inr sign \<and> sign = X_Signature r) \<and>
       (allowed_timestamp_diff cfg > 0 \<longrightarrow> now \<le> toInt64 (X_Timestamp r) + allowed_timestamp_diff cfg))"
    unfolding CheckSignature_def w [OF assms(3,4)] by (auto split: sum.split)
  have "CheckSignature md5 toInt64 later cfg r = Some ''invalid timestamp''"
    if c: "CheckSignature md5 toInt64 now cfg r = None" "\<not> (prefix ''127.0.0.1'' (RemoteAddr r) \<and> skip_verify_local cfg)" "allowed_timestamp_diff cfg > 0"
      and l: "toInt64 (X_Timestamp r) + allowed_timestamp_diff cfg < later" "later < 2 ^ 63" for later
  proof -
    have "X_Appid r \<noteq> []" "X_Timestamp r \<noteq> []" "X_Signature r \<noteq> []" using pass c(1,2) by blast+
    moreover have "wrap64 (later - toInt64 (X_Timestamp r)) > allowed_timestamp_diff cfg" using w [of later] l assms(1) c(3) by simp
    ultimately show ?thesis using c(2,3) unfolding CheckSignature_def by simp
  qed
  then show ?thesis using pass s by blast
qed

theorem signature_expires_witness:
  "CheckSignature (\<lambda>s. s) (\<lambda>s. int (length s)) 30 \<lparr> skip_verify_local = True, allowed_timestamp_diff = 60, apps = [(''a'', ''k'')] \<rparr>
     \<lparr> RemoteAddr = ''10.0.0.1:80'', X_Appid = ''a'', X_Timestamp = ''t'', X_Signature = salt @ ''atk'' \<rparr> = None \<and>
   CheckSignature (\<lambda>s. s) (\<lambda>s. int (length s)) 500 \<lparr> skip_verify_local = True, allowed_timestamp_diff = 60, apps = [(''a'', ''k'')] \<rparr>
     \<lparr> RemoteAddr = ''10.0.0.1:80'', X_Appid = ''a'', X_Timestamp = ''t'', X_Signature = salt @ ''atk'' \<rparr> = Some ''invalid timestamp'' \<and>
   CheckSignature (\<lambda>s. s) (\<lambda>s. int (length s)) 500 \<lparr> skip_verify_local = True, allowed_timestamp_diff = 60, apps = [] \<rparr>
     \<lparr> RemoteAddr = ''127.0.0.1:80'', X_Appid = [], X_Timestamp = [], X_Signature = [] \<rparr> = None"
proof -
  let ?cfg = "\<lparr> skip_verify_local = True, allowed_timestamp_diff = 60, apps = [(''a'', ''k'')] \<rparr>"
  let ?r = "\<lparr> RemoteAddr = ''10.0.0.1:80'', X_Appid = ''a'', X_Timestamp = ''t'', X_Signature = salt @ ''atk'' \<rparr>"
  let ?local = "\<lparr> RemoteAddr = ''127.0.0.1:80'', X_Appid = [], X_Timestamp = [], X_Signature = [] \<rparr>"
  have "CheckSignature (\<lambda>s. s) (\<lambda>s. int (length s)) 30 ?cfg ?r = None" by code_simp
  moreover from this have "CheckSignature (\<lambda>s. s) (\<lambda>s. int (length s)) 500 ?cfg ?r = Some ''invalid timestamp''"
    using signature_expires [of "\<lambda>s. int (length s)" ?r 30 "\<lambda>s. s" ?cfg] by simp
  moreover have "CheckSignature (\<lambda>s. s) (\<lambda>s. int (length s)) 500 (?cfg\<lparr>apps := []\<rparr>) ?local = None"
    using signature_expires [of "\<lambda>s. int (length s)" ?local 500 "\<lambda>s. s" "?cfg\<lparr>apps := []\<rparr>"] by simp
  ultimately show ?thesis by simp
qed

text \<open>A timestamp in the future is never refused as too old before its time.\<close>

lemma future_timestamp_accepted:
  assumes "allowed_timestamp_diff cfg > 0" "0 \<le> now" "now \<le> ts" "ts < 2 ^ 63" "toInt64 (X_Timestamp r) = ts"
  shows "CheckSignature md5 toInt64 now cfg r \<noteq> Some ''invalid timestamp''"
proof -
  have "wrap64 (now - ts) = now - ts" by (rule wrap64_id) (use assms in \<open>auto simp: in64_def\<close>)
  then show ?thesis using assms by (auto simp: CheckSignature_def split: sum.split)
qed

text \<open>The signature covers the concatenation of id and timestamp, not the two.\<close>

lemma signature_ambiguous:
  assumes "appid @ ts = appid' @ ts'" "map_of (apps cfg) appid = map_of (apps cfg) appid'"
  shows "Sign md5 cfg appid ts = Sign md5 cfg appid' ts'"
  using assms by (simp add: Sign_def) (metis append.assoc)

end
