(* ===== verification/Grace.thy ===== *)
theory Grace
  imports VNet_Prelude "HOL-Library.AList" "HOL-Library.List_Lexorder" "HOL-Library.Char_ord" "HOL-Library.Multiset"
begin

text \<open>
  Shutdown handlers: \<^verbatim>\<open>common/grace/grace.go\<close>. Handlers are registered in a map by name and run at exit in the order of their
  priority, then of their name. A handler is known by a number.
\<close>

record handlerWithPriority =
  h_Name :: string
  h_Handler :: nat
  h_Priority :: int

text \<open>\<open>Less\<close>: \<^verbatim>\<open>strings.Compare\<close> is the lexicographic order of the bytes.\<close>

definition Less :: "handlerWithPriority \<Rightarrow> handlerWithPriority \<Rightarrow> bool" where
  "Less a b = (if h_Priority a \<noteq> h_Priority b then h_Priority a < h_Priority b else h_Name a < h_Name b)"

definition grace_Register :: "string \<Rightarrow> nat \<Rightarrow> int list \<Rightarrow> (string \<times> handlerWithPriority) list \<Rightarrow> (string \<times> handlerWithPriority) list" where
  "grace_Register name h priority m =
     AList.update name \<lparr> h_Name = name, h_Handler = h, h_Priority = (case priority of [] \<Rightarrow> 0 | p # _ \<Rightarrow> p) \<rparr> m"

definition grace_UnRegister :: "string \<Rightarrow> (string \<times> handlerWithPriority) list \<Rightarrow> (string \<times> handlerWithPriority) list" where
  "grace_UnRegister name m = AList.delete name m"

text \<open>
  \<^verbatim>\<open>sort.Sort\<close> promises a permutation in which no later element is less than an earlier one. It is given here as an insertion sort.
\<close>

fun insert_handler :: "handlerWithPriority \<Rightarrow> handlerWithPriority list \<Rightarrow> handlerWithPriority list" where
  "insert_handler a [] = [a]"
| "insert_handler a (b # hs) = (if Less b a then b # insert_handler a hs else a # b # hs)"

definition sort_handlers :: "handlerWithPriority list \<Rightarrow> handlerWithPriority list" where
  "sort_handlers hs = foldr insert_handler hs []"

text \<open>\<open>ExecAndExit\<close>: \<open>visit\<close> are the entries of the map as \<^verbatim>\<open>Range\<close> visits them; the result are the handlers run, in order.\<close>

definition ExecAndExit :: "(string \<times> handlerWithPriority) list \<Rightarrow> nat list" where
  "ExecAndExit visit = map h_Handler (sort_handlers (map snd visit))"

section \<open>Properties\<close>

lemma Less_trans: "Less a b \<Longrightarrow> Less b c \<Longrightarrow> Less a c"
  by (auto simp: Less_def split: if_splits)

lemma Less_irrefl [simp]: "\<not> Less a a"
  by (simp add: Less_def)

lemma Less_total: "h_Name a \<noteq> h_Name b \<Longrightarrow> Less a b \<or> Less b a"
  by (auto simp: Less_def)

lemma mset_insert_handler [simp]: "mset (insert_handler a hs) = add_mset a (mset hs)"
  by (induction hs) auto

lemma mset_sort_handlers [simp]: "mset (sort_handlers hs) = mset hs"
  unfolding sort_handlers_def by (induction hs) auto

lemma set_insert_handler [simp]: "set (insert_handler a hs) = insert a (set hs)"
  by (metis mset_insert_handler set_mset_add_mset_insert set_mset_mset)

lemma sorted_insert_handler:
  assumes "sorted_wrt Less hs" "h_Name a \<notin> h_Name ` set hs"
  shows "sorted_wrt Less (insert_handler a hs)"
  using assms
proof (induction hs)
  case (Cons b hs)
  show ?case
  proof (cases "Less b a")
    case False
    then have "Less a b" using Less_total [of a b] Cons.prems(2) by auto
    then show ?thesis using False Cons.prems(1) Less_trans [of a b] by auto
  qed (use Cons in auto)
qed simp

lemma sorted_sort_handlers: "distinct (map h_Name hs) \<Longrightarrow> sorted_wrt Less (sort_handlers hs)"
proof (induction hs)
  case (Cons a hs)
  have "set (sort_handlers hs) = set hs" by (metis mset_sort_handlers set_mset_mset)
  then show ?case using Cons sorted_insert_handler [of "sort_handlers hs" a] by (simp add: sort_handlers_def)
qed (simp add: sort_handlers_def)

text \<open>A strictly sorted list is determined by its elements.\<close>

lemma sorted_handlers_unique:
  assumes "sorted_wrt Less xs" "sorted_wrt Less ys" "mset xs = mset ys"
  shows "xs = ys"
  using assms
proof (induction xs arbitrary: ys)
  case (Cons x xs)
  then obtain y ys' where ys: "ys = y # ys'" by (metis list.exhaust mset.simps(1) mset_zero_iff list.distinct(1))
  have "x = y"
  proof (rule ccontr)
    assume "x \<noteq> y"
    then have "y \<in> set xs" "x \<in> set ys'" using Cons.prems(3) ys by (metis list.set_intros(1) set_ConsD set_mset_mset)+
    then have "Less x y" "Less y x" using Cons.prems(1,2) ys by auto
    then show False using Less_trans Less_irrefl by blast
  qed
  then show ?case using Cons ys by simp
qed simp

text \<open>The map of handlers: one entry per name, under that name.\<close>

definition handlers_ok :: "(string \<times> handlerWithPriority) list \<Rightarrow> bool" where
  "handlers_ok m \<longleftrightarrow> distinct (map fst m) \<and> (\<forall>(k, h) \<in> set m. h_Name h = k)"

datatype grace_op = GRegister string nat "int list" | GUnRegister string

fun grace_run :: "grace_op list \<Rightarrow> (string \<times> handlerWithPriority) list \<Rightarrow> (string \<times> handlerWithPriority) list" where
  "grace_run [] m = m"
| "grace_run (GRegister n h p # ops) m = grace_run ops (grace_Register n h p m)"
| "grace_run (GUnRegister n # ops) m = grace_run ops (grace_UnRegister n m)"

lemma set_alist_update: "set (AList.update k v m) \<subseteq> insert (k, v) (set m)"
  by (induction m) auto

lemma handlers_ok_register:
  assumes "handlers_ok m"
  shows "handlers_ok (grace_Register n h p m)"
proof -
  let ?h = "\<lparr> h_Name = n, h_Handler = h, h_Priority = (case p of [] \<Rightarrow> 0 | q # _ \<Rightarrow> q) \<rparr>"
  have "h_Name v = k" if "(k, v) \<in> set (AList.update n ?h m)" for k v
    using that set_alist_update [of n ?h m] assms by (auto simp: handlers_ok_def)
  moreover have "distinct (map fst (AList.update n ?h m))" using assms by (simp add: handlers_ok_def distinct_update)
  ultimately show ?thesis by (auto simp: handlers_ok_def grace_Register_def)
qed

lemma delete_eq_filter: "AList.delete k m = filter (\<lambda>e. fst e \<noteq> k) m"
  by (induction m) auto

lemma handlers_ok_unregister: "handlers_ok m \<Longrightarrow> handlers_ok (grace_UnRegister n m)"
  unfolding handlers_ok_def grace_UnRegister_def by (auto simp: delete_eq_filter distinct_map_filter)

lemma handlers_ok_run: "handlers_ok m \<Longrightarrow> handlers_ok (grace_run ops m)"
  by (induction ops m rule: grace_run.induct) (simp_all add: handlers_ok_register handlers_ok_unregister)

lemma handlers_ok_names: "handlers_ok m \<Longrightarrow> map h_Name (map snd m) = map fst m"
  unfolding handlers_ok_def by (induction m) auto

text \<open>
  C36. The order of shutdown is determined. Whatever handlers are registered and unregistered, and in whatever order the map is visited at
  exit, the same handlers run in the same order: each registered one once, by ascending priority, handlers of the same priority by name.
\<close>
theorem shutdown_order:
  assumes "m = grace_run ops []" "mset visit = mset m" "mset visit' = mset m"
  shows "ExecAndExit visit = ExecAndExit visit' \<and> sorted_wrt Less (sort_handlers (map snd visit)) \<and> mset (sort_handlers (map snd visit)) = mset (map snd m)"
proof -
  have ok: "distinct (map h_Name (map snd v))" if "mset v = mset m" for v
  proof -
    have "handlers_ok m" unfolding assms(1) by (rule handlers_ok_run) (simp add: handlers_ok_def)
    then have "distinct (map h_Name (map snd m))" unfolding handlers_ok_names [OF \<open>handlers_ok m\<close>] by (simp add: handlers_ok_def)
    then show ?thesis using that by (metis mset_eq_imp_distinct_iff mset_map)
  qed
  have s: "sorted_wrt Less (sort_handlers (map snd visit))" "sorted_wrt Less (sort_handlers (map snd visit'))"
    using assms(2,3) ok sorted_sort_handlers by blast+
  have "sort_handlers (map snd visit) = sort_handlers (map snd visit')"
    by (rule sorted_handlers_unique [OF s]) (use assms(2,3) in simp)
  then show ?thesis using s assms(2,3) by (simp add: ExecAndExit_def)
qed

theorem shutdown_order_witness:
  "ExecAndExit [(''b'', \<lparr> h_Name = ''b'', h_Handler = 1, h_Priority = 0 \<rparr>), (''a'', \<lparr> h_Name = ''a'', h_Handler = 2, h_Priority = 0 \<rparr>)] =
   ExecAndExit [(''a'', \<lparr> h_Name = ''a'', h_Handler = 2, h_Priority = 0 \<rparr>), (''b'', \<lparr> h_Name = ''b'', h_Handler = 1, h_Priority = 0 \<rparr>)]"
proof -
  have "grace_run [GRegister ''b'' 1 [], GRegister ''a'' 2 []] [] =
      [(''b'', \<lparr> h_Name = ''b'', h_Handler = 1, h_Priority = 0 \<rparr>), (''a'', \<lparr> h_Name = ''a'', h_Handler = 2, h_Priority = 0 \<rparr>)]"
    by (simp add: grace_Register_def)
  then show ?thesis using shutdown_order [OF refl, of _ "[GRegister ''b'' 1 [], GRegister ''a'' 2 []]"] by simp
qed

end
