(* ===== verification/Quic.thy ===== *)
theory Quic
  imports Tcp
begin

text \<open>
  The QUIC transport on both sides: \<^verbatim>\<open>vnet/client/client_quic.go\<close> and \<^verbatim>\<open>vnet/server/server_quic.go\<close>. All transports of a session are streams of
  its one connection. A connection or stream is known by a handle; what the QUIC library answers is an argument. \<open>None\<close> is a run-time panic, here the
  use of a nil connection or of a hub that does not exist yet.
\<close>

section \<open>The client\<close>

record quic_client =
  qc_conn :: "nat option"
  qc_streams :: "(string \<times> rw) list"
  qc_rx :: "nat list"
  qc_closed :: "nat list"

definition newQuicClient :: quic_client where
  "newQuicClient = \<lparr> qc_conn = None, qc_streams = [], qc_rx = [], qc_closed = [] \<rparr>"

text \<open>\<open>Setup\<close>: the dialled connection; the receive loop starts with it.\<close>

definition quic_Setup :: "goerr + nat \<Rightarrow> quic_client \<Rightarrow> quic_client \<times> goerr option" where
  "quic_Setup dialled c = (case dialled of Inl e \<Rightarrow> (c, Some e) | Inr conn \<Rightarrow> (c\<lparr>qc_conn := Some conn\<rparr>, None))"

text \<open>
  A round of \<open>rxLoop\<close>: the accepted stream is handed to the hub, which is \<open>hub\<close> only once the client has set it up. The flag tells whether the
  loop goes on.
\<close>

definition quic_rxLoop_round :: "bool \<Rightarrow> goerr + nat \<Rightarrow> quic_client \<Rightarrow> (quic_client \<times> bool) option" where
  "quic_rxLoop_round hub accepted c =
     (case qc_conn c of
        None \<Rightarrow> None
      | Some _ \<Rightarrow>
          (case accepted of
             Inl e \<Rightarrow> Some (c, False)
           | Inr stream \<Rightarrow> if hub then Some (c\<lparr>qc_rx := qc_rx c @ [stream]\<rparr>, True) else None))"

text \<open>\<open>Dial\<close>: a look into the table and, if it finds nothing, the opening of a stream that is stored there.\<close>

definition quic_connect :: "goerr + nat \<Rightarrow> string \<Rightarrow> quic_client \<Rightarrow> (quic_client \<times> (goerr + rw option)) option" where
  "quic_connect stream dst c =
     (case qc_conn c of
        None \<Rightarrow> None
      | Some _ \<Rightarrow>
          (case stream of
             Inl e \<Rightarrow> Some (c, Inl e)
           | Inr st \<Rightarrow> let w = Rw st ''quic'' in Some (c\<lparr>qc_streams := AList.update dst w (qc_streams c)\<rparr>, Inr (Some w))))"

definition quic_Dial :: "goerr + nat \<Rightarrow> string \<Rightarrow> quic_client \<Rightarrow> (quic_client \<times> (goerr + rw option)) option" where
  "quic_Dial stream dst c =
     (case map_of (qc_streams c) dst of
        Some w \<Rightarrow> Some (c, Inr (Some w))
      | None \<Rightarrow> quic_connect stream dst c)"

definition quic_CloseDst :: "string \<Rightarrow> quic_client \<Rightarrow> quic_client" where
  "quic_CloseDst dst c =
     (case map_of (qc_streams c) dst of
        None \<Rightarrow> c
      | Some w \<Rightarrow> c\<lparr>qc_streams := AList.delete dst (qc_streams c), qc_closed := qc_closed c @ [handle w]\<rparr>)"

definition quic_OnError :: "destination \<Rightarrow> quic_client \<Rightarrow> quic_client" where
  "quic_OnError d c = quic_CloseDst (ip d) c"

definition quic_Close :: "quic_client \<Rightarrow> quic_client" where
  "quic_Close c =
     c\<lparr>qc_conn := None, qc_streams := [],
       qc_closed := qc_closed c @ (case qc_conn c of Some k \<Rightarrow> [k] | None \<Rightarrow> []) @ map (\<lambda>(_, w). handle w) (qc_streams c)\<rparr>"

section \<open>The server\<close>

text \<open>\<open>QuicConn\<close> of a session: its connection if it is a QUIC session.\<close>

definition QuicConn :: "string \<Rightarrow> nat \<Rightarrow> goerr + nat" where
  "QuicConn sessionType conn = (if sessionType \<noteq> ''quic'' then Inl (ErrorNew ''invalid session type'') else Inr conn)"

text \<open>\<open>Accept\<close>: a session for the accepted connection, under reference \<open>ref\<close>.\<close>

definition quic_Accept :: "int \<Rightarrow> string \<Rightarrow> nat \<Rightarrow> goerr + nat \<Rightarrow> server \<Rightarrow> server \<times> (goerr + nat)" where
  "quic_Accept now sid ref accepted s =
     (case accepted of
        Inl e \<Rightarrow> (s, Inl e)
      | Inr conn \<Rightarrow> (s\<lparr>sess := (sess s)(ref \<mapsto> newServerSession now sid)\<rparr>, Inr conn))"

text \<open>\<open>AcceptTransport\<close> and \<open>GetDstTransportWriter\<close>: a stream accepted from the source, one opened to the destination.\<close>

definition quic_AcceptTransport :: "string \<Rightarrow> nat \<Rightarrow> (nat \<Rightarrow> goerr + nat) \<Rightarrow> goerr + nat" where
  "quic_AcceptTransport sessionType conn acceptStream = (case QuicConn sessionType conn of Inl e \<Rightarrow> Inl e | Inr c \<Rightarrow> acceptStream c)"

definition quic_GetDstTransportWriter :: "string \<Rightarrow> nat \<Rightarrow> (nat \<Rightarrow> goerr + nat) \<Rightarrow> goerr + nat" where
  "quic_GetDstTransportWriter dstType conn openStream = (case QuicConn dstType conn of Inl e \<Rightarrow> Inl e | Inr c \<Rightarrow> openStream c)"

section \<open>Properties\<close>

interpretation quica: tx_adaptor qc_streams qc_closed quic_connect quic_CloseDst quic_Close
proof unfold_locales
  fix c c' :: quic_client and dst w e r
  show "qc_streams c' = AList.update dst w (qc_streams c) \<and> qc_closed c' = qc_closed c" if "quic_connect e dst c = Some (c', Inr (Some w))"
    using that by (auto simp: quic_connect_def Let_def split: sum.splits option.splits)
  show "qc_streams c' = qc_streams c \<and> set (qc_closed c) \<subseteq> set (qc_closed c')"
    if "quic_connect e dst c = Some (c', r)" "\<And>w. r \<noteq> Inr (Some w)"
    using that by (auto simp: quic_connect_def Let_def split: sum.splits option.splits)
  show "qc_streams (quic_CloseDst dst c) = AList.delete dst (qc_streams c)"
    by (auto simp: quic_CloseDst_def map_of_eq_None_iff delete_idem split: option.split)
qed (auto simp: quic_CloseDst_def quic_Close_def split: option.split)

text \<open>
  C22. No transport is left open. The hub dials and closes destinations in any order and with any outcome, and a dial may be interrupted between its look into the table
  and its connection by anything but a second dial of the same destination, which the one transmit loop of a hub rules out: both kinds of client have closed,
  after \<^verbatim>\<open>Close\<close>, every transport that they handed out before it, and hold none any more. (Two dials of one destination that overlap leave a connection open.)
\<close>
theorem transports_closed:
  assumes "conns t = []" "(adaptor_step conns (\<lambda>(d, wr, ack). tcp_connect self d wr ack) tcp_CloseDst)\<^sup>*\<^sup>* (t, {}, []) (t', tP, tws)"
    and "qc_streams q = []" "(adaptor_step qc_streams quic_connect quic_CloseDst)\<^sup>*\<^sup>* (q, {}, []) (q', qP, qws)"
  shows "handle ` set tws \<subseteq> set (closed (tcp_Close t')) \<and> conns (tcp_Close t') = [] \<and>
         handle ` set qws \<subseteq> set (qc_closed (quic_Close q')) \<and> qc_streams (quic_Close q') = []"
  using tcpa.closes_all [OF assms(1,2)] quica.closes_all [OF assms(3,4)] by blast

text \<open>Two dials that overlap, of different destinations, then the end of one of them.\<close>

lemma two_dials:
  assumes "tb c = []" "a \<noteq> b" "cn ea a c = Some (c1, Inr (Some u))" "cn eb b c1 = Some (c2, Inr (Some v))"
  shows "(adaptor_step tb cn cl)\<^sup>*\<^sup>* (c, {}, []) (cl a c2, {}, [u, v])"
proof -
  have "adaptor_step tb cn cl (c, {}, []) (c, {a}, [])" using dial_missing [of tb c a "{}"] assms(1) by simp
  moreover have "adaptor_step tb cn cl (c, {a}, []) (c, {b, a}, [])" using dial_missing [of tb c b "{a}"] assms(1,2) by simp
  moreover have "adaptor_step tb cn cl (c, {b, a}, []) (c1, {b}, [u])" using dial_connect [of a "{b, a}" cn ea c c1 "Inr (Some u)" tb cl "[]"] assms(2,3) by (simp add: insert_Diff_if)
  moreover have "adaptor_step tb cn cl (c1, {b}, [u]) (c2, {}, [u, v])" using dial_connect [of b "{b}" cn eb c1 c2 "Inr (Some v)" tb cl "[u]"] assms(4) by simp
  moreover have "adaptor_step tb cn cl (c2, {}, [u, v]) (cl a c2, {}, [u, v])" by (rule dst_closed)
  ultimately show ?thesis by (meson converse_rtranclp_into_rtranclp rtranclp.rtrancl_refl)
qed

theorem transports_closed_witness:
  "\<exists>t' q'. (adaptor_step conns (\<lambda>(d, wr, ack). tcp_connect ''10.0.0.1'' d wr ack) tcp_CloseDst)\<^sup>*\<^sup>* (newTcpClient, {}, []) (t', {}, [Rw 3 ''tcp'', Rw 4 ''tcp'']) \<and>
     {3, 4} \<subseteq> set (closed (tcp_Close t')) \<and>
     (adaptor_step qc_streams quic_connect quic_CloseDst)\<^sup>*\<^sup>* (newQuicClient\<lparr>qc_conn := Some 1\<rparr>, {}, []) (q', {}, [Rw 5 ''quic'', Rw 6 ''quic'']) \<and>
     {5, 6} \<subseteq> set (qc_closed (quic_Close q'))"
proof -
  let ?q = "newQuicClient\<lparr>qc_conn := Some 1\<rparr>" and ?a = "''10.0.0.2''" and ?b = "''10.0.0.3''"
  let ?c = "\<lambda>(d, wr, ack). tcp_connect ''10.0.0.1'' d wr ack"
  have d: "client_dispatch dispatchTypeIPv4 ''10.0.0.1'' ?a None (Inr 1) = Some None" "client_dispatch dispatchTypeIPv4 ''10.0.0.1'' ?b None (Inr 1) = Some None"
    by code_simp+
  obtain t1 t2 where t: "?c (Inr 3, None, Inr 1) ?a newTcpClient = Some (t1, Inr (Some (Rw 3 ''tcp'')))" "?c (Inr 4, None, Inr 1) ?b t1 = Some (t2, Inr (Some (Rw 4 ''tcp'')))"
    using d by (simp add: tcp_connect_def Let_def)
  obtain q1 q2 where q: "quic_connect (Inr 5) ?a ?q = Some (q1, Inr (Some (Rw 5 ''quic'')))" "quic_connect (Inr 6) ?b q1 = Some (q2, Inr (Some (Rw 6 ''quic'')))"
    by (simp add: quic_connect_def Let_def)
  have ts: "(adaptor_step conns ?c tcp_CloseDst)\<^sup>*\<^sup>* (newTcpClient, {}, []) (tcp_CloseDst ?a t2, {}, [Rw 3 ''tcp'', Rw 4 ''tcp''])"
    by (rule two_dials [where cn = ?c and ea = "(Inr 3, None, Inr 1)" and eb = "(Inr 4, None, Inr 1)" and b = ?b and ?c1.0 = t1, OF _ _ t]) (simp_all add: newTcpClient_def)
  have qs: "(adaptor_step qc_streams quic_connect quic_CloseDst)\<^sup>*\<^sup>* (?q, {}, []) (quic_CloseDst ?a q2, {}, [Rw 5 ''quic'', Rw 6 ''quic''])"
    by (rule two_dials [where cn = quic_connect and ea = "Inr 5" and eb = "Inr 6" and b = ?b and ?c1.0 = q1, OF _ _ q]) (simp_all add: newQuicClient_def)
  have "conns newTcpClient = []" "qc_streams ?q = []" by (simp_all add: newTcpClient_def newQuicClient_def)
  then show ?thesis using transports_closed [OF _ ts _ qs] ts qs by fastforce
qed

text \<open>A stream that arrives before the client has its hub: the receive loop starts in \<open>Setup\<close>, the hub is made after the handshake.\<close>

lemma early_stream_panics: "quic_rxLoop_round False (Inr stream) c = None"
  by (simp add: quic_rxLoop_round_def split: option.split)

text \<open>After \<open>Close\<close> there is no connection to open a stream on.\<close>

lemma dial_after_close: "quic_Dial stream dst (quic_Close c) = None"
  by (simp add: quic_Dial_def quic_connect_def quic_Close_def)

end
