(* ===== verification/Config.thy ===== *)
theory Config
  imports Session_Request Client_Sync_Props
begin

text \<open>
  Configuration: the map of extra values (\<^verbatim>\<open>common/config/config.go\<close>), the options of server and client (\<^verbatim>\<open>vnet/server/config.go\<close>,
  \<^verbatim>\<open>vnet/client/config.go\<close>), and what the QUIC transports make of them. A TLS configuration is of an arbitrary type \<open>'t\<close>; a pointer that may be nil is
  an option. \<open>None\<close> as the result of an operation is a run-time panic: a structure whose embedded \<^verbatim>\<open>MappedConfig\<close> is nil has no map to read or write. Every
  structure has a map of its own, as in \<^verbatim>\<open>cmd/server/main.go\<close>.
\<close>

section \<open>Values by key\<close>

record quic_config =
  KeepAlivePeriod :: int
  EnableDatagrams :: bool
  MaxIdleTimeout :: int
  MaxIncomingStreams :: int
  MaxIncomingUniStreams :: int
  MaxStreamReceiveWindow :: nat
  InitialStreamReceiveWindow :: nat
  InitialConnectionReceiveWindow :: nat
  MaxConnectionReceiveWindow :: nat
  Allow0RTT :: bool

definition DefaultQuicConfig :: quic_config where
  "DefaultQuicConfig =
     \<lparr> KeepAlivePeriod = 1000000000 * 3, EnableDatagrams = True, MaxIdleTimeout = 1000000000 * 30, MaxIncomingStreams = 1000,
       MaxIncomingUniStreams = 1000, MaxStreamReceiveWindow = 64 * 1024 * 1024, InitialStreamReceiveWindow = 16 * 1024 * 1024,
       InitialConnectionReceiveWindow = 64 * 1024 * 1024, MaxConnectionReceiveWindow = 128 * 1024 * 1024, Allow0RTT = True \<rparr>"

text \<open>The types that the program stores as \<^verbatim>\<open>any\<close>, and the type assertions to them.\<close>

datatype 't any = TlsConfig "'t option" | QuicConfig "quic_config option" | IntValue int

fun as_tls :: "'t any \<Rightarrow> 't option option" where
  "as_tls (TlsConfig t) = Some t"
| "as_tls _ = None"

fun as_quic :: "'t any \<Rightarrow> quic_config option option" where
  "as_quic (QuicConfig q) = Some q"
| "as_quic _ = None"

type_synonym 't mapped = "(string \<times> 't any) list"

definition NewMappedConfig :: "'t mapped" where
  "NewMappedConfig = []"

definition mapped_Get :: "'t mapped \<Rightarrow> string \<Rightarrow> 't any option" where
  "mapped_Get m key = map_of m key"

definition mapped_Set :: "string \<Rightarrow> 't any \<Rightarrow> 't mapped \<Rightarrow> 't mapped" where
  "mapped_Set key val m = AList.update key val m"

text \<open>
  \<open>GetMappedConfig[T]\<close>: \<open>as\<close> is the type assertion to \<^verbatim>\<open>T\<close> and \<open>zero\<close> the zero value. A nil interface (the outer \<open>None\<close>) gives the zero value, a nil map
  inside a structure is a panic, a missing value or one of another type gives the default, or, without one, the zero value that the failed assertion leaves.
\<close>

definition GetMappedConfig :: "('t any \<Rightarrow> 'a option) \<Rightarrow> 'a \<Rightarrow> 't mapped option option \<Rightarrow> string \<Rightarrow> 'a list \<Rightarrow> 'a option" where
  "GetMappedConfig as zero m key def =
     (case m of
        None \<Rightarrow> Some zero
      | Some None \<Rightarrow> None
      | Some (Some m) \<Rightarrow>
          Some (case Option.bind (mapped_Get m key) as of
                  Some v \<Rightarrow> v
                | None \<Rightarrow> (case def of [] \<Rightarrow> zero | d # _ \<Rightarrow> d)))"

text \<open>Options run in the order they are given.\<close>

fun run_options :: "('c \<Rightarrow> 'c option) list \<Rightarrow> 'c \<Rightarrow> 'c option" where
  "run_options [] cfg = Some cfg"
| "run_options (opt # opts) cfg = Option.bind (opt cfg) (run_options opts)"

text \<open>The address that is listened on or dialled, \<^verbatim>\<open>fmt.Sprintf("%s:%d")\<close>.\<close>

definition host_port :: "string \<Rightarrow> int \<Rightarrow> string" where
  "host_port a p = a @ '':'' @ (if p < 0 then ''-'' @ utoa (nat (- p)) else utoa (nat p))"

section \<open>The server\<close>

record SignalingServerAddress =
  sa_IP :: string
  sa_Transport :: string
  sa_Port :: nat
  sa_Version :: string

record 't transport_config =
  tc_values :: "'t mapped option"
  tc_Name :: string
  tc_Port :: int
  tc_Address :: string
  tc_Type :: string

record 't server_config =
  sc_values :: "'t mapped option"
  sc_Servers :: "'t transport_config list"
  sc_P2P :: "SignalingServerAddress list option"

type_synonym 't server_option = "'t server_config \<Rightarrow> 't server_config option"

definition defaultServerConfig :: "'t server_config" where
  "defaultServerConfig = \<lparr> sc_values = Some NewMappedConfig, sc_Servers = [], sc_P2P = None \<rparr>"

definition server_NewConfig :: "'t server_option list \<Rightarrow> 't server_config option" where
  "server_NewConfig opts = run_options opts defaultServerConfig"

definition WithConfig :: "'t server_config \<Rightarrow> 't server_option" where
  "WithConfig c cfg = Some (cfg\<lparr>sc_values := sc_values c, sc_Servers := sc_Servers c\<rparr>)"

definition server_WithTLSConfig :: "'t option \<Rightarrow> 't server_option" where
  "server_WithTLSConfig t cfg = map_option (\<lambda>m. cfg\<lparr>sc_values := Some (mapped_Set ''tls'' (TlsConfig t) m)\<rparr>) (sc_values cfg)"

definition WithQuicConfig :: "quic_config option \<Rightarrow> 't transport_config \<Rightarrow> 't transport_config option" where
  "WithQuicConfig c t =
     (if tc_Type t \<noteq> ''quic'' then Some t
      else map_option (\<lambda>m. t\<lparr>tc_values := Some (mapped_Set ''quic_config'' (QuicConfig c) m)\<rparr>) (tc_values t))"

text \<open>What \<open>Setup\<close> of the QUIC server listens with: address, TLS and QUIC configuration; \<open>generated\<close> is the certificate made for the occasion.\<close>

definition quic_server_settings :: "'t \<Rightarrow> 't transport_config \<Rightarrow> (string \<times> 't option \<times> quic_config option) option" where
  "quic_server_settings generated cfg =
     Option.bind (GetMappedConfig as_tls None (Some (tc_values cfg)) ''tls'' [Some generated])
       (\<lambda>tlsConfig. Option.bind (GetMappedConfig as_quic None (Some (tc_values cfg)) ''quic_config'' [Some DefaultQuicConfig])
         (\<lambda>quicConfig. Some (host_port (tc_Address cfg) (tc_Port cfg), tlsConfig, quicConfig)))"

section \<open>The client\<close>

record p2p_settings =
  ps_Enabled :: bool
  ps_ListenAddr :: "string list"
  ps_TryInterval :: int
  ps_ActiveDialPeer :: bool

record 't client_cfg =
  cc_values :: "'t mapped option"
  cc_Link :: string
  cc_PublicKey :: string
  cc_Port :: int
  cc_Address :: string
  cc_Type :: string
  cc_InsecureSkipVerify :: bool
  cc_P2P :: p2p_settings
  cc_Compress :: bool
  cc_Encrypt :: bool

type_synonym 't client_option = "'t client_cfg \<Rightarrow> 't client_cfg option"

definition defaultClientConfig :: "'t client_cfg" where
  "defaultClientConfig =
     \<lparr> cc_values = Some NewMappedConfig, cc_Link = [], cc_PublicKey = [], cc_Port = 0, cc_Address = [], cc_Type = ''quic'',
       cc_InsecureSkipVerify = False,
       cc_P2P = \<lparr> ps_Enabled = True, ps_ListenAddr = [], ps_TryInterval = 30, ps_ActiveDialPeer = False \<rparr>,
       cc_Compress = False, cc_Encrypt = True \<rparr>"

definition client_NewConfig :: "'t client_option list \<Rightarrow> 't client_cfg option" where
  "client_NewConfig opts = run_options opts defaultClientConfig"

definition client_Set :: "string \<Rightarrow> 't any \<Rightarrow> 't client_option" where
  "client_Set key val cfg = map_option (\<lambda>m. cfg\<lparr>cc_values := Some (mapped_Set key val m)\<rparr>) (cc_values cfg)"

definition client_WithTLSConfig :: "'t option \<Rightarrow> 't client_option" where
  "client_WithTLSConfig t cfg = client_Set ''tls'' (TlsConfig t) cfg"

definition WithAddress :: "string \<Rightarrow> 't client_option" where
  "WithAddress s cfg =
     Some (case split_at CHR '':'' s of
             host # port # _ \<Rightarrow> cfg\<lparr>cc_Address := host, cc_Port := Atoi port\<rparr>
           | _ \<Rightarrow> cfg\<lparr>cc_Address := s\<rparr>)"

definition WithInsecureSkipVerify :: "bool \<Rightarrow> 't client_option" where
  "WithInsecureSkipVerify b cfg = Some (cfg\<lparr>cc_InsecureSkipVerify := b\<rparr>)"

definition WithQuicClientConfig :: "quic_config option \<Rightarrow> 't client_option" where
  "WithQuicClientConfig c cfg = (if cc_Type cfg \<noteq> ''quic'' then Some cfg else client_Set ''quic_config'' (QuicConfig c) cfg)"

definition WithQuicClientBufferSize :: "int \<Rightarrow> 't client_option" where
  "WithQuicClientBufferSize n cfg =
     (if cc_Type cfg \<noteq> ''quic'' then Some cfg else client_Set ''quic_client_buffer_size'' (IntValue n) cfg)"

text \<open>
  What \<open>Setup\<close> of the QUIC client dials with. \<open>skip\<close> sets \<^verbatim>\<open>InsecureSkipVerify\<close> of a TLS configuration; that of a nil pointer is a panic.
\<close>

definition quic_client_settings :: "('t \<Rightarrow> 't) \<Rightarrow> 't \<Rightarrow> 't client_cfg \<Rightarrow> (string \<times> 't option \<times> quic_config option) option" where
  "quic_client_settings skip generated cfg =
     Option.bind (GetMappedConfig as_tls None (Some (cc_values cfg)) ''tls'' [Some generated])
       (\<lambda>tlsConfig. Option.bind (GetMappedConfig as_quic None (Some (cc_values cfg)) ''quic_config'' [Some DefaultQuicConfig])
         (\<lambda>quicConfig. Option.bind (if cc_InsecureSkipVerify cfg then map_option (Some \<circ> skip) tlsConfig else Some tlsConfig)
           (\<lambda>tlsConfig. Some (host_port (cc_Address cfg) (cc_Port cfg), tlsConfig, quicConfig))))"

section \<open>Properties\<close>

lemma mapped_Get_Set: "mapped_Get (mapped_Set key v m) k = (if k = key then Some v else mapped_Get m k)"
  by (simp add: mapped_Get_def mapped_Set_def update_conv')

text \<open>A value set with the type asked for is found; a value of another type is ignored in favour of the default.\<close>

lemma GetMappedConfig_Set:
  "GetMappedConfig as zero (Some (Some (mapped_Set key v m))) k [d] =
     (if k = key then Some (case as v of Some x \<Rightarrow> x | None \<Rightarrow> d) else GetMappedConfig as zero (Some (Some m)) k [d])"
  by (simp add: GetMappedConfig_def mapped_Get_Set split: option.split)

lemma run_options_append: "run_options (xs @ ys) cfg = Option.bind (run_options xs cfg) (run_options ys)"
  by (induction xs arbitrary: cfg) (auto simp: bind_eq_None_conv split: Option.bind_splits)

text \<open>\<open>WithConfig\<close> does not copy the peer-to-peer settings.\<close>

lemma WithConfig_drops_p2p: "map_option sc_P2P (server_NewConfig [WithConfig c]) = Some None"
  by (simp add: server_NewConfig_def WithConfig_def defaultServerConfig_def)

text \<open>
  The TLS configuration that is given to the server is never used: the QUIC server looks for it in the configuration of the transport. The option, wherever it
  stands among the others, leaves what each transport listens with as it is.
\<close>

lemma server_tls_option_ignored:
  assumes "server_NewConfig opts = Some cfg" "server_NewConfig (opts @ [server_WithTLSConfig t]) = Some cfg'"
  shows "map (quic_server_settings generated) (sc_Servers cfg') = map (quic_server_settings generated) (sc_Servers cfg)"
  using assms by (auto simp: server_NewConfig_def run_options_append server_WithTLSConfig_def split: Option.bind_splits)

text \<open>A QUIC configuration given to a QUIC transport is what it listens with; the certificate is not affected.\<close>

lemma WithQuicConfig_used:
  assumes "tc_Type cfg = ''quic''" "quic_server_settings generated cfg = Some (addr, tls, q)"
  shows "\<exists>cfg'. WithQuicConfig c cfg = Some cfg' \<and> quic_server_settings generated cfg' = Some (addr, tls, c)"
  using assms by (cases "tc_values cfg") (auto simp: quic_server_settings_def WithQuicConfig_def GetMappedConfig_Set GetMappedConfig_def mapped_Get_Set)

text \<open>A transport without a map, as one that is read from JSON, panics when it is set up.\<close>

lemma transport_without_map_panics: "quic_server_settings generated cfg = None \<longleftrightarrow> tc_values cfg = None"
  by (cases "tc_values cfg") (simp_all add: quic_server_settings_def GetMappedConfig_def)

text \<open>No option makes the map of a client disappear, so a client fails to set up only for want of a TLS configuration it could change.\<close>

definition has_map :: "'t client_cfg \<Rightarrow> bool" where
  "has_map cfg = (cc_values cfg \<noteq> None)"

lemma client_option_keeps_map:
  assumes "opt \<in> {client_WithTLSConfig t, WithAddress s, WithInsecureSkipVerify b, WithQuicClientConfig c, WithQuicClientBufferSize n}" "has_map cfg"
  shows "\<exists>cfg'. opt cfg = Some cfg' \<and> has_map cfg'"
  using assms by (auto simp: has_map_def client_WithTLSConfig_def WithAddress_def WithInsecureSkipVerify_def WithQuicClientConfig_def
      WithQuicClientBufferSize_def client_Set_def split: list.splits)

lemma client_settings_panic:
  assumes "has_map cfg"
  shows "quic_client_settings skip generated cfg = None \<longleftrightarrow>
     cc_InsecureSkipVerify cfg \<and> GetMappedConfig as_tls None (Some (cc_values cfg)) ''tls'' [Some generated] = Some None"
  using assms by (auto simp: quic_client_settings_def has_map_def GetMappedConfig_def split: Option.bind_splits option.splits)

text \<open>The size of the buffer that can be set for a QUIC client is never read.\<close>

lemma buffer_size_unused:
  "has_map cfg \<Longrightarrow> Option.bind (WithQuicClientBufferSize n cfg) (quic_client_settings skip generated) = quic_client_settings skip generated cfg"
  by (auto simp: quic_client_settings_def has_map_def WithQuicClientBufferSize_def client_Set_def GetMappedConfig_Set)

text \<open>
  \<open>WithAddress\<close> undoes \<open>host_port\<close> for every host without a colon. An IPv6 address is cut at its first colon, and what follows is no number.
\<close>

lemma WithAddress_host_port:
  assumes "CHR '':'' \<notin> set a" "0 \<le> p" "p < 2 ^ 63"
  shows "WithAddress (host_port a p) cfg = Some (cfg\<lparr>cc_Address := a, cc_Port := p\<rparr>)"
proof -
  have c: "CHR '':'' \<notin> set (utoa n)" for n using utoa_chars [of "CHR '':''" n] by auto
  have "split_at CHR '':'' (a @ CHR '':'' # utoa (nat p)) = [a, utoa (nat p)]"
    using assms(1) c by (induction a) (auto simp: split_at_none)
  then show ?thesis using assms(2,3) Atoi_utoa [of "nat p"] by (simp add: WithAddress_def host_port_def)
qed

lemma WithAddress_cuts_IPv6:
  "map_option (\<lambda>c. (cc_Address c, cc_Port c)) (client_NewConfig [WithAddress ''[::1]:9800'']) = Some (''['', 0)"
  by code_simp

end
