(* ===== verification/Server_Main.thy ===== *)
theory Server_Main
  imports Config Tcp
begin

text \<open>
  How the server starts: the signaling server for peer-to-peer connections (\<^verbatim>\<open>vnet/server/server_p2p.go\<close>), \<open>Serve\<close> and the set-up of the transports in
  \<^verbatim>\<open>vnet/server/server.go\<close>. What libp2p and the network answer is an argument. \<open>None\<close> is a run-time panic.
\<close>

section \<open>The signaling server\<close>

text \<open>\<open>MultiAddr\<close>: \<open>valid\<close> tells which texts are addresses; \<^verbatim>\<open>StringCast\<close> panics on the others.\<close>

definition MultiAddr :: "(string \<Rightarrow> bool) \<Rightarrow> string list \<Rightarrow> SignalingServerAddress \<Rightarrow> string option" where
  "MultiAddr valid net a =
     (let n = (case net of [] \<Rightarrow> ''ip4'' | x # _ \<Rightarrow> x);
          str = ''/'' @ n @ ''/'' @ sa_IP a @ ''/'' @ sa_Transport a @ ''/'' @ utoa (sa_Port a);
          str = (if sa_Version a \<noteq> [] then str @ ''/'' @ sa_Version a else str)
      in if valid str then Some str else None)"

fun multi_addrs :: "(string \<Rightarrow> bool) \<Rightarrow> SignalingServerAddress list \<Rightarrow> string list option" where
  "multi_addrs valid [] = Some []"
| "multi_addrs valid (a # as) =
     (case MultiAddr valid [] a of None \<Rightarrow> None | Some m \<Rightarrow> map_option (\<lambda>ms. m # ms) (multi_addrs valid as))"

record p2pSignalingServer =
  sp_config :: "SignalingServerAddress list option"
  sp_host :: "nat option"
  sp_addresses :: "string list"
  sp_hostId :: string

definition newP2PSignalingServer :: "SignalingServerAddress list option \<Rightarrow> p2pSignalingServer" where
  "newP2PSignalingServer cfg = \<lparr> sp_config = cfg, sp_host = None, sp_addresses = [], sp_hostId = [] \<rparr>"

text \<open>\<open>Run\<close>: the host of libp2p is a handle with its id and its addresses.\<close>

definition p2p_Run ::
    "(string \<Rightarrow> bool) \<Rightarrow> (string list \<Rightarrow> goerr + nat \<times> string \<times> string list) \<Rightarrow> p2pSignalingServer \<Rightarrow> (p2pSignalingServer \<times> goerr option) option" where
  "p2p_Run valid newHost p =
     (case sp_config p of
        None \<Rightarrow> None
      | Some as \<Rightarrow>
          (case multi_addrs valid as of
             None \<Rightarrow> None
           | Some addrs \<Rightarrow>
               if addrs = [] then Some (p, Some (ErrorNew ''no address for p2p server''))
               else (case newHost addrs of
                       Inl e \<Rightarrow> Some (p\<lparr>sp_host := None\<rparr>, Some (ErrorNew ''failed to create host''))
                     | Inr (h, hid, hostAddrs) \<Rightarrow> Some (p\<lparr>sp_host := Some h, sp_addresses := hostAddrs, sp_hostId := hid\<rparr>, None))))"

text \<open>\<open>Close\<close>: a nil host is a nil interface.\<close>

definition p2p_Close :: "p2pSignalingServer \<Rightarrow> nat option" where
  "p2p_Close p = sp_host p"

definition p2p_ID :: "p2pSignalingServer \<Rightarrow> string" where
  "p2p_ID p = sp_hostId p"

definition p2p_Addresses :: "p2pSignalingServer \<Rightarrow> string list" where
  "p2p_Addresses p = sp_addresses p"

section \<open>Serving\<close>

text \<open>\<open>NewServer\<close> with its table of functions; the networks are those of the global network manager.\<close>

definition NewServer :: "'t server_config \<Rightarrow> (string \<times> nat) list \<Rightarrow> (nat \<rightharpoonup> net) \<Rightarrow> server \<times> p2pSignalingServer \<times> (string \<times> handler) list" where
  "NewServer cfg reg ns =
     (\<lparr> sessions = [], sess = Map.empty, nets = ns, networks = reg, peerMappingVersion = 0, submissions = [] \<rparr>,
      newP2PSignalingServer (sc_P2P cfg), server_functions)"

text \<open>
  \<open>serve\<close> up to its loop: the name that the transport is stored under, or the error; \<open>uuid8\<close> are the first eight characters of a new id,
  \<open>setup\<close> is the outcome of \<^verbatim>\<open>Setup\<close>.
\<close>

definition serve_setup :: "string \<Rightarrow> goerr option \<Rightarrow> 't transport_config \<Rightarrow> string option \<times> goerr option" where
  "serve_setup uuid8 setup cfg =
     (let name = (if tc_Name cfg = [] then ''unnamed-'' @ tc_Type cfg @ ''-server-'' @ uuid8 else tc_Name cfg) in
      if tc_Type cfg = ''quic'' \<or> tc_Type cfg = ''tcp'' then (Some name, setup)
      else (None, Some (ErrorNew (''invalid server type: '' @ tc_Type cfg))))"

text \<open>
  \<open>Setup\<close> of the two kinds of transport: \<open>listen\<close> and \<open>resolve\<close> are the answers of the libraries, a listener is a handle.
\<close>

definition quic_server_Setup ::
    "(string \<Rightarrow> 't option \<Rightarrow> quic_config option \<Rightarrow> goerr + nat) \<Rightarrow> 't \<Rightarrow> 't transport_config \<Rightarrow> (goerr + nat) option" where
  "quic_server_Setup listen generated cfg = map_option (\<lambda>(addr, tls, quic). listen addr tls quic) (quic_server_settings generated cfg)"

definition tcp_server_Setup :: "(string \<Rightarrow> goerr + 'a) \<Rightarrow> ('a \<Rightarrow> goerr + nat) \<Rightarrow> 't transport_config \<Rightarrow> goerr + nat" where
  "tcp_server_Setup resolve listen cfg =
     (case resolve (host_port (tc_Address cfg) (tc_Port cfg)) of Inl e \<Rightarrow> Inl e | Inr addr \<Rightarrow> listen addr)"

text \<open>
  \<open>Serve\<close> until it returns: with a signaling server that runs it starts the transports and waits to be closed; in any case the deferred function
  closes the signaling server. The result: the names of the transports started, and the error.
\<close>

definition Serve ::
    "(string \<Rightarrow> bool) \<Rightarrow> (string list \<Rightarrow> goerr + nat \<times> string \<times> string list) \<Rightarrow> (nat \<Rightarrow> string \<times> goerr option) \<Rightarrow> 't server_config \<Rightarrow>
     (string list \<times> goerr option) option" where
  "Serve valid newHost setups cfg =
     (case p2p_Run valid newHost (newP2PSignalingServer (sc_P2P cfg)) of
        None \<Rightarrow> None
      | Some (p, Some e) \<Rightarrow> (case p2p_Close p of None \<Rightarrow> None | Some _ \<Rightarrow> Some ([], Some e))
      | Some (p, None) \<Rightarrow>
          (case p2p_Close p of
             None \<Rightarrow> None
           | Some _ \<Rightarrow>
               Some (concat (map (\<lambda>(i, tc). case serve_setup (fst (setups i)) (snd (setups i)) tc of (Some n, _) \<Rightarrow> [n] | (None, _) \<Rightarrow> [])
                        (enumerate 0 (sc_Servers cfg))), None)))"

section \<open>Properties\<close>

lemma p2p_Run_host:
  "p2p_Run valid newHost (newP2PSignalingServer cfg) = Some (p, err) \<Longrightarrow> (sp_host p = None) = (err \<noteq> None)"
  by (auto simp: p2p_Run_def newP2PSignalingServer_def split: option.splits if_splits sum.splits)

text \<open>The signaling server can run.\<close>

definition p2p_ready :: "(string \<Rightarrow> bool) \<Rightarrow> (string list \<Rightarrow> goerr + nat \<times> string \<times> string list) \<Rightarrow> 't server_config \<Rightarrow> bool" where
  "p2p_ready valid newHost cfg =
     (case sc_P2P cfg of
        None \<Rightarrow> False
      | Some as \<Rightarrow> (case multi_addrs valid as of None \<Rightarrow> False | Some ms \<Rightarrow> ms \<noteq> [] \<and> (case newHost ms of Inl _ \<Rightarrow> False | Inr _ \<Rightarrow> True)))"

lemma started_names:
  "length (concat (map (\<lambda>(i, tc). case serve_setup (fst (setups i)) (snd (setups i)) tc of (Some n, _) \<Rightarrow> [n] | (None, _) \<Rightarrow> []) (enumerate k tcs))) =
   length (filter (\<lambda>tc. tc_Type tc = ''quic'' \<or> tc_Type tc = ''tcp'') tcs)"
  by (induction tcs arbitrary: k) (auto simp: serve_setup_def Let_def)

text \<open>
  A server that cannot run its signaling server does not report it but panics. \<^verbatim>\<open>Serve\<close> never returns an error: without a
  peer-to-peer configuration, without an address in it, with an address that does not parse, or when libp2p gives no
  host, it panics; otherwise it starts every transport of a known type.
\<close>
theorem Serve_panics_without_p2p:
  "case Serve valid newHost setups cfg of
     None \<Rightarrow> \<not> p2p_ready valid newHost cfg
   | Some (names, err) \<Rightarrow>
       p2p_ready valid newHost cfg \<and> err = None \<and>
       length names = length (filter (\<lambda>tc. tc_Type tc = ''quic'' \<or> tc_Type tc = ''tcp'') (sc_Servers cfg))"
proof (cases "p2p_Run valid newHost (newP2PSignalingServer (sc_P2P cfg))")
  case None
  then show ?thesis by (auto simp: Serve_def p2p_ready_def p2p_Run_def newP2PSignalingServer_def split: option.splits if_splits sum.splits)
next
  case (Some r)
  obtain p err where r: "r = (p, err)" by fastforce
  then have h: "(sp_host p = None) = (err \<noteq> None)" using p2p_Run_host Some by blast
  have "p2p_ready valid newHost cfg = (err = None)"
    using Some r by (auto simp: p2p_ready_def p2p_Run_def newP2PSignalingServer_def split: option.splits if_splits sum.splits)
  then show ?thesis using Some r h started_names [of setups 0 "sc_Servers cfg"]
    by (cases err) (auto simp: Serve_def p2p_Close_def split: option.split)
qed

text \<open>
  Whatever options the server was made with, a transport that was added with a new map, as in \<^verbatim>\<open>cmd/server/main.go\<close>, listens with a
  generated certificate and the default QUIC configuration; the TLS configuration of the server does not reach it.
\<close>

lemma new_transport_uses_defaults:
  "tc_values tc = Some NewMappedConfig \<Longrightarrow>
   quic_server_Setup listen generated tc = Some (listen (host_port (tc_Address tc) (tc_Port tc)) (Some generated) (Some DefaultQuicConfig))"
  by (simp add: quic_server_Setup_def quic_server_settings_def GetMappedConfig_def mapped_Get_def NewMappedConfig_def)

end
