(* ===== verification/Control.thy ===== *)
theory Control
  imports Client_Calls Session_Conn Session_Quic_Props Server_Props
begin

text \<open>
  The interface over which client and server exchange control messages, \<^verbatim>\<open>SendReceiveCloser\<close> of \<^verbatim>\<open>common/session/session.go\<close>, with its two
  implementations, and the loop of the server that answers function calls (\<open>handleFuncCallLoop\<close> in \<^verbatim>\<open>vnet/server/server.go\<close>). \<open>sent\<close> is
  what an end has put on the wire so far, \<open>pending\<close> what the other end has not read yet; \<open>ready\<close> says that an end is not in the middle of a
  message. The result of a receive is \<open>None\<close> while it waits.
\<close>

section \<open>The interface\<close>

fun send_seq :: "(bytes \<Rightarrow> 's \<Rightarrow> 's \<times> goerr option) \<Rightarrow> bytes list \<Rightarrow> 's \<Rightarrow> 's \<times> goerr option" where
  "send_seq snd' [] s = (s, None)"
| "send_seq snd' (d # ds) s = (case snd' d s of (s', None) \<Rightarrow> send_seq snd' ds s' | (s', Some e) \<Rightarrow> (s', Some e))"

fun receive_seq :: "('r \<Rightarrow> 'r \<times> (conn_error + bytes) option) \<Rightarrow> nat \<Rightarrow> 'r \<Rightarrow> 'r \<times> (conn_error + bytes) list" where
  "receive_seq rcv 0 r = (r, [])"
| "receive_seq rcv (Suc k) r =
     (case rcv r of
        (r', None) \<Rightarrow> (r', [])
      | (r', Some x) \<Rightarrow> (case receive_seq rcv k r' of (r'', xs) \<Rightarrow> (r'', x # xs)))"

locale send_receive =
  fixes transmit :: "bytes \<Rightarrow> 's \<Rightarrow> 's \<times> goerr option"
    and sent :: "'s \<Rightarrow> 'w list"
    and accept :: "'r \<Rightarrow> 'r \<times> (conn_error + bytes) option"
    and pending :: "'r \<Rightarrow> 'w list"
    and ready :: "'r \<Rightarrow> bool"
    and fits :: "bytes \<Rightarrow> bool"
  assumes delivers: "transmit d s = (s', None) \<Longrightarrow> fits d \<Longrightarrow>
    \<exists>w. sent s' = sent s @ w \<and>
      (\<forall>r rest. ready r \<and> pending r = w @ rest \<longrightarrow> (\<exists>r'. accept r = (r', Some (Inr d)) \<and> ready r' \<and> pending r' = rest))"
begin

lemma accepts:
  assumes "transmit d s = (s', None)" "fits d" "sent s' = sent s @ w" "ready r" "pending r = w @ rest"
  obtains r' where "accept r = (r', Some (Inr d))" "ready r'" "pending r' = rest"
  using delivers [OF assms(1,2)] assms(3-5) by auto

text \<open>Messages arrive in the order in which they were sent, and none is lost.\<close>

lemma in_order:
  assumes "send_seq transmit ds s = (s', None)" "list_all fits ds"
  shows "\<exists>w. sent s' = sent s @ w \<and>
    (\<forall>r rest. ready r \<and> pending r = w @ rest \<longrightarrow>
       (\<exists>r'. receive_seq accept (length ds) r = (r', map Inr ds) \<and> ready r' \<and> pending r' = rest))"
  using assms
proof (induction ds arbitrary: s)
  case (Cons d ds)
  obtain s1 where s1: "transmit d s = (s1, None)" "send_seq transmit ds s1 = (s', None)"
    using Cons.prems(1) by (auto split: prod.splits option.splits)
  obtain w where w: "sent s1 = sent s @ w" "\<And>r rest. ready r \<Longrightarrow> pending r = w @ rest \<Longrightarrow> \<exists>r'. accept r = (r', Some (Inr d)) \<and> ready r' \<and> pending r' = rest"
    using delivers [OF s1(1)] Cons.prems(2) by auto
  obtain w' where w': "sent s' = sent s1 @ w'" "\<And>r rest. ready r \<Longrightarrow> pending r = w' @ rest \<Longrightarrow>
      \<exists>r'. receive_seq accept (length ds) r = (r', map Inr ds) \<and> ready r' \<and> pending r' = rest"
    using Cons.IH [OF s1(2)] Cons.prems(2) by auto
  have "\<exists>r'. receive_seq accept (length (d # ds)) r = (r', map Inr (d # ds)) \<and> ready r' \<and> pending r' = rest"
    if rr: "ready r" "pending r = (w @ w') @ rest" for r rest
  proof -
    obtain r1 where r1: "accept r = (r1, Some (Inr d))" "ready r1" "pending r1 = w' @ rest" using w(2) [of r "w' @ rest"] rr by auto
    then show ?thesis using w'(2) [of r1 rest] by auto
  qed
  then show ?case using w(1) w'(1) by (intro exI [of _ "w @ w'"]) simp
qed simp

end

section \<open>A session over a stream connection\<close>

definition conn_accept :: "(bytes \<Rightarrow> (string \<times> int) option) \<Rightarrow> upstream \<Rightarrow> upstream \<times> (conn_error + bytes) option" where
  "conn_accept unmarshal u = (case conn_Receive unmarshal u of (u', d, None) \<Rightarrow> (u', Some (Inr d)) | (u', d, Some e) \<Rightarrow> (u', Some (Inl e)))"

definition conn_fits :: "bytes \<Rightarrow> bool" where
  "conn_fits d \<longleftrightarrow> length d < 2 ^ 32"

lemma conn_Send_wire: "conn_Send d u = (u', None) \<Longrightarrow> outb u' = outb u @ conn_frame msgTypeData d"
  by (auto simp: conn_Send_def send_def up_Write_def split: option.splits)

lemma conn_accept_frame:
  "conn_fits d \<Longrightarrow> inb u = conn_frame msgTypeData d @ rest \<Longrightarrow> conn_accept unmarshal u = (u\<lparr>inb := rest\<rparr>, Some (Inr d))"
  using conn_Receive_frame [of d u msgTypeData rest unmarshal]
  by (auto simp: conn_accept_def conn_fits_def msgTypeData_def msgTypeError_def)

interpretation conns: send_receive conn_Send outb "conn_accept unmarshal" inb "\<lambda>_. True" conn_fits for unmarshal
  by unfold_locales (force dest!: conn_Send_wire simp: conn_accept_frame)

section \<open>A session over datagrams\<close>

text \<open>The sender's state is its counter of message ids with the datagrams sent, the receiver's its reassembler with the datagrams that have arrived.\<close>

definition quic_transmit :: "bytes \<Rightarrow> uint32 \<times> bytes list \<Rightarrow> (uint32 \<times> bytes list) \<times> goerr option" where
  "quic_transmit d s = (case s of (ctr, c) \<Rightarrow> case Send record_sd ctr c d of (ctr', c', e) \<Rightarrow> ((ctr', c'), e))"

definition quic_accept ::
    "messageReassembler \<times> bytes list \<Rightarrow> (messageReassembler \<times> bytes list) \<times> (conn_error + bytes) option" where
  "quic_accept s =
     (case s of (r, ds) \<Rightarrow> case Receive (Some r) (map Inr ds) of
        (r', ds', res) \<Rightarrow> ((r', map projr ds'), map_option (map_sum Plain id) res))"

lemma receive_fragments:
  assumes "ms mid = Some d" "sendable d" "i < frag_count d" "P = {mid} \<times> {..<i}"
  shows "receive_loop (partial_state ms P) (map (\<lambda>j. Inr (fragment_datagram d mid (of_nat (frag_count d)) j)) [i..<frag_count d] @ rest) =
    (partial_state ms ({mid} \<times> {..<frag_count d}), rest, Some (Inr d))"
  using assms(3,4)
proof (induction "frag_count d - i" arbitrary: i P)
  case (Suc n)
  let ?g = "fragment_datagram d mid (of_nat (frag_count d)) i" and ?P' = "insert (mid, i) P"
  have long: "\<not> length ?g < 10" by (simp add: fragment_datagram_eq)
  have new: "(mid, i) \<notin> P" and P': "?P' = {mid} \<times> {..<Suc i}" using Suc.prems by auto
  have full: "seen ?P' mid (frag_count d) = {..<frag_count d} \<longleftrightarrow> Suc i = frag_count d"
    using Suc.prems by (auto simp: P' seen_def set_eq_iff)
  have up: "[i..<frag_count d] = i # [Suc i..<frag_count d]" using Suc.prems by (simp add: upt_conv_Cons)
  have step: "receive_loop (partial_state ms P) (Inr ?g # ds) =
     (case (partial_state ms ?P', if Suc i = frag_count d then Some d else None) of
        (r', Some m) \<Rightarrow> (r', ds, Some (Inr m)) | (r', None) \<Rightarrow> receive_loop r' ds)" for ds
    using long addFragment_partial_state [of ms mid d i P, OF assms(1,2) Suc.prems(1) new]
    by (simp add: decode_fragment_datagram [OF assms(2) Suc.prems(1)] full)
  show ?case
  proof (cases "Suc i = frag_count d")
    case True
    then show ?thesis unfolding up list.map append_Cons step using P' by simp
  next
    case False
    then show ?thesis unfolding up list.map append_Cons step using Suc.hyps(1) [of "Suc i" ?P'] Suc.hyps(2) Suc.prems(1) P' by simp
  qed
qed simp

lemma partial_state_none: "partial_state ms {} = newMessageReassembler"
  by (auto simp: partial_state_def seen_def newMessageReassembler_def fun_eq_iff split: option.splits)

lemma partial_state_done:
  "partial_state [mid \<mapsto> d] ({mid} \<times> {..<frag_count d}) = newMessageReassembler"
  by (auto simp: partial_state_def seen_def newMessageReassembler_def fun_eq_iff split: option.splits)

lemma receive_message:
  assumes "sendable d"
  shows "receive_loop newMessageReassembler
     (map Inr (map (fragment_datagram d mid (of_nat (frag_count d))) [0..<frag_count d] @ rest)) = (newMessageReassembler, map Inr rest, Some (Inr d))"
  using receive_fragments [of "[mid \<mapsto> d]" mid d 0 "{}" "map Inr rest"] assms frag_count_bounds [OF assms]
  by (simp add: partial_state_none partial_state_done comp_def)

interpretation quics: send_receive quic_transmit snd quic_accept snd "\<lambda>s. fst s = newMessageReassembler" good_msg
proof unfold_locales
  fix d :: bytes and s s'
  assume d: "quic_transmit d s = (s', None)" "good_msg d"
  obtain ctr c where s: "s = (ctr, c)" by (cases s)
  show "\<exists>w. snd s' = snd s @ w \<and> (\<forall>r rest. fst r = newMessageReassembler \<and> snd r = w @ rest \<longrightarrow>
      (\<exists>r'. quic_accept r = (r', Some (Inr d)) \<and> fst r' = newMessageReassembler \<and> snd r' = rest))"
  proof (cases "length d \<le> 990")
    case True
    then have "plain d" "snd s' = snd s @ [d]" using good_msg_length(2) [OF d(2)] d(1) by (auto simp: quic_transmit_def s Send_short)
    then have "quic_accept r = ((newMessageReassembler, rest), Some (Inr d))" if "fst r = newMessageReassembler" "snd r = [d] @ rest" for r rest
      using that by (cases r; cases "decodeFragmentHeader d") (auto simp: quic_accept_def Receive_def plain_def comp_def)
    then show ?thesis using \<open>snd s' = snd s @ [d]\<close> by auto
  next
    case False
    then have m: "sendable d" using good_msg_length(1) [OF d(2)] by simp
    let ?w = "map (fragment_datagram d (ctr + 1) (of_nat (frag_count d))) [0..<frag_count d]"
    have "snd s' = snd s @ ?w" using d(1) by (auto simp: quic_transmit_def s Send_long [OF m])
    moreover have "quic_accept r = ((newMessageReassembler, rest), Some (Inr d))" if "fst r = newMessageReassembler" "snd r = ?w @ rest" for r rest
      using that receive_message [OF m, of "ctr + 1" rest] by (cases r) (simp add: quic_accept_def Receive_def comp_def)
    ultimately show ?thesis by auto
  qed
qed

section \<open>The server's loop\<close>

text \<open>
  A round of \<open>handleFuncCallLoop\<close>. \<open>stop\<close> is the error of the case that \<^verbatim>\<open>select\<close> takes when the server or the session has ended. \<open>(r, w, s)\<close> are
  the receiving and the sending end of the session and the server; \<open>None\<close> is a run-time panic of a handler.
\<close>

datatype loop_outcome = LoopEnds conn_error | LoopGoesOn "goerr option" | LoopWaits

definition handleFuncCallLoop_round ::
    "('r \<Rightarrow> 'r \<times> (conn_error + bytes) option) \<Rightarrow> (bytes \<Rightarrow> 'w \<Rightarrow> 'w \<times> goerr option) \<Rightarrow>
     (bytes \<Rightarrow> goerr + FuncCallRequest) \<Rightarrow> (FuncCallResponse option \<Rightarrow> bytes) \<Rightarrow> (string \<times> handler) list \<Rightarrow> call_env \<Rightarrow> nat \<Rightarrow>
     goerr option \<Rightarrow> 'r \<times> 'w \<times> server \<Rightarrow> (('r \<times> 'w \<times> server) \<times> loop_outcome) option" where
  "handleFuncCallLoop_round rcv snd' unjson json functions E ref stop st =
     (case st of (r, w, s) \<Rightarrow>
        case stop of
          Some e \<Rightarrow> Some (st, LoopEnds (Plain e))
        | None \<Rightarrow>
            (case rcv r of
               (r', None) \<Rightarrow> Some ((r', w, s), LoopWaits)
             | (r', Some (Inl e)) \<Rightarrow> Some ((r', w, s), LoopEnds e)
             | (r', Some (Inr datagram)) \<Rightarrow>
                 (case HandleFuncCallEvent unjson json functions E ref datagram s of
                    None \<Rightarrow> None
                  | Some (s', None, err) \<Rightarrow> Some ((r', w, s'), LoopGoesOn err)
                  | Some (s', Some msg, _) \<Rightarrow> (case snd' msg w of (w', err) \<Rightarrow> Some ((r', w', s'), LoopGoesOn err)))))"

section \<open>A call from end to end\<close>

lemma handleFuncCall_id: "handleFuncCall functions E ref q s = Some (s', Some resp, err) \<Longrightarrow> fp_RequestId resp = fr_RequestId q"
  by (auto simp: handleFuncCall_def split: option.splits)

text \<open>The steps of a call whose response arrives while it waits.\<close>

lemma call_answered:
  assumes "un_resp D body = Inr (Some resp)" "fp_RequestId resp = uuid"
  shows "\<exists>m'. (call_step D)\<^sup>*\<^sup>* (call_send None uuid, m, msgs) (Returned uuid (Inr resp), m', msgs @ [MessageTypeFuncCall # body]) \<and>
    map_of (funcCallRespChan m') uuid = None"
proof -
  let ?m1 = "call_store uuid m"
  let ?m2 = "?m1\<lparr>funcCallRespChan := AList.update uuid [resp] (funcCallRespChan ?m1)\<rparr>" and ?msg = "MessageTypeFuncCall # body"
  have "call_step D (call_send None uuid, m, msgs) (Waiting uuid, ?m1, msgs)" using store [of D uuid m msgs] by (simp add: call_send_def)
  moreover have "receive_round D ?msg ?m1 = Some (?m2, Delivered)"
    using assms by (simp add: receive_round_def call_store_def update_conv')
  then have "call_step D (Waiting uuid, ?m1, msgs) (Waiting uuid, ?m2, msgs @ [?msg])" by (rule receive) simp
  moreover have "call_step D (Waiting uuid, ?m2, msgs @ [?msg]) (Returned uuid (Inr resp), call_delete uuid ?m2, msgs @ [?msg])"
    by (rule response) (simp add: update_conv')
  moreover have "map_of (funcCallRespChan (call_delete uuid ?m2)) uuid = None" by (simp add: call_delete_def delete_conv')
  ultimately show ?thesis by (meson converse_rtranclp_into_rtranclp rtranclp.rtrancl_refl)
qed

context send_receive
begin

lemma call_served:
  assumes "transmit req cw = (cw', None)" "fits req" "sent cw' = sent cw @ up" "ready sr" "pending sr = up @ more_up"
    and "unjson req = Inr q" "handleFuncCall functions E ref q s = Some (s', Some resp, None)" "fr_RequestId q = uuid"
    and "transmit (MessageTypeFuncCall # json (Some resp)) sw = (sw', None)" "fits (MessageTypeFuncCall # json (Some resp))"
    and "sent sw' = sent sw @ down" "ready cr" "pending cr = down @ more_down" "un_resp D (json (Some resp)) = Inr (Some resp)"
  shows "\<exists>sr' cr' m'. handleFuncCallLoop_round accept transmit unjson json functions E ref None (sr, sw, s) = Some ((sr', sw', s'), LoopGoesOn None) \<and>
    ready sr' \<and> pending sr' = more_up \<and>
    accept cr = (cr', Some (Inr (MessageTypeFuncCall # json (Some resp)))) \<and> ready cr' \<and> pending cr' = more_down \<and>
    (call_step D)\<^sup>*\<^sup>* (call_send None uuid, m, msgs) (Returned uuid (Inr resp), m', msgs @ [MessageTypeFuncCall # json (Some resp)]) \<and>
    map_of (funcCallRespChan m') uuid = None"
proof -
  obtain sr' where sr': "accept sr = (sr', Some (Inr req))" "ready sr'" "pending sr' = more_up" using accepts [OF assms(1-5)] by blast
  obtain cr' where cr': "accept cr = (cr', Some (Inr (MessageTypeFuncCall # json (Some resp))))" "ready cr'" "pending cr' = more_down"
    using accepts [OF assms(9-13)] by blast
  have "handleFuncCallLoop_round accept transmit unjson json functions E ref None (sr, sw, s) = Some ((sr', sw', s'), LoopGoesOn None)"
    using sr'(1) assms(6,7,9) by (simp add: handleFuncCallLoop_round_def HandleFuncCallEvent_def)
  then show ?thesis
    using sr' cr' call_answered [OF assms(14), of uuid m msgs] handleFuncCall_id [OF assms(7)] assms(8) by auto
qed

end

section \<open>Sessions of either kind\<close>

text \<open>
  An end of a session as the program sees it, behind the interface. What is on the wire are bytes of a stream or whole datagrams.
\<close>

datatype send_end = ConnSender upstream | QuicSender "uint32 \<times> bytes list"

datatype receive_end = ConnReceiver upstream | QuicReceiver "messageReassembler \<times> bytes list"

definition session_Send :: "bytes \<Rightarrow> send_end \<Rightarrow> send_end \<times> goerr option" where
  "session_Send d e =
     (case e of
        ConnSender u \<Rightarrow> map_prod ConnSender id (conn_Send d u)
      | QuicSender q \<Rightarrow> map_prod QuicSender id (quic_transmit d q))"

definition session_Receive :: "(bytes \<Rightarrow> (string \<times> int) option) \<Rightarrow> receive_end \<Rightarrow> receive_end \<times> (conn_error + bytes) option" where
  "session_Receive unmarshal e =
     (case e of
        ConnReceiver u \<Rightarrow> map_prod ConnReceiver id (conn_accept unmarshal u)
      | QuicReceiver q \<Rightarrow> map_prod QuicReceiver id (quic_accept q))"

definition on_wire :: "send_end \<Rightarrow> (byte + bytes) list" where
  "on_wire e = (case e of ConnSender u \<Rightarrow> map Inl (outb u) | QuicSender q \<Rightarrow> map Inr (snd q))"

definition arrived :: "receive_end \<Rightarrow> (byte + bytes) list" where
  "arrived e = (case e of ConnReceiver u \<Rightarrow> map Inl (inb u) | QuicReceiver q \<Rightarrow> map Inr (snd q))"

definition between_messages :: "receive_end \<Rightarrow> bool" where
  "between_messages e = (case e of ConnReceiver u \<Rightarrow> True | QuicReceiver q \<Rightarrow> fst q = newMessageReassembler)"

lemma good_msg_conn_fits: "good_msg d \<Longrightarrow> conn_fits d"
  by (auto simp: good_msg_def plain_def sendable_def conn_fits_def)

lemma map_Inl_split: "map Inl xs = map Inl ys @ rest \<longleftrightarrow> (\<exists>zs. xs = ys @ zs \<and> rest = map Inl zs)"
  by (auto simp: map_eq_append_conv inj_map_eq_map)

lemma map_Inr_split: "map Inr xs = map Inr ys @ rest \<longleftrightarrow> (\<exists>zs. xs = ys @ zs \<and> rest = map Inr zs)"
  by (auto simp: map_eq_append_conv inj_map_eq_map)

lemma wires_differ: "xs \<noteq> [] \<Longrightarrow> map Inr ys \<noteq> map Inl xs @ rest" "xs \<noteq> [] \<Longrightarrow> map Inl zs \<noteq> map Inr xs @ rest'"
  by (cases xs; cases ys; cases zs; simp)+

interpretation ends: send_receive session_Send on_wire "session_Receive unmarshal" arrived between_messages good_msg for unmarshal
proof unfold_locales
  fix d :: bytes and s s'
  assume d: "session_Send d s = (s', None)" "good_msg d"
  let ?deliver = "\<lambda>w r rest. \<exists>r'. session_Receive unmarshal r = (r', Some (Inr d)) \<and> between_messages r' \<and> arrived r' = rest"
  show "\<exists>w. on_wire s' = on_wire s @ w \<and> (\<forall>r rest. between_messages r \<and> arrived r = w @ rest \<longrightarrow> ?deliver w r rest)"
  proof (cases s)
    case (ConnSender u)
    let ?w = "conn_frame msgTypeData d"
    obtain u' where u': "conn_Send d u = (u', None)" "s' = ConnSender u'" using d(1) by (cases "conn_Send d u") (auto simp: session_Send_def ConnSender)
    have "?deliver (map Inl ?w) r rest" if r: "arrived r = map Inl ?w @ rest" for r rest
    proof (cases r)
      case (ConnReceiver v)
      then show ?thesis using r conn_accept_frame [OF good_msg_conn_fits [OF d(2)]]
        by (auto simp: arrived_def map_Inl_split session_Receive_def between_messages_def)
    next
      case (QuicReceiver q)
      then show ?thesis using r wires_differ(1) [of ?w "snd q" rest] by (simp add: arrived_def conn_frame_def)
    qed
    then show ?thesis using conn_Send_wire [OF u'(1)] u'(2) by (intro exI [of _ "map Inl ?w"]) (simp add: on_wire_def ConnSender)
  next
    case (QuicSender q)
    obtain q' where q': "quic_transmit d q = (q', None)" "s' = QuicSender q'" using d(1) by (cases "quic_transmit d q") (auto simp: session_Send_def QuicSender)
    obtain w where w: "snd q' = snd q @ w" "\<And>r rest. fst r = newMessageReassembler \<Longrightarrow> snd r = w @ rest \<Longrightarrow>
        \<exists>r'. quic_accept r = (r', Some (Inr d)) \<and> fst r' = newMessageReassembler \<and> snd r' = rest" using quics.delivers [OF q'(1) d(2)] by blast
    have "w \<noteq> []" using w(2) [of "(newMessageReassembler, [])" "[]"] by (auto simp: quic_accept_def Receive_def)
    have "?deliver (map Inr w) r rest" if r: "between_messages r" "arrived r = map Inr w @ rest" for r rest
    proof (cases r)
      case (ConnReceiver v)
      then show ?thesis using r wires_differ(2) [OF \<open>w \<noteq> []\<close>, of "inb v" rest] by (simp add: arrived_def)
    next
      case (QuicReceiver p)
      then obtain zs where "fst p = newMessageReassembler" "snd p = w @ zs" "rest = map Inr zs"
        using r by (auto simp: arrived_def map_Inr_split between_messages_def)
      then show ?thesis using w(2) [of p zs] by (auto simp: arrived_def session_Receive_def between_messages_def QuicReceiver)
    qed
    then show ?thesis using w(1) q'(2) by (intro exI [of _ "map Inr w"]) (simp add: on_wire_def QuicSender)
  qed
qed

text \<open>A response that is received before the call has stored its channel is dropped.\<close>

lemma early_dropped:
  assumes "un_resp D body = Inr (Some resp)" "fp_RequestId resp = uuid" "map_of (funcCallRespChan m) uuid = None"
  shows "receive_round D (MessageTypeFuncCall # body) m = Some (m, Dropped)"
  using assms by (simp add: receive_round_def)

text \<open>
  C8. A function call travels to the server and back, over a session of either kind. The client sends the request; a round of the server's
  loop receives it, calls the function registered under the name and sends the response; the client receives exactly that response. Both ends are then at a
  message boundary again, with what was sent after these messages still to be read. Of the call itself: when its channel is stored before the response is received,
  and the deadline does not come first, it returns the response of the function and leaves no channel behind; a response that is received before the channel is
  stored is dropped. (All messages are encoded, sent and decoded without an error. The time a call took, which the client adds to the response, is left out.)
\<close>
theorem call_end_to_end:
  assumes "session_Send (json_req q) cw = (cw', None)" "good_msg (json_req q)" "on_wire cw' = on_wire cw @ up"
    and "between_messages sr" "arrived sr = up @ more_up" "q = build_request uuid name args" "unjson (json_req q) = Inr q"
    and "handleFuncCall server_functions E ref q s = Some (s', Some resp, None)"
    and "reply = MessageTypeFuncCall # json (Some resp)" "session_Send reply sw = (sw', None)" "good_msg reply" "on_wire sw' = on_wire sw @ down"
    and "between_messages cr" "arrived cr = down @ more_down" "un_resp D (json (Some resp)) = Inr (Some resp)"
  shows "\<exists>sr' cr' m'.
    handleFuncCallLoop_round (session_Receive unmarshal) session_Send unjson json server_functions E ref None (sr, sw, s) =
      Some ((sr', sw', s'), LoopGoesOn None) \<and> between_messages sr' \<and> arrived sr' = more_up \<and>
    session_Receive unmarshal cr = (cr', Some (Inr reply)) \<and> between_messages cr' \<and> arrived cr' = more_down \<and>
    (call_step D)\<^sup>*\<^sup>* (call_send None uuid, m, msgs) (Returned uuid (Inr resp), m', msgs @ [reply]) \<and>
    map_of (funcCallRespChan m') uuid = None \<and>
    (map_of (funcCallRespChan m) uuid = None \<longrightarrow> receive_round D reply m = Some (m, Dropped))"
proof -
  have q: "fr_RequestId q = uuid" using assms(6) by (simp add: build_request_def)
  have "map_of (funcCallRespChan m) uuid = None \<longrightarrow> receive_round D reply m = Some (m, Dropped)"
    using early_dropped [OF assms(15)] handleFuncCall_id [OF assms(8)] q assms(9) by simp
  moreover have "\<exists>sr' cr' m'.
    handleFuncCallLoop_round (session_Receive unmarshal) session_Send unjson json server_functions E ref None (sr, sw, s) =
      Some ((sr', sw', s'), LoopGoesOn None) \<and> between_messages sr' \<and> arrived sr' = more_up \<and>
    session_Receive unmarshal cr = (cr', Some (Inr reply)) \<and> between_messages cr' \<and> arrived cr' = more_down \<and>
    (call_step D)\<^sup>*\<^sup>* (call_send None uuid, m, msgs) (Returned uuid (Inr resp), m', msgs @ [reply]) \<and>
    map_of (funcCallRespChan m') uuid = None"
    using q unfolding assms(9) by (rule ends.call_served [where req = "json_req q" and unjson = unjson and json = json, OF assms(1-5,7,8)]) (use assms(9-15) in simp_all)
  ultimately show ?thesis by metis
qed

definition demo_call_env :: call_env where
  "demo_call_env = \<lparr> ce_now = 7, ce_md5 = id, ce_keys = (\<lambda>_. []), ce_mapping = (\<lambda>_. []), ce_info = [] \<rparr>"

definition demo_stream :: "bytes \<Rightarrow> bytes \<Rightarrow> upstream" where
  "demo_stream i out = \<lparr> inb = i, rfault = EOF, outb = out, wfault = None, up_closed = False \<rparr>"

text \<open>The same call over datagrams and over a stream.\<close>

theorem call_end_to_end_witness:
  "(\<exists>sr' resp m'. handleFuncCallLoop_round (session_Receive (\<lambda>_. None)) session_Send (\<lambda>b. Inr (build_request ''a'' ''register_p2p_peer'' None)) (\<lambda>r. [97])
       server_functions demo_call_env 0 None (QuicReceiver (newMessageReassembler, [[5]]), QuicSender (0, []), demo_server) =
     Some ((sr', QuicSender (0, [[1, 97]]), demo_server), LoopGoesOn None) \<and> fp_Code resp = 0 \<and>
     (call_step demo_decoders)\<^sup>*\<^sup>* (call_send None ''a'', client_NewManager, []) (Returned ''a'' (Inr resp), m', [[1, 97]])) \<and>
   (\<exists>sr' resp m'. handleFuncCallLoop_round (session_Receive (\<lambda>_. None)) session_Send (\<lambda>b. Inr (build_request ''a'' ''register_p2p_peer'' None)) (\<lambda>r. [97])
       server_functions demo_call_env 0 None (ConnReceiver (demo_stream (conn_frame msgTypeData [5]) []), ConnSender (demo_stream [] []), demo_server) =
     Some ((sr', ConnSender (demo_stream [] (conn_frame msgTypeData [1, 97])), demo_server), LoopGoesOn None) \<and> fp_Code resp = 0 \<and>
     (call_step demo_decoders)\<^sup>*\<^sup>* (call_send None ''a'', client_NewManager, []) (Returned ''a'' (Inr resp), m', [[1, 97]]))"
proof (rule conjI)
  let ?q = "build_request ''a'' ''register_p2p_peer'' None" and ?resp = "(ok_response VNil)\<lparr>fp_RequestId := ''a''\<rparr>"
  have s: "quic_transmit [x] (0, []) = ((0, [[x]]), None)" for x by (simp add: quic_transmit_def Send_short)
  have s2: "quic_transmit [1, 97] (0, []) = ((0, [[1, 97]]), None)" by (simp add: quic_transmit_def Send_short)
  have c: "conn_Send d (demo_stream [] []) = (demo_stream [] (conn_frame msgTypeData d), None)" for d
    by (simp add: conn_Send_def send_def up_Write_def demo_stream_def)
  have g: "good_msg [5]" "good_msg [1, 97]" by (simp_all add: good_msg_def plain_def decodeFragmentHeader_def)
  have h: "handleFuncCall server_functions demo_call_env 0 ?q demo_server = Some (demo_server, Some ?resp, None)"
    by (simp add: handleFuncCall_def server_functions_def RegisterHandler_def build_request_def funcRegisterP2PPeer_def ok_response_def)
  have u: "un_resp demo_decoders [97] = Inr (Some ?resp)" by code_simp
  have o: "fp_Code ?resp = 0" by (simp add: ok_response_def)
  show "\<exists>sr' resp m'. handleFuncCallLoop_round (session_Receive (\<lambda>_. None)) session_Send (\<lambda>b. Inr ?q) (\<lambda>r. [97])
       server_functions demo_call_env 0 None (QuicReceiver (newMessageReassembler, [[5]]), QuicSender (0, []), demo_server) =
     Some ((sr', QuicSender (0, [[1, 97]]), demo_server), LoopGoesOn None) \<and> fp_Code resp = 0 \<and>
     (call_step demo_decoders)\<^sup>*\<^sup>* (call_send None ''a'', client_NewManager, []) (Returned ''a'' (Inr resp), m', [[1, 97]])"
  proof -
    have "\<exists>sr' cr' m'. handleFuncCallLoop_round (session_Receive (\<lambda>_. None)) session_Send (\<lambda>b. Inr ?q) (\<lambda>r. [97]) server_functions demo_call_env 0 None
       (QuicReceiver (newMessageReassembler, [[5]]), QuicSender (0, []), demo_server) =
      Some ((sr', QuicSender (0, [[1, 97]]), demo_server), LoopGoesOn None) \<and> between_messages sr' \<and> arrived sr' = [] \<and>
    session_Receive (\<lambda>_. None) (QuicReceiver (newMessageReassembler, [[1, 97]])) = (cr', Some (Inr [1, 97])) \<and> between_messages cr' \<and> arrived cr' = [] \<and>
    (call_step demo_decoders)\<^sup>*\<^sup>* (call_send None ''a'', client_NewManager, []) (Returned ''a'' (Inr ?resp), m', [] @ [[1, 97]]) \<and>
    map_of (funcCallRespChan m') ''a'' = None \<and>
    (map_of (funcCallRespChan client_NewManager) ''a'' = None \<longrightarrow> receive_round demo_decoders [1, 97] client_NewManager = Some (client_NewManager, Dropped))"
      by (rule call_end_to_end [where json_req = "\<lambda>_. [5]" and q = ?q and name = "''register_p2p_peer''" and args = None and cw = "QuicSender (0, [])"
          and cw' = "QuicSender (0, [[5]])" and up = "[Inr [5]]" and down = "[Inr [1, 97]]"])
        (simp_all add: s s2 g h u session_Send_def on_wire_def between_messages_def arrived_def MessageTypeFuncCall_def)
    then show ?thesis using o unfolding append_Nil by blast
  qed
  show "\<exists>sr' resp m'. handleFuncCallLoop_round (session_Receive (\<lambda>_. None)) session_Send (\<lambda>b. Inr ?q) (\<lambda>r. [97])
       server_functions demo_call_env 0 None (ConnReceiver (demo_stream (conn_frame msgTypeData [5]) []), ConnSender (demo_stream [] []), demo_server) =
     Some ((sr', ConnSender (demo_stream [] (conn_frame msgTypeData [1, 97])), demo_server), LoopGoesOn None) \<and> fp_Code resp = 0 \<and>
     (call_step demo_decoders)\<^sup>*\<^sup>* (call_send None ''a'', client_NewManager, []) (Returned ''a'' (Inr resp), m', [[1, 97]])"
  proof -
    have "\<exists>sr' cr' m'. handleFuncCallLoop_round (session_Receive (\<lambda>_. None)) session_Send (\<lambda>b. Inr ?q) (\<lambda>r. [97]) server_functions demo_call_env 0 None
       (ConnReceiver (demo_stream (conn_frame msgTypeData [5]) []), ConnSender (demo_stream [] []), demo_server) =
      Some ((sr', ConnSender (demo_stream [] (conn_frame msgTypeData [1, 97])), demo_server), LoopGoesOn None) \<and> between_messages sr' \<and> arrived sr' = [] \<and>
    session_Receive (\<lambda>_. None) (ConnReceiver (demo_stream (conn_frame msgTypeData [1, 97]) [])) = (cr', Some (Inr [1, 97])) \<and> between_messages cr' \<and> arrived cr' = [] \<and>
    (call_step demo_decoders)\<^sup>*\<^sup>* (call_send None ''a'', client_NewManager, []) (Returned ''a'' (Inr ?resp), m', [] @ [[1, 97]]) \<and>
    map_of (funcCallRespChan m') ''a'' = None \<and>
    (map_of (funcCallRespChan client_NewManager) ''a'' = None \<longrightarrow> receive_round demo_decoders [1, 97] client_NewManager = Some (client_NewManager, Dropped))"
      by (rule call_end_to_end [where json_req = "\<lambda>_. [5]" and q = ?q and name = "''register_p2p_peer''" and args = None and cw = "ConnSender (demo_stream [] [])"
          and cw' = "ConnSender (demo_stream [] (conn_frame msgTypeData [5]))" and up = "map Inl (conn_frame msgTypeData [5])" and down = "map Inl (conn_frame msgTypeData [1, 97])"])
        (simp_all add: c c [unfolded demo_stream_def] demo_stream_def g h u session_Send_def on_wire_def between_messages_def arrived_def MessageTypeFuncCall_def)
    then show ?thesis using o unfolding append_Nil by blast
  qed
qed

section \<open>Closing with an error\<close>

text \<open>
  \<open>CloseWithError\<close> of a datagram session: the reassembler is emptied, and the connection is closed with a code and a text. \<open>plain_text\<close> is the text of an
  error that is no session error.
\<close>

definition quic_CloseWithError ::
    "(goerr \<Rightarrow> string) \<Rightarrow> conn_error option \<Rightarrow> messageReassembler option \<Rightarrow> messageReassembler option \<times> int \<times> string" where
  "quic_CloseWithError plain_text err r =
     (map_option cleanup r,
      case err of
        None \<Rightarrow> (0, ''connection closed'')
      | Some (Plain e) \<Rightarrow> (0, plain_text e)
      | Some (SessionError e) \<Rightarrow> (Code e, Error_text e))"

text \<open>
  The two kinds of session tell the peer the same code exactly for session errors; an error of any other kind is code 500 on a stream and code 0 over QUIC.
\<close>

lemma close_codes:
  "fst (snd (quic_CloseWithError plain_text (Some err) r)) = snd (err_message plain_text err) \<longleftrightarrow> (\<exists>e. err = SessionError e)"
  by (cases err) (simp_all add: quic_CloseWithError_def err_message_def)

end
