(* ===== verification/Server_Run.thy ===== *)
theory Server_Run
  imports Control Tcp_Accept Server_Ops_Props
begin

text \<open>
  The server as a whole: the life of sessions interleaved with everything else that it does for them, the status, usage and metrics
  loops, the function calls and the proxies. None of that touches what a session holds.
\<close>

section \<open>What the loops leave alone\<close>

definition same_session :: "srv_session \<Rightarrow> srv_session \<Rightarrow> bool" where
  "same_session x x' \<longleftrightarrow> ss_network x' = ss_network x \<and> ss_device x' = ss_device x \<and> ss_IP x' = ss_IP x \<and>
     (ss_quota x \<noteq> None \<longrightarrow> ss_quota x' \<noteq> None)"

definition same_net :: "net \<Rightarrow> net \<Rightarrow> bool" where
  "same_net n n' \<longleftrightarrow> net_pool n' = net_pool n \<and> net_router n' = net_router n \<and> net_sessions n' = net_sessions n \<and> net_CIDR n' = net_CIDR n"

definition kept :: "server \<Rightarrow> server \<Rightarrow> bool" where
  "kept s s' \<longleftrightarrow> (\<forall>r. rel_option same_session (sess s r) (sess s' r)) \<and> (\<forall>r. rel_option same_net (nets s r) (nets s' r))"

lemma same_refl [simp]: "same_session x x" "same_net n n"
  by (simp_all add: same_session_def same_net_def)

lemma same_trans:
  "same_session x y \<Longrightarrow> same_session y z \<Longrightarrow> same_session x z"
  "same_net n n' \<Longrightarrow> same_net n' n'' \<Longrightarrow> same_net n n''"
  by (auto simp: same_session_def same_net_def)

lemma rel_option_same [simp]: "rel_option same_session v v" "rel_option same_net w w"
  by (cases v; simp) (cases w; simp)

lemma kept_refl [simp]: "kept s s"
  by (simp add: kept_def)

lemma rel_option_trans:
  "rel_option same_session a b \<Longrightarrow> rel_option same_session b c \<Longrightarrow> rel_option same_session a c"
  "rel_option same_net a' b' \<Longrightarrow> rel_option same_net b' c' \<Longrightarrow> rel_option same_net a' c'"
  by (cases a; cases b; cases c; auto intro: same_trans) (cases a'; cases b'; cases c'; auto intro: same_trans)

lemma kept_trans: "kept s s' \<Longrightarrow> kept s' s'' \<Longrightarrow> kept s s''"
  unfolding kept_def using rel_option_trans by blast

lemma kept_parts: "sess s' = sess s \<Longrightarrow> nets s' = nets s \<Longrightarrow> kept s s'"
  by (simp add: kept_def)

lemma kept_upd_session: "(\<And>x. same_session x (f x)) \<Longrightarrow> kept s (upd_session r f s)"
  by (cases "sess s r") (simp_all add: kept_def upd_session_def)

lemma holds_kept:
  assumes "kept s s'" "holds s r act nref b"
  shows "holds s' r act nref b"
proof -
  obtain x n where x: "sess s r = Some x" "nets s nref = Some n" "act \<longrightarrow> ss_quota x \<noteq> None" "act \<longrightarrow> routes (net_router n) (True, bits b) = Some r"
    using assms(2) by (auto simp: holds_def)
  obtain x' where x': "sess s' r = Some x'" "same_session x x'"
    using assms(1) x(1) unfolding kept_def by (metis option_rel_Some1)
  obtain n' where n': "nets s' nref = Some n'" "same_net n n'"
    using assms(1) x(2) unfolding kept_def by (metis option_rel_Some1)
  show ?thesis by (rule holds_frame [OF assms(2) x(1,2) x'(1), where n' = n']) (use x x' n' in \<open>auto simp: same_session_def same_net_def\<close>)
qed

lemma srv_inv_kept:
  assumes "kept s s'" "srv_inv (s, L, A)"
  shows "srv_inv (s', L, A)"
proof -
  have "pool_ok n'" if n': "nets s' nref = Some n'" for nref n'
  proof -
    obtain n where "nets s nref = Some n" "same_net n n'" using assms(1) n' unfolding kept_def by (metis option_rel_Some2)
    then show ?thesis using assms(2) by (auto simp: srv_inv_def same_net_def pool_ok_def)
  qed
  moreover have "\<exists>nref b. holds s' r (r \<in> A) nref b" if "r \<in> L" for r
    using assms(2) that holds_kept [OF assms(1)] unfolding srv_inv_def prod.case by metis
  ultimately show ?thesis using assms(2) by (simp add: srv_inv_def)
qed

section \<open>Every operation of the running server\<close>

lemma kept_store: "kept s (store k v r s)"
  unfolding store_def by (rule kept_upd_session) (simp add: same_session_def)

lemma kept_Stop: "kept s (session_Stop r s)"
  unfolding session_Stop_def by (rule kept_upd_session) (simp add: same_session_def)

lemma kept_pass:
  assumes "\<And>e s s'. f e s = Some s' \<Longrightarrow> kept s s'" "pass f es s = Some s'"
  shows "kept s s'"
  using assms(2) by (induction es arbitrary: s) (auto split: option.splits intro: kept_trans assms(1))

lemma kept_check: "check_session now e s = Some s' \<Longrightarrow> kept s s'"
  using kept_store kept_trans [OF kept_Stop kept_parts] by (auto simp: check_session_def split: prod.splits option.splits stored.splits if_splits)

lemma kept_updateUsage: "updateUsage e s = Some s' \<Longrightarrow> kept s s'"
  by (auto simp: updateUsage_def CommitUsage_def kept_def same_session_def Let_def split: prod.splits option.splits if_splits)

lemma kept_metrics: "session_metrics e s = Some s' \<Longrightarrow> kept s s'"
  by (auto simp: session_metrics_def kept_def same_session_def same_net_def Let_def split: prod.splits option.splits)

lemma kept_network_metrics: "kept s (network_metrics s)"
proof -
  have "kept s (fold (\<lambda>(_, nref) s. s\<lparr>nets := (nets s)(nref := map_option (\<lambda>n. n\<lparr>net_metrics := UpdateAll (net_metrics n)\<rparr>) (nets s nref))\<rparr>) xs s)" for xs
  proof (induction xs arbitrary: s)
    case (Cons e es)
    let ?f = "\<lambda>(_, nref) s. s\<lparr>nets := (nets s)(nref := map_option (\<lambda>n. n\<lparr>net_metrics := UpdateAll (net_metrics n)\<rparr>) (nets s nref))\<rparr>"
    have "kept s (?f e s)" by (cases e; cases "nets s (snd e)") (simp_all add: kept_def same_net_def)
    then show ?case unfolding fold_Cons comp_apply using Cons.IH by (rule kept_trans)
  qed simp
  then show ?thesis by (simp add: network_metrics_def)
qed

lemma kept_ticks:
  "checkStatus_tick now s = Some s' \<Longrightarrow> kept s s'" "usage_tick s = Some s' \<Longrightarrow> kept s s'" "server_metrics_tick s = Some s' \<Longrightarrow> kept s s'"
  using kept_pass [OF kept_check] kept_pass [OF kept_updateUsage] kept_trans [OF kept_pass [OF kept_metrics] kept_network_metrics]
  by (auto simp: checkStatus_tick_def usage_tick_def server_metrics_tick_def)

lemma kept_functions:
  "map_of server_functions name = Some f \<Longrightarrow> f E ref req s = Some (s', resp, err) \<Longrightarrow> kept s s'"
  using kept_store kept_trans [OF kept_store kept_parts]
  by (auto simp: server_functions_def RegisterHandler_def funcPing_def funcGetRouteData_def funcGetP2PRelayInfo_def funcGetP2PRelayMapping_def
      funcRegisterP2PPeer_def Let_def split: if_splits option.splits any_value.splits)

lemma kept_call: "HandleFuncCallEvent unjson json server_functions E ref data s = Some (s', msg, err) \<Longrightarrow> kept s s'"
  using kept_functions by (fastforce simp: HandleFuncCallEvent_def handleFuncCall_def split: sum.splits option.splits)

lemma kept_count: "kept s (count_tx r k s)" "kept s (count_rx r k s)"
  unfolding count_tx_def count_rx_def by (rule kept_upd_session, simp add: same_session_def)+

lemma kept_add_usage: "add_usage r v s = Some (s', err) \<Longrightarrow> kept s s'"
  by (auto simp: add_usage_def kept_def same_session_def Let_def split: prod.splits option.splits if_splits)

lemma kept_proxy:
  assumes "proxy_round src dst io w s = Some (s', w', res)"
  shows "kept s s'"
proof (cases "0 < nr io")
  case True
  obtain s1 e1 where s1: "add_usage src (int (nr io)) (count_tx src (nr io) s) = Some (s1, e1)" "kept s s1"
    using assms True kept_trans [OF kept_count(1) kept_add_usage] by (auto simp: proxy_round_def Let_def split: option.splits prod.splits)
  show ?thesis
  proof (cases e1)
    case None
    obtain s2 e2 where s2: "add_usage dst (int (nw io)) s1 = Some (s2, e2)" "kept s s2"
      using assms True s1 None kept_trans [OF s1(2) kept_add_usage] by (auto simp: proxy_round_def Let_def split: option.splits prod.splits)
    then show ?thesis using assms True s1 None kept_trans [OF s2(2) kept_count(2)]
      by (auto simp: proxy_round_def Let_def split: option.splits if_splits)
  qed (use assms True s1 in \<open>auto simp: proxy_round_def Let_def\<close>)
qed (use assms in \<open>auto simp: proxy_round_def Let_def\<close>)

section \<open>Accepting sessions\<close>

text \<open>
  A round of the loop of \<open>serve\<close>: \<open>accepted\<close> is the outcome of \<^verbatim>\<open>Accept\<close> of the transport, \<open>ref\<close> the new session. The flag tells whether the loop goes on.
\<close>

definition ToLower :: "string \<Rightarrow> string" where
  "ToLower = map (\<lambda>c. if 65 \<le> (of_char c :: nat) \<and> (of_char c :: nat) \<le> 90 then char_of ((of_char c :: nat) + 32) else c)"

definition serve_round :: "bool \<Rightarrow> string \<Rightarrow> string \<Rightarrow> int \<Rightarrow> goerr + unit \<Rightarrow> nat \<Rightarrow> server \<Rightarrow> server \<times> bool" where
  "serve_round closed' kind uuid now accepted ref s =
     (if closed' then (s, False)
      else case accepted of
        Inl e \<Rightarrow> (s, True)
      | Inr _ \<Rightarrow> (s\<lparr>sess := (sess s)(ref \<mapsto> newServerSession now (ToLower kind @ ''-'' @ uuid))\<rparr>, True))"

section \<open>Networks that come and go\<close>

lemma kept_network_Stop: "kept s (RemoveNetwork nid (network_Stop n s))"
proof -
  have "kept s (fold (\<lambda>(_, ref). session_Stop ref) xs s)" for xs :: "(string \<times> nat) list"
  proof (induction xs arbitrary: s)
    case (Cons e es)
    have "kept s (case e of (_, ref) \<Rightarrow> session_Stop ref s)" by (cases e) (simp add: kept_Stop)
    from kept_trans [OF this Cons.IH] show ?case by (cases e) simp
  qed simp
  then have "kept s (network_Stop n s)" unfolding network_Stop_def by simp
  then show ?thesis using kept_trans kept_parts by (fastforce simp: RemoveNetwork_def)
qed

lemma srv_inv_new_network:
  assumes "srv_inv (s, L, A)" "nets s nref = None" "NewNetwork nid cidr mtu key now = Inr n" "subnetMaskBits (net_pool n) \<le> 32"
  shows "srv_inv (RegisterNetwork nref (s\<lparr>nets := (nets s)(nref \<mapsto> n)\<rparr>), L, A)"
proof -
  let ?s = "RegisterNetwork nref (s\<lparr>nets := (nets s)(nref \<mapsto> n)\<rparr>)"
  have s: "sess ?s = sess s" "nets ?s = (nets s)(nref \<mapsto> n)" by (auto simp: RegisterNetwork_def)
  have "net_CIDR n = cidr" using assms(3) by (auto simp: NewNetwork_def split: sum.splits)
  then have "pool_ok n" using NewNetwork_pool [OF assms(3)] assms(4) by (simp add: pool_ok_def)
  moreover have "holds ?s r act nr b" if h: "holds s r act nr b" for r act nr b
  proof -
    have "nr \<noteq> nref" using h assms(2) by (auto simp: holds_def)
    then show ?thesis using h holds_cong [of ?s r s nr act b] s by simp
  qed
  ultimately show ?thesis using assms(1) s unfolding srv_inv_def prod.case by (metis fun_upd_apply option.inject)
qed

section \<open>The whole server\<close>

inductive server_step :: "server \<times> nat set \<times> nat set \<Rightarrow> server \<times> nat set \<times> nat set \<Rightarrow> bool" where
  life: "srv_step st st' \<Longrightarrow> server_step st st'"
| serving: "sess s ref = None \<Longrightarrow> serve_round sig kind uuid now accepted ref s = (s', on) \<Longrightarrow> server_step (s, L, A) (s', L, A)"
| status: "checkStatus_tick now s = Some s' \<Longrightarrow> server_step (s, L, A) (s', L, A)"
| usage: "usage_tick s = Some s' \<Longrightarrow> server_step (s, L, A) (s', L, A)"
| metrics: "server_metrics_tick s = Some s' \<Longrightarrow> server_step (s, L, A) (s', L, A)"
| call: "HandleFuncCallEvent unjson json server_functions E ref data s = Some (s', msg, err) \<Longrightarrow> server_step (s, L, A) (s', L, A)"
| proxy: "proxy_round src dst io w s = Some (s', w', res) \<Longrightarrow> server_step (s, L, A) (s', L, A)"
| net_start: "nets s nref = None \<Longrightarrow> NewNetwork nid cidr mtu key now = Inr n \<Longrightarrow> subnetMaskBits (net_pool n) \<le> 32 \<Longrightarrow>
    server_step (s, L, A) (RegisterNetwork nref (s\<lparr>nets := (nets s)(nref \<mapsto> n)\<rparr>), L, A)"
| net_stop: "nets s nref = Some n \<Longrightarrow> server_step (s, L, A) (RemoveNetwork nid (network_Stop n s), L, A)"

lemma server_step_inv: "server_step st st' \<Longrightarrow> srv_inv st \<Longrightarrow> srv_inv st'"
proof (induction rule: server_step.induct)
  case (serving s ref sig kind uuid now accepted s' on L A)
  then have "s' = s \<or> srv_step (s, L, A) (s', L, A)"
    using srv_step.accept [OF serving(1)] by (auto simp: serve_round_def split: if_splits sum.splits)
  then show ?case using serving.prems srv_inv_step by blast
qed (blast intro: srv_inv_step srv_inv_kept kept_ticks kept_call kept_proxy srv_inv_new_network kept_network_Stop)+

lemma server_inv: "server_step\<^sup>*\<^sup>* (s0, {}, {}) st \<Longrightarrow> boot s0 \<Longrightarrow> srv_inv st"
  by (induction rule: rtranclp_induct) (auto intro: boot_inv server_step_inv)




lemma active_holds:
  assumes "srv_inv (s, L, A)" "ref \<in> A"
  obtains nref b where "holds s ref True nref b"
proof -
  have "ref \<in> L" "\<forall>r \<in> L. \<exists>nref b. holds s r (r \<in> A) nref b" using assms by (auto simp: srv_inv_def)
  then obtain nref b where "holds s ref (ref \<in> A) nref b" by blast
  then show thesis using that assms(2) by simp
qed




lemma demo_running: "\<exists>s x. server_step\<^sup>*\<^sup>* (demo_server, {}, {}) (s, {0}, {0}) \<and> sess s 0 = Some x \<and> ss_network x = Some 0 \<and> ss_IP x = ''10.0.0.5''"
proof -
  have f: "map_option (\<lambda>(s, ok). (hold_facts s 0, net_facts s, ok)) (enter [] ''a'' 0 demo_server) =
      Some (Some (Some 0, ''10.0.0.5'', Some ''10.0.0.5/24'', True), Some (True, Some 0, Some 0, 24), True)" by code_simp
  then obtain s where s: "enter [] ''a'' 0 demo_server = Some (s, True)" "hold_facts s 0 = Some (Some 0, ''10.0.0.5'', Some ''10.0.0.5/24'', True)"
    by (auto split: prod.splits)
  have "srv_step\<^sup>*\<^sup>* (demo_server, {}, {}) (s, {0}, {0})" using enter_steps [OF s(1)] by (simp add: demo_server_def)
  then have "server_step\<^sup>*\<^sup>* (demo_server, {}, {}) (s, {0}, {0})" by (rule mono_rtranclp [rule_format, rotated]) (rule life)
  then show ?thesis using s(2) by (auto simp: hold_facts_def)
qed


text \<open>
  C9. A session that ends gives everything back. In any state the server can reach without a login that names a previous session, the deferred release of a session
  in its loop frees its address for the next login, removes its route and its entry in the table of sessions, closes its connection and submits the usage not
  yet accounted. The records of all other sessions stay as they are, every other session in its loop keeps its lease and its route, and the table of sessions
  changes at the address of the ended session only. (That table is keyed by the address alone, so a session of another network with this address loses its entry.)
\<close>
theorem session_end_restores:
  assumes "server_step\<^sup>*\<^sup>* (s0, {}, {}) (s, L, A)" "boot s0" "ref \<in> A"
  shows "\<exists>s' x q nref n' b. session_finish ref s = Some s' \<and> sess s ref = Some x \<and> ss_quota x = Some q \<and> ss_network x = Some nref \<and> ss_IP x = ip4_text b \<and>
     nets s' nref = Some n' \<and> ip4_text b \<notin> allocated (net_pool n') \<and> routes (net_router n') (True, bits b) = None \<and>
     map_of (sessions s') (ss_IP x) = None \<and> (\<exists>x'. sess s' ref = Some x' \<and> ss_conn_closed x') \<and>
     submissions s' = submissions s @ (if usage q = 0 then [] else [(ref, usage q)]) \<and>
     (\<forall>r. r \<noteq> ref \<longrightarrow> sess s' r = sess s r) \<and> (\<forall>a. a \<noteq> ss_IP x \<longrightarrow> map_of (sessions s') a = map_of (sessions s) a) \<and>
     (\<forall>r \<in> A - {ref}. \<exists>y nr n b'. sess s' r = Some y \<and> ss_network y = Some nr \<and> nets s' nr = Some n \<and> ss_IP y = ip4_text b' \<and>
        ip4_text b' \<in> allocated (net_pool n) \<and> lookupIPv4 (net_router n) b' = Some r)"
proof -
  have inv: "srv_inv (s, L, A)" using server_inv [OF assms(1,2)] .
  obtain nref b where h: "holds s ref True nref b" using active_holds [OF inv assms(3)] .
  obtain x n dev q where x: "sess s ref = Some x" "ss_quota x = Some q" "ss_network x = Some nref" "ss_IP x = ip4_text b" "nets s nref = Some n"
    "ss_device x = Some dev" using h by (auto simp: holds_def)
  obtain s' n' where f: "session_finish ref s = Some s'" "nets s' nref = Some n'" "routes (net_router n') (True, bits b) = None"
    "ip4_text b \<notin> allocated (net_pool n')" "map_of (sessions s') (ip4_text b) = None" "\<exists>x'. sess s' ref = Some x' \<and> ss_conn_closed x'"
    using finish_unroutes [OF h] by blast
  have sub: "submissions s' = submissions s @ (if usage q = 0 then [] else [(ref, usage q)])"
    using f(1) x by (auto simp: session_finish_def session_Release_def CommitUsage_def CloseWithError_def upd_session_def Let_def
        split: option.splits prod.splits if_splits)
  have rest: "sess s' r = sess s r" "map_of (sessions s') a = map_of (sessions s) a" if "r \<noteq> ref" "a \<noteq> ss_IP x" for r a
    using f(1) x that by (auto simp: session_finish_def session_Release_def CloseWithError_def upd_session_def delete_conv' Let_def
        split: option.splits prod.splits if_splits)
  have others: "sess s' r = sess s r" if "r \<noteq> ref" for r using rest(1) [OF that, of "''x'' @ ss_IP x"] by simp
  have table: "map_of (sessions s') a = map_of (sessions s) a" if "a \<noteq> ss_IP x" for a using rest(2) [of "Suc ref"] that by simp
  have "server_step (s, L, A) (s', L - {ref}, A - {ref})" using assms(3) f(1) by (intro life finish)
  then have inv': "srv_inv (s', L - {ref}, A - {ref})" using inv by (rule server_step_inv)
  have "\<exists>y nr n b'. sess s' r = Some y \<and> ss_network y = Some nr \<and> nets s' nr = Some n \<and> ss_IP y = ip4_text b' \<and>
        ip4_text b' \<in> allocated (net_pool n) \<and> lookupIPv4 (net_router n) b' = Some r" if "r \<in> A - {ref}" for r
    using srv_inv_active [OF inv' that] by blast
  then show ?thesis using f sub x others table by (intro exI [of _ s'] exI [of _ x] exI [of _ q] exI [of _ nref] exI [of _ n'] exI [of _ b]) simp
qed

theorem session_end_restores_witness:
  "\<exists>s s' n'. server_step\<^sup>*\<^sup>* (demo_server, {}, {}) (s, {0}, {0}) \<and> session_finish 0 s = Some s' \<and> nets s' 0 = Some n' \<and>
     ''10.0.0.5'' \<notin> allocated (net_pool n') \<and> map_of (sessions s') ''10.0.0.5'' = None"
proof -
  obtain s x where s: "server_step\<^sup>*\<^sup>* (demo_server, {}, {}) (s, {0}, {0})" "sess s 0 = Some x" "ss_network x = Some 0" "ss_IP x = ''10.0.0.5''"
    using demo_running by blast
  then obtain s' n' where "session_finish 0 s = Some s'" "nets s' 0 = Some n'" "ss_IP x \<notin> allocated (net_pool n')" "map_of (sessions s') (ss_IP x) = None"
    using session_end_restores [OF s(1) demo_boot, of 0] by auto
  then show ?thesis using s(1,4) by (intro exI [of _ s] exI [of _ s'] exI [of _ n']) simp
qed

end
