(* ===== verification/Hub_Life.thy ===== *)
theory Hub_Life
  imports Hub_Rx
begin

text \<open>
  The life of the hub: \<^verbatim>\<open>NewHub\<close>, \<^verbatim>\<open>Start\<close> and \<^verbatim>\<open>Stop\<close> of \<^verbatim>\<open>vnet/client/hub/hub.go\<close> with the goroutines they start, and the way a
  signal channel is closed here and in the rest of the program: a check whether it is closed, then \<^verbatim>\<open>close\<close>, with no lock around the two.
\<close>

section \<open>Closing a signal channel\<close>

text \<open>
  A goroutine in \<open>Stop\<close> of a session, \<open>Stop\<close> of the hub, or the \<open>cancel\<close> function of \<open>HandleRx\<close>. \<open>None\<close> is the run-time panic of closing a closed channel.
\<close>

datatype stop_pc = StopCheck | StopClose | StopDone

fun stop_step :: "bool \<Rightarrow> stop_pc \<Rightarrow> (bool \<times> stop_pc) option" where
  "stop_step sig StopCheck = Some (sig, if sig then StopDone else StopClose)"
| "stop_step sig StopClose = (if sig then None else Some (True, StopDone))"
| "stop_step sig StopDone = Some (sig, StopDone)"

text \<open>The same call run without interference: it closes the channel if that is still open.\<close>

definition stop_call :: "bool \<Rightarrow> bool option" where
  "stop_call sig = (case stop_step sig StopCheck of None \<Rightarrow> None | Some (sig, pc) \<Rightarrow> map_option fst (stop_step sig pc))"

lemma stop_call_closes: "stop_call sig = Some True"
  by (cases sig) (simp_all add: stop_call_def)

text \<open>
  Goroutines that each make a number of calls, one after the other: the place in the current call and the calls still to make.
\<close>

inductive stop_run :: "bool \<times> (stop_pc \<times> nat) list \<Rightarrow> bool \<times> (stop_pc \<times> nat) list \<Rightarrow> bool" where
  enter: "i < length gs \<Longrightarrow> gs ! i = (StopDone, Suc k) \<Longrightarrow> stop_run (sig, gs) (sig, gs[i := (StopCheck, k)])"
| inside: "i < length gs \<Longrightarrow> gs ! i = (pc, k) \<Longrightarrow> pc \<noteq> StopDone \<Longrightarrow> stop_step sig pc = Some (sig', pc') \<Longrightarrow>
     stop_run (sig, gs) (sig', gs[i := (pc', k)])"

inductive_cases stop_runE: "stop_run (sig, gs) (sig', gs')"

definition stop_start :: "nat list \<Rightarrow> bool \<times> (stop_pc \<times> nat) list" where
  "stop_start calls = (False, map (Pair StopDone) calls)"

definition stop_panics :: "bool \<times> (stop_pc \<times> nat) list \<Rightarrow> bool" where
  "stop_panics st \<longleftrightarrow> (case st of (sig, gs) \<Rightarrow> \<exists>i < length gs. stop_step sig (fst (gs ! i)) = None)"

text \<open>At most one goroutine is inside a call.\<close>

definition alone :: "bool \<times> (stop_pc \<times> nat) list \<Rightarrow> bool" where
  "alone st \<longleftrightarrow> (case st of (sig, gs) \<Rightarrow>
     \<forall>i < length gs. \<forall>j < length gs. fst (gs ! i) \<noteq> StopDone \<longrightarrow> fst (gs ! j) \<noteq> StopDone \<longrightarrow> i = j)"

text \<open>What every run keeps: goroutines without calls stay idle, and a call that has returned left the channel closed.\<close>

definition stop_inv :: "nat list \<Rightarrow> bool \<times> (stop_pc \<times> nat) list \<Rightarrow> bool" where
  "stop_inv calls st \<longleftrightarrow> (case st of (sig, gs) \<Rightarrow> length gs = length calls \<and>
     (\<forall>i < length gs. (calls ! i = 0 \<longrightarrow> gs ! i = (StopDone, 0)) \<and>
        (fst (gs ! i) = StopDone \<longrightarrow> snd (gs ! i) < calls ! i \<longrightarrow> sig)))"

text \<open>What runs without overlapping calls keep: a goroutine about to close the channel finds it open.\<close>

definition close_ok :: "bool \<times> (stop_pc \<times> nat) list \<Rightarrow> bool" where
  "close_ok st \<longleftrightarrow> (case st of (sig, gs) \<Rightarrow> \<forall>i < length gs. fst (gs ! i) = StopClose \<longrightarrow> \<not> sig)"

lemma stop_step_cases:
  "stop_step sig pc = Some (sig', pc') \<Longrightarrow> pc \<noteq> StopDone \<Longrightarrow>
     (pc = StopCheck \<and> sig' = sig \<and> pc' = (if sig then StopDone else StopClose)) \<or> (pc = StopClose \<and> \<not> sig \<and> sig' \<and> pc' = StopDone)"
  by (cases pc) (auto split: if_splits)

lemma stop_inv_step: "stop_run st st' \<Longrightarrow> stop_inv calls st \<Longrightarrow> stop_inv calls st'"
proof (induction rule: stop_run.induct)
  case (enter i gs k sig)
  then show ?case by (auto simp: stop_inv_def nth_list_update)
next
  case (inside i gs pc k sig sig' pc')
  then show ?case using stop_step_cases [OF inside.hyps(4) inside.hyps(3)]
    by (auto simp: stop_inv_def nth_list_update split: if_splits)
qed

lemma stop_inv_run: "stop_run\<^sup>*\<^sup>* (stop_start calls) st \<Longrightarrow> stop_inv calls st"
proof (induction rule: rtranclp_induct)
  case base
  show ?case by (auto simp: stop_inv_def stop_start_def)
next
  case (step st st')
  then show ?case by (blast intro: stop_inv_step)
qed

lemma close_ok_step: "stop_run st st' \<Longrightarrow> alone st \<Longrightarrow> close_ok st \<Longrightarrow> close_ok st'"
proof (induction rule: stop_run.induct)
  case (enter i gs k sig)
  then show ?case by (auto simp: close_ok_def nth_list_update)
next
  case (inside i gs pc k sig sig' pc')
  have only: "fst (gs ! j) = StopDone" if "j < length gs" "j \<noteq> i" for j
  proof (rule ccontr)
    assume "fst (gs ! j) \<noteq> StopDone"
    then show False using inside.prems(1) inside.hyps(1-3) that unfolding alone_def split_conv by (metis fst_conv)
  qed
  have "\<not> sig'" if j: "j < length gs" "fst (gs[i := (pc', k)] ! j) = StopClose" for j
  proof (cases "j = i")
    case True
    then show ?thesis using stop_step_cases [OF inside.hyps(4) inside.hyps(3)] j by (auto split: if_splits)
  next
    case False
    then show ?thesis using only [of j] j by simp
  qed
  then show ?case by (simp add: close_ok_def)
qed

lemma close_ok_run:
  "(\<lambda>s s'. stop_run s s' \<and> alone s')\<^sup>*\<^sup>* (stop_start calls) st \<Longrightarrow> alone st \<and> close_ok st"
proof (induction rule: rtranclp_induct)
  case base
  show ?case by (simp add: alone_def close_ok_def stop_start_def)
next
  case (step st st')
  then show ?case by (blast intro: close_ok_step)
qed

lemma close_ok_panics: "close_ok st \<Longrightarrow> \<not> stop_panics st"
proof -
  obtain sig gs where st: "st = (sig, gs)" by (cases st)
  have "stop_step sig pc = None \<Longrightarrow> pc = StopClose \<and> sig" for pc by (cases pc) (simp_all split: if_splits)
  then show "close_ok st \<Longrightarrow> \<not> stop_panics st" unfolding close_ok_def stop_panics_def st split_conv by blast
qed

text \<open>With one goroutine that calls, all runs are without overlap.\<close>

lemma one_caller_alone:
  assumes "stop_run\<^sup>*\<^sup>* (stop_start calls) st"
    and one: "\<not> (\<exists>i j. i < j \<and> j < length calls \<and> 0 < calls ! i \<and> 0 < calls ! j)"
  shows "(\<lambda>s s'. stop_run s s' \<and> alone s')\<^sup>*\<^sup>* (stop_start calls) st"
  using assms(1)
proof (induction rule: rtranclp_induct)
  case (step st st')
  obtain sig gs where st': "st' = (sig, gs)" by (cases st')
  have inv: "stop_inv calls st'" using stop_inv_run step.hyps rtranclp.rtrancl_into_rtrancl by metis
  have pos: "0 < calls ! i" if "i < length gs" "fst (gs ! i) \<noteq> StopDone" for i
  proof (rule ccontr)
    assume "\<not> 0 < calls ! i"
    then have "gs ! i = (StopDone, 0)" using inv that(1) by (simp add: stop_inv_def st')
    then show False using that(2) by simp
  qed
  have len: "length gs = length calls" using inv by (simp add: stop_inv_def st')
  have "i = j" if "i < length gs" "j < length gs" "fst (gs ! i) \<noteq> StopDone" "fst (gs ! j) \<noteq> StopDone" for i j
    using pos [OF that(1,3)] pos [OF that(2,4)] one that(1,2) len linorder_neqE_nat [of i j] by metis
  then have "alone st'" by (simp add: alone_def st')
  then show ?case using step.IH step.hyps(2) by (simp add: rtranclp.rtrancl_into_rtrancl)
qed simp

lemma two_callers_panic:
  assumes "i < j" "j < length calls" "0 < calls ! i" "0 < calls ! j"
  shows "\<exists>st. stop_run\<^sup>*\<^sup>* (stop_start calls) st \<and> stop_panics st"
proof -
  let ?gs = "map (Pair StopDone) calls"
  obtain a b where ab: "calls ! i = Suc a" "calls ! j = Suc b" using assms by (metis gr0_implies_Suc)
  let ?g1 = "?gs[i := (StopCheck, a)]" let ?g2 = "?g1[j := (StopCheck, b)]"
  let ?g3 = "?g2[i := (StopClose, a)]" let ?g4 = "?g3[j := (StopClose, b)]" let ?g5 = "?g4[i := (StopDone, a)]"
  have ij: "i \<noteq> j" "j \<noteq> i" "i < length calls" using assms by simp_all
  have "stop_run (False, ?gs) (False, ?g1)" by (rule enter) (simp_all add: ij ab)
  moreover have "stop_run (False, ?g1) (False, ?g2)" by (rule enter) (simp_all add: ij ab assms)
  moreover have "stop_run (False, ?g2) (False, ?g3)" by (rule inside [where pc = StopCheck]) (simp_all add: ij)
  moreover have "stop_run (False, ?g3) (False, ?g4)" by (rule inside [where pc = StopCheck]) (simp_all add: ij assms)
  moreover have "stop_run (False, ?g4) (True, ?g5)" by (rule inside [where pc = StopClose]) (simp_all add: ij)
  ultimately have "stop_run\<^sup>*\<^sup>* (stop_start calls) (True, ?g5)"
    unfolding stop_start_def by (meson converse_rtranclp_into_rtranclp rtranclp.rtrancl_refl)
  moreover have "stop_panics (True, ?g5)" unfolding stop_panics_def using ij assms by (auto intro!: exI [of _ j])
  ultimately show ?thesis by blast
qed

text \<open>
  C37. Stopping is safe as long as calls do not overlap. Let any number of goroutines stop the same session, hub or receiver any number of times each.
  A call that has returned leaves the channel closed; no run in which at most one goroutine is inside a call at a time panics, however often
  it is called; and a run that panics exists exactly when at least two goroutines call: both find the channel open and the second to close it panics.
\<close>
theorem concurrent_stop_panics:
  "(\<forall>sig gs. stop_run\<^sup>*\<^sup>* (stop_start calls) (sig, gs) \<longrightarrow>
      (\<forall>i < length calls. fst (gs ! i) = StopDone \<longrightarrow> snd (gs ! i) < calls ! i \<longrightarrow> sig)) \<and>
   (\<forall>st. (\<lambda>s s'. stop_run s s' \<and> alone s')\<^sup>*\<^sup>* (stop_start calls) st \<longrightarrow> \<not> stop_panics st) \<and>
   ((\<exists>st. stop_run\<^sup>*\<^sup>* (stop_start calls) st \<and> stop_panics st) \<longleftrightarrow>
      (\<exists>i j. i < j \<and> j < length calls \<and> 0 < calls ! i \<and> 0 < calls ! j))"
proof (intro conjI allI impI)
  fix sig gs i
  assume "stop_run\<^sup>*\<^sup>* (stop_start calls) (sig, gs)" "i < length calls" "fst (gs ! i) = StopDone" "snd (gs ! i) < calls ! i"
  then show sig using stop_inv_run [of calls "(sig, gs)"] by (auto simp: stop_inv_def)
next
  fix st
  assume "(\<lambda>s s'. stop_run s s' \<and> alone s')\<^sup>*\<^sup>* (stop_start calls) st"
  then show "\<not> stop_panics st" using close_ok_run close_ok_panics by blast
next
  show "(\<exists>st. stop_run\<^sup>*\<^sup>* (stop_start calls) st \<and> stop_panics st) \<longleftrightarrow>
      (\<exists>i j. i < j \<and> j < length calls \<and> 0 < calls ! i \<and> 0 < calls ! j)"
    using one_caller_alone close_ok_run close_ok_panics two_callers_panic by blast
qed

text \<open>One goroutine that stops twice never panics and has closed the channel when it is done; two that stop once each may panic.\<close>

theorem concurrent_stop_panics_witness:
  "stop_run\<^sup>*\<^sup>* (stop_start [2]) (True, [(StopDone, 0)]) \<and> \<not> (\<exists>st. stop_run\<^sup>*\<^sup>* (stop_start [2]) st \<and> stop_panics st) \<and>
   (\<exists>st. stop_run\<^sup>*\<^sup>* (stop_start [1, 1]) st \<and> stop_panics st)"
proof (intro conjI)
  have "stop_run (False, [(StopDone, 2)]) (False, [(StopCheck, 1)])" using enter [of 0 "[(StopDone, 2)]" 1 False] by simp
  moreover have "stop_run (False, [(StopCheck, 1)]) (False, [(StopClose, 1)])" using inside [of 0 "[(StopCheck, 1)]" StopCheck 1 False False] by simp
  moreover have "stop_run (False, [(StopClose, 1)]) (True, [(StopDone, 1)])" using inside [of 0 "[(StopClose, 1)]" StopClose 1 False True] by simp
  moreover have "stop_run (True, [(StopDone, 1)]) (True, [(StopCheck, 0)])" using enter [of 0 "[(StopDone, 1)]" 0 True] by simp
  moreover have "stop_run (True, [(StopCheck, 0)]) (True, [(StopDone, 0)])" using inside [of 0 "[(StopCheck, 0)]" StopCheck 0 True True] by simp
  ultimately show "stop_run\<^sup>*\<^sup>* (stop_start [2]) (True, [(StopDone, 0)])"
    unfolding stop_start_def list.map by (meson converse_rtranclp_into_rtranclp rtranclp.rtrancl_refl)
  show "\<not> (\<exists>st. stop_run\<^sup>*\<^sup>* (stop_start [2]) st \<and> stop_panics st)"
    using concurrent_stop_panics [of "[2]"] by auto
  show "\<exists>st. stop_run\<^sup>*\<^sup>* (stop_start [1, 1]) st \<and> stop_panics st"
  proof -
    have "0 < (1::nat) \<and> 1 < length [1::nat, 1] \<and> 0 < [1::nat, 1] ! 0 \<and> 0 < [1::nat, 1] ! 1" by simp
    then show ?thesis using concurrent_stop_panics [of "[1, 1]"] by blast
  qed
qed

section \<open>The hub\<close>

text \<open>\<open>NewHub\<close>: \<open>batch\<close> and \<open>headroom\<close> are what the Linux device answers. The hub keeps its configuration, the flag of its signal channel and its router.\<close>

record 'd hub =
  hb_cfg :: hub_config
  hb_sig :: bool
  hb_router :: "'d router"

definition NewHub :: "string \<Rightarrow> nat \<Rightarrow> nat \<Rightarrow> hub_config \<Rightarrow> 'd hub" where
  "NewHub goos batch headroom cfg =
     \<lparr> hb_cfg = (if goos = ''windows'' then cfg\<lparr>BatchSize := 128\<rparr>
                 else if goos = ''linux'' then cfg\<lparr>BatchSize := batch, HeaderSize := headroom\<rparr> else cfg),
       hb_sig = False, hb_router = NewRouter \<rparr>"

definition hub_Stop :: "'d hub \<Rightarrow> 'd hub option" where
  "hub_Stop h = map_option (\<lambda>sig. h\<lparr>hb_sig := sig\<rparr>) (stop_call (hb_sig h))"

section \<open>Its goroutines\<close>

text \<open>
  \<open>Start\<close> runs \<open>txLoop\<close>, which starts the reader of the device, and \<open>rxLoop\<close>. On Linux reader and writer first run the loop for batches and, when that
  has returned, the loop for single packets, since the cases of the switch do not return. \<open>hl_err\<close> is the variable that the reader and the deferred
  function of \<open>txLoop\<close> share.
\<close>

datatype dev_loop = BatchLoop | SingleLoop | LoopGone

record hub_life =
  hl_sig :: bool
  hl_tx :: bool
  hl_reader :: dev_loop
  hl_writer :: dev_loop
  hl_err :: "goerr option"

definition hub_Start :: "string \<Rightarrow> 'd hub \<Rightarrow> hub_life" where
  "hub_Start goos h =
     (let first = (if goos = ''linux'' then BatchLoop else SingleLoop)
      in \<lparr> hl_sig = hb_sig h, hl_tx = True, hl_reader = first, hl_writer = first, hl_err = None \<rparr>)"

text \<open>
  What may happen: the device fails while it is read or written, a loop of the reader or the transmit loop finds the signal channel closed, or the client stops the hub.
  \<open>None\<close>: this cannot happen now. The deferred function of \<open>txLoop\<close> stops the hub if the reader has stored an error.
\<close>

datatype hub_event = ReadFails goerr | ReaderStops | TxStops | WriteFails goerr | ClientStops

fun loop_after :: "dev_loop \<Rightarrow> dev_loop" where
  "loop_after BatchLoop = SingleLoop"
| "loop_after SingleLoop = LoopGone"
| "loop_after LoopGone = LoopGone"

fun hub_exec :: "hub_event \<Rightarrow> hub_life \<Rightarrow> hub_life option" where
  "hub_exec (ReadFails e) h = (if hl_reader h = LoopGone then None else Some (h\<lparr>hl_reader := loop_after (hl_reader h), hl_err := Some e\<rparr>))"
| "hub_exec ReaderStops h =
     (if hl_reader h = LoopGone \<or> \<not> hl_sig h then None else Some (h\<lparr>hl_reader := loop_after (hl_reader h), hl_err := None\<rparr>))"
| "hub_exec TxStops h = (if \<not> hl_tx h \<or> \<not> hl_sig h then None else Some (h\<lparr>hl_tx := False, hl_sig := hl_sig h \<or> hl_err h \<noteq> None\<rparr>))"
| "hub_exec (WriteFails e) h = (if hl_writer h = LoopGone then None else Some (h\<lparr>hl_writer := loop_after (hl_writer h), hl_sig := True\<rparr>))"
| "hub_exec ClientStops h = Some (h\<lparr>hl_sig := True\<rparr>)"

fun hub_run :: "hub_event list \<Rightarrow> hub_life \<Rightarrow> hub_life option" where
  "hub_run [] h = Some h"
| "hub_run (e # es) h = (case hub_exec e h of None \<Rightarrow> None | Some h' \<Rightarrow> hub_run es h')"

fun stops_hub :: "hub_event \<Rightarrow> bool" where
  "stops_hub (WriteFails e) = True"
| "stops_hub ClientStops = True"
| "stops_hub _ = False"

lemma hub_run_unstopped:
  "hub_run es h = Some h' \<Longrightarrow> \<not> hl_sig h \<Longrightarrow> hl_tx h \<Longrightarrow> list_all (Not \<circ> stops_hub) es \<Longrightarrow> \<not> hl_sig h' \<and> hl_tx h' \<and> hl_writer h' = hl_writer h"
proof (induction es arbitrary: h)
  case (Cons e es)
  then show ?case by (cases e) (auto split: if_splits)
qed simp

lemma hub_run_writer:
  "hub_run es h = Some h' \<Longrightarrow> \<forall>e. WriteFails e \<notin> set es \<Longrightarrow> hl_writer h' = hl_writer h"
proof (induction es arbitrary: h)
  case (Cons e es)
  then show ?case by (cases e) (auto split: if_splits)
qed simp

text \<open>
  C38. A device that can no longer be read does not stop the hub. The error is kept for the deferred function of the transmit loop, but that loop ends only when
  the hub has been stopped already: whatever errors the reader gets, the hub stays open, its transmit loop and its writer go on, and nobody is
  told, unless the client stops it or a write fails. And stopping the hub never ends the writer, which only a failing write can do.
\<close>
theorem device_failure_unnoticed:
  assumes "hub_run es (hub_Start goos (NewHub goos batch headroom cfg)) = Some h"
  shows "(list_all (Not \<circ> stops_hub) es \<longrightarrow> \<not> hl_sig h \<and> hl_tx h) \<and> ((\<forall>e. WriteFails e \<notin> set es) \<longrightarrow> hl_writer h \<noteq> LoopGone)"
  using hub_run_unstopped [OF assms] hub_run_writer [OF assms] by (auto simp: hub_Start_def NewHub_def Let_def)

theorem device_failure_unnoticed_witness:
  "\<exists>h. hub_run [ReadFails EOF, ReadFails EOF] (hub_Start ''linux'' (NewHub ''linux'' 128 10 \<lparr> BatchSize = 1, HeaderSize = 0, MTU = 1400, MaxRxEventBuf = 4, MaxTxEventBuf = 4 \<rparr> :: nat hub)) = Some h \<and>
     hl_reader h = LoopGone \<and> hl_err h = Some EOF \<and> \<not> hl_sig h \<and> hl_tx h \<and> hl_writer h \<noteq> LoopGone"
proof -
  let ?h = "hub_Start ''linux'' (NewHub ''linux'' 128 10 \<lparr> BatchSize = 1, HeaderSize = 0, MTU = 1400, MaxRxEventBuf = 4, MaxTxEventBuf = 4 \<rparr> :: nat hub)"
  obtain h where h: "hub_run [ReadFails EOF, ReadFails EOF] ?h = Some h" "hl_reader h = LoopGone" "hl_err h = Some EOF"
    by (simp add: hub_Start_def)
  then show ?thesis using device_failure_unnoticed [OF h(1)] by simp
qed

section \<open>A receiver\<close>

text \<open>
  A round of the goroutine that \<open>HandleRx\<close> starts, with its signal channel, its transport and the last error. A round that ends runs the deferred function: it closes the
  transport, closes the signal channel and hands the error to the hook.
\<close>

datatype rx_end = RxGoesOn rx_outcome | RxEnds "goerr option"

definition rx_deferred :: "bool \<times> transport \<times> goerr option \<Rightarrow> ((bool \<times> transport \<times> goerr option) \<times> rx_end) option" where
  "rx_deferred st = (case st of (sig, rw, err) \<Rightarrow> map_option (\<lambda>sig. ((sig, Close rw, err), RxEnds err)) (stop_call sig))"

definition HandleRx_round ::
    "bool \<Rightarrow> hub_config \<Rightarrow> rxEvent \<Rightarrow> bool \<times> transport \<times> goerr option \<Rightarrow> ((bool \<times> transport \<times> goerr option) \<times> rx_end) option" where
  "HandleRx_round hubsig cfg event st =
     (case st of (sig, rw, err) \<Rightarrow>
        if hubsig \<or> sig then rx_deferred st
        else (case rx_round cfg event rw of
                None \<Rightarrow> None
              | Some (rw', Stop e ev) \<Rightarrow> rx_deferred (sig, rw', Some e)
              | Some (rw', Recycle ev) \<Rightarrow> Some ((sig, rw', Some ErrInvalidMagic), RxGoesOn (Recycle ev))
              | Some (rw', out) \<Rightarrow> Some ((sig, rw', None), RxGoesOn out)))"

text \<open>A receiver that was cancelled, or whose hub was stopped, ends in its next round with its transport closed.\<close>

lemma cancelled_receiver_ends:
  "hubsig \<or> sig \<Longrightarrow> HandleRx_round hubsig cfg event (sig, rw, err) = Some ((True, Close rw, err), RxEnds err)"
  by (auto simp: HandleRx_round_def rx_deferred_def stop_call_closes)

end
