(* ===== verification/Speed.thy ===== *)
theory Speed
  imports Metrics
begin

text \<open>
  \<open>SpeedCalculator\<close> of \<^verbatim>\<open>common/metrics/transport.go\<close>: the speed since the last call that counted. \<open>per_second\<close> is the quotient of a
  difference and a duration in nanoseconds, computed in \<^verbatim>\<open>float64\<close> and cut to \<^verbatim>\<open>uint64\<close>.
\<close>

record speed_calculator =
  sp_lastTime :: int
  sp_lastValue :: uint64

definition NewSpeedCalculator :: speed_calculator where
  "NewSpeedCalculator = \<lparr> sp_lastTime = 0, sp_lastValue = 0 \<rparr>"

definition Calculate :: "(uint64 \<Rightarrow> int \<Rightarrow> uint64) \<Rightarrow> int \<Rightarrow> uint64 \<Rightarrow> speed_calculator \<Rightarrow> speed_calculator \<times> uint64" where
  "Calculate per_second now currentValue s =
     (if sp_lastTime s = 0 then (s\<lparr>sp_lastTime := now, sp_lastValue := currentValue\<rparr>, 0)
      else let elapsedNs = wrap64 (now - sp_lastTime s) in
        if elapsedNs \<le> 0 then (s, 0)
        else let delta = currentValue - sp_lastValue s in
          if delta = 0 then (s, 0)
          else (s\<lparr>sp_lastTime := now, sp_lastValue := currentValue\<rparr>, per_second delta elapsedNs))"

text \<open>
  The differences that the calls report: with the quotient replaced by the difference itself, their sum is what the counter has gained between the first
  call and the last one that counted, so that no traffic is counted twice or left out, even when the counter wraps around.
\<close>

fun calculate_all :: "(int \<times> uint64) list \<Rightarrow> speed_calculator \<Rightarrow> speed_calculator \<times> uint64" where
  "calculate_all [] s = (s, 0)"
| "calculate_all ((now, v) # cs) s =
     (let (s', d) = Calculate (\<lambda>delta _. delta) now v s; (s'', gained) = calculate_all cs s' in (s'', d + gained))"

lemma Calculate_gain:
  assumes "sp_lastTime s \<noteq> 0" "Calculate (\<lambda>delta _. delta) now v s = (s', d)" "now \<noteq> 0"
  shows "sp_lastValue s' = sp_lastValue s + d \<and> sp_lastTime s' \<noteq> 0"
  using assms by (auto simp: Calculate_def Let_def split: if_splits)

lemma calculate_all_gain:
  "sp_lastTime s \<noteq> 0 \<Longrightarrow> \<forall>c \<in> set cs. fst c \<noteq> 0 \<Longrightarrow> calculate_all cs s = (s', gained) \<Longrightarrow> sp_lastValue s' = sp_lastValue s + gained"
proof (induction cs arbitrary: s gained)
  case (Cons c cs)
  obtain now v where c: "c = (now, v)" by (cases c)
  obtain s1 d where s1: "Calculate (\<lambda>delta _. delta) now v s = (s1, d)" by (cases "Calculate (\<lambda>delta _. delta) now v s")
  obtain t where t: "calculate_all cs s1 = (s', t)" "gained = d + t" using Cons.prems(3) c s1 by (auto split: prod.splits)
  have g: "sp_lastValue s1 = sp_lastValue s + d" "sp_lastTime s1 \<noteq> 0" using Calculate_gain [OF Cons.prems(1) s1] Cons.prems(2) c by auto
  then show ?case using Cons.IH [OF g(2) _ t(1)] Cons.prems(2) t(2) by (simp add: add.assoc)
qed simp

end
