(* ===== verification/Router_Conc.thy ===== *)
theory Router_Conc
  imports Router_Table
begin

text \<open>
  The lock-free side of \<^verbatim>\<open>common/router/router.go\<close>: any number of goroutines that insert and remove routes, and one that looks up an
  address, run in one trie at the same time. Nodes are cells of a heap, known by their index, with the root at 0; every step is one atomic
  operation of the source (\<^verbatim>\<open>Load\<close>, \<^verbatim>\<open>Store\<close> or \<^verbatim>\<open>CompareAndSwap\<close>). The bits of the address that are still to be walked stand for the
  loop counter.
\<close>

section \<open>Nodes in memory\<close>

record 'v cell =
  c_zero :: "nat option"
  c_one :: "nat option"
  c_leaf :: bool
  c_target :: "'v option"

type_synonym 'v heap = "'v cell list"

definition empty_cell :: "'v cell" where
  "empty_cell = \<lparr> c_zero = None, c_one = None, c_leaf = False, c_target = None \<rparr>"

definition kid :: "'v cell \<Rightarrow> bool \<Rightarrow> nat option" where
  "kid c b = (if b then c_one c else c_zero c)"

definition link_kid :: "bool \<Rightarrow> nat \<Rightarrow> 'v cell \<Rightarrow> 'v cell" where
  "link_kid b n c = (if b then c\<lparr>c_one := Some n\<rparr> else c\<lparr>c_zero := Some n\<rparr>)"

section \<open>Goroutines\<close>

text \<open>
  An update and where its goroutine is: before the load of a child (or, with no bits left, before the store of the leaf flag), before the
  compare-and-swap of a new node, before the load after a failed one, before the store of the target. \<open>Crashed\<close> is the use of a nil node.
\<close>

datatype 'v update = Ins 'v | Rem

datatype upc = Walk nat "bool list" | Cas nat bool "bool list" nat | Reload nat bool "bool list" | StoreTarget nat | Finished | Crashed

definition new_leaf :: "'v update \<Rightarrow> bool" where
  "new_leaf u = (case u of Ins _ \<Rightarrow> True | Rem \<Rightarrow> False)"

definition new_target :: "'v update \<Rightarrow> 'v option" where
  "new_target u = (case u of Ins v \<Rightarrow> Some v | Rem \<Rightarrow> None)"

fun update_step :: "'v update \<Rightarrow> 'v heap \<Rightarrow> upc \<Rightarrow> 'v heap \<times> upc" where
  "update_step u h (Walk a []) = (h[a := (h ! a)\<lparr>c_leaf := new_leaf u\<rparr>], StoreTarget a)"
| "update_step u h (Walk a (b # bs)) =
     (case kid (h ! a) b of
        Some n \<Rightarrow> (h, Walk n bs)
      | None \<Rightarrow> (case u of Ins _ \<Rightarrow> (h @ [empty_cell], Cas a b bs (length h)) | Rem \<Rightarrow> (h, Finished)))"
| "update_step u h (Cas a b bs n) =
     (if kid (h ! a) b = None then (h[a := link_kid b n (h ! a)], Walk n bs) else (h, Reload a b bs))"
| "update_step u h (Reload a b bs) = (case kid (h ! a) b of Some n \<Rightarrow> (h, Walk n bs) | None \<Rightarrow> (h, Crashed))"
| "update_step u h (StoreTarget a) = (h[a := (h ! a)\<lparr>c_target := new_target u\<rparr>], Finished)"
| "update_step u h Finished = (h, Finished)"
| "update_step u h Crashed = (h, Crashed)"

text \<open>
  A lookup: before the load of the leaf flag, of the target, of the child; then the last check of the node it stopped at; and its result.
\<close>

datatype 'v lpc =
    RLeaf nat "bool list" "'v option" | RTarget nat "bool list" "'v option" | RChild nat "bool list" "'v option"
  | RLast nat "'v option" | RLastTarget nat "'v option" | RDone "'v option"

definition or_else :: "'v option \<Rightarrow> 'v option \<Rightarrow> 'v option" where
  "or_else t best = (case t of Some v \<Rightarrow> Some v | None \<Rightarrow> best)"

fun lookup_step :: "'v heap \<Rightarrow> 'v lpc \<Rightarrow> 'v lpc" where
  "lookup_step h (RLeaf a bs best) = (if bs = [] then RLast a best else if c_leaf (h ! a) then RTarget a bs best else RChild a bs best)"
| "lookup_step h (RTarget a bs best) = RChild a bs (or_else (c_target (h ! a)) best)"
| "lookup_step h (RChild a [] best) = RLast a best"
| "lookup_step h (RChild a (b # bs) best) = (case kid (h ! a) b of None \<Rightarrow> RLast a best | Some n \<Rightarrow> RLeaf n bs best)"
| "lookup_step h (RLast a best) = (if c_leaf (h ! a) then RLastTarget a best else RDone best)"
| "lookup_step h (RLastTarget a best) = RDone (or_else (c_target (h ! a)) best)"
| "lookup_step h (RDone best) = RDone best"

text \<open>A goroutine is its prefix, its update and its place; the system runs one step of one of them, or of the lookup.\<close>

type_synonym 'v goroutine = "bool list \<times> 'v update \<times> upc"

inductive trie_step :: "'v heap \<times> 'v goroutine list \<times> 'v lpc \<Rightarrow> 'v heap \<times> 'v goroutine list \<times> 'v lpc \<Rightarrow> bool" where
  updating: "i < length gs \<Longrightarrow> gs ! i = (p, u, pc) \<Longrightarrow> update_step u h pc = (h', pc') \<Longrightarrow> trie_step (h, gs, l) (h', gs[i := (p, u, pc')], l)"
| looking: "trie_step (h, gs, l) (h, gs, lookup_step h l)"

inductive_cases trie_stepE: "trie_step (h, gs, l) (h', gs', l')"

section \<open>The table in a heap\<close>

fun walk_heap :: "'v heap \<Rightarrow> nat \<Rightarrow> bool list \<Rightarrow> nat option" where
  "walk_heap h a [] = Some a"
| "walk_heap h a (b # bs) = (case kid (h ! a) b of None \<Rightarrow> None | Some n \<Rightarrow> walk_heap h n bs)"

definition cell_content :: "'v heap \<Rightarrow> bool list \<Rightarrow> bool \<times> 'v option" where
  "cell_content h p = (case walk_heap h 0 p of None \<Rightarrow> (False, None) | Some a \<Rightarrow> (c_leaf (h ! a), c_target (h ! a)))"

definition live_target :: "bool \<times> 'v option \<Rightarrow> 'v option" where
  "live_target c = (if fst c then snd c else None)"

text \<open>A well-formed heap: pointers stay inside it, and no node is reached in two ways.\<close>

definition heap_tree :: "'v heap \<Rightarrow> bool" where
  "heap_tree h \<longleftrightarrow> h \<noteq> [] \<and> (\<forall>a < length h. \<forall>b n. kid (h ! a) b = Some n \<longrightarrow> n < length h) \<and>
     (\<forall>p q a. walk_heap h 0 p = Some a \<and> walk_heap h 0 q = Some a \<longrightarrow> p = q)"

lemma walk_append: "walk_heap h a (p @ q) = Option.bind (walk_heap h a p) (\<lambda>x. walk_heap h x q)"
  by (induction p arbitrary: a) (auto split: option.splits)

lemma walk_snoc: "walk_heap h a (p @ [b]) = Option.bind (walk_heap h a p) (\<lambda>x. kid (h ! x) b)"
  unfolding walk_append by (cases "walk_heap h a p") (auto split: option.splits)

lemma tree_unique: "heap_tree h \<Longrightarrow> walk_heap h 0 p = Some a \<Longrightarrow> walk_heap h 0 q = Some a \<Longrightarrow> p = q"
  unfolding heap_tree_def by blast

lemma tree_kid: "heap_tree h \<Longrightarrow> a < length h \<Longrightarrow> kid (h ! a) b = Some n \<Longrightarrow> n < length h"
  unfolding heap_tree_def by blast

lemma walk_bound: "heap_tree h \<Longrightarrow> walk_heap h 0 p = Some a \<Longrightarrow> a < length h"
proof (induction p arbitrary: a rule: rev_induct)
  case (snoc b p)
  obtain x where x: "walk_heap h 0 p = Some x" "kid (h ! x) b = Some a" using snoc.prems(2) by (cases "walk_heap h 0 p") (auto simp: walk_snoc)
  show ?case by (rule tree_kid [OF snoc.prems(1) snoc.IH [OF snoc.prems(1) x(1)] x(2)])
qed (simp add: heap_tree_def)

text \<open>The three ways in which a heap changes: a new cell, a link to a cell that nobody has seen, new contents of a node.\<close>

definition unlinked :: "'v heap \<Rightarrow> nat \<Rightarrow> bool" where
  "unlinked h n \<longleftrightarrow> n < length h \<and> h ! n = empty_cell \<and> (\<forall>p. walk_heap h 0 p \<noteq> Some n)"

lemma kid_empty [simp]: "kid empty_cell b = None"
  by (simp add: kid_def empty_cell_def)

lemma kid_link: "kid (link_kid b n c) b' = (if b' = b then Some n else kid c b')"
  by (auto simp: kid_def link_kid_def)

lemma link_content [simp]: "c_leaf (link_kid b n c) = c_leaf c" "c_target (link_kid b n c) = c_target c"
  by (simp_all add: link_kid_def)

lemma kid_same [simp]: "kid (c\<lparr>c_leaf := l\<rparr>) b = kid c b" "kid (c\<lparr>c_target := t\<rparr>) b = kid c b"
  by (simp_all add: kid_def)

lemma fresh_update: "unlinked h m \<Longrightarrow> walk_heap h 0 p = Some a \<Longrightarrow> h[a := c] ! m = empty_cell"
  by (cases "m = a") (auto simp: unlinked_def)

lemma walk_alloc: "heap_tree h \<Longrightarrow> walk_heap (h @ [empty_cell]) 0 p = walk_heap h 0 p"
proof (induction p rule: rev_induct)
  case (snoc b p)
  then show ?case by (cases "walk_heap h 0 p") (auto simp: walk_snoc nth_append dest: walk_bound)
qed simp

lemma tree_alloc: "heap_tree h \<Longrightarrow> heap_tree (h @ [empty_cell])"
  unfolding heap_tree_def [of "h @ [empty_cell]"] by (auto simp: walk_alloc nth_append heap_tree_def less_Suc_eq dest: tree_unique)

lemma fresh_alloc: "heap_tree h \<Longrightarrow> unlinked (h @ [empty_cell]) (length h)"
  by (auto simp: unlinked_def walk_alloc dest: walk_bound)

lemma walk_link:
  assumes "heap_tree h" "walk_heap h 0 p = Some a" "kid (h ! a) b = None" "unlinked h n"
  shows "walk_heap (h[a := link_kid b n (h ! a)]) 0 q = (if q = p @ [b] then Some n else walk_heap h 0 q)"
proof (induction q rule: rev_induct)
  case (snoc c q)
  have a: "a < length h" "n \<noteq> a" using walk_bound [OF assms(1,2)] assms(2,4) by (auto simp: unlinked_def)
  have none: "walk_heap h 0 (p @ [b]) = None" using assms(2,3) by (simp add: walk_snoc)
  show ?case
  proof (cases "q = p @ [b]")
    case True
    have "walk_heap (h[a := link_kid b n (h ! a)]) 0 (q @ [c]) = None" unfolding walk_snoc using snoc True a assms(4) by (simp add: unlinked_def)
    moreover have "walk_heap h 0 (q @ [c]) = None" unfolding walk_snoc using True none by simp
    ultimately show ?thesis using True by simp
  next
    case False
    show ?thesis
    proof (cases "walk_heap h 0 q")
      case None
      then show ?thesis using snoc False assms(2) by (auto simp: walk_snoc)
    next
      case (Some x)
      show ?thesis
      proof (cases "x = a")
        case True
        then have "q = p" using Some assms(1,2) tree_unique by blast
        then show ?thesis using snoc False Some True a by (simp add: walk_snoc kid_link)
      next
        case other: False
        then have "q \<noteq> p" using Some assms(2) by auto
        then show ?thesis using snoc False Some other by (simp add: walk_snoc)
      qed
    qed
  qed
qed simp

lemma tree_link:
  assumes "heap_tree h" "walk_heap h 0 p = Some a" "kid (h ! a) b = None" "unlinked h n"
  shows "heap_tree (h[a := link_kid b n (h ! a)])"
proof -
  have "walk_heap h 0 q \<noteq> Some n" "n < length h" for q using assms(4) by (simp_all add: unlinked_def)
  then show ?thesis using assms(1) walk_bound [OF assms(1,2)]
    unfolding heap_tree_def [of "h[a := link_kid b n (h ! a)]"] walk_link [OF assms]
    by (auto simp: heap_tree_def nth_list_update kid_link split: if_splits)
qed

lemma walk_cells:
  assumes "\<And>b. kid c b = kid (h ! a) b"
  shows "walk_heap (h[a := c]) x q = walk_heap h x q"
proof (induction q arbitrary: x)
  case (Cons b q)
  have "kid (h[a := c] ! x) b = kid (h ! x) b" by (cases "x = a"; cases "a < length h") (simp_all add: assms list_update_beyond)
  then show ?case using Cons by (simp split: option.splits)
qed simp

lemma tree_cells:
  assumes "heap_tree h" "\<And>b. kid c b = kid (h ! a) b"
  shows "heap_tree (h[a := c])"
proof -
  have "kid (h[a := c] ! x) b = kid (h ! x) b" for x b by (cases "x = a"; cases "a < length h") (simp_all add: assms(2) list_update_beyond)
  then show ?thesis using assms(1) unfolding heap_tree_def walk_cells [of c h a, OF assms(2)] by simp
qed

section \<open>What a step of an update changes\<close>

definition reserved_cell :: "upc \<Rightarrow> nat option" where
  "reserved_cell pc = (case pc of Cas a b bs n \<Rightarrow> Some n | _ \<Rightarrow> None)"

text \<open>Every node stays where it is, only the node of the prefix \<open>p\<close> gets new contents, and no cell but \<open>r\<close> is linked.\<close>

definition evolves :: "bool list \<Rightarrow> nat option \<Rightarrow> 'v heap \<Rightarrow> 'v heap \<Rightarrow> bool" where
  "evolves p r h h' \<longleftrightarrow> heap_tree h' \<and> (\<forall>q a. walk_heap h 0 q = Some a \<longrightarrow> walk_heap h' 0 q = Some a) \<and>
     (\<forall>q. q \<noteq> p \<longrightarrow> cell_content h' q = cell_content h q) \<and> (\<forall>n. unlinked h n \<and> Some n \<noteq> r \<longrightarrow> unlinked h' n)"

lemma evolves_refl: "heap_tree h \<Longrightarrow> evolves p r h h"
  by (simp add: evolves_def)

lemma cells_evolve:
  assumes "heap_tree h" "walk_heap h 0 p = Some a" "\<And>b. kid c b = kid (h ! a) b"
  shows "evolves p r h (h[a := c])" "cell_content (h[a := c]) p = (c_leaf c, c_target c)" "walk_heap (h[a := c]) 0 p = Some a"
proof -
  note w = walk_cells [of c h a, OF assms(3)]
  have a: "a < length h" using walk_bound [OF assms(1,2)] .
  have "cell_content (h[a := c]) q = cell_content h q" if "q \<noteq> p" for q
  proof (cases "walk_heap h 0 q")
    case (Some x)
    then have "x \<noteq> a" using that tree_unique [OF assms(1,2)] by blast
    then show ?thesis using Some by (simp add: cell_content_def w)
  qed (simp add: cell_content_def w)
  moreover have "unlinked (h[a := c]) n" if "unlinked h n" for n using that fresh_update [OF that assms(2)] by (simp add: unlinked_def w)
  ultimately show "evolves p r h (h[a := c])" using tree_cells [OF assms(1,3)] by (simp add: evolves_def w)
  show "cell_content (h[a := c]) p = (c_leaf c, c_target c)" "walk_heap (h[a := c]) 0 p = Some a" using assms(2) a by (simp_all add: cell_content_def w)
qed

lemma alloc_evolves:
  assumes "heap_tree h"
  shows "evolves p r h (h @ [empty_cell])" "cell_content (h @ [empty_cell]) q = cell_content h q"
proof -
  show c: "cell_content (h @ [empty_cell]) q = cell_content h q" for q
    using walk_bound [OF assms, of q] by (auto simp: cell_content_def walk_alloc [OF assms] nth_append split: option.splits)
  show "evolves p r h (h @ [empty_cell])"
    using tree_alloc [OF assms] by (auto simp: evolves_def walk_alloc [OF assms] c unlinked_def nth_append)
qed

lemma link_evolves:
  assumes "heap_tree h" "walk_heap h 0 p = Some a" "kid (h ! a) b = None" "unlinked h n"
  shows "evolves p' (Some n) h (h[a := link_kid b n (h ! a)])" "cell_content (h[a := link_kid b n (h ! a)]) q = cell_content h q"
proof -
  let ?h = "h[a := link_kid b n (h ! a)]"
  note w = walk_link [OF assms]
  have a: "a < length h" "a \<noteq> n" using walk_bound [OF assms(1,2)] assms(2,4) by (auto simp: unlinked_def)
  have none: "walk_heap h 0 (p @ [b]) = None" using assms(2,3) by (simp add: walk_snoc)
  show c: "cell_content ?h q = cell_content h q" for q
  proof (cases "q = p @ [b]")
    case True
    then show ?thesis using none a assms(4) by (simp add: cell_content_def w unlinked_def empty_cell_def)
  next
    case False
    then show ?thesis using a by (cases "walk_heap h 0 q") (auto simp: cell_content_def w nth_list_update)
  qed
  have "unlinked ?h m" if "unlinked h m" "m \<noteq> n" for m using that fresh_update [OF that(1) assms(2)] by (auto simp: unlinked_def w)
  moreover have "walk_heap ?h 0 q = Some x" if "walk_heap h 0 q = Some x" for q x using that none by (auto simp: w)
  ultimately show "evolves p' (Some n) h ?h" using tree_link [OF assms] c by (auto simp: evolves_def)
qed

section \<open>The invariant\<close>

text \<open>
  \<open>c0\<close> is the table at the start. An update is on the path of its prefix; up to the store of the leaf flag the contents of its node are
  those of the start, and when it has finished they are its own.
\<close>

definition place_ok :: "(bool list \<Rightarrow> bool \<times> 'v option) \<Rightarrow> 'v heap \<Rightarrow> 'v goroutine \<Rightarrow> bool" where
  "place_ok c0 h g = (case g of (p, u, pc) \<Rightarrow>
     (case pc of
        Walk a bs \<Rightarrow> (\<exists>q. walk_heap h 0 q = Some a \<and> q @ bs = p) \<and> cell_content h p = c0 p
      | Cas a b bs n \<Rightarrow> (\<exists>q. walk_heap h 0 q = Some a \<and> q @ b # bs = p) \<and> cell_content h p = c0 p \<and> unlinked h n
      | Reload a b bs \<Rightarrow> (\<exists>q. walk_heap h 0 q = Some a \<and> kid (h ! a) b \<noteq> None \<and> q @ b # bs = p) \<and> cell_content h p = c0 p
      | StoreTarget a \<Rightarrow> walk_heap h 0 p = Some a \<and> fst (cell_content h p) = new_leaf u
      | Finished \<Rightarrow> cell_content h p = (new_leaf u, new_target u)
      | Crashed \<Rightarrow> False))"

lemma walk_kid: "walk_heap h 0 q = Some a \<Longrightarrow> kid (h ! a) b = Some n \<Longrightarrow> walk_heap h 0 (q @ [b]) = Some n"
  by (simp add: walk_snoc)

lemma walk_none: "walk_heap h 0 q = Some a \<Longrightarrow> kid (h ! a) b = None \<Longrightarrow> walk_heap h 0 (q @ b # bs) = None"
  by (simp add: walk_append)

lemma evolves_kid:
  assumes "evolves p r h h'" "walk_heap h 0 q = Some a" "kid (h ! a) b \<noteq> None"
  shows "kid (h' ! a) b \<noteq> None"
proof -
  obtain n where "kid (h ! a) b = Some n" using assms(3) by blast
  then have "walk_heap h' 0 (q @ [b]) = Some n" "walk_heap h' 0 q = Some a" using assms(1,2) walk_kid [OF assms(2)] by (auto simp: evolves_def)
  then show ?thesis by (simp add: walk_snoc)
qed

lemma place_ok_other:
  assumes "evolves p r h h'" "place_ok c0 h (q, u, pc)" "q \<noteq> p" "reserved_cell pc = None \<or> reserved_cell pc \<noteq> r"
  shows "place_ok c0 h' (q, u, pc)"
proof -
  have w: "\<And>x a. walk_heap h 0 x = Some a \<Longrightarrow> walk_heap h' 0 x = Some a" and c: "cell_content h' q = cell_content h q"
    and f: "\<And>n. unlinked h n \<Longrightarrow> Some n \<noteq> r \<Longrightarrow> unlinked h' n" using assms(1,3) by (auto simp: evolves_def)
  show ?thesis
  proof (cases pc)
    case (Reload a b bs)
    then obtain x where "walk_heap h 0 x = Some a" "kid (h ! a) b \<noteq> None" "x @ b # bs = q" using assms(2) by (auto simp: place_ok_def)
    then show ?thesis using Reload assms(2) w c evolves_kid [OF assms(1)] by (auto simp: place_ok_def)
  qed (use assms(2,4) w c f in \<open>auto simp: place_ok_def reserved_cell_def\<close>)
qed

lemma update_step_ok:
  assumes "heap_tree h" "place_ok c0 h (p, u, pc)" "update_step u h pc = (h', pc')"
  shows "evolves p (reserved_cell pc) h h' \<and> place_ok c0 h' (p, u, pc') \<and> (\<forall>n. reserved_cell pc' = Some n \<longrightarrow> n = length h)"
proof (cases pc)
  case (Walk a bs)
  then obtain q where q: "walk_heap h 0 q = Some a" "q @ bs = p" "cell_content h p = c0 p" using assms(2) by (auto simp: place_ok_def)
  show ?thesis
  proof (cases bs)
    case Nil
    let ?c = "(h ! a)\<lparr>c_leaf := new_leaf u\<rparr>"
    have e: "h' = h[a := ?c]" "pc' = StoreTarget a" using assms(3) Walk Nil by auto
    show ?thesis using cells_evolve [OF assms(1), of p a ?c] q Nil by (auto simp: e place_ok_def reserved_cell_def)
  next
    case (Cons b bs')
    show ?thesis
    proof (cases "kid (h ! a) b")
      case None
      show ?thesis
      proof (cases u)
        case (Ins v)
        then have e: "h' = h @ [empty_cell]" "pc' = Cas a b bs' (length h)" using assms(3) Walk Cons None by auto
        show ?thesis using alloc_evolves [OF assms(1)] fresh_alloc [OF assms(1)] q Cons
          by (auto simp: e place_ok_def reserved_cell_def walk_alloc [OF assms(1)])
      next
        case Rem
        then have e: "h' = h" "pc' = Finished" using assms(3) Walk Cons None by auto
        have "cell_content h p = (False, None)" using walk_none [OF q(1) None, of bs'] q(2) Cons by (simp add: cell_content_def)
        then show ?thesis using evolves_refl [OF assms(1)] Rem by (simp add: e place_ok_def reserved_cell_def new_leaf_def new_target_def)
      qed
    next
      case (Some n)
      then have e: "h' = h" "pc' = Walk n bs'" using assms(3) Walk Cons by auto
      show ?thesis using evolves_refl [OF assms(1)] walk_kid [OF q(1) Some] q(2,3) Cons by (auto simp: e place_ok_def reserved_cell_def intro!: exI [of _ "q @ [b]"])
    qed
  qed
next
  case (Cas a b bs n)
  then obtain q where q: "walk_heap h 0 q = Some a" "q @ b # bs = p" "cell_content h p = c0 p" "unlinked h n" using assms(2) by (auto simp: place_ok_def)
  show ?thesis
  proof (cases "kid (h ! a) b")
    case None
    then have e: "h' = h[a := link_kid b n (h ! a)]" "pc' = Walk n bs" using assms(3) Cas by auto
    have "walk_heap h' 0 (q @ [b]) = Some n" using walk_link [OF assms(1) q(1) None q(4)] by (simp add: e)
    then show ?thesis using link_evolves [OF assms(1) q(1) None q(4)] q(2,3) Cas
      by (auto simp: e place_ok_def reserved_cell_def intro!: exI [of _ "q @ [b]"])
  next
    case (Some m)
    then have e: "h' = h" "pc' = Reload a b bs" using assms(3) Cas by auto
    show ?thesis using evolves_refl [OF assms(1)] q Some by (auto simp: e place_ok_def reserved_cell_def)
  qed
next
  case (Reload a b bs)
  then obtain q where q: "walk_heap h 0 q = Some a" "kid (h ! a) b \<noteq> None" "q @ b # bs = p" "cell_content h p = c0 p" using assms(2) by (auto simp: place_ok_def)
  then obtain n where n: "kid (h ! a) b = Some n" by blast
  then have e: "h' = h" "pc' = Walk n bs" using assms(3) Reload by auto
  show ?thesis using evolves_refl [OF assms(1)] walk_kid [OF q(1) n] q(3,4) by (auto simp: e place_ok_def reserved_cell_def intro!: exI [of _ "q @ [b]"])
next
  case (StoreTarget a)
  let ?c = "(h ! a)\<lparr>c_target := new_target u\<rparr>"
  have w: "walk_heap h 0 p = Some a" "c_leaf (h ! a) = new_leaf u" using assms(2) StoreTarget by (auto simp: place_ok_def cell_content_def)
  have e: "h' = h[a := ?c]" "pc' = Finished" using assms(3) StoreTarget by auto
  show ?thesis using cells_evolve [OF assms(1) w(1), of ?c] w(2) by (simp add: e place_ok_def reserved_cell_def)
qed (use assms evolves_refl in \<open>auto simp: place_ok_def reserved_cell_def\<close>)

definition trie_inv :: "(bool list \<Rightarrow> bool \<times> 'v option) \<Rightarrow> 'v heap \<Rightarrow> 'v goroutine list \<Rightarrow> bool" where
  "trie_inv c0 h gs \<longleftrightarrow> heap_tree h \<and> distinct (map fst gs) \<and> (\<forall>g \<in> set gs. place_ok c0 h g) \<and>
     (\<forall>i < length gs. \<forall>j < length gs. i \<noteq> j \<and> reserved_cell (snd (snd (gs ! i))) \<noteq> None \<longrightarrow> reserved_cell (snd (snd (gs ! i))) \<noteq> reserved_cell (snd (snd (gs ! j)))) \<and>
     (\<forall>p. p \<notin> fst ` set gs \<longrightarrow> cell_content h p = c0 p)"

lemma map_fst_update: "gs ! i = (p, u, pc) \<Longrightarrow> i < length gs \<Longrightarrow> map fst (gs[i := (p, u, pc')]) = map fst gs"
  by (rule nth_equalityI) (auto simp: nth_list_update)

lemma trie_inv_update:
  assumes inv: "trie_inv c0 h gs" and i: "i < length gs" "gs ! i = (p, u, pc)" and st: "update_step u h pc = (h', pc')"
  shows "trie_inv c0 h' (gs[i := (p, u, pc')])"
proof -
  let ?gs = "gs[i := (p, u, pc')]"
  have t: "heap_tree h" and d: "distinct (map fst gs)" and ok: "\<And>g. g \<in> set gs \<Longrightarrow> place_ok c0 h g"
    and rs: "\<And>j k. j < length gs \<Longrightarrow> k < length gs \<Longrightarrow> j \<noteq> k \<Longrightarrow> reserved_cell (snd (snd (gs ! j))) \<noteq> None \<Longrightarrow>
      reserved_cell (snd (snd (gs ! j))) \<noteq> reserved_cell (snd (snd (gs ! k)))"
    and rest: "\<And>q. q \<notin> fst ` set gs \<Longrightarrow> cell_content h q = c0 q" using inv by (simp_all add: trie_inv_def)
  have gi: "place_ok c0 h (p, u, pc)" using ok [OF nth_mem [OF i(1)]] i(2) by simp
  have e: "evolves p (reserved_cell pc) h h'" "place_ok c0 h' (p, u, pc')" "\<And>n. reserved_cell pc' = Some n \<Longrightarrow> n = length h"
    using update_step_ok [OF t gi st] by blast+
  have fs: "map fst ?gs = map fst gs" using map_fst_update [OF i(2,1)] .
  have other: "place_ok c0 h' (gs ! j)" if j: "j < length gs" "j \<noteq> i" for j
  proof -
    obtain q v pc2 where g: "gs ! j = (q, v, pc2)" by (cases "gs ! j")
    have "q \<noteq> p" using d j i g by (metis distinct_conv_nth fst_conv length_map nth_map)
    moreover have "place_ok c0 h (q, v, pc2)" using ok [OF nth_mem [OF j(1)]] g by simp
    moreover have "reserved_cell pc2 = None \<or> reserved_cell pc2 \<noteq> reserved_cell pc" using rs [OF j(1) i(1) j(2)] g i(2) by auto
    ultimately show ?thesis unfolding g using place_ok_other [OF e(1)] by blast
  qed
  have "place_ok c0 h' g" if "g \<in> set ?gs" for g
    using that other e(2) i(1) by (auto simp: in_set_conv_nth nth_list_update split: if_splits)
  moreover have "reserved_cell (snd (snd (?gs ! j))) \<noteq> reserved_cell (snd (snd (?gs ! k)))"
    if jk: "j < length gs" "k < length gs" "j \<noteq> k" "reserved_cell (snd (snd (?gs ! j))) \<noteq> None" for j k
  proof -
    have old: "n < length h" if x: "x < length gs" "reserved_cell (snd (snd (gs ! x))) = Some n" for x n
      using ok [OF nth_mem [OF x(1)]] x(2) by (cases "gs ! x") (auto simp: place_ok_def reserved_cell_def unlinked_def split: upc.splits)
    have own: "reserved_cell (snd (snd (?gs ! i))) = reserved_cell pc'" using i(1) by simp
    consider "j = i" "k \<noteq> i" | "k = i" "j \<noteq> i" | "j \<noteq> i" "k \<noteq> i" using jk(3) by blast
    then show ?thesis
    proof cases
      case 1
      then obtain n where n: "reserved_cell pc' = Some n" using jk(4) own by auto
      have "reserved_cell (snd (snd (gs ! k))) \<noteq> Some n" using old [OF jk(2), of n] e(3) [OF n] by blast
      then show ?thesis using 1 n own by simp
    next
      case 2
      then obtain n where n: "reserved_cell (snd (snd (gs ! j))) = Some n" using jk(4) by auto
      have "reserved_cell pc' \<noteq> Some n" using old [OF jk(1) n] e(3) [of n] by auto
      then show ?thesis using 2 n own by simp
    next
      case 3
      then show ?thesis using jk rs [of j k] by simp
    qed
  qed
  moreover have "cell_content h' q = c0 q" if q: "q \<notin> fst ` set ?gs" for q
  proof -
    have "fst ` set ?gs = fst ` set gs" using arg_cong [OF fs, of set] by simp
    then have "q \<notin> fst ` set gs" "q \<noteq> p" using q nth_mem [OF i(1)] i(2) by force+
    then show ?thesis using rest e(1) by (simp add: evolves_def)
  qed
  ultimately show ?thesis unfolding trie_inv_def length_list_update fs using d e(1) by (auto simp: evolves_def)
qed

definition start_updates :: "(bool list \<times> 'v update) list \<Rightarrow> 'v goroutine list" where
  "start_updates ops = map (\<lambda>(p, u). (p, u, Walk 0 p)) ops"

lemma trie_inv_start: "heap_tree h \<Longrightarrow> distinct (map fst ops) \<Longrightarrow> trie_inv (cell_content h) h (start_updates ops)"
  by (auto simp: trie_inv_def start_updates_def place_ok_def reserved_cell_def comp_def case_prod_unfold intro!: exI [of _ "[]"])

definition ops_of :: "'v goroutine list \<Rightarrow> (bool list \<times> 'v update) list" where
  "ops_of gs = map (\<lambda>(p, u, _). (p, u)) gs"

lemma trie_step_inv:
  assumes "trie_step (h, gs, l) (h', gs', l')" "trie_inv c0 h gs"
  shows "trie_inv c0 h' gs' \<and> ops_of gs' = ops_of gs"
  using assms(1)
proof (rule trie_stepE)
  fix i p u pc pc' assume s: "gs' = gs[i := (p, u, pc')]" "i < length gs" "gs ! i = (p, u, pc)" "update_step u h pc = (h', pc')"
  have "ops_of gs' = ops_of gs" using s(1-3) by (auto simp: ops_of_def intro!: nth_equalityI simp: nth_list_update)
  then show ?thesis using trie_inv_update [OF assms(2) s(2-4)] s(1) by simp
qed (use assms(2) in simp)

lemma trie_reach_inv:
  assumes "trie_step\<^sup>*\<^sup>* (h0, start_updates ops, l0) (h, gs, l)" "heap_tree h0" "distinct (map fst ops)"
  shows "trie_inv (cell_content h0) h gs \<and> ops_of gs = ops"
proof -
  have "trie_inv (cell_content h0) (fst st) (fst (snd st)) \<and> ops_of (fst (snd st)) = ops" if "trie_step\<^sup>*\<^sup>* (h0, start_updates ops, l0) st" for st
    using that
  proof (induction rule: rtranclp_induct)
    case base
    show ?case using trie_inv_start [OF assms(2,3)] by (simp add: ops_of_def start_updates_def comp_def case_prod_unfold)
  next
    case (step st st')
    obtain h1 gs1 l1 h2 gs2 l2 where e: "st = (h1, gs1, l1)" "st' = (h2, gs2, l2)" by (cases st; cases st')
    have "trie_inv (cell_content h0) h1 gs1" "ops_of gs1 = ops" using step.IH by (simp_all add: e)
    then show ?case using trie_step_inv [OF step.hyps(2) [unfolded e]] by (simp add: e)
  qed
  then show ?thesis using assms(1) by force
qed

section \<open>Updates\<close>

text \<open>What all updates together have done to the table when they have returned; none of them ever uses a nil node.\<close>

lemma concurrent_updates_apply:
  assumes "trie_step\<^sup>*\<^sup>* (h0, start_updates ops, l0) (h, gs, l)" "heap_tree h0" "distinct (map fst ops)"
  shows "(\<forall>(p, u, pc) \<in> set gs. pc \<noteq> Crashed) \<and>
    ((\<forall>(p, u, pc) \<in> set gs. pc = Finished) \<longrightarrow>
       (\<forall>p. live_target (cell_content h p) = (case map_of ops p of Some u \<Rightarrow> new_target u | None \<Rightarrow> live_target (cell_content h0 p))))"
proof -
  have inv: "trie_inv (cell_content h0) h gs" and ops: "ops_of gs = ops" using trie_reach_inv [OF assms] by blast+
  have ok: "place_ok (cell_content h0) h g" if "g \<in> set gs" for g using inv that by (simp add: trie_inv_def)
  have fsts: "fst ` set gs = fst ` set ops" unfolding ops [symmetric] by (force simp: ops_of_def)
  have "live_target (cell_content h p) = (case map_of ops p of Some u \<Rightarrow> new_target u | None \<Rightarrow> live_target (cell_content h0 p))"
    if fin: "\<forall>(p, u, pc) \<in> set gs. pc = Finished" for p
  proof (cases "map_of ops p")
    case None
    then have "p \<notin> fst ` set gs" using fsts by (simp add: map_of_eq_None_iff)
    then show ?thesis using inv None by (simp add: trie_inv_def)
  next
    case (Some u)
    then have "(p, u) \<in> set (ops_of gs)" using ops map_of_SomeD by metis
    then obtain pc where g: "(p, u, pc) \<in> set gs" by (auto simp: ops_of_def)
    then have "cell_content h p = (new_leaf u, new_target u)" using ok [OF g] fin by (fastforce simp: place_ok_def)
    then show ?thesis using Some by (cases u) (simp_all add: live_target_def new_leaf_def new_target_def)
  qed
  moreover have "pc \<noteq> Crashed" if "(p, u, pc) \<in> set gs" for p u pc using ok [OF that] by (auto simp: place_ok_def)
  ultimately show ?thesis by blast
qed

section \<open>Every update returns\<close>

text \<open>The atomic operations that an update has still to do, at most.\<close>

fun work_left :: "upc \<Rightarrow> nat" where
  "work_left (Walk a bs) = 3 * length bs + 2"
| "work_left (Cas a b bs n) = 3 * length bs + 4"
| "work_left (Reload a b bs) = 3 * length bs + 3"
| "work_left (StoreTarget a) = 1"
| "work_left Finished = 0"
| "work_left Crashed = 0"

lemma update_step_work: "update_step u h pc = (h', pc') \<Longrightarrow> 0 < work_left pc \<Longrightarrow> work_left pc' < work_left pc"
  by (cases "(u, h, pc)" rule: update_step.cases) (auto split: option.splits update.splits if_splits)

text \<open>A schedule names the goroutine that runs next, or the lookup.\<close>

fun sys_step :: "nat option \<Rightarrow> 'v heap \<times> 'v goroutine list \<times> 'v lpc \<Rightarrow> 'v heap \<times> 'v goroutine list \<times> 'v lpc" where
  "sys_step None (h, gs, l) = (h, gs, lookup_step h l)"
| "sys_step (Some i) (h, gs, l) =
     (if i < length gs then case gs ! i of (p, u, pc) \<Rightarrow> case update_step u h pc of (h', pc') \<Rightarrow> (h', gs[i := (p, u, pc')], l) else (h, gs, l))"

lemma sys_step_steps: "trie_step\<^sup>*\<^sup>* st (sys_step c st)"
proof (cases "(c, st)" rule: sys_step.cases)
  case (1 h gs l)
  then show ?thesis using looking [of h gs l] by (auto intro: r_into_rtranclp)
next
  case (2 i h gs l)
  show ?thesis
  proof (cases "i < length gs")
    case True
    obtain p u pc where g: "gs ! i = (p, u, pc)" by (cases "gs ! i")
    obtain h' pc' where s: "update_step u h pc = (h', pc')" by (cases "update_step u h pc")
    show ?thesis using updating [OF True g s, of l] 2 True g s by (auto intro: r_into_rtranclp)
  qed (use 2 in simp)
qed

lemma schedule_steps: "trie_step\<^sup>*\<^sup>* st (fold sys_step cs st)"
proof (induction cs arbitrary: st)
  case (Cons c cs)
  show ?case unfolding fold_Cons comp_apply by (rule rtranclp_trans [OF sys_step_steps Cons.IH])
qed simp

definition work_of :: "nat \<Rightarrow> 'v heap \<times> 'v goroutine list \<times> 'v lpc \<Rightarrow> nat" where
  "work_of i st = work_left (snd (snd (fst (snd st) ! i)))"

lemma sys_step_work:
  "work_of i (sys_step (Some j) st) \<le> (if i = j \<and> i < length (fst (snd st)) then work_of i st - 1 else work_of i st)"
proof (cases st)
  case (fields h gs l)
  show ?thesis
  proof (cases "j < length gs")
    case True
    obtain p u pc where g: "gs ! j = (p, u, pc)" by (cases "gs ! j")
    obtain h' pc' where s: "update_step u h pc = (h', pc')" by (cases "update_step u h pc")
    have "work_left pc' \<le> work_left pc - 1"
    proof (cases "work_left pc")
      case 0
      then have "pc' = pc" using s by (cases pc) auto
      then show ?thesis using 0 by simp
    qed (use update_step_work [OF s] in simp)
    then show ?thesis using True g s by (cases "i = j") (simp_all add: fields work_of_def)
  qed (simp add: fields work_of_def)
qed

lemma sys_step_length: "length (fst (snd (sys_step c st))) = length (fst (snd st))"
  by (cases "(c, st)" rule: sys_step.cases) (auto split: prod.splits)

lemma schedule_work:
  "i < length (fst (snd st)) \<Longrightarrow> work_of i (fold sys_step cs st) \<le> work_of i st - count_list cs (Some i)"
proof (induction cs arbitrary: st)
  case (Cons c cs)
  have IH: "work_of i (fold sys_step cs (sys_step c st)) \<le> work_of i (sys_step c st) - count_list cs (Some i)"
    using Cons by (simp add: sys_step_length)
  have "work_of i (sys_step None st) = work_of i st" by (cases st) (simp add: work_of_def)
  then show ?case using IH sys_step_work [of i _ st] Cons.prems by (cases c) (fastforce split: if_splits)+
qed simp

text \<open>
  No update ever uses a nil node, whatever the prefixes of the others: links are only added, so the child that made a compare-and-swap fail is there when it is
  loaded again.
\<close>

definition ptrs_ok :: "'v heap \<Rightarrow> bool" where
  "ptrs_ok h \<longleftrightarrow> h \<noteq> [] \<and> (\<forall>a < length h. \<forall>b n. kid (h ! a) b = Some n \<longrightarrow> n < length h)"

definition pc_ok :: "'v heap \<Rightarrow> upc \<Rightarrow> bool" where
  "pc_ok h pc = (case pc of
     Walk a bs \<Rightarrow> a < length h | Cas a b bs n \<Rightarrow> a < length h \<and> n < length h | Reload a b bs \<Rightarrow> a < length h \<and> kid (h ! a) b \<noteq> None
   | StoreTarget a \<Rightarrow> a < length h | Finished \<Rightarrow> True | Crashed \<Rightarrow> False)"

definition grows :: "'v heap \<Rightarrow> 'v heap \<Rightarrow> bool" where
  "grows h h' \<longleftrightarrow> length h \<le> length h' \<and> (\<forall>a < length h. \<forall>b. kid (h ! a) b \<noteq> None \<longrightarrow> kid (h' ! a) b \<noteq> None)"

lemma kid_content [simp]: "kid (c\<lparr>c_leaf := l\<rparr>) b = kid c b" "kid (c\<lparr>c_target := t\<rparr>) b = kid c b" "kid empty_cell b = None"
  by (simp_all add: kid_def empty_cell_def)

lemma pc_ok_grows: "grows h h' \<Longrightarrow> pc_ok h pc \<Longrightarrow> pc_ok h' pc"
  by (cases pc) (auto simp: grows_def pc_ok_def)

lemma content_grows: "ptrs_ok h \<Longrightarrow> (\<And>b. kid c b = kid (h ! a) b) \<Longrightarrow> ptrs_ok (h[a := c]) \<and> grows h (h[a := c])"
proof -
  assume h: "ptrs_ok h" and c: "\<And>b. kid c b = kid (h ! a) b"
  have "kid (h[a := c] ! x) b = kid (h ! x) b" if "x < length h" for x b using c that by (cases "x = a") simp_all
  then show ?thesis using h by (simp add: ptrs_ok_def grows_def)
qed

lemma link_grows: "ptrs_ok h \<Longrightarrow> n < length h \<Longrightarrow> ptrs_ok (h[a := link_kid b n (h ! a)]) \<and> grows h (h[a := link_kid b n (h ! a)])"
proof -
  assume h: "ptrs_ok h" and n: "n < length h"
  have "kid (h[a := link_kid b n (h ! a)] ! x) b' = (if x = a \<and> b' = b then Some n else kid (h ! x) b')" if "x < length h" for x b'
    using that by (cases "x = a") (simp_all add: kid_link)
  then show ?thesis using h n by (auto simp: ptrs_ok_def grows_def)
qed

lemma alloc_grows: "ptrs_ok h \<Longrightarrow> ptrs_ok (h @ [empty_cell]) \<and> grows h (h @ [empty_cell])"
  by (auto simp: ptrs_ok_def grows_def nth_append less_Suc_eq)

lemma same_grows: "ptrs_ok h \<Longrightarrow> ptrs_ok h \<and> grows h h"
  by (simp add: grows_def)

lemma update_step_grows:
  assumes "ptrs_ok h" "pc_ok h pc" "update_step u h pc = (h', pc')"
  shows "ptrs_ok h' \<and> grows h h' \<and> pc_ok h' pc'"
proof (cases "(u, h, pc)" rule: update_step.cases)
  case (1 u' h1 a)
  then show ?thesis using assms content_grows [OF assms(1), of "(h ! a)\<lparr>c_leaf := new_leaf u\<rparr>" a] by (auto simp: pc_ok_def)
next
  case (2 u' h1 a b bs)
  then show ?thesis using assms alloc_grows [OF assms(1)] same_grows [OF assms(1)]
    by (auto simp: pc_ok_def ptrs_ok_def split: option.splits update.splits)
next
  case (3 u' h1 a b bs n)
  then show ?thesis using assms link_grows [OF assms(1), of n a b] same_grows [OF assms(1)] by (auto simp: pc_ok_def split: if_splits)
next
  case (4 u' h1 a b bs)
  then show ?thesis using assms same_grows [OF assms(1)] by (auto simp: pc_ok_def ptrs_ok_def split: option.splits)
next
  case (5 u' h1 a)
  then show ?thesis using assms content_grows [OF assms(1), of "(h ! a)\<lparr>c_target := new_target u\<rparr>" a] by (auto simp: pc_ok_def)
qed (use assms same_grows [OF assms(1)] in auto)

definition sys_ok :: "(bool list \<times> 'v update) list \<Rightarrow> 'v heap \<times> 'v goroutine list \<times> 'v lpc \<Rightarrow> bool" where
  "sys_ok ops st = (case st of (h, gs, l) \<Rightarrow> ptrs_ok h \<and> ops_of gs = ops \<and> (\<forall>g \<in> set gs. pc_ok h (snd (snd g))))"

lemma sys_step_ok:
  assumes "sys_ok ops st"
  shows "sys_ok ops (sys_step c st)"
proof (cases "(c, st)" rule: sys_step.cases)
  case (1 h gs l)
  then show ?thesis using assms by (simp add: sys_ok_def)
next
  case (2 i h gs l)
  show ?thesis
  proof (cases "i < length gs")
    case True
    obtain p u pc where g: "gs ! i = (p, u, pc)" by (cases "gs ! i")
    obtain h' pc' where s: "update_step u h pc = (h', pc')" by (cases "update_step u h pc")
    have h: "ptrs_ok h" "ops_of gs = ops" and pcs: "\<And>g. g \<in> set gs \<Longrightarrow> pc_ok h (snd (snd g))" using assms 2 by (auto simp: sys_ok_def)
    have "pc_ok h pc" using pcs [OF nth_mem [OF True]] g by simp
    then have h': "ptrs_ok h'" "grows h h'" "pc_ok h' pc'" using update_step_grows [OF h(1) _ s] by blast+
    have "ops_of (gs[i := (p, u, pc')]) = ops" using h(2) True g
      by (metis (no_types, lifting) list_update_id map_update ops_of_def prod.case)
    moreover have "pc_ok h' (snd (snd g))" if "g \<in> set (gs[i := (p, u, pc')])" for g
      using set_update_subset_insert [of gs i "(p, u, pc')"] that pcs h'(3) pc_ok_grows [OF h'(2)] by fastforce
    ultimately show ?thesis using 2 True g s h'(1) by (simp add: sys_ok_def)
  qed (use 2 assms in simp)
qed

lemma schedule_ok: "sys_ok ops st \<Longrightarrow> sys_ok ops (fold sys_step cs st)"
  by (induction cs arbitrary: st) (simp_all add: sys_step_ok)

text \<open>
  C40. Insertion and removal are wait-free. Any number of insertions and removals, of the same prefix too, run in one trie with a lookup, in
  any interleaving of their atomic operations: an update of a prefix of \<open>n\<close> bits has returned when it has been scheduled for \<open>3 n + 2\<close> atomic operations, and
  it has not used a nil node; no compare-and-swap is ever repeated.
\<close>
theorem updates_wait_free:
  assumes "ptrs_ok h0" "i < length ops" "3 * length (fst (ops ! i)) + 2 \<le> count_list cs (Some i)"
  shows "\<exists>h gs l'. fold sys_step cs (h0, start_updates ops, l) = (h, gs, l') \<and> gs ! i = (fst (ops ! i), snd (ops ! i), Finished)"
proof -
  let ?s0 = "(h0, start_updates ops, l)"
  obtain h gs l' where e: "fold sys_step cs ?s0 = (h, gs, l')" by (cases "fold sys_step cs ?s0")
  have "sys_ok ops ?s0" using assms(1) by (auto simp: sys_ok_def start_updates_def ops_of_def pc_ok_def ptrs_ok_def comp_def case_prod_beta)
  then have ok: "sys_ok ops (h, gs, l')" using schedule_ok [of ops ?s0 cs] e by simp
  have inv: "ops_of gs = ops" using ok by (simp add: sys_ok_def)
  have len: "length gs = length ops" using inv by (metis length_map ops_of_def)
  obtain p u pc where g: "gs ! i = (p, u, pc)" by (cases "gs ! i")
  have "ops_of gs ! i = (p, u)" using g len assms(2) by (simp add: ops_of_def)
  then have pu: "ops ! i = (p, u)" using inv by simp
  have "work_of i ?s0 = 3 * length p + 2" using pu assms(2) by (simp add: work_of_def start_updates_def)
  then have "work_left pc = 0" using schedule_work [of i ?s0 cs] assms(2,3) pu e g by (simp add: work_of_def start_updates_def)
  moreover have "pc_ok h pc" using ok g len assms(2) by (metis (no_types, lifting) nth_mem old.prod.case snd_conv sys_ok_def)
  ultimately have "pc = Finished" by (cases pc) (auto simp: pc_ok_def)
  then show ?thesis using e g pu by simp
qed

definition demo_updates :: "(bool list \<times> nat update) list" where
  "demo_updates = [([True], Ins 7), ([True, False], Ins 8)]"

lemma demo_tree: "heap_tree [empty_cell]"
proof -
  have "p = []" if "walk_heap [empty_cell] 0 p = Some a" for p a using that by (cases p) simp_all
  then show ?thesis unfolding heap_tree_def by auto
qed

text \<open>Both goroutines find no child at the root; one compare-and-swap fails and its goroutine continues below the other's node.\<close>

definition demo_schedule :: "nat option list" where
  "demo_schedule = map Some ([0, 1, 1, 0, 0] @ replicate 10 0 @ replicate 10 1)"

text \<open>The same with two goroutines that change one prefix.\<close>

definition same_updates :: "(bool list \<times> nat update) list" where
  "same_updates = [([True, False], Ins 7), ([True, False], Rem)]"

theorem updates_wait_free_witness:
  "\<exists>h gs l'. fold sys_step demo_schedule ([empty_cell], start_updates same_updates, RDone None) = (h, gs, l') \<and> gs ! 1 = ([True, False], Rem, Finished)"
  using updates_wait_free [of "[empty_cell]" 1 same_updates demo_schedule "RDone None"]
  by (simp add: same_updates_def demo_schedule_def numeral_eq_Suc ptrs_ok_def)

section \<open>Lookups\<close>

text \<open>
  \<open>m\<close> is the table at the start and \<open>ip\<close> the address. The lookup is at the node of a prefix \<open>q\<close> of it, and its best match so far is the one of the prefixes
  it has checked. When it stops at a node, no longer prefix has a route.
\<close>

definition checked_below :: "(bool list \<Rightarrow> 'v option) \<Rightarrow> bool list \<Rightarrow> nat \<Rightarrow> 'v option" where
  "checked_below m ip k = (case k of 0 \<Rightarrow> None | Suc j \<Rightarrow> lpm_upto m ip j)"

definition look_ok :: "(bool list \<Rightarrow> bool \<times> 'v option) \<Rightarrow> bool list \<Rightarrow> 'v heap \<Rightarrow> 'v lpc \<Rightarrow> bool" where
  "look_ok c0 ip h l = (let m = \<lambda>q. live_target (c0 q) in
     (case l of
        RLeaf a bs best \<Rightarrow> (\<exists>q. walk_heap h 0 q = Some a \<and> q @ bs = ip \<and> best = checked_below m ip (length q))
      | RTarget a bs best \<Rightarrow> (\<exists>q. walk_heap h 0 q = Some a \<and> q @ bs = ip \<and> fst (c0 q) \<and> best = checked_below m ip (length q))
      | RChild a bs best \<Rightarrow> (\<exists>q. walk_heap h 0 q = Some a \<and> q @ bs = ip \<and> best = lpm_upto m ip (length q))
      | RLast a best \<Rightarrow> (\<exists>q bs. walk_heap h 0 q = Some a \<and> q @ bs = ip \<and> or_else (m q) best = lpm m ip)
      | RLastTarget a best \<Rightarrow> (\<exists>q bs. walk_heap h 0 q = Some a \<and> q @ bs = ip \<and> fst (c0 q) \<and> or_else (m q) best = lpm m ip)
      | RDone best \<Rightarrow> best = lpm m ip))"

lemma lpm_upto_checked: "q @ bs = ip \<Longrightarrow> lpm_upto m ip (length q) = or_else (m q) (checked_below m ip (length q))"
  by (cases q rule: rev_cases) (auto simp: checked_below_def or_else_def split: option.splits)

lemma look_ok_evolves:
  assumes "evolves p r h h'" "look_ok c0 ip h l"
  shows "look_ok c0 ip h' l"
proof -
  have "\<And>q a. walk_heap h 0 q = Some a \<Longrightarrow> walk_heap h' 0 q = Some a" using assms(1) by (auto simp: evolves_def)
  then show ?thesis using assms(2) unfolding look_ok_def Let_def by (cases l) (simp; blast)+
qed

lemma lpm_upto_none:
  assumes "n \<le> k" "\<And>j. n < j \<Longrightarrow> j \<le> k \<Longrightarrow> m (take j ip) = None"
  shows "lpm_upto m ip k = lpm_upto m ip n"
  using assms by (induction k) (auto simp: le_Suc_eq)

text \<open>Below a missing child there are no routes.\<close>

lemma lpm_stops:
  assumes "walk_heap h 0 q = Some a" "kid (h ! a) b = None" "ip = q @ b # bs" "\<And>k. cell_content h (take k ip) = c0 (take k ip)"
  shows "lpm (\<lambda>q. live_target (c0 q)) ip = lpm_upto (\<lambda>q. live_target (c0 q)) ip (length q)"
  unfolding lpm_def
proof (rule lpm_upto_none)
  fix j assume j: "length q < j" "j \<le> length ip"
  then have "take j ip = q @ b # take (j - length q - 1) bs" using assms(3) by (simp add: take_Cons' not_less_eq)
  then have "walk_heap h 0 (take j ip) = None" using walk_none [OF assms(1,2)] by simp
  then have "c0 (take j ip) = (False, None)" using assms(4) [of j] by (simp add: cell_content_def)
  then show "live_target (c0 (take j ip)) = None" by (simp add: live_target_def)
qed (simp add: assms(3))

lemma found_content: "walk_heap h 0 q = Some a \<Longrightarrow> cell_content h q = c \<Longrightarrow> c_leaf (h ! a) = fst c \<and> c_target (h ! a) = snd c"
  by (auto simp: cell_content_def)

lemma lookup_step_ok:
  assumes "look_ok c0 ip h l" "\<And>k. cell_content h (take k ip) = c0 (take k ip)"
  shows "look_ok c0 ip h (lookup_step h l)"
proof -
  let ?m = "\<lambda>q. live_target (c0 q)"
  have pre: "cell_content h q = c0 q" if "q @ bs = ip" for q bs using assms(2) [of "length q"] that by auto
  show ?thesis
  proof (cases l)
    case (RLeaf a bs best)
    then obtain q where q: "walk_heap h 0 q = Some a" "q @ bs = ip" "best = checked_below ?m ip (length q)" using assms(1) by (auto simp: look_ok_def Let_def)
    note f = found_content [OF q(1) pre [OF q(2)]]
    have u: "lpm_upto ?m ip (length q) = or_else (?m q) best" using lpm_upto_checked [OF q(2)] q(3) by simp
    have none: "?m q = None" if "\<not> fst (c0 q)" using that by (simp add: live_target_def)
    show ?thesis
    proof (cases "bs = []")
      case True
      then have "lpm ?m ip = or_else (?m q) best" using u q(2) by (simp add: lpm_def)
      then show ?thesis using True q(1,2) RLeaf unfolding look_ok_def Let_def by (simp, intro exI [of _ q]) simp
    next
      case False
      then show ?thesis using q u f none RLeaf by (cases "fst (c0 q)") (auto simp: look_ok_def Let_def or_else_def)
    qed
  next
    case (RTarget a bs best)
    then obtain q where q: "walk_heap h 0 q = Some a" "q @ bs = ip" "fst (c0 q)" "best = checked_below ?m ip (length q)" using assms(1) by (auto simp: look_ok_def Let_def)
    note f = found_content [OF q(1) pre [OF q(2)]]
    have "lpm_upto ?m ip (length q) = or_else (?m q) best" using lpm_upto_checked [OF q(2)] q(4) by simp
    then show ?thesis using q f RTarget by (auto simp: look_ok_def Let_def live_target_def)
  next
    case (RChild a bs best)
    then obtain q where q: "walk_heap h 0 q = Some a" "q @ bs = ip" "best = lpm_upto ?m ip (length q)" using assms(1) by (auto simp: look_ok_def Let_def)
    have o: "or_else (?m q) best = best" using lpm_upto_checked [OF q(2), of ?m] q(3) by (cases "?m q") (simp_all add: or_else_def)
    show ?thesis
    proof (cases bs)
      case Nil
      then have "or_else (?m q) best = lpm ?m ip" using q o by (simp add: lpm_def)
      then show ?thesis using q(1,2) RChild Nil unfolding look_ok_def Let_def by (simp, intro exI [of _ q]) simp
    next
      case (Cons b bs')
      show ?thesis
      proof (cases "kid (h ! a) b")
        case None
        have "ip = q @ b # bs'" using q(2) Cons by simp
        then have "lpm ?m ip = best" unfolding q(3) by (rule lpm_stops [OF q(1) None _ assms(2)])
        then have "or_else (?m q) best = lpm ?m ip" using o by simp
        then show ?thesis using q(1,2) RChild Cons None unfolding look_ok_def Let_def by simp blast
      next
        case (Some n)
        then show ?thesis using q RChild Cons walk_kid [OF q(1) Some]
          by (auto simp: look_ok_def Let_def checked_below_def intro!: exI [of _ "q @ [b]"])
      qed
    qed
  next
    case (RLast a best)
    then obtain q bs where q: "walk_heap h 0 q = Some a" "q @ bs = ip" "or_else (?m q) best = lpm ?m ip" using assms(1) by (auto simp: look_ok_def Let_def)
    note f = found_content [OF q(1) pre [OF q(2)]]
    show ?thesis
    proof (cases "fst (c0 q)")
      case True
      then show ?thesis using q f RLast by (auto simp: look_ok_def Let_def)
    next
      case False
      then have "?m q = None" by (simp add: live_target_def)
      then show ?thesis using q(3) f RLast False by (simp add: look_ok_def Let_def or_else_def)
    qed
  next
    case (RLastTarget a best)
    then obtain q bs where q: "walk_heap h 0 q = Some a" "q @ bs = ip" "fst (c0 q)" "or_else (?m q) best = lpm ?m ip" using assms(1) by (auto simp: look_ok_def Let_def)
    then show ?thesis using found_content [OF q(1) pre [OF q(2)]] RLastTarget by (auto simp: look_ok_def Let_def live_target_def)
  qed (use assms(1) in simp)
qed

lemma lookup_undisturbed_inv:
  assumes "trie_step\<^sup>*\<^sup>* (h0, start_updates ops, l0) st" "heap_tree h0" "distinct (map fst ops)" "l0 = RLeaf 0 ip None" "\<And>k. take k ip \<notin> fst ` set ops"
  shows "look_ok (cell_content h0) ip (fst st) (snd (snd st))"
  using assms(1)
proof (induction rule: rtranclp_induct)
  case base
  show ?case using assms(4) by (auto simp: look_ok_def Let_def checked_below_def intro!: exI [of _ "[]"])
next
  case (step st st')
  obtain h gs l h' gs' l' where e: "st = (h, gs, l)" "st' = (h', gs', l')" by (cases st; cases st')
  have inv: "trie_inv (cell_content h0) h gs" "ops_of gs = ops" using trie_reach_inv [OF step.hyps(1) [unfolded e] assms(2,3)] by blast+
  have ok: "look_ok (cell_content h0) ip h l" using step.IH e by simp
  have "fst ` set gs = fst ` set ops" unfolding inv(2) [symmetric] by (force simp: ops_of_def)
  then have c: "cell_content h (take k ip) = cell_content h0 (take k ip)" for k using inv(1) assms(5) by (simp add: trie_inv_def)
  from step.hyps(2) [unfolded e] show ?case
  proof (rule trie_stepE)
    fix i p u pc pc' assume s: "i < length gs" "gs ! i = (p, u, pc)" "update_step u h pc = (h', pc')" "l' = l"
    have "heap_tree h" "place_ok (cell_content h0) h (p, u, pc)" using inv(1) s(1,2) nth_mem [OF s(1)] by (simp_all add: trie_inv_def)
    then have "evolves p (reserved_cell pc) h h'" using update_step_ok s(3) by blast
    then show ?thesis using look_ok_evolves ok s(4) e by simp
  qed (use lookup_step_ok [OF ok c] e in simp)
qed

lemma lookup_lpm:
  assumes "trie_step\<^sup>*\<^sup>* (h0, start_updates ops, RLeaf 0 ip None) (h, gs, RDone res)" "heap_tree h0" "distinct (map fst ops)" "\<And>k. take k ip \<notin> fst ` set ops"
  shows "res = lpm (\<lambda>q. live_target (cell_content h0 q)) ip"
  using lookup_undisturbed_inv [OF assms(1-3) refl assms(4)] by (simp add: look_ok_def Let_def)

section \<open>Refinement of the sequential table\<close>

text \<open>An update as the router is asked for it, and the updates one after the other in the model where each runs on its own.\<close>

type_synonym 'v request = "bytes \<times> nat \<times> 'v update"

definition request_op :: "'v request \<Rightarrow> bool list \<times> 'v update" where
  "request_op rq = (case rq of (ip, ones, u) \<Rightarrow> (take ones (bits ip), u))"

definition valid4 :: "'v request \<Rightarrow> bool" where
  "valid4 rq = (case rq of (ip, ones, u) \<Rightarrow> length ip = 4 \<and> ones \<le> 32)"

fun apply_all :: "'v request list \<Rightarrow> 'v router \<Rightarrow> 'v router option" where
  "apply_all [] r = Some r"
| "apply_all ((ip, ones, u) # rqs) r =
     Option.bind (case u of Ins v \<Rightarrow> insertIPv4 r ip ones v | Rem \<Rightarrow> removeIPv4 r ip ones) (apply_all rqs)"

definition same_table :: "'v heap \<Rightarrow> 'v router \<Rightarrow> bool" where
  "same_table h r \<longleftrightarrow> (\<forall>p. live_target (cell_content h p) = entry (v4 r) p)"

lemma apply_one:
  assumes "valid4 (ip, ones, u)"
  shows "\<exists>r'. (case u of Ins v \<Rightarrow> insertIPv4 r ip ones v | Rem \<Rightarrow> removeIPv4 r ip ones) = Some r' \<and>
     entry (v4 r') = (entry (v4 r))(take ones (bits ip) := new_target u)"
  using assms t4.put_table [of ip ones r] t4.del_table [of ip ones r] by (cases u) (auto simp: valid4_def new_target_def)

lemma apply_all_table:
  assumes "list_all valid4 rqs" "distinct (map (fst \<circ> request_op) rqs)"
  shows "\<exists>r'. apply_all rqs r = Some r' \<and>
     (\<forall>p. entry (v4 r') p = (case map_of (map request_op rqs) p of Some u \<Rightarrow> new_target u | None \<Rightarrow> entry (v4 r) p))"
  using assms
proof (induction rqs arbitrary: r)
  case (Cons rq rqs)
  obtain ip ones u where rq: "rq = (ip, ones, u)" by (cases rq)
  let ?p = "take ones (bits ip)"
  obtain r1 where r1: "(case u of Ins v \<Rightarrow> insertIPv4 r ip ones v | Rem \<Rightarrow> removeIPv4 r ip ones) = Some r1"
    "entry (v4 r1) = (entry (v4 r))(?p := new_target u)" using apply_one [of ip ones u r] Cons.prems(1) rq by auto
  obtain r' where r': "apply_all rqs r1 = Some r'"
    "\<And>p. entry (v4 r') p = (case map_of (map request_op rqs) p of Some u \<Rightarrow> new_target u | None \<Rightarrow> entry (v4 r1) p)"
    using Cons.IH [of r1] Cons.prems by auto
  have "?p \<notin> fst ` set (map request_op rqs)" using Cons.prems(2) by (force simp: rq request_op_def)
  then have n: "map_of (map request_op rqs) ?p = None" by (simp only: map_of_eq_None_iff not_False_eq_True)
  have "entry (v4 r') p = (case map_of (map request_op (rq # rqs)) p of Some u \<Rightarrow> new_target u | None \<Rightarrow> entry (v4 r) p)" for p
    using r'(2) [of p] n by (cases "p = ?p") (simp_all add: rq request_op_def r1(2) split: option.splits)
  then show ?case using r1(1) r'(1) rq by simp
qed simp

text \<open>
  C6. The lock-free trie refines the sequential one. Any number of insertions and removals of IPv4 routes, of pairwise different prefixes, may run in the same
  trie in any interleaving of their atomic operations, with a lookup in between: none of them ever uses a nil node, and once all
  have returned, the trie holds exactly the table that the same requests make when they are executed one after the other.
\<close>
theorem concurrent_refines_sequential:
  assumes "trie_step\<^sup>*\<^sup>* (h0, start_updates (map request_op rqs), l0) (h, gs, l)" "heap_tree h0" "same_table h0 r"
    and "list_all valid4 rqs" "distinct (map (fst \<circ> request_op) rqs)"
  shows "(\<forall>(p, u, pc) \<in> set gs. pc \<noteq> Crashed) \<and>
    ((\<forall>(p, u, pc) \<in> set gs. pc = Finished) \<longrightarrow> (\<exists>r'. apply_all rqs r = Some r' \<and> same_table h r'))"
proof -
  have d: "distinct (map fst (map request_op rqs))" using assms(5) by simp
  obtain r' where r': "apply_all rqs r = Some r'"
    "\<And>p. entry (v4 r') p = (case map_of (map request_op rqs) p of Some u \<Rightarrow> new_target u | None \<Rightarrow> entry (v4 r) p)"
    using apply_all_table [OF assms(4,5)] by blast
  have "same_table h r'" if "\<forall>(p, u, pc) \<in> set gs. pc = Finished"
  proof -
    have "live_target (cell_content h p) = (case map_of (map request_op rqs) p of Some u \<Rightarrow> new_target u | None \<Rightarrow> live_target (cell_content h0 p))" for p
      using concurrent_updates_apply [OF assms(1,2) d] that by blast
    then show ?thesis using r'(2) assms(3) by (simp add: same_table_def split: option.splits)
  qed
  then show ?thesis using concurrent_updates_apply [OF assms(1,2) d] r'(1) by blast
qed

definition demo_requests :: "nat request list" where
  "demo_requests = [([128, 0, 0, 0], 1, Ins 7), ([128, 0, 0, 0], 2, Ins 8)]"

lemma demo_request_ops: "map request_op demo_requests = demo_updates"
  by code_simp

lemma demo_empty: "same_table [empty_cell] (NewRouter :: 'v router)"
proof -
  have "live_target (cell_content ([empty_cell] :: 'v heap) p) = None" for p by (cases p) (simp_all add: cell_content_def live_target_def empty_cell_def kid_def)
  moreover have "entry (v4 (NewRouter :: 'v router)) p = None" for p by (cases p) (simp_all add: NewRouter_def new_node_def)
  ultimately show ?thesis by (simp add: same_table_def)
qed

theorem concurrent_refines_sequential_witness:
  "\<exists>h gs l r'. trie_step\<^sup>*\<^sup>* ([empty_cell], start_updates demo_updates, RDone None) (h, gs, l) \<and> apply_all demo_requests NewRouter = Some r' \<and> same_table h r'"
proof -
  let ?st = "fold sys_step demo_schedule ([empty_cell], start_updates demo_updates, RDone None)"
  obtain h gs l where e: "?st = (h, gs, l)" by (cases ?st)
  have r: "trie_step\<^sup>*\<^sup>* ([empty_cell], start_updates demo_updates, RDone None) (h, gs, l)"
    using schedule_steps [of "([empty_cell], start_updates demo_updates, RDone None)" demo_schedule] e by simp
  have "list_all (\<lambda>(p, u, pc). pc = Finished) (fst (snd ?st))" by code_simp
  then have f: "\<forall>(p, u, pc) \<in> set gs. pc = Finished" using e by (simp add: list_all_iff)
  have v: "list_all valid4 demo_requests" "distinct (map (fst \<circ> request_op) demo_requests)" by code_simp+
  show ?thesis
    using concurrent_refines_sequential [OF r [folded demo_request_ops] demo_tree demo_empty v] f r by blast
qed

text \<open>
  C39. A lookup is not disturbed by updates elsewhere. If the IPv4 prefixes being inserted or removed are pairwise different and none of them is a prefix of the address, then whatever happens to
  the trie while the lookup walks it, new nodes on its path included, it returns what the sequential lookup finds in the table as it was.
\<close>
theorem lookup_undisturbed:
  assumes "trie_step\<^sup>*\<^sup>* (h0, start_updates ops, RLeaf 0 (bits ip) None) (h, gs, RDone res)" "heap_tree h0" "same_table h0 r" "length ip = 4"
    and "distinct (map fst ops)" "\<And>k. take k (bits ip) \<notin> fst ` set ops"
  shows "res = lookupIPv4 r ip"
proof -
  have "(\<lambda>q. live_target (cell_content h0 q)) = entry (v4 r)" using assms(3) by (auto simp: same_table_def)
  then show ?thesis using lookup_lpm [OF assms(1,2,5,6)] t4.look_lpm [OF assms(4), of r] by simp
qed

theorem lookup_undisturbed_witness:
  "\<exists>h gs. trie_step\<^sup>*\<^sup>* ([empty_cell], start_updates demo_updates, RLeaf 0 (bits [10, 0, 0, 1]) None) (h, gs, RDone (lookupIPv4 NewRouter [10, 0, 0, 1]))"
proof -
  let ?s0 = "([empty_cell], start_updates demo_updates, RLeaf 0 (bits [10, 0, 0, 1]) None)"
  let ?st = "fold sys_step (demo_schedule @ replicate 5 None) ?s0"
  obtain h gs l where e: "?st = (h, gs, l)" by (cases ?st)
  have "(case snd (snd ?st) of RDone r \<Rightarrow> True | _ \<Rightarrow> False)" by code_simp
  then obtain res where l: "l = RDone res" using e by (auto split: lpc.splits)
  have run: "trie_step\<^sup>*\<^sup>* ?s0 (h, gs, RDone res)" using schedule_steps [of ?s0 "demo_schedule @ replicate 5 None"] e l by simp
  have b: "bits [10, 0, 0, 1] = False # tl (bits [10, 0, 0, 1])" by code_simp
  have n: "take k (bits [10, 0, 0, 1]) \<notin> fst ` set demo_updates" for k by (subst b) (cases k, simp_all add: demo_updates_def)
  have d: "distinct (map fst demo_updates)" by (simp add: demo_updates_def)
  have "res = lookupIPv4 NewRouter [10, 0, 0, 1]" by (rule lookup_undisturbed [OF run demo_tree demo_empty _ d n]) simp
  then show ?thesis using run by blast
qed

section \<open>Two updates of one route\<close>

text \<open>
  An insertion and a removal of the same prefix that overlap may leave the target behind at a node that is no leaf. The next insertion sets
  the leaf flag before the target: until then lookups see the old, removed target.
\<close>

definition race_schedule :: "nat option list" where
  "race_schedule = [Some 0, Some 1, Some 1, Some 0]"

lemma stale_target_visible:
  "\<exists>h gs l h' gs' l'. fold sys_step race_schedule ([empty_cell], [([], Ins 7, Walk 0 []), ([], Rem, Walk 0 [])], RDone None) = (h, gs, l) \<and>
     map (snd \<circ> snd) gs = [Finished, Finished] \<and> live_target (cell_content h []) = None \<and>
     sys_step (Some 0) (h, [([], Ins (8 :: nat), Walk 0 [])], RDone None) = (h', gs', l') \<and> live_target (cell_content h' []) = Some 7"
proof -
  have "(case fold sys_step race_schedule ([empty_cell], [([], Ins 7, Walk 0 []), ([], Rem, Walk 0 [])], RDone None) of (h, gs, l) \<Rightarrow>
      map (snd \<circ> snd) gs = [Finished, Finished] \<and> live_target (cell_content h []) = None \<and>
      (case sys_step (Some 0) (h, [([], Ins (8 :: nat), Walk 0 [])], RDone None) of (h', gs', l') \<Rightarrow> live_target (cell_content h' []) = Some 7))"
    by code_simp
  then show ?thesis by (auto split: prod.splits)
qed

end
