(* ===== verification/Spec2Isabelle.thy ===== *)
theory Spec2Isabelle
  imports Transport_Props Router_Dump IpPool_Props Session_Quic_Props Limiter_Props Hub_Tx_Props Destination
    Quota_Flow Metrics Hub_Rx Session_Request Session_Conn Tcp_Accept Client_Sync_Props Client_Calls Client_Life P2P Manager_Net_Props Manager_Device_Props
    Manager_Auth Grace Quic Server_Main Server_Run Hub_Life Speed Router_Conc
begin

text \<open>
  A verification library for go-vnet, a virtual private network in Go. All paths below are under \<^verbatim>\<open>src/\<close>.

  \<^bold>\<open>The program.\<close> Devices log in to a server, which gives each an address of its network, keeps the routes to the devices of a network and
  passes packets between them; two clients may replace the detour over the server by a direct peer-to-peer stream. On a client the hub reads
  packets from a tun device, routes each to the destination of its address, and sends batches of them over a framed transport that may compress
  and encrypt; what arrives from the server or a peer is written to the device. A client learns its routes from the server by a periodic ping. The
  server counts the traffic of every session against a quota and limits its rate. A web manager stores networks, devices and quotas in a
  database and starts and stops the networks of the server.

  \<^bold>\<open>Conventions.\<close> Go integers of fixed width are words, or integers with the wrap-around of \<^verbatim>\<open>int64\<close> written out; strings are lists
  of characters and byte slices lists of bytes. An error return is a value of type \<^typ>\<open>goerr\<close>, mostly on the left of a sum; a run-time panic is
  the value \<^const>\<open>None\<close> of an option. What a mutex protects is one step; lock-free code is a step relation with one step per atomic
  operation (\<open>Limiter\<close>, \<open>Client_Calls\<close>, \<open>Router_Conc\<close>, \<open>Quota\<close>, \<open>Hub_Life\<close>; in \<open>Tx_Adaptor\<close> a dial is two steps). Objects shared through pointers live in a store with references (\<open>Server_Net\<close>, \<open>P2P\<close>). A loop that runs for
  ever is the function of one of its rounds; a bounded loop is a total recursive function, so nothing here has fuel. Only \<open>rx_run\<close> counts its rounds,
  and the theorems about it state that some number is enough. Random draws, times, map iteration order and
  the answers of libraries, of the database and of the network are arguments.

  \<^bold>\<open>Theories.\<close>
  \<^item> \<open>VNet_Prelude\<close>: bytes, big-endian codecs, slices and \<^verbatim>\<open>copy\<close>, errors, and the collections \<open>buf_simps\<close> and \<open>codec_simps\<close>. \<open>Net_Std\<close>: what is used of Go's
    package \<^verbatim>\<open>net\<close>.
  \<^item> \<open>Codec\<close>, \<open>Transport\<close> (\<^verbatim>\<open>common/protocol\<close>): the layers and the framed transport over its two shared arrays. \<open>Transport_Write\<close> shows that the writers
    send what the buffer-free \<open>spec_message\<close> describes, \<open>Transport_Read\<close> that the reader undoes it, \<open>Transport_Batch\<close> how packets are cut into batches;
    \<open>Transport_Props\<close> has the round trips, the limits of lengths and the error behaviour.
  \<^item> \<open>Router\<close> (\<^verbatim>\<open>common/router\<close>): the tries. \<open>Router_Table\<close> states the contract of one address family as the locale \<open>prefix_table\<close>, interpreted for IPv4
    and IPv6; \<open>Router_Props\<close> shows that routing is longest-prefix match after any changes, \<open>Router_Print\<close> and \<open>Router_Dump\<close> that the report of a table determines it.
    \<open>Router_Conc\<close> is the lock-free trie with one step per atomic operation: concurrent updates of different prefixes refine the sequential model, lookups are not
    disturbed by updates elsewhere, and every update is wait-free.
  \<^item> \<open>IpPool\<close>, \<open>IpPool_Props\<close> (\<^verbatim>\<open>common/addresses\<close>): the address allocator, leases over any sequence of operations.
  \<^item> \<open>Session_Quic\<close>, \<open>Session_Quic_Props\<close>, \<open>Session_Conn\<close>, \<open>Session_Request\<close> (\<^verbatim>\<open>common/session\<close>): datagram fragments and their reassembly in any order,
    control messages over a stream, and the encrypted envelope of the handshake. \<open>Control\<close> states the interface of control sessions as the locale
    \<open>send_receive\<close>, interpreted on both kinds of session and on their dispatch, and follows a function call from the caller to the server and back.
  \<^item> \<open>Limiter\<close>, \<open>Limiter_Props\<close> (\<^verbatim>\<open>common/rate\<close>), \<open>Pools\<close> (\<^verbatim>\<open>common/pool\<close>, locale \<open>object_pool\<close>), \<open>Metrics\<close>, \<open>Speed\<close> (\<^verbatim>\<open>common/metrics\<close>, locales \<open>traffic_counter\<close> and \<open>metric_view\<close>),
    \<open>Quota\<close>, \<open>Quota_Flow\<close> (\<^verbatim>\<open>common/quota\<close> and its persistence), \<open>Grace\<close> (\<^verbatim>\<open>common/grace\<close>), \<open>Config\<close> (\<^verbatim>\<open>common/config\<close> and the options).
  \<^item> \<open>Hub_Tx\<close>, \<open>Hub_Tx_Props\<close>, \<open>Hub_Rx\<close>, \<open>Hub_Life\<close>, \<open>Destination\<close> (\<^verbatim>\<open>vnet/client/hub\<close>): routing and batching of packets, reception, start and stop, negotiation, fallback and upgrade of
    a destination. \<open>P2P\<close> (\<^verbatim>\<open>vnet/client/client_p2p.go\<close>): the evaluation of a peer-to-peer stream on both ends.
  \<^item> \<open>Tx_Adaptor\<close> states the interface through which the hub opens and closes transports as the locale \<open>tx_adaptor\<close>; \<open>Tcp\<close> and \<open>Quic\<close> (\<^verbatim>\<open>client_tcp.go\<close>, \<^verbatim>\<open>server_tcp.go\<close>,
    \<^verbatim>\<open>client_quic.go\<close>, \<^verbatim>\<open>server_quic.go\<close>) interpret it. \<open>Tcp_Accept\<close> has the accept loop with its workers.
  \<^item> \<open>Server_Net\<close>, \<open>Server_Props\<close>, \<open>Server_Ops\<close>, \<open>Server_Ops_Props\<close>, \<open>Server_Main\<close> (\<^verbatim>\<open>vnet/server\<close>): networks and sessions with the invariant that connects leases, tables
    and routes; loops, function calls, proxy and handshake; the start of the server. \<open>Server_Run\<close> interleaves all of them and shows that the invariant
    survives everything the server does as long as no login names a previous session, and what the end of a session gives back.
  \<^item> \<open>Client_Sync\<close>, \<open>Client_Sync_Props\<close>, \<open>Client_Calls\<close>, \<open>Client_Life\<close> (\<^verbatim>\<open>vnet/client\<close>): how a client follows its server, its calls, and what it opens and releases.
  \<^item> \<open>Manager_Net\<close>, \<open>Manager_Net_Props\<close>, \<open>Manager_Device\<close>, \<open>Manager_Device_Props\<close>, \<open>Manager_Auth\<close> (\<^verbatim>\<open>manager/server/internal\<close>): networks, devices with their keys,
    quotas, and the check of signatures.
  \<^item> This theory composes them: packets from the queue of a sender to the device of the receiver, on Linux and elsewhere, the login as both sides see it and the synchronisation of a client with its server.

  \<^bold>\<open>Parameters and what is assumed of them.\<close> \<open>aead_ok\<close>: opening undoes sealing, which adds the tag. \<open>zstd_ok\<close>: decompression undoes compression.
  \<open>codecs_law\<close> and \<open>wire\<close>: base64, JSON and AES-CBC are undone by their inverses, and the client reads the server's JSON. \<open>dao_ok\<close>, \<open>network_dao_ok\<close>,
  \<open>device_dao_ok\<close>: tables keep rows by key, any query may fail. \<open>key_crypto_ok\<close>: PEM, AES and PKCS1 are undone by their inverses. Each is satisfied by the
  concrete instance of a witness.

  \<^bold>\<open>Not modelled.\<close> Generated code (database access, request and response types, service registries, controllers that only pass their fields on), the command
  line programs, tun devices and other operating system calls, TLS certificates, the libp2p host and the QUIC library behind their answers,
  \<^verbatim>\<open>Limiter.Wait\<close> (sleeping), logging. Concurrency is modelled where the code is lock-free or depends on the
  order of events (token bucket, quota counter, function calls, accept loop, dials, closing of signal channels, sessions); the requests of the manager, which take no lock, are
  single steps, and \<open>Manager_Net_Props\<close> shows what two of them that overlap can do; the trie's operations run one at a time
  in \<open>Router\<close>, which \<open>Router_Conc\<close> justifies for concurrent updates of different IPv4 prefixes; overlapping updates of one prefix return, but may leave a wrong table.
\<close>


section \<open>From the queue of a destination to the device of its peer\<close>

lemma queued_valid:
  assumes "\<forall>e \<in> set events. \<forall>j < N e. h + Sizes e ! j \<le> length (Buffer e ! j)"
  shows "valid_batch (map fst (take k (queued events))) (map snd (take k (queued events))) h"
proof -
  have "h + snd p \<le> length (fst p)" if "p \<in> set (queued events)" for p
    using that assms by (auto simp: queued_def event_packets_def)
  then show ?thesis unfolding valid_batch_def list_all2_conv_all_nth by (metis length_map nth_map in_set_takeD nth_mem)
qed

lemma packets_pairs: "packets (map fst ps) (map snd ps) h = map (\<lambda>(b, s). sub h s b) ps"
  unfolding packets_def by (induction ps) auto

lemma link_delivers:
  assumes "wf_transport t" "wfault (upstream t) = None" "codecs_ok t" "\<And>i. \<exists>r. rnds i = Some r \<and> length r = 24"
    and "valid_batch buf sizes h" "BatchWrite t rnds buf sizes h = Some (t', n, None)"
    and "peers t rt" "inb (upstream rt) = newly_sent t t' @ rest" "\<And>i. event_ok cfg (packets buf sizes h) (fresh i)"
  shows "\<exists>k rt' evs. rx_run cfg fresh 0 k rt = Some (rt', evs, None) \<and> (\<forall>ev \<in> set evs. event_fits cfg ev) \<and>
     concat (map (event_out (HeaderSize cfg)) evs) = packets buf sizes h \<and> Transport_Read.received rt rest rt'"
proof -
  have "sends t (packets buf sizes h) 0 (BatchWrite t rnds buf sizes h)"
    by (rule BatchWrite_sends) (use assms in auto)
  then obtain pss fs where b: "sent t (concat fs) t'" "packets buf sizes h = concat pss" "list_all2 (batch_of t) pss fs"
    using assms(6) by (auto simp: sends_def)
  then show ?thesis
    using rx_run_batches [OF b(3) assms(3,7), of rest cfg "packets buf sizes h" fresh 0] assms(8,9) by fastforce
qed

lemma list_all2_concat: "list_all2 (list_all2 R) xss yss \<Longrightarrow> list_all2 R (concat xss) (concat yss)"
  by (induction rule: list_all2_induct) (auto intro: list_all2_appendI)

text \<open>What the two device loops write of events that fit: the packets, or on Linux whole buffers with a packet at the front of each.\<close>

lemma device_loops_write:
  assumes "\<forall>ev \<in> set evs. event_fits cfg ev" "concat (map (event_out (HeaderSize cfg)) evs) = P"
  shows "(HeaderSize cfg = 0 \<longrightarrow> (\<exists>outs. map writeDevice_round evs = map Some outs \<and> concat outs = P)) \<and>
     (\<exists>bufs. map (writeDeviceLinux_round cfg) evs = map Some bufs \<and> list_all2 prefix P (concat bufs))"
proof (intro conjI impI)
  assume h: "HeaderSize cfg = 0"
  have "map writeDevice_round evs = map Some (map (event_out 0) evs)" using assms(1) writeDevice_out [OF _ h] by simp
  moreover have "concat (map (event_out 0) evs) = P" using assms(2) h by simp
  ultimately show "\<exists>outs. map writeDevice_round evs = map Some outs \<and> concat outs = P" by blast
next
  have "\<exists>bufs. map (writeDeviceLinux_round cfg) evs = map Some bufs \<and> list_all2 (list_all2 prefix) (map (event_out (HeaderSize cfg)) evs) bufs"
    using assms(1)
  proof (induction evs)
    case (Cons ev evs)
    obtain bs where "writeDeviceLinux_round cfg ev = Some bs" "list_all2 prefix (event_out (HeaderSize cfg) ev) bs"
      using writeDeviceLinux_out [of cfg ev] Cons.prems by auto
    moreover obtain bufs where "map (writeDeviceLinux_round cfg) evs = map Some bufs"
      "list_all2 (list_all2 prefix) (map (event_out (HeaderSize cfg)) evs) bufs" using Cons by auto
    ultimately show ?case by (intro exI [of _ "bs # bufs"]) simp
  qed simp
  then show "\<exists>bufs. map (writeDeviceLinux_round cfg) evs = map Some bufs \<and> list_all2 prefix P (concat bufs)"
    using assms(2) list_all2_concat by metis
qed

text \<open>
  C1. Packets arrive: what a round of a destination's transmit loop takes from its queue and hands to the transport without an error
  is, on the other side of the stream, read by the receive loop and handed to the device of the peer in order,
  through batching, compression and encryption. A receiver that writes packets one by one (every system but Linux, where there is no room in front of the packets)
  writes exactly the packets. The batch loop of Linux hands over one buffer for each packet, in order, that begins with the packet, but it ignores the sizes
  and passes each buffer whole, with what is behind the packet.
\<close>
theorem packets_end_to_end:
  assumes "evq \<noteq> []" "\<forall>e \<in> set evq. 0 < N e" "N (hd evq) \<le> maxBuf"
    and "\<forall>e \<in> set evq. \<forall>j < N e. h + Sizes e ! j \<le> length (Buffer e ! j)"
    and "txLoopN_round maxBuf evq = Some (ps, events, later)"
    and "wf_transport t" "wfault (upstream t) = None" "codecs_ok t" "\<And>i. \<exists>r. rnds i = Some r \<and> length r = 24"
    and "BatchWrite t rnds (map fst ps) (map snd ps) h = Some (t', n, None)"
    and "peers t rt" "inb (upstream rt) = newly_sent t t' @ rest"
    and "\<And>i. event_ok cfg (map (\<lambda>(b, s). sub h s b) ps) (fresh i)"
  shows "\<exists>k rt' evs P. rx_run cfg fresh 0 k rt = Some (rt', evs, None) \<and>
     P = map (\<lambda>(b, s). sub h s b) (take maxBuf (queued events)) \<and> evq = events @ later \<and> inb (upstream rt') = rest \<and>
     (HeaderSize cfg = 0 \<longrightarrow> (\<exists>outs. map writeDevice_round evs = map Some outs \<and> concat outs = P)) \<and>
     (\<exists>bufs. map (writeDeviceLinux_round cfg) evs = map Some bufs \<and> list_all2 prefix P (concat bufs))"
proof -
  have q: "evq = events @ later" "ps = take maxBuf (queued events)"
    using txLoopN_round_ok [OF assms(1-3)] assms(5) by auto
  have v: "valid_batch (map fst ps) (map snd ps) h" using queued_valid [of events h maxBuf] assms(4) q by auto
  obtain k rt' evs where r: "rx_run cfg fresh 0 k rt = Some (rt', evs, None)" "\<forall>ev \<in> set evs. event_fits cfg ev"
    "concat (map (event_out (HeaderSize cfg)) evs) = packets (map fst ps) (map snd ps) h" "Transport_Read.received rt rest rt'"
    using link_delivers [OF assms(6-9) v assms(10-12)] assms(13) unfolding packets_pairs by metis
  let ?P = "map (\<lambda>(b, s). sub h s b) (take maxBuf (queued events))"
  have P: "packets (map fst ps) (map snd ps) h = ?P" unfolding packets_pairs q(2) ..
  have i: "inb (upstream rt') = rest" using r(4) by (simp add: Transport_Read.received_def)
  note w = device_loops_write [OF r(2,3), unfolded P]
  show ?thesis
    by (rule exI [of _ k], rule exI [of _ rt'], rule exI [of _ evs], rule exI [of _ ?P])
       (intro conjI, rule r(1), rule refl, rule q(1), rule i, rule w [THEN conjunct1], rule w [THEN conjunct2])
qed

definition demo_queue :: "txEvent list" where
  "demo_queue = [\<lparr> Buffer = [[9, 1, 2, 3], [9, 4]], Sizes = [3, 1], N = 2 \<rparr>]"

definition demo_cfg :: hub_config where
  "demo_cfg = \<lparr> BatchSize = 128, HeaderSize = 0, MTU = 20, MaxRxEventBuf = 4, MaxTxEventBuf = 4 \<rparr>"

theorem packets_end_to_end_witness:
  "\<exists>rt k rt' evs. rx_run demo_cfg (\<lambda>_. new_rxEvent demo_cfg) 0 k rt = Some (rt', evs, None) \<and>
     (\<exists>outs. map writeDevice_round evs = map Some outs \<and> concat outs = [[1, 2, 3], [4]]) \<and>
     (\<exists>bufs. map (writeDeviceLinux_round demo_cfg) evs = map Some bufs \<and> list_all2 prefix [[1, 2, 3], [4]] (concat bufs))"
proof -
  obtain t' n where w: "BatchWrite (secure_transport plain_up) (\<lambda>i. Some (replicate 24 7)) [[9, 1, 2, 3], [9, 4]] [3, 1] 1 = Some (t', n, None)"
    using secure_batch by blast
  let ?rt = "secure_transport (plain_up\<lparr>inb := newly_sent (secure_transport plain_up) t'\<rparr>)"
  let ?ps = "[([9, 1, 2, 3], 3), ([9, 4], 1)] :: (bytes \<times> nat) list"
  let ?P = "map (\<lambda>(b, s). sub 1 s b) (take 4 (queued demo_queue))"
  have r: "txLoopN_round 4 demo_queue = Some (?ps, demo_queue, [])" by (simp add: demo_queue_def txLoopN_round_def event_packets_def numeral_2_eq_2)
  have p: "map (\<lambda>(b, s). sub 1 s b) ?ps = [[1, 2, 3], [4]]" by (simp add: sub_def)
  have e: "event_ok demo_cfg [[1, 2, 3], [4]] (new_rxEvent demo_cfg)"
    by (simp add: event_ok_def slots_for_def new_rxEvent_def demo_cfg_def MaxTransportByteSize_def)
  have P: "?P = [[1, 2, 3], [4]]" by (simp add: demo_queue_def queued_def event_packets_def sub_def numeral_2_eq_2)
  have "\<exists>k rt' evs P. rx_run demo_cfg (\<lambda>_. new_rxEvent demo_cfg) 0 k ?rt = Some (rt', evs, None) \<and> P = ?P \<and> demo_queue = demo_queue @ [] \<and>
     inb (upstream rt') = [] \<and> (HeaderSize demo_cfg = 0 \<longrightarrow> (\<exists>outs. map writeDevice_round evs = map Some outs \<and> concat outs = P)) \<and>
     (\<exists>bufs. map (writeDeviceLinux_round demo_cfg) evs = map Some bufs \<and> list_all2 prefix P (concat bufs))"
    by (rule packets_end_to_end [OF _ _ _ _ r, where t = "secure_transport plain_up" and t' = t' and n = n and rnds = "\<lambda>i. Some (replicate 24 7)"])
      (use w e p in \<open>simp_all add: demo_queue_def demo_cfg_def less_Suc_eq numeral_2_eq_2\<close>)
  moreover have "HeaderSize demo_cfg = 0" by (simp add: demo_cfg_def)
  ultimately show ?thesis unfolding P by blast
qed

section \<open>A client follows its server\<close>

lemma ping_answer:
  assumes "sess s ref = Some ss" "ss_network ss = Some nref" "nets s nref = Some n"
  shows "\<exists>s' resp. handleFuncCall server_functions E ref (build_request uuid ''ping'' None) s = Some (s', Some resp, None) \<and>
     fp_RequestId resp = uuid \<and> fp_Data resp = VString (MD5 (ce_md5 E) (net_router n) @ '','' @ utoa (unat (peerMappingVersion s)))"
  using assms by (simp add: handleFuncCall_def server_functions_def RegisterHandler_def build_request_def funcPing_def store_def
      upd_session_def session_net_def ok_response_def)

lemma ping_split:
  assumes "CHR '','' \<notin> set h"
  shows "split_at CHR '','' (h @ '','' @ utoa k) = [h, utoa k]"
proof -
  have "CHR '','' \<notin> set (utoa k)" using utoa_chars [of "CHR '',''" k] by auto
  then show ?thesis using split_at_append [OF assms, of "utoa k"] split_at_none by simp
qed

lemma route_answer:
  assumes "sess s ref = Some ss" "ss_network ss = Some nref" "nets s nref = Some n"
  shows "\<exists>resp. handleFuncCall server_functions E ref (build_request uuid ''get_router_data'' None) s = Some (s, Some resp, None) \<and>
     fp_RequestId resp = uuid \<and> fp_Data resp = VString (ce_keys E (Keys (net_router n)))"
  using assms by (simp add: handleFuncCall_def server_functions_def RegisterHandler_def build_request_def funcGetRouteData_def
      session_net_def ok_response_def)

lemma ping_keeps:
  assumes "sess s ref = Some ss" "ss_network ss = Some nref" "nets s nref = Some n"
    and "handleFuncCall server_functions E ref (build_request uuid ''ping'' None) s = Some (s', resp, err)"
  shows "\<exists>ss'. sess s' ref = Some ss' \<and> ss_network ss' = Some nref \<and> nets s' nref = Some n"
  using assms by (auto simp: handleFuncCall_def server_functions_def RegisterHandler_def build_request_def funcPing_def store_def
      upd_session_def session_net_def)

text \<open>A client that gets the ping's answer, with the outcome of its update of the router.\<close>

lemma syncRouter_answered:
  assumes "CHR '','' \<notin> set h" "unat ver < 2 ^ 63"
    and "(if h \<noteq> MD5 md5hex (cl_router c) then map_option fst (upd c) else Some c) = Some c1"
  shows "syncRouter md5hex (Inr (h @ '','' @ utoa (unat ver))) upd pm c =
     Some (if cl_version c1 \<noteq> ver \<and> enabled (cl_p2p c1) then (fst (pm c1))\<lparr>cl_version := ver\<rparr> else c1, None)"
proof -
  have v: "of_int (Atoi (utoa (unat ver))) = ver" using Atoi_utoa [OF assms(2)] by simp
  show ?thesis unfolding syncRouter_def sum.case ping_split [OF assms(1)] list.case Let_def v assms(3) by simp
qed

text \<open>
  C12. After one synchronisation a client agrees with its server, if both its calls are answered and the server does not change in between. The client pings, and the server answers through its
  table of functions with the fingerprint of its routing table and the version of its peer mapping; the client compares them with its own and, where they differ,
  asks for the table and for the mapping. Both tables consist of routes to IPv4 hosts, the fingerprint contains no comma and the version is below 2 ^ 63. Afterwards the fingerprints are
  equal and, if they were not before, so are the destinations; with peer-to-peer enabled the version is the server's, whatever
  the answer for the mapping was. If the call for the table fails, that is not reported: the synchronisation ends without an error and the
  routes are the old ones.
\<close>
theorem synchronised_after_ping:
  assumes "sess s ref = Some ss" "ss_network ss = Some nref" "nets s nref = Some n"
    and "host_table (routes (net_router n))" "host_table (routes (cl_router c))"
    and "set cord = set (Keys (cl_router c))" "set mord = set (Keys (net_router n))"
    and "\<forall>x. CHR '','' \<notin> set (ce_md5 E x)" "unat (peerMappingVersion s) < 2 ^ 63"
    and "\<forall>ks. unkeys (ce_keys E ks) = Some (Inr ks)"
  shows "\<exists>s' resp data resp2 table.
     handleFuncCall server_functions E ref (build_request uuid ''ping'' None) s = Some (s', Some resp, None) \<and>
     fp_RequestId resp = uuid \<and> fp_Data resp = VString data \<and>
     handleFuncCall server_functions E ref (build_request uuid2 ''get_router_data'' None) s' = Some (s', Some resp2, None) \<and>
     fp_RequestId resp2 = uuid2 \<and> fp_Data resp2 = VString table \<and>
     (\<exists>c'. syncRouter (ce_md5 E) (Inr data) (updateRouter (Inr (unkeys table)) cord mord) (syncP2PPeerMapping presp parse self pord) c = Some (c', None) \<and>
        MD5 (ce_md5 E) (cl_router c') = MD5 (ce_md5 E) (net_router n) \<and>
        (MD5 (ce_md5 E) (cl_router c) \<noteq> MD5 (ce_md5 E) (net_router n) \<longrightarrow>
           (\<forall>fp. routes (cl_router c') fp = None \<longleftrightarrow> routes (net_router n) fp = None)) \<and>
        (enabled (cl_p2p c) \<longrightarrow> cl_version c' = peerMappingVersion s)) \<and>
     (\<forall>e. \<exists>c'. syncRouter (ce_md5 E) (Inr data) (updateRouter (Inl e) cord mord) (syncP2PPeerMapping presp parse self pord) c = Some (c', None) \<and>
        routes (cl_router c') = routes (cl_router c))"
proof -
  let ?h = "MD5 (ce_md5 E) (net_router n)" and ?ver = "peerMappingVersion s"
  let ?upd = "updateRouter (Inr (Some (Inr (Keys (net_router n))))) cord mord" and ?peers = "syncP2PPeerMapping presp parse self pord"
  obtain c1 where c1: "(if ?h \<noteq> MD5 (ce_md5 E) (cl_router c) then map_option fst (?upd c) else Some c) = Some c1"
    "MD5 (ce_md5 E) (cl_router c1) = ?h" "cl_p2p c1 = cl_p2p c"
    "?h \<noteq> MD5 (ce_md5 E) (cl_router c) \<Longrightarrow> routes (cl_router c1) fp = None \<longleftrightarrow> routes (net_router n) fp = None" for fp
  proof (cases "?h = MD5 (ce_md5 E) (cl_router c)")
    case False
    obtain c1 where u: "?upd c = Some (c1, None)" "\<And>fp. (routes (cl_router c1) fp = None) = (routes (net_router n) fp = None)"
      using updateRouter_routes [OF assms(4-7)] by metis
    show ?thesis using that [of c1] False u MD5_dom [OF u(2), of "ce_md5 E"] updateRouter_p2p [OF u(1)] by simp
  qed (use that in simp)
  have comma: "CHR '','' \<notin> set ?h" using assms(8) by (simp add: MD5_def)
  let ?c2 = "\<lambda>c1. if cl_version c1 \<noteq> ?ver \<and> enabled (cl_p2p c1) then (fst (?peers c1))\<lparr>cl_version := ?ver\<rparr> else c1"
  have ok: "syncRouter (ce_md5 E) (Inr (?h @ '','' @ utoa (unat ?ver))) ?upd ?peers c = Some (?c2 c1, None)"
    by (rule syncRouter_answered [where upd = ?upd and c = c, OF comma assms(9) c1(1)])
  have same: "routes (cl_router (?c2 c1)) = routes (cl_router c1)" for c1 by auto
  have dom: "routes (cl_router (?c2 c1)) fp = None \<longleftrightarrow> routes (net_router n) fp = None" if "MD5 (ce_md5 E) (cl_router c) \<noteq> ?h" for fp
    unfolding same using c1(4) that by metis
  have agreed: "MD5 (ce_md5 E) (cl_router (?c2 c1)) = ?h" "enabled (cl_p2p c) \<longrightarrow> cl_version (?c2 c1) = ?ver"
    using c1(2,3) MD5_dom [of "cl_router (?c2 c1)" "cl_router c1" "ce_md5 E"] same by auto
  have failed: "\<exists>c'. syncRouter (ce_md5 E) (Inr (?h @ '','' @ utoa (unat ?ver))) (updateRouter (Inl e) cord mord) ?peers c = Some (c', None) \<and>
      routes (cl_router c') = routes (cl_router c)" for e
  proof -
    have "(if ?h \<noteq> MD5 (ce_md5 E) (cl_router c) then map_option fst (updateRouter (Inl e) cord mord c) else Some c) = Some c"
      by (simp add: updateRouter_def)
    from syncRouter_answered [where upd = "updateRouter (Inl e) cord mord" and c = c, OF comma assms(9) this] show ?thesis using same [of c] by blast
  qed
  obtain s' resp where a: "handleFuncCall server_functions E ref (build_request uuid ''ping'' None) s = Some (s', Some resp, None)"
    "fp_RequestId resp = uuid" "fp_Data resp = VString (?h @ '','' @ utoa (unat ?ver))" using ping_answer [OF assms(1-3), of E uuid] by blast
  obtain ss' where s': "sess s' ref = Some ss'" "ss_network ss' = Some nref" "nets s' nref = Some n" using ping_keeps [OF assms(1-3) a(1)] by blast
  show ?thesis using a route_answer [OF s', of E uuid2] ok agreed dom failed assms(10) by metis
qed

text \<open>An encoding of lists of keys: each is quoted and ends with a dot.\<close>

definition keys_text :: "string list \<Rightarrow> string" where
  "keys_text ks = ''.'' @ concat (map (\<lambda>k. quote k @ ''.'') ks)"

definition text_keys :: "string \<Rightarrow> (goerr + string list) option" where
  "text_keys t = (if t = [] then None else Some (Inr (map (the \<circ> unquote) (butlast (split_at CHR ''.'' (tl t))))))"

lemma text_keys_text: "text_keys (keys_text ks) = Some (Inr ks)"
proof -
  have "map (the \<circ> unquote) (butlast (split_at CHR ''.'' (concat (map (\<lambda>k. quote k @ ''.'') ks)))) = ks"
    by (induction ks) (simp_all add: split_at_append)
  then show ?thesis by (simp add: text_keys_def keys_text_def)
qed

text \<open>A server with a route to 10.0.0.2 and a client with one to 10.0.0.9, before and after.\<close>

definition demo_env :: call_env where
  "demo_env = \<lparr> ce_now = 7, ce_md5 = map (\<lambda>c. if c = CHR '','' then CHR '';'' else c), ce_keys = keys_text, ce_mapping = (\<lambda>_. []), ce_info = [] \<rparr>"

definition routed_net :: net where
  "routed_net = demo_net\<lparr>net_router := the (Register NewRouter (host_text [10, 0, 0, 2]) 7)\<rparr>"

definition stale_client :: client where
  "stale_client = demo_client\<lparr>cl_version := 3, cl_p2p := demo_p2p, cl_router := the (Register NewRouter (host_text [10, 0, 0, 9]) None)\<rparr>"

lemma demo_routes:
  "routes (net_router routed_net) = (\<lambda>_. None)((True, bits [10, 0, 0, 2]) \<mapsto> 7)"
  "routes (cl_router stale_client) = (\<lambda>_. None)((True, bits [10, 0, 0, 9]) \<mapsto> None)"
  using Register_host [of "[10, 0, 0, 2]" NewRouter "7 :: nat"] Register_host [of "[10, 0, 0, 9]" NewRouter "None :: destination option"]
  by (auto simp: host_text_def routed_net_def stale_client_def)

theorem synchronised_after_ping_witness:
  "\<exists>data table c'. syncRouter (ce_md5 demo_env) (Inr data) (updateRouter (Inr (text_keys table)) (Keys (cl_router stale_client)) (Keys (net_router routed_net)))
       (syncP2PPeerMapping (Inl EOF) (\<lambda>_. None) [] []) stale_client = Some (c', None) \<and>
     MD5 (ce_md5 demo_env) (cl_router c') = MD5 (ce_md5 demo_env) (net_router routed_net) \<and> cl_version c' = 9 \<and>
     routes (cl_router c') (True, bits [10, 0, 0, 2]) \<noteq> None \<and> routes (cl_router c') (True, bits [10, 0, 0, 9]) = None"
proof -
  let ?s = "demo_server\<lparr>sess := [3 \<mapsto> (newServerSession 0 ''c'')\<lparr>ss_network := Some 0\<rparr>], nets := [0 \<mapsto> routed_net], peerMappingVersion := 9\<rparr>"
  let ?ss = "(newServerSession 0 ''c'')\<lparr>ss_network := Some 0\<rparr>"
  have s: "sess ?s 3 = Some ?ss" "ss_network ?ss = Some 0" "nets ?s 0 = Some routed_net" by simp_all
  have t: "host_table (routes (net_router routed_net))" "host_table (routes (cl_router stale_client))"
    unfolding host_table_def demo_routes by (auto intro: exI [of _ "[10, 0, 0, 2]"] exI [of _ "[10, 0, 0, 9]"])
  have c: "\<forall>x. CHR '','' \<notin> set (ce_md5 demo_env x)" "unat (peerMappingVersion ?s) < 2 ^ 63" "\<forall>ks. text_keys (ce_keys demo_env ks) = Some (Inr ks)"
    by (auto simp: demo_env_def text_keys_text)
  have ne: "MD5 (ce_md5 demo_env) (cl_router stale_client) \<noteq> MD5 (ce_md5 demo_env) (net_router routed_net)" by code_simp
  have b: "bits [10, 0, 0, 9] \<noteq> bits [10, 0, 0, 2]" by code_simp
  obtain data table c' where r: "syncRouter (ce_md5 demo_env) (Inr data) (updateRouter (Inr (text_keys table)) (Keys (cl_router stale_client)) (Keys (net_router routed_net)))
       (syncP2PPeerMapping (Inl EOF) (\<lambda>_. None) [] []) stale_client = Some (c', None)"
     "MD5 (ce_md5 demo_env) (cl_router c') = MD5 (ce_md5 demo_env) (net_router routed_net)"
     "\<forall>fp. routes (cl_router c') fp = None \<longleftrightarrow> routes (net_router routed_net) fp = None"
     "enabled (cl_p2p stale_client) \<longrightarrow> cl_version c' = peerMappingVersion ?s"
    using synchronised_after_ping [OF s t refl refl c, of "''u''" "''v''" "Inl EOF" "\<lambda>_. None" "[]" "[]"] ne by blast
  have "cl_version c' = 9" using r(4) by (simp add: stale_client_def demo_p2p_def)
  then show ?thesis using r(1-3) b by (intro exI [of _ data] exI [of _ table] exI [of _ c']) (simp add: demo_routes)
qed

section \<open>Logging in\<close>

text \<open>What the client sees of the answer to its handshake: the session or the text of the error.\<close>

definition hs_view :: "(goerr \<Rightarrow> string) \<Rightarrow> (srv_session \<Rightarrow> 'v) \<Rightarrow> hs_response \<Rightarrow> 'v handshakeResponse" where
  "hs_view text sview r =
     (case r of HsSession ss \<Rightarrow> \<lparr> hr_Session = Some (sview ss), hr_Error = [] \<rparr> | HsError e \<Rightarrow> \<lparr> hr_Session = None, hr_Error = text e \<rparr>)"

lemma request_parsed:
  assumes "codecs_law C" "length secret = 16" "length (Nonce h) = 16" "EncryptOAEP C secret = Inr es" "json_payload C req = Inr qb"
  shows "\<exists>request h' payload. buildRequest C req h secret = Inr request \<and> ParseRequest C request = Inr (h', payload) \<and>
     SubDeviceId h' = SubDeviceId h \<and> Key h' = Key h"
proof -
  let ?h = "h\<lparr>Secret := b64 C es\<rparr>"
  have "\<exists>y. EncryptCBC C qb secret (Nonce h) = Inr y"
    using assms(1-3) unfolding codecs_law_def by (elim conjE allE [of _ qb] allE [of _ secret] allE [of _ "Nonce h"]) blast
  then obtain enc where enc: "EncryptCBC C qb secret (Nonce ?h) = Inr enc" by fastforce
  then obtain request where m: "buildMessage C ?h secret (Inr qb) = Inr request" by (simp add: buildMessage_def Let_def)
  have "buildRequest C req h secret = Inr request" using assms(4,5) m by (simp add: buildRequest_def)
  then show ?thesis using ParseRequest_build [OF assms(1) m enc] by (intro exI [of _ request] exI [of _ ?h] exI [of _ "b64 C enc"]) simp
qed

text \<open>The server's part of a login whose key was found.\<close>

lemma login_answered:
  assumes "codecs_law C" "Session_Request.wire D C (hs_view text sview)" "length secret = 16" "length nonce = 16"
    and "EncryptOAEP C secret = Inr es" "json_payload C req = Inr qb" "keyfor (lk_SubDeviceId l) (lk_Key l) = Inr C"
    and "handshake_handler (mk (lk_SubDeviceId l) req) ref s = Some (s', err)" "sess s' ref = Some ss"
    and "json_resp C (case err of None \<Rightarrow> HsSession ss | Some e \<Rightarrow> HsError e) = Inr rb" "\<And>e. text e \<noteq> []"
    and "buildRequest D req (NewHeader now nonce (lk_SubDeviceId l) (lk_Key l)) secret = Inr request"
  shows "\<exists>reply. handshake True (Inr request) C keyfor mk now' ref s = Some (s', Some reply, err) \<and>
     client_handshake D (Inr l) now nonce secret (\<lambda>m. if m = request then Inr reply else Inl EOF) req =
       Some (case err of None \<Rightarrow> Inr (sview ss) | Some e \<Rightarrow> Inl (ErrorNew (text e)))"
proof -
  let ?h = "NewHeader now nonce (lk_SubDeviceId l) (lk_Key l)"
  let ?resp = "case err of None \<Rightarrow> HsSession ss | Some e \<Rightarrow> HsError e"
  let ?handler = "\<lambda>req s. case handshake_handler (mk (lk_SubDeviceId l) req) ref s of
       None \<Rightarrow> None | Some (s', Some e) \<Rightarrow> Some (s', HsError e, Some e)
     | Some (s', None) \<Rightarrow> map_option (\<lambda>ss. (s', HsSession ss, None)) (sess s' ref)"
  have n: "length (Nonce ?h) = 16" using assms(4) by (simp add: NewHeader_def)
  have hd: "?handler req s = Some (s', ?resp, err)" using assms(8,9) by (cases err) simp_all
  obtain request' h' payload h2 reply where r': "buildRequest C req ?h secret = Inr request'" "ParseRequest C request' = Inr (h', payload)"
    "SubDeviceId h' = SubDeviceId ?h" "Key h' = Key ?h" "HandleRequest C now' h' payload ?handler s = Some (s', reply, err)"
    "Nonce h2 = Nonce ?h" "buildMessage C h2 secret (json_resp C ?resp) = Inr reply"
    using request_handled [where handler = ?handler and s = s, OF assms(1,3) n assms(5,6,10) hd] by blast
  have "request' = request" using r'(1) assms(12) wire_request [OF assms(2), of req ?h secret] by simp
  note r = r' [unfolded this]
  have i: "SubDeviceId h' = lk_SubDeviceId l" "Key h' = lk_Key l" using r(3,4) by (simp_all add: NewHeader_def)
  have srv: "handshake True (Inr request) C keyfor mk now' ref s = Some (s', Some reply, err)"
    using r(2,5) i assms(7) by (simp add: handshake_def)
  have "decode D reply secret nonce = Some (Inr (hs_view text sview ?resp))"
    using wire_decode [OF assms(1,2) r(7)] r(6) by (simp add: NewHeader_def)
  then have "client_handshake D (Inr l) now nonce secret (\<lambda>m. if m = request then Inr reply else Inl EOF) req =
       Some (case err of None \<Rightarrow> Inr (sview ss) | Some e \<Rightarrow> Inl (ErrorNew (text e)))"
    using assms(11,12) by (cases err) (simp_all add: client_handshake_def Do_def hs_view_def NewHeader_def)
  then show ?thesis using srv by blast
qed

text \<open>
  C2. A login whose request is received ends the same way on both sides, as far as the server answers. The request that the client builds from its link passes the server's
  parsing. If the key of the sub device is found and the answer can be encoded, the server decrypts the request, acquires a device for the sub device of the link and answers;
  and what the client's handshake returns is exactly the outcome on the server: its session, with the device that was acquired for it, or the error. If the
  key is not found, the server ends with an error of its own and sends nothing: its state is unchanged, and the client returns the error with which its
  wait for the answer ends, whatever that is.
\<close>
theorem login_end_to_end:
  assumes "codecs_law C" "Session_Request.wire D C (hs_view text sview)" "length secret = 16" "length nonce = 16"
    and "EncryptOAEP C secret = Inr es" "json_payload C req = Inr qb" "\<And>e. text e \<noteq> []"
  shows "\<exists>request. buildRequest D req (NewHeader now nonce (lk_SubDeviceId l) (lk_Key l)) secret = Inr request \<and>
     (\<forall>e noanswer. keyfor (lk_SubDeviceId l) (lk_Key l) = Inl e \<longrightarrow>
        handshake True (Inr request) C keyfor mk now' ref s = Some (s, None, Some (ErrorNew ''management server error: fetch private key'')) \<and>
        client_handshake D (Inr l) now nonce secret (\<lambda>m. Inl noanswer) req = Some (Inl noanswer)) \<and>
     (\<forall>s' err ss rb. keyfor (lk_SubDeviceId l) (lk_Key l) = Inr C \<longrightarrow>
        handshake_handler (mk (lk_SubDeviceId l) req) ref s = Some (s', err) \<longrightarrow> sess s' ref = Some ss \<longrightarrow>
        json_resp C (case err of None \<Rightarrow> HsSession ss | Some e \<Rightarrow> HsError e) = Inr rb \<longrightarrow>
        (\<exists>reply. handshake True (Inr request) C keyfor mk now' ref s = Some (s', Some reply, err) \<and>
           client_handshake D (Inr l) now nonce secret (\<lambda>m. if m = request then Inr reply else Inl EOF) req =
             Some (case err of None \<Rightarrow> Inr (sview ss) | Some e \<Rightarrow> Inl (ErrorNew (text e)))))"
proof -
  let ?h = "NewHeader now nonce (lk_SubDeviceId l) (lk_Key l)"
  have n: "length (Nonce ?h) = 16" using assms(4) by (simp add: NewHeader_def)
  obtain request h' payload where r: "buildRequest C req ?h secret = Inr request" "ParseRequest C request = Inr (h', payload)"
    "SubDeviceId h' = lk_SubDeviceId l" "Key h' = lk_Key l"
    using request_parsed [OF assms(1,3) n assms(5,6)] by (auto simp: NewHeader_def)
  have b: "buildRequest D req ?h secret = Inr request" using r(1) wire_request [OF assms(2), of req ?h secret] by simp
  have "handshake True (Inr request) C keyfor mk now' ref s = Some (s, None, Some (ErrorNew ''management server error: fetch private key'')) \<and>
      client_handshake D (Inr l) now nonce secret (\<lambda>m. Inl noanswer) req = Some (Inl noanswer)"
    if "keyfor (lk_SubDeviceId l) (lk_Key l) = Inl e" for e noanswer
    using r(2-4) b that by (simp add: handshake_def client_handshake_def Do_def)
  moreover note login_answered [OF assms(1-6) _ _ _ _ assms(7) b, of keyfor mk ref s]
  ultimately show ?thesis using b by blast
qed

text \<open>Codecs that know one response.\<close>

definition one_response :: "'r \<Rightarrow> ('r \<Rightarrow> 'v) \<Rightarrow> (string, 'r) codecs \<times> (string, 'v) codecs" where
  "one_response r view =
     (let mk = (\<lambda>enc dec. \<lparr> md5 = quote, b64 = quote, unb64 = unquote, raw64 = quote, unraw64 = unquote,
        EncryptCBC = (\<lambda>x k n. Inr x), DecryptCBC = (\<lambda>x k n. Inr x), EncryptOAEP = Inr, DecryptOAEP = Inr,
        json_header = header_text, unjson_header = text_header, json_payload = Inr, unjson_payload = Some, json_resp = enc, unjson_resp = dec \<rparr>)
      in (mk (\<lambda>x. if x = r then Inr [] else Inl EOF) (\<lambda>_. Inr r),
          \<lparr> md5 = quote, b64 = quote, unb64 = unquote, raw64 = quote, unraw64 = unquote,
        EncryptCBC = (\<lambda>x k n. Inr x), DecryptCBC = (\<lambda>x k n. Inr x), EncryptOAEP = Inr, DecryptOAEP = Inr,
        json_header = header_text, unjson_header = text_header, json_payload = Inr, unjson_payload = Some, json_resp = (\<lambda>_. Inl EOF),
        unjson_resp = (\<lambda>_. Inr (view r)) \<rparr>))"

lemma one_response_laws: "codecs_law (fst (one_response r view))" "Session_Request.wire (snd (one_response r view)) (fst (one_response r view)) view"
  by (auto simp: one_response_def codecs_law_def Session_Request.wire_def split: if_splits)

text \<open>A login that succeeds, and the same request when the key of the sub device is not found.\<close>

theorem login_end_to_end_witness:
  "\<exists>(ss :: srv_session) s' (C :: (string, hs_response) codecs) D request reply.
     handshake True (Inr request) C (\<lambda>_ _. Inr C) (\<lambda>_ _. demo_login []) 6 0 (demo_server\<lparr>sess := [0 \<mapsto> newServerSession 0 ''a'']\<rparr>) = Some (s', Some reply, None) \<and>
     client_handshake D (Inr \<lparr> lk_SubDeviceId = 3, lk_Key = ''key'' \<rparr>) 5 ''0123456789abcdef'' ''fedcba9876543210''
       (\<lambda>m. if m = request then Inr reply else Inl EOF) ''hello'' = Some (Inr (ss_IP ss)) \<and> ss_IP ss = ''10.0.0.5'' \<and>
     handshake True (Inr request) C (\<lambda>_ _. Inl EOF) (\<lambda>_ _. demo_login []) 6 0 demo_server =
       Some (demo_server, None, Some (ErrorNew ''management server error: fetch private key''))"
proof -
  let ?s = "demo_server\<lparr>sess := [0 \<mapsto> newServerSession 0 ''a'']\<rparr>" and ?l = "\<lparr> lk_SubDeviceId = 3, lk_Key = ''key'' \<rparr>"
  let ?mk = "\<lambda>_ _. demo_login []" and ?n = "''0123456789abcdef''" and ?k = "''fedcba9876543210''"
  have "map_option (\<lambda>(s', e). (e, map_option ss_IP (sess s' 0))) (handshake_handler (demo_login []) 0 ?s) = Some (None, Some ''10.0.0.5'')" by code_simp
  then obtain s' ss where h: "handshake_handler (demo_login []) 0 ?s = Some (s', None)" "sess s' 0 = Some ss" "ss_IP ss = ''10.0.0.5''" by auto
  let ?C = "fst (one_response (HsSession ss) (hs_view (\<lambda>_. ''e'') ss_IP))" and ?D = "snd (one_response (HsSession ss) (hs_view (\<lambda>_. ''e'') ss_IP))"
  have c: "EncryptOAEP ?C x = Inr x" "json_payload ?C x = Inr x" "json_resp ?C (HsSession ss) = Inr []" for x by (simp_all add: one_response_def)
  have len: "length ?k = 16" "length ?n = 16" "\<And>e. (\<lambda>_. ''e'') e \<noteq> []" by simp_all
  note login = login_end_to_end [where now = 5 and l = ?l and mk = ?mk and now' = 6 and ref = 0,
      OF one_response_laws [of "HsSession ss" "hs_view (\<lambda>_. ''e'') ss_IP"] len(1,2) c(1) c(2) [of "''hello''"] len(3)]
  obtain request where r: "buildRequest ?D ''hello'' (NewHeader 5 ?n (lk_SubDeviceId ?l) (lk_Key ?l)) ?k = Inr request"
    "\<exists>reply. handshake True (Inr request) ?C (\<lambda>_ _. Inr ?C) ?mk 6 0 ?s = Some (s', Some reply, None) \<and>
       client_handshake ?D (Inr ?l) 5 ?n ?k (\<lambda>m. if m = request then Inr reply else Inl EOF) ''hello'' = Some (Inr (ss_IP ss))"
    using login [where keyfor = "\<lambda>_ _. Inr ?C" and s = ?s] h(1,2) c(3) by fastforce
  moreover have "handshake True (Inr request) ?C (\<lambda>_ _. Inl EOF) ?mk 6 0 demo_server =
       Some (demo_server, None, Some (ErrorNew ''management server error: fetch private key''))"
    using login [where keyfor = "\<lambda>_ _. Inl EOF" and s = demo_server] r(1) by auto
  ultimately show ?thesis using h(3) by blast
qed

end
